(* ===== verification/NB_Prelude.thy ===== *)
theory NB_Prelude
  imports Main "HOL-Library.Word"
begin

text \<open>
  Shared vocabulary of the development: the machine integers of the C sources, byte
  memory with reads and writes at an offset, the two byte orders, C strings, and the
  collections of rewrite rules the component theories contribute to.
\<close>

unbundle bit_operations_syntax

type_synonym u8 = "8 word"
type_synonym u16 = "16 word"
type_synonym u32 = "32 word"
type_synonym bytes = "u8 list"

text \<open>Error numbers of the kernel.\<close>

definition EINVAL :: int where "EINVAL = 22"
definition ENOTTY :: int where "ENOTTY = 25"

named_theorems kconf_eval \<open>evaluation of configuration expressions\<close>
named_theorems kconf_size \<open>size bounds on configuration expressions\<close>
named_theorems mem_simps \<open>reading byte memory after a write\<close>

section \<open>Results and enumerations\<close>

text \<open>A computation that stops at the first error, the left value.\<close>

definition rbind :: "'e + 'a \<Rightarrow> ('a \<Rightarrow> 'e + 'b) \<Rightarrow> 'e + 'b" where
  "rbind r f = (case r of Inl e \<Rightarrow> Inl e | Inr x \<Rightarrow> f x)"

lemma rbind_simps [simp]: "rbind (Inl e) f = Inl e" "rbind (Inr x) f = f x"
  by (simp_all add: rbind_def)

lemma rbind_Inr: "rbind r f = Inr y \<longleftrightarrow> (\<exists>x. r = Inr x \<and> f x = Inr y)"
  by (cases r) auto

lemma rbind_Inl: "rbind r f = Inl e \<longleftrightarrow> r = Inl e \<or> (\<exists>x. r = Inr x \<and> f x = Inl e)"
  by (cases r) auto

lemma rbind_cong [fundef_cong]: "r = r' \<Longrightarrow> (\<And>x. r' = Inr x \<Longrightarrow> f x = f' x) \<Longrightarrow> rbind r f = rbind r' f'"
  by (cases r) auto

text \<open>The value of an enumeration with a number, given its values in order, and the number of a value.\<close>

definition enum_value :: "'a list \<Rightarrow> u32 \<Rightarrow> 'a option" where
  "enum_value xs n = (if unat n < length xs then Some (xs ! unat n) else None)"

definition enum_number :: "'a list \<Rightarrow> 'a \<Rightarrow> u32" where
  "enum_number xs x = of_nat (length (takeWhile (\<lambda>y. y \<noteq> x) xs))"

lemma enum_value_number [simp]:
  assumes "x \<in> set xs" "length xs < 2 ^ 32"
  shows "enum_value xs (enum_number xs x) = Some x"
proof -
  have "length (takeWhile (\<lambda>y. y \<noteq> x) xs) < length xs"
    using assms(1) by (induction xs) auto
  moreover from this have "xs ! length (takeWhile (\<lambda>y. y \<noteq> x) xs) = x"
    using nth_length_takeWhile by blast
  ultimately show ?thesis
    using assms(2) by (simp add: enum_value_def enum_number_def unat_of_nat)
qed

lemma enum_number_inject:
  "x \<in> set xs \<Longrightarrow> y \<in> set xs \<Longrightarrow> length xs < 2 ^ 32 \<Longrightarrow> enum_number xs x = enum_number xs y \<longleftrightarrow> x = y"
  by (metis enum_value_number option.inject)

section \<open>Byte memory\<close>

definition mem_read :: "bytes \<Rightarrow> nat \<Rightarrow> nat \<Rightarrow> bytes" where
  "mem_read m off n = take n (drop off m)"

definition mem_write :: "bytes \<Rightarrow> nat \<Rightarrow> bytes \<Rightarrow> bytes" where
  "mem_write m off bs = take off m @ bs @ drop (off + length bs) m"

lemma length_mem_write [simp]:
  "off + length bs \<le> length m \<Longrightarrow> length (mem_write m off bs) = length m"
  by (simp add: mem_write_def)

lemma length_mem_read [simp]:
  "off + n \<le> length m \<Longrightarrow> length (mem_read m off n) = n"
  by (simp add: mem_read_def)

lemma mem_read_write_same [mem_simps]:
  "off + length bs \<le> length m \<Longrightarrow> n = length bs \<Longrightarrow> mem_read (mem_write m off bs) off n = bs"
  by (simp add: mem_read_def mem_write_def)

lemma mem_read_write_before [mem_simps]:
  "i + n \<le> off \<Longrightarrow> off \<le> length m \<Longrightarrow> mem_read (mem_write m off bs) i n = mem_read m i n"
  by (simp add: mem_read_def mem_write_def drop_take)

lemma mem_read_write_after [mem_simps]:
  "off + length bs \<le> i \<Longrightarrow> off + length bs \<le> length m \<Longrightarrow>
   mem_read (mem_write m off bs) i n = mem_read m i n"
  by (simp add: mem_read_def mem_write_def min_def)

lemma mem_write_append:
  "off = length pre \<Longrightarrow> length bs \<le> length post \<Longrightarrow>
   mem_write (pre @ post) off bs = pre @ bs @ drop (length bs) post"
  by (simp add: mem_write_def)

section \<open>Byte order\<close>

definition le32 :: "u32 \<Rightarrow> bytes" where
  "le32 w = [ucast w, ucast (drop_bit 8 w), ucast (drop_bit 16 w), ucast (drop_bit 24 w)]"

definition be32 :: "u32 \<Rightarrow> bytes" where
  "be32 w = rev (le32 w)"

definition le16 :: "u16 \<Rightarrow> bytes" where
  "le16 w = [ucast w, ucast (drop_bit 8 w)]"

definition be16 :: "u16 \<Rightarrow> bytes" where
  "be16 w = rev (le16 w)"

fun of_le32 :: "bytes \<Rightarrow> u32" where
  "of_le32 [a, b, c, d] = ucast a OR push_bit 8 (ucast b) OR push_bit 16 (ucast c) OR push_bit 24 (ucast d)"
| "of_le32 _ = 0"

fun of_le16 :: "bytes \<Rightarrow> u16" where
  "of_le16 [a, b] = ucast a OR push_bit 8 (ucast b)"
| "of_le16 _ = 0"

definition of_be32 :: "bytes \<Rightarrow> u32" where
  "of_be32 bs = of_le32 (rev bs)"

definition of_be16 :: "bytes \<Rightarrow> u16" where
  "of_be16 bs = of_le16 (rev bs)"

lemma length_le32 [simp]: "length (le32 w) = 4"
  by (simp add: le32_def)

lemma length_be32 [simp]: "length (be32 w) = 4"
  by (simp add: be32_def)

lemma length_le16 [simp]: "length (le16 w) = 2"
  by (simp add: le16_def)

lemma length_be16 [simp]: "length (be16 w) = 2"
  by (simp add: be16_def)

lemma of_le32_le32 [simp]: "of_le32 (le32 w) = w"
proof (rule bit_word_eqI)
  fix n assume "n < LENGTH(32)"
  then consider "n < 8" | "8 \<le> n" "n < 16" | "16 \<le> n" "n < 24" | "24 \<le> n" "n < 32" by force
  then show "bit (of_le32 (le32 w)) n = bit w n"
    by cases (auto simp: le32_def bit_simps)
qed

lemma of_le16_le16 [simp]: "of_le16 (le16 w) = w"
proof (rule bit_word_eqI)
  fix n assume "n < LENGTH(16)"
  then consider "n < 8" | "8 \<le> n" "n < 16" by force
  then show "bit (of_le16 (le16 w)) n = bit w n"
    by cases (auto simp: le16_def bit_simps)
qed

lemma of_be32_be32 [simp]: "of_be32 (be32 w) = w"
  by (simp add: of_be32_def be32_def)

lemma of_be16_be16 [simp]: "of_be16 (be16 w) = w"
  by (simp add: of_be16_def be16_def)

section \<open>C strings\<close>

text \<open>The characters up to the first \<open>NUL\<close>, and the bytes of a string literal.\<close>

definition cstr :: "bytes \<Rightarrow> bytes" where
  "cstr bs = takeWhile (\<lambda>b. b \<noteq> 0) bs"

definition lit :: "string \<Rightarrow> bytes" where
  "lit s = map (\<lambda>c. word_of_nat (of_char c)) s"

lemma while_split:
  assumes "\<forall>x\<in>set s. P x" "\<not> P y"
  shows "takeWhile P (s @ y # t) = s" "dropWhile P (s @ y # t) = y # t"
  using assms by (induction s) auto

lemma cstr_append [simp]: "0 \<notin> set s \<Longrightarrow> cstr (s @ 0 # t) = s"
  by (subst cstr_def, subst takeWhile_append2) auto

lemma find_append: "find P (xs @ ys) = (case find P xs of None \<Rightarrow> find P ys | Some x \<Rightarrow> Some x)"
  by (induction xs) auto

end
