(* ===== verification/Kconfig_Expr.thy ===== *)
theory Kconfig_Expr
  imports NB_Prelude
begin

text \<open>
  The expression language of the configuration tool (\<open>openwrt/scripts/config/expr.c\<close> and
  \<open>expr.h\<close>): tristates, symbols, expression trees, evaluation, removal of constants and the
  comparison of two expressions up to the order of their operands.

  An expression tree is the datatype \<open>expr\<close> with the constructors of \<open>enum expr_type\<close>.
  \<open>E_CHOICE\<close> and \<open>E_RANGE\<close> occur only as the roots of choice and range properties, which no
  operation below rewrites, and are left out; a \<open>NULL\<close> expression is \<open>None\<close>, and occurs only
  at the root. A symbol is one of the three static objects or an index into the symbol
  table, and pointer equality of symbols is equality of \<open>sym\<close>. Evaluation reads the values
  that \<open>sym_calc_value\<close> has stored in the table.
\<close>

section \<open>Tristates\<close>

datatype tristate = Tno | Tmod | Tyes

primrec tri_rank :: "tristate \<Rightarrow> nat" where
  "tri_rank Tno = 0"
| "tri_rank Tmod = 1"
| "tri_rank Tyes = 2"

instantiation tristate :: linorder
begin

definition less_eq_tristate :: "tristate \<Rightarrow> tristate \<Rightarrow> bool" where
  "less_eq_tristate a b \<longleftrightarrow> tri_rank a \<le> tri_rank b"

definition less_tristate :: "tristate \<Rightarrow> tristate \<Rightarrow> bool" where
  "less_tristate a b \<longleftrightarrow> tri_rank a < tri_rank b"

instance
proof
  fix x y z :: tristate
  show "x \<le> y \<Longrightarrow> y \<le> x \<Longrightarrow> x = y"
    by (cases x; cases y) (simp_all add: less_eq_tristate_def)
qed (auto simp: less_eq_tristate_def less_tristate_def)

end

definition tri_or :: "tristate \<Rightarrow> tristate \<Rightarrow> tristate" where
  "tri_or dep1 dep2 = (if dep2 < dep1 then dep1 else dep2)"

definition tri_and :: "tristate \<Rightarrow> tristate \<Rightarrow> tristate" where
  "tri_and dep1 dep2 = (if dep1 < dep2 then dep1 else dep2)"

fun tri_not :: "tristate \<Rightarrow> tristate" where
  "tri_not Tno = Tyes"
| "tri_not Tmod = Tmod"
| "tri_not Tyes = Tno"

lemma tri_not_rank: "tri_rank (tri_not d) = 2 - tri_rank d"
  by (cases d) simp_all

lemmas tri_order = less_eq_tristate_def less_tristate_def

lemma tri_or_max: "tri_or a b = max a b"
  by (cases a; cases b) (simp_all add: tri_or_def max_def tri_order)

lemma tri_and_min: "tri_and a b = min a b"
  by (cases a; cases b) (simp_all add: tri_and_def min_def tri_order)

lemma tri_and_simps [simp]:
  "tri_and Tno b = Tno" "tri_and b Tno = Tno"
  "tri_and Tyes b = b" "tri_and b Tyes = b" "tri_and b b = b"
  "tri_and Tmod Tmod = Tmod"
  by (cases b; simp add: tri_and_def tri_order)+

lemma tri_or_simps [simp]:
  "tri_or Tno b = b" "tri_or b Tno = b"
  "tri_or Tyes b = Tyes" "tri_or b Tyes = Tyes" "tri_or b b = b"
  "tri_or Tmod Tmod = Tmod"
  by (cases b; simp add: tri_or_def tri_order)+

lemma tri_not_not [simp]: "tri_not (tri_not a) = a"
  by (cases a) simp_all

lemma tri_not_or: "tri_not (tri_or a b) = tri_and (tri_not a) (tri_not b)"
  by (cases a; cases b) simp_all

lemma tri_not_and: "tri_not (tri_and a b) = tri_or (tri_not a) (tri_not b)"
  by (cases a; cases b) simp_all

section \<open>Symbols\<close>

datatype symbol_type = S_UNKNOWN | S_BOOLEAN | S_TRISTATE | S_INT | S_HEX | S_STRING | S_OTHER

record symbol =
  s_name :: string
  s_type :: symbol_type
  s_flags :: u32
  s_val :: string
  s_tri :: tristate

definition SYMBOL_YES :: u32 where "SYMBOL_YES = 0x0001"
definition SYMBOL_MOD :: u32 where "SYMBOL_MOD = 0x0002"
definition SYMBOL_NO :: u32 where "SYMBOL_NO = 0x0004"
definition SYMBOL_CONST :: u32 where "SYMBOL_CONST = 0x0007"
definition SYMBOL_VALID :: u32 where "SYMBOL_VALID = 0x0080"

lemmas symbol_flag_defs =
  SYMBOL_YES_def SYMBOL_MOD_def SYMBOL_NO_def SYMBOL_CONST_def SYMBOL_VALID_def

text \<open>
  A \<open>struct symbol *\<close>: the three static objects the code compares against by
  address, or the address of any other symbol.
\<close>

datatype sym = symbol_yes | symbol_mod | symbol_no | Sym nat

type_synonym symtab = "nat \<Rightarrow> symbol"

fun sym_obj :: "symtab \<Rightarrow> sym \<Rightarrow> symbol" where
  "sym_obj st symbol_yes = \<lparr>s_name = ''y'', s_type = S_UNKNOWN,
     s_flags = SYMBOL_YES OR SYMBOL_VALID, s_val = ''y'', s_tri = Tyes\<rparr>"
| "sym_obj st symbol_mod = \<lparr>s_name = ''m'', s_type = S_UNKNOWN,
     s_flags = SYMBOL_MOD OR SYMBOL_VALID, s_val = ''m'', s_tri = Tmod\<rparr>"
| "sym_obj st symbol_no = \<lparr>s_name = ''n'', s_type = S_UNKNOWN,
     s_flags = SYMBOL_NO OR SYMBOL_VALID, s_val = ''n'', s_tri = Tno\<rparr>"
| "sym_obj st (Sym a) = st a"

definition sym_flag :: "symtab \<Rightarrow> sym \<Rightarrow> u32 \<Rightarrow> bool" where
  "sym_flag st s m \<longleftrightarrow> s_flags (sym_obj st s) AND m \<noteq> 0"

definition sym_get_tristate_value :: "symtab \<Rightarrow> sym \<Rightarrow> tristate" where
  "sym_get_tristate_value st s = s_tri (sym_obj st s)"

fun tri_string :: "tristate \<Rightarrow> string" where
  "tri_string Tno = ''n''"
| "tri_string Tmod = ''m''"
| "tri_string Tyes = ''y''"

definition sym_get_string_value :: "symtab \<Rightarrow> sym \<Rightarrow> string" where
  "sym_get_string_value st s =
     (case s_type (sym_obj st s) of
        S_BOOLEAN \<Rightarrow> tri_string (sym_get_tristate_value st s)
      | S_TRISTATE \<Rightarrow> tri_string (sym_get_tristate_value st s)
      | _ \<Rightarrow> s_val (sym_obj st s))"

section \<open>Expressions\<close>

datatype expr =
    E_SYMBOL sym
  | E_NOT expr
  | E_AND expr expr
  | E_OR expr expr
  | E_EQUAL sym sym
  | E_UNEQUAL sym sym

datatype expr_type = T_NONE | T_OR | T_AND | T_NOT | T_EQUAL | T_UNEQUAL | T_SYMBOL

fun type_of :: "expr \<Rightarrow> expr_type" where
  "type_of (E_SYMBOL s) = T_SYMBOL"
| "type_of (E_NOT e) = T_NOT"
| "type_of (E_AND a b) = T_AND"
| "type_of (E_OR a b) = T_OR"
| "type_of (E_EQUAL a b) = T_EQUAL"
| "type_of (E_UNEQUAL a b) = T_UNEQUAL"

text \<open>\<open>e->left.expr\<close> and \<open>e->right.expr\<close>; \<open>None\<close> where the field is
  a symbol or \<open>NULL\<close>.\<close>

fun expr_left :: "expr \<Rightarrow> expr option" where
  "expr_left (E_NOT e) = Some e"
| "expr_left (E_AND a b) = Some a"
| "expr_left (E_OR a b) = Some a"
| "expr_left e = None"

fun expr_right :: "expr \<Rightarrow> expr option" where
  "expr_right (E_AND a b) = Some b"
| "expr_right (E_OR a b) = Some b"
| "expr_right e = None"

text \<open>\<open>expr_alloc_two (type, e1, e2)\<close> for the two binary connectives.\<close>

fun expr_alloc_two :: "expr_type \<Rightarrow> expr \<Rightarrow> expr \<Rightarrow> expr" where
  "expr_alloc_two T_AND a b = E_AND a b"
| "expr_alloc_two _ a b = E_OR a b"

fun expr_alloc_and :: "expr option \<Rightarrow> expr option \<Rightarrow> expr option" where
  "expr_alloc_and None e2 = e2"
| "expr_alloc_and (Some e1) None = Some e1"
| "expr_alloc_and (Some e1) (Some e2) = Some (expr_alloc_two T_AND e1 e2)"

fun expr_alloc_or :: "expr option \<Rightarrow> expr option \<Rightarrow> expr option" where
  "expr_alloc_or None e2 = e2"
| "expr_alloc_or (Some e1) None = Some e1"
| "expr_alloc_or (Some e1) (Some e2) = Some (expr_alloc_two T_OR e1 e2)"

fun expr_copy :: "expr \<Rightarrow> expr" where
  "expr_copy (E_SYMBOL s) = E_SYMBOL s"
| "expr_copy (E_NOT e) = E_NOT (expr_copy e)"
| "expr_copy (E_EQUAL a b) = E_EQUAL a b"
| "expr_copy (E_UNEQUAL a b) = E_UNEQUAL a b"
| "expr_copy (E_AND a b) = E_AND (expr_copy a) (expr_copy b)"
| "expr_copy (E_OR a b) = E_OR (expr_copy a) (expr_copy b)"

lemma expr_copy_id [simp]: "expr_copy e = e"
  by (induction e) simp_all

section \<open>Evaluation\<close>

fun expr_val :: "symtab \<Rightarrow> expr \<Rightarrow> tristate" where
  "expr_val st (E_SYMBOL s) = s_tri (sym_obj st s)"
| "expr_val st (E_AND a b) = tri_and (expr_val st a) (expr_val st b)"
| "expr_val st (E_OR a b) = tri_or (expr_val st a) (expr_val st b)"
| "expr_val st (E_NOT e) = tri_not (expr_val st e)"
| "expr_val st (E_EQUAL a b) =
     (if sym_get_string_value st a = sym_get_string_value st b then Tyes else Tno)"
| "expr_val st (E_UNEQUAL a b) =
     (if sym_get_string_value st a = sym_get_string_value st b then Tno else Tyes)"

definition expr_calc_value :: "symtab \<Rightarrow> expr option \<Rightarrow> tristate" where
  "expr_calc_value st e = (case e of None \<Rightarrow> Tyes | Some e \<Rightarrow> expr_val st e)"

definition expr_is_yes :: "expr option \<Rightarrow> bool" where
  "expr_is_yes e \<longleftrightarrow> e = None \<or> e = Some (E_SYMBOL symbol_yes)"

definition expr_is_no :: "expr option \<Rightarrow> bool" where
  "expr_is_no e \<longleftrightarrow> e = Some (E_SYMBOL symbol_no)"

section \<open>Removing constants\<close>

fun expr_eliminate_yn :: "expr \<Rightarrow> expr" where
  "expr_eliminate_yn (E_AND a b) =
     (let l = expr_eliminate_yn a; r = expr_eliminate_yn b in
      if l = E_SYMBOL symbol_no then E_SYMBOL symbol_no
      else if l = E_SYMBOL symbol_yes then r
      else if r = E_SYMBOL symbol_no then E_SYMBOL symbol_no
      else if r = E_SYMBOL symbol_yes then l
      else E_AND l r)"
| "expr_eliminate_yn (E_OR a b) =
     (let l = expr_eliminate_yn a; r = expr_eliminate_yn b in
      if l = E_SYMBOL symbol_no then r
      else if l = E_SYMBOL symbol_yes then E_SYMBOL symbol_yes
      else if r = E_SYMBOL symbol_no then l
      else if r = E_SYMBOL symbol_yes then E_SYMBOL symbol_yes
      else E_OR l r)"
| "expr_eliminate_yn e = e"

lemma expr_eliminate_yn_val [simp, kconf_eval]:
  "expr_val st (expr_eliminate_yn e) = expr_val st e"
  by (induction e rule: expr_eliminate_yn.induct)
     (auto simp: Let_def split: if_splits)

lemma expr_eliminate_yn_size [kconf_size]: "size (expr_eliminate_yn e) \<le> size e"
  by (induction e rule: expr_eliminate_yn.induct) (auto simp: Let_def)

section \<open>Structural equality up to commutation\<close>

text \<open>
  \<open>__expr_eliminate_eq\<close> walks two disjoint trees through their slots and replaces
  equal operands on both sides; the trees and \<open>trans_count\<close> are passed and returned.
\<close>

type_synonym eq_state = "expr \<times> expr \<times> nat"

definition eq_const :: "expr_type \<Rightarrow> expr" where
  "eq_const t = (if t = T_OR then E_SYMBOL symbol_no else E_SYMBOL symbol_yes)"

definition binary_type :: "expr_type \<Rightarrow> bool" where
  "binary_type t \<longleftrightarrow> t = T_OR \<or> t = T_AND"

fun const_pair :: "symtab \<Rightarrow> expr \<Rightarrow> expr \<Rightarrow> bool" where
  "const_pair st (E_SYMBOL a) (E_SYMBOL b) = (a = b \<and> sym_flag st a (SYMBOL_YES OR SYMBOL_NO))"
| "const_pair st e1 e2 = False"

fun same_symbol :: "expr \<Rightarrow> expr \<Rightarrow> bool" where
  "same_symbol (E_SYMBOL a) (E_SYMBOL b) = (a = b)"
| "same_symbol e1 e2 = False"

function (sequential)
  expr_eq :: "symtab \<Rightarrow> expr \<Rightarrow> expr \<Rightarrow> bool" and
  expr_eliminate_eq_pair :: "symtab \<Rightarrow> expr \<Rightarrow> expr \<Rightarrow> nat \<Rightarrow> eq_state" and
  expr_eliminate_eq_rec :: "symtab \<Rightarrow> expr_type \<Rightarrow> expr \<Rightarrow> expr \<Rightarrow> nat \<Rightarrow> eq_state"
where
  "expr_eq st e1 e2 =
     (if type_of e1 \<noteq> type_of e2 then False
      else if binary_type (type_of e1) then
        (case expr_eliminate_eq_pair st (expr_copy e1) (expr_copy e2) 0 of
           (f1, f2, _) \<Rightarrow> same_symbol f1 f2)
      else
        (case e1 of
           E_NOT a \<Rightarrow> (case e2 of E_NOT c \<Rightarrow> expr_eq st a c | _ \<Rightarrow> False)
         | _ \<Rightarrow> e1 = e2))"
| "expr_eliminate_eq_pair st e1 e2 n =
     (let (f1, f2, m) =
        (if binary_type (type_of e1)
         then expr_eliminate_eq_rec st (type_of e1) e1 e2 n else (e1, e2, n));
        (g1, g2, k) =
        (if type_of f1 \<noteq> type_of f2 \<and> binary_type (type_of f2)
         then expr_eliminate_eq_rec st (type_of f2) f1 f2 m else (f1, f2, m))
      in (expr_eliminate_yn g1, expr_eliminate_yn g2, k))"
| "expr_eliminate_eq_rec st t e1 e2 n =
     (if binary_type t \<and> type_of e1 = t then
        (case (expr_left e1, expr_right e1) of
           (Some a, Some b) \<Rightarrow>
             (let (a', f2, m) = expr_eliminate_eq_rec st t a e2 n;
                  (b', g2, k) = expr_eliminate_eq_rec st t b f2 m
              in (expr_alloc_two t a' b', g2, k))
         | _ \<Rightarrow> (e1, e2, n))
      else if binary_type t \<and> type_of e2 = t then
        (case (expr_left e2, expr_right e2) of
           (Some a, Some b) \<Rightarrow>
             (let (f1, a', m) = expr_eliminate_eq_rec st t e1 a n;
                  (g1, b', k) = expr_eliminate_eq_rec st t f1 b m
              in (g1, expr_alloc_two t a' b', k))
         | _ \<Rightarrow> (e1, e2, n))
      else if const_pair st e1 e2 then (e1, e2, n)
      else if \<not> expr_eq st e1 e2 then (e1, e2, n)
      else (eq_const t, eq_const t, Suc n))"
  by pat_completeness auto

lemma size_eq_const [simp]: "size (eq_const t) = 0"
  by (simp add: eq_const_def)

lemma size_children:
  "expr_left e = Some a \<Longrightarrow> expr_right e = Some b \<Longrightarrow> size e = Suc (size a + size b)"
  by (cases e) auto

lemma size_alloc_two [simp]: "size (expr_alloc_two t a b) = Suc (size a + size b)"
  by (cases t) simp_all

lemma expr_eliminate_eq_rec_psize:
  "expr_eq_expr_eliminate_eq_pair_expr_eliminate_eq_rec_dom (Inl (st, e1, e2)) \<Longrightarrow> True"
  "expr_eq_expr_eliminate_eq_pair_expr_eliminate_eq_rec_dom (Inr (Inl (st, e1, e2, n))) \<Longrightarrow> True"
  "expr_eq_expr_eliminate_eq_pair_expr_eliminate_eq_rec_dom (Inr (Inr (st, t, e1, e2, n))) \<Longrightarrow>
     (case expr_eliminate_eq_rec st t e1 e2 n of (f1, f2, _) \<Rightarrow> size f1 \<le> size e1 \<and> size f2 \<le> size e2)"
proof (induction rule: expr_eq_expr_eliminate_eq_pair_expr_eliminate_eq_rec.pinduct)
  case (3 st t e1 e2 n)
  note dom = "3.hyps"
  show ?case
  proof (cases "binary_type t \<and> type_of e1 = t")
    case True
    then obtain a b where ab: "expr_left e1 = Some a" "expr_right e1 = Some b"
      by (cases e1) (auto simp: binary_type_def)
    obtain a' f2 m where A: "expr_eliminate_eq_rec st t a e2 n = (a', f2, m)" by (metis prod_cases3)
    obtain b' g2 k where B: "expr_eliminate_eq_rec st t b f2 m = (b', g2, k)" by (metis prod_cases3)
    have "size a' \<le> size a \<and> size f2 \<le> size e2"
      using "3.IH"(1)[OF True _ refl refl, of a b] ab A by simp
    moreover have "size b' \<le> size b \<and> size g2 \<le> size f2"
      using "3.IH"(2)[OF True _ refl refl, of a b] ab A B by simp
    ultimately show ?thesis
      using True by (simp add: expr_eliminate_eq_rec.psimps[OF dom] size_children[OF ab] ab A B)
  next
    case F1: False
    show ?thesis
    proof (cases "binary_type t \<and> type_of e2 = t")
      case True
      then obtain a b where ab: "expr_left e2 = Some a" "expr_right e2 = Some b"
        by (cases e2) (auto simp: binary_type_def)
      obtain f1 a' m where A: "expr_eliminate_eq_rec st t e1 a n = (f1, a', m)" by (metis prod_cases3)
      obtain g1 b' k where B: "expr_eliminate_eq_rec st t f1 b m = (g1, b', k)" by (metis prod_cases3)
      have "size f1 \<le> size e1 \<and> size a' \<le> size a"
        using "3.IH"(3)[OF F1 True _ refl refl, of a b] ab A by simp
      moreover have "size g1 \<le> size f1 \<and> size b' \<le> size b"
        using "3.IH"(4)[OF F1 True _ refl refl, of a b] ab A B by simp
      ultimately show ?thesis
        using F1 True by (simp add: expr_eliminate_eq_rec.psimps[OF dom] size_children[OF ab] ab A B)
    next
      case False
      with F1 show ?thesis by (auto simp: expr_eliminate_eq_rec.psimps[OF dom])
    qed
  qed
qed simp_all

fun eq_measure :: "(symtab \<times> expr \<times> expr) + (symtab \<times> expr \<times> expr \<times> nat) +
    (symtab \<times> expr_type \<times> expr \<times> expr \<times> nat) \<Rightarrow> nat" where
  "eq_measure (Inl (st, e1, e2)) = 4 * (size e1 + size e2) + 2"
| "eq_measure (Inr (Inl (st, e1, e2, n))) = 4 * (size e1 + size e2) + 1"
| "eq_measure (Inr (Inr (st, t, e1, e2, n))) = 4 * (size e1 + size e2) +
     (if binary_type t \<and> (type_of e1 = t \<or> type_of e2 = t) then 0 else 3)"

lemma size_children':
  "Some a = expr_left e \<Longrightarrow> Some b = expr_right e \<Longrightarrow> size e = Suc (size a + size b)"
  by (cases e) auto

lemma eq_rec_size_dest:
  "(f1, f2, k) = expr_eliminate_eq_rec st t e1 e2 n \<Longrightarrow>
   expr_eq_expr_eliminate_eq_pair_expr_eliminate_eq_rec_dom (Inr (Inr (st, t, e1, e2, n))) \<Longrightarrow>
   size f1 \<le> size e1 \<and> size f2 \<le> size e2"
  using expr_eliminate_eq_rec_psize(3)[of st t e1 e2 n] by (auto split: prod.splits)

lemma eq_pair_size_dest:
  assumes "x = (if b then expr_eliminate_eq_rec st t e1 e2 n else (e1, e2, n))"
    and "(f1, y) = x" "(f2, k) = y"
    and "b \<Longrightarrow> expr_eq_expr_eliminate_eq_pair_expr_eliminate_eq_rec_dom (Inr (Inr (st, t, e1, e2, n)))"
  shows "size f1 \<le> size e1 \<and> size f2 \<le> size e2"
  using assms eq_rec_size_dest[of f1 f2 k st t e1 e2 n] by (auto split: if_splits)

termination expr_eq
proof (relation "measure eq_measure", goal_cases)
  case (5 st e1 e2 n x xa y xb ya)
  from eq_pair_size_dest[OF 5(1,2,3,5)] 5(4) show ?case by simp
qed (auto simp: size_children' dest!: eq_rec_size_dest)

declare expr_eq.simps [simp del] expr_eliminate_eq_pair.simps [simp del]
  expr_eliminate_eq_rec.simps [simp del]

definition tri_op :: "expr_type \<Rightarrow> tristate \<Rightarrow> tristate \<Rightarrow> tristate" where
  "tri_op t = (if t = T_AND then tri_and else tri_or)"

lemma tri_op_ac:
  "tri_op t (tri_op t a b) c = tri_op t a (tri_op t b c)"
  "tri_op t a b = tri_op t b a"
  "tri_op t a (tri_op t b c) = tri_op t b (tri_op t a c)"
  by (auto simp: tri_op_def tri_or_max tri_and_min ac_simps)

lemma expr_val_alloc_two [simp, kconf_eval]:
  "binary_type t \<Longrightarrow> expr_val st (expr_alloc_two t a b) = tri_op t (expr_val st a) (expr_val st b)"
  by (auto simp: binary_type_def tri_op_def)

lemma expr_val_eq_const [simp, kconf_eval]:
  "binary_type t \<Longrightarrow> tri_op t (expr_val st (eq_const t)) d = d"
  by (auto simp: binary_type_def tri_op_def eq_const_def)

lemma expr_val_children:
  "binary_type t \<Longrightarrow> type_of e = t \<Longrightarrow> expr_left e = Some a \<Longrightarrow> expr_right e = Some b \<Longrightarrow>
   expr_val st e = tri_op t (expr_val st a) (expr_val st b)"
  by (cases e) (auto simp: binary_type_def tri_op_def)

lemma children_ex:
  "binary_type t \<Longrightarrow> type_of e = t \<Longrightarrow> \<exists>a b. expr_left e = Some a \<and> expr_right e = Some b"
  by (cases e) (auto simp: binary_type_def)

lemma same_symbol_val: "same_symbol f1 f2 \<Longrightarrow> expr_val st f1 = expr_val st f2"
  by (induction f1 f2 rule: same_symbol.induct) auto

lemma expr_eq_sound_aux:
  "expr_eq st e1 e2 \<Longrightarrow> expr_val sv e1 = expr_val sv e2"
  "expr_eliminate_eq_pair st e1 e2 n = (f1, f2, m) \<Longrightarrow> expr_val sv f1 = expr_val sv f2 \<Longrightarrow>
     expr_val sv e1 = expr_val sv e2"
  "expr_eliminate_eq_rec st t e1 e2 n = (f1, f2, m) \<Longrightarrow> binary_type t \<Longrightarrow>
     \<exists>d. expr_val sv e1 = tri_op t (expr_val sv f1) d \<and> expr_val sv e2 = tri_op t (expr_val sv f2) d"
proof (induction st e1 e2 and st e1 e2 n and st t e1 e2 n arbitrary: and f1 f2 m and f1 f2 m
    rule: expr_eq_expr_eliminate_eq_pair_expr_eliminate_eq_rec.induct)
  case (1 st e1 e2)
  show ?case
  proof (cases "binary_type (type_of e1)")
    case True
    obtain f1 f2 m where P: "expr_eliminate_eq_pair st e1 e2 0 = (f1, f2, m)" by (metis prod_cases3)
    with "1.prems" True have "type_of e1 = type_of e2" "same_symbol f1 f2"
      by (auto simp: expr_eq.simps[of st e1 e2] split: if_splits)
    with "1.IH"(1)[OF _ True] P same_symbol_val show ?thesis by simp
  next
    case False
    with "1.prems" "1.IH"(2) show ?thesis
      by (auto simp: expr_eq.simps[of st e1 e2] split: if_splits expr.splits)
  qed
next
  case (2 st e1 e2 n)
  obtain g1 g2 k where G: "(if binary_type (type_of e1)
      then expr_eliminate_eq_rec st (type_of e1) e1 e2 n else (e1, e2, n)) = (g1, g2, k)"
    by (metis prod_cases3)
  obtain h1 h2 l where H: "(if type_of g1 \<noteq> type_of g2 \<and> binary_type (type_of g2)
      then expr_eliminate_eq_rec st (type_of g2) g1 g2 k else (g1, g2, k)) = (h1, h2, l)"
    by (metis prod_cases3)
  have h: "expr_val sv h1 = expr_val sv h2"
    using "2.prems" G H by (auto simp: expr_eliminate_eq_pair.simps[of st e1 e2 n])
  have "expr_val sv g1 = expr_val sv g2"
    using "2.IH"(2)[OF G[symmetric] refl refl] H h by (auto split: if_splits)
  then show ?case
    using "2.IH"(1) G by (auto split: if_splits)
next
  case (3 st t e1 e2 n)
  show ?case
  proof (cases "binary_type t \<and> type_of e1 = t")
    case True
    then obtain a b where ab: "expr_left e1 = Some a" "expr_right e1 = Some b"
      using children_ex by blast
    obtain a' g2 j where A: "expr_eliminate_eq_rec st t a e2 n = (a', g2, j)" by (metis prod_cases3)
    obtain b' h2 k where B: "expr_eliminate_eq_rec st t b g2 j = (b', h2, k)" by (metis prod_cases3)
    obtain d1 where "expr_val sv a = tri_op t (expr_val sv a') d1"
        "expr_val sv e2 = tri_op t (expr_val sv g2) d1"
      using "3.IH"(1)[OF True _ refl refl, of a b] ab A True by force
    moreover obtain d2 where "expr_val sv b = tri_op t (expr_val sv b') d2"
        "expr_val sv g2 = tri_op t (expr_val sv h2) d2"
      using "3.IH"(2)[OF True _ refl refl _ refl refl, of a b] ab A B True by fastforce
    moreover have "f1 = expr_alloc_two t a' b'" "f2 = h2"
      using "3.prems"(1) True ab A B by (auto simp: expr_eliminate_eq_rec.simps[of st t e1 e2 n])
    ultimately show ?thesis
      using True expr_val_children[of t e1 a b sv] ab
      by (intro exI[of _ "tri_op t d1 d2"]) (simp add: tri_op_ac)
  next
    case F1: False
    show ?thesis
    proof (cases "binary_type t \<and> type_of e2 = t")
      case True
      then obtain a b where ab: "expr_left e2 = Some a" "expr_right e2 = Some b"
        using children_ex by blast
      obtain g1 a' j where A: "expr_eliminate_eq_rec st t e1 a n = (g1, a', j)" by (metis prod_cases3)
      obtain h1 b' k where B: "expr_eliminate_eq_rec st t g1 b j = (h1, b', k)" by (metis prod_cases3)
      obtain d1 where "expr_val sv e1 = tri_op t (expr_val sv g1) d1"
          "expr_val sv a = tri_op t (expr_val sv a') d1"
        using "3.IH"(3)[OF F1 True _ refl refl, of a b] ab A True by force
      moreover obtain d2 where "expr_val sv g1 = tri_op t (expr_val sv h1) d2"
          "expr_val sv b = tri_op t (expr_val sv b') d2"
        using "3.IH"(4)[OF F1 True _ refl refl _ refl refl, of a b] ab A B True by fastforce
      moreover have "f1 = h1" "f2 = expr_alloc_two t a' b'"
        using "3.prems"(1) F1 True ab A B
        by (auto simp: expr_eliminate_eq_rec.simps[of st t e1 e2 n])
      ultimately show ?thesis
        using True expr_val_children[of t e2 a b sv] ab
        by (intro exI[of _ "tri_op t d1 d2"]) (simp add: tri_op_ac)
    next
      case F2: False
      show ?thesis
      proof (cases "const_pair st e1 e2 \<or> \<not> expr_eq st e1 e2")
        case True
        then have "f1 = e1" "f2 = e2"
          using "3.prems"(1) F1 F2
          by (auto simp: expr_eliminate_eq_rec.simps[of st t e1 e2 n] split: if_splits)
        then show ?thesis
          using "3.prems"(2) expr_val_eq_const[of t sv] by (metis tri_op_ac(2))
      next
        case False
        then have "f1 = eq_const t" "f2 = eq_const t"
          using "3.prems"(1) F1 F2
          by (auto simp: expr_eliminate_eq_rec.simps[of st t e1 e2 n] split: if_splits)
        moreover have "expr_val sv e1 = expr_val sv e2"
          using "3.IH"(5) F1 F2 False by blast
        ultimately show ?thesis using "3.prems"(2) by simp
      qed
    qed
  qed
qed

lemma expr_eq_sound: "expr_eq st e1 e2 \<Longrightarrow> expr_val sv e1 = expr_val sv e2"
  by (rule expr_eq_sound_aux(1))

text \<open>The exported \<open>expr_eliminate_eq\<close>, which tests its two slots for \<open>NULL\<close>.\<close>

fun expr_eliminate_eq ::
  "symtab \<Rightarrow> expr option \<Rightarrow> expr option \<Rightarrow> nat \<Rightarrow> expr option \<times> expr option \<times> nat" where
  "expr_eliminate_eq st (Some e1) (Some e2) n =
     (case expr_eliminate_eq_pair st e1 e2 n of (f1, f2, m) \<Rightarrow> (Some f1, Some f2, m))"
| "expr_eliminate_eq st e1 e2 n = (e1, e2, n)"

end
