(* ===== verification/Kconfig_Transform.thy ===== *)
theory Kconfig_Transform
  imports Kconfig_Expr
begin

text \<open>
  The rewriting of an expression to negation normal form (\<open>expr_transform\<close>), the
  rewritings for boolean contexts and for comparisons, and the two tests whether an
  expression mentions or depends on a symbol, all of \<open>openwrt/scripts/config/expr.c\<close>.
\<close>

section \<open>Rewriting to negation normal form\<close>

function (sequential) expr_transform :: "symtab \<Rightarrow> expr \<Rightarrow> expr" where
  "expr_transform st (E_SYMBOL s) = E_SYMBOL s"
| "expr_transform st (E_AND a b) = E_AND (expr_transform st a) (expr_transform st b)"
| "expr_transform st (E_OR a b) = E_OR (expr_transform st a) (expr_transform st b)"
| "expr_transform st (E_EQUAL a b) =
     (if s_type (sym_obj st a) \<noteq> S_BOOLEAN then E_EQUAL a b
      else if b = symbol_no then E_NOT (E_SYMBOL a)
      else if b = symbol_mod then E_SYMBOL symbol_no
      else if b = symbol_yes then E_SYMBOL a
      else E_EQUAL a b)"
| "expr_transform st (E_UNEQUAL a b) =
     (if s_type (sym_obj st a) \<noteq> S_BOOLEAN then E_UNEQUAL a b
      else if b = symbol_no then E_SYMBOL a
      else if b = symbol_mod then E_SYMBOL symbol_yes
      else if b = symbol_yes then E_NOT (E_SYMBOL a)
      else E_UNEQUAL a b)"
| "expr_transform st (E_NOT e) =
     (case expr_transform st e of
        E_NOT a \<Rightarrow> expr_transform st a
      | E_EQUAL a b \<Rightarrow> E_UNEQUAL a b
      | E_UNEQUAL a b \<Rightarrow> E_EQUAL a b
      | E_OR a b \<Rightarrow> expr_transform st (E_AND (E_NOT a) (E_NOT b))
      | E_AND a b \<Rightarrow> expr_transform st (E_OR (E_NOT a) (E_NOT b))
      | E_SYMBOL s \<Rightarrow>
          (if s = symbol_yes then E_SYMBOL symbol_no
           else if s = symbol_mod then E_SYMBOL symbol_mod
           else if s = symbol_no then E_SYMBOL symbol_yes
           else E_NOT (E_SYMBOL s)))"
  by pat_completeness auto

text \<open>Pushing a negation inwards duplicates it; this weight still decreases.\<close>

fun not_weight :: "expr \<Rightarrow> nat" where
  "not_weight (E_SYMBOL s) = 1"
| "not_weight (E_EQUAL a b) = 2"
| "not_weight (E_UNEQUAL a b) = 2"
| "not_weight (E_NOT e) = 2 * not_weight e"
| "not_weight (E_AND a b) = Suc (not_weight a + not_weight b)"
| "not_weight (E_OR a b) = Suc (not_weight a + not_weight b)"

lemma not_weight_pos [simp]: "0 < not_weight e"
  by (induction e) auto

lemma expr_transform_pweight:
  "expr_transform_dom (st, e) \<Longrightarrow> not_weight (expr_transform st e) \<le> not_weight e"
proof (induction st e rule: expr_transform.pinduct)
  case (6 st e)
  show ?case
  proof (cases "expr_transform st e")
    case (E_NOT a)
    then show ?thesis using 6 by (auto simp: expr_transform.psimps)
  next
    case (E_AND a b)
    then show ?thesis using 6 by (auto simp: expr_transform.psimps)
  next
    case (E_OR a b)
    then show ?thesis using 6 by (auto simp: expr_transform.psimps)
  qed (use 6 in \<open>auto simp: expr_transform.psimps\<close>)
qed (auto simp: expr_transform.psimps)

termination expr_transform
proof (relation "measure (\<lambda>(st, e). not_weight e)", goal_cases)
  case (7 st e a)
  then show ?case using expr_transform_pweight[of st e] not_weight_pos[of a] by (simp del: not_weight_pos)
next
  case (8 st e a b)
  then show ?case using expr_transform_pweight[of st e] by simp
next
  case (9 st e a b)
  then show ?case using expr_transform_pweight[of st e] by simp
qed simp_all

declare expr_transform.simps(6) [simp del]

text \<open>
  What \<open>sym_calc_value\<close> guarantees of the computed values: a boolean symbol is
  never \<open>m\<close>.
\<close>

definition bools_ok :: "symtab \<Rightarrow> bool" where
  "bools_ok st \<longleftrightarrow> (\<forall>a. s_type (st a) = S_BOOLEAN \<longrightarrow> s_tri (st a) \<noteq> Tmod)"

lemma bools_ok_sym:
  "bools_ok st \<Longrightarrow> s_type (sym_obj st a) = S_BOOLEAN \<Longrightarrow>
   s_tri (sym_obj st a) = Tno \<or> s_tri (sym_obj st a) = Tyes"
  by (cases a) (auto simp: bools_ok_def intro: tristate.exhaust)

lemma sym_strings [simp]:
  "sym_get_string_value st symbol_yes = ''y''"
  "sym_get_string_value st symbol_mod = ''m''"
  "sym_get_string_value st symbol_no = ''n''"
  by (simp_all add: sym_get_string_value_def)

lemma sym_string_logical:
  "s_type (sym_obj st a) \<in> {S_BOOLEAN, S_TRISTATE} \<Longrightarrow>
   sym_get_string_value st a = tri_string (s_tri (sym_obj st a))"
  by (auto simp: sym_get_string_value_def sym_get_tristate_value_def)

lemma expr_transform_val:
  "bools_ok st \<Longrightarrow> expr_val st (expr_transform st e) = expr_val st e"
proof (induction st e rule: expr_transform.induct)
  case (4 st a b)
  then show ?case
    using bools_ok_sym[of st a] sym_string_logical[of st a] by auto
next
  case (5 st a b)
  then show ?case
    using bools_ok_sym[of st a] sym_string_logical[of st a] by auto
next
  case (6 st e)
  note val = "6.IH"(1)[OF "6.prems", symmetric]
  show ?case
  proof (cases "expr_transform st e")
    case (E_NOT a)
    then show ?thesis using "6.IH"(2)[OF E_NOT "6.prems"] by (simp add: expr_transform.simps(6) val)
  next
    case (E_AND a b)
    then show ?thesis using "6.IH"(3)[OF E_AND "6.prems"]
      by (simp add: expr_transform.simps(6) val tri_not_and del: expr_transform.simps(3))
  next
    case (E_OR a b)
    then show ?thesis using "6.IH"(4)[OF E_OR "6.prems"]
      by (simp add: expr_transform.simps(6) val tri_not_or del: expr_transform.simps(2))
  qed (auto simp: expr_transform.simps(6) val)
qed simp_all

fun nnf :: "symtab \<Rightarrow> expr \<Rightarrow> bool" where
  "nnf st (E_SYMBOL s) = True"
| "nnf st (E_NOT (E_SYMBOL s)) = (s \<noteq> symbol_yes \<and> s \<noteq> symbol_mod \<and> s \<noteq> symbol_no)"
| "nnf st (E_NOT e) = False"
| "nnf st (E_AND a b) = (nnf st a \<and> nnf st b)"
| "nnf st (E_OR a b) = (nnf st a \<and> nnf st b)"
| "nnf st (E_EQUAL a b) =
     (s_type (sym_obj st a) = S_BOOLEAN \<longrightarrow> b \<notin> {symbol_yes, symbol_mod, symbol_no})"
| "nnf st (E_UNEQUAL a b) =
     (s_type (sym_obj st a) = S_BOOLEAN \<longrightarrow> b \<notin> {symbol_yes, symbol_mod, symbol_no})"

lemma nnf_NotE:
  "nnf st (E_NOT a) \<Longrightarrow> \<exists>s. a = E_SYMBOL s"
  by (cases a) auto

lemma bool_obj_not_const:
  "s_type (sym_obj st a) = S_BOOLEAN \<Longrightarrow> a \<noteq> symbol_yes \<and> a \<noteq> symbol_mod \<and> a \<noteq> symbol_no"
  by (cases a) auto

lemma expr_transform_nnf: "nnf st (expr_transform st e)"
proof (induction st e rule: expr_transform.induct)
  case (4 st a b)
  then show ?case using bool_obj_not_const[of st a] by auto
next
  case (5 st a b)
  then show ?case using bool_obj_not_const[of st a] by auto
next
  case (6 st e)
  show ?case
  proof (cases "expr_transform st e")
    case (E_NOT a)
    then show ?thesis using "6.IH"(2)[OF E_NOT] by (simp add: expr_transform.simps(6))
  next
    case (E_AND a b)
    then show ?thesis using "6.IH"(3)[OF E_AND] by (simp add: expr_transform.simps(6))
  next
    case (E_OR a b)
    then show ?thesis using "6.IH"(4)[OF E_OR] by (simp add: expr_transform.simps(6))
  qed (use "6.IH"(1) in \<open>auto simp: expr_transform.simps(6)\<close>)
qed simp_all

lemma expr_transform_nnf_id: "nnf st e \<Longrightarrow> expr_transform st e = e"
  by (induction st e rule: nnf.induct) (auto simp: expr_transform.simps(6))

section \<open>Boolean contexts\<close>

fun expr_trans_bool :: "symtab \<Rightarrow> expr \<Rightarrow> expr" where
  "expr_trans_bool st (E_AND a b) = E_AND (expr_trans_bool st a) (expr_trans_bool st b)"
| "expr_trans_bool st (E_OR a b) = E_OR (expr_trans_bool st a) (expr_trans_bool st b)"
| "expr_trans_bool st (E_NOT e) = E_NOT (expr_trans_bool st e)"
| "expr_trans_bool st (E_UNEQUAL a b) =
     (if s_type (sym_obj st a) = S_TRISTATE \<and> b = symbol_no then E_SYMBOL a else E_UNEQUAL a b)"
| "expr_trans_bool st e = e"

lemma tri_and_no: "tri_and a b = Tno \<longleftrightarrow> a = Tno \<or> b = Tno"
  by (cases a; cases b) simp_all

lemma tri_or_no: "tri_or a b = Tno \<longleftrightarrow> a = Tno \<and> b = Tno"
  by (cases a; cases b) simp_all

lemma tri_string_eq [simp]:
  "tri_string a = tri_string b \<longleftrightarrow> a = b"
  "tri_string a = ''n'' \<longleftrightarrow> a = Tno" "''n'' = tri_string a \<longleftrightarrow> a = Tno"
  "tri_string a = ''m'' \<longleftrightarrow> a = Tmod" "''m'' = tri_string a \<longleftrightarrow> a = Tmod"
  "tri_string a = ''y'' \<longleftrightarrow> a = Tyes" "''y'' = tri_string a \<longleftrightarrow> a = Tyes"
  by (cases a; cases b; simp)+

lemma expr_trans_bool_visible:
  "nnf st e \<Longrightarrow> expr_val st (expr_trans_bool st e) = Tno \<longleftrightarrow> expr_val st e = Tno"
proof (induction st e rule: nnf.induct)
  case (4 st a b)
  then show ?case by (simp add: tri_and_no)
next
  case (5 st a b)
  then show ?case by (simp add: tri_or_no)
next
  case (7 st a b)
  then show ?case using sym_string_logical[of st a] by auto
qed auto

section \<open>Comparisons of a whole expression with a constant\<close>

fun expr_trans_compare :: "expr option \<Rightarrow> expr_type \<Rightarrow> sym \<Rightarrow> expr option" where
  "expr_trans_compare None t s =
     Some (if t = T_UNEQUAL then E_NOT (E_SYMBOL s) else E_SYMBOL s)"
| "expr_trans_compare (Some (E_AND a b)) t s =
     (let e = (if s = symbol_yes \<or> s = symbol_no then
                 (case (expr_trans_compare (Some a) T_EQUAL s, expr_trans_compare (Some b) T_EQUAL s) of
                    (Some e1, Some e2) \<Rightarrow>
                      Some (expr_alloc_two (if s = symbol_yes then T_AND else T_OR) e1 e2)
                  | _ \<Rightarrow> None)
               else Some (E_AND a b))
      in if t = T_UNEQUAL then map_option E_NOT e else e)"
| "expr_trans_compare (Some (E_OR a b)) t s =
     (let e = (if s = symbol_yes \<or> s = symbol_no then
                 (case (expr_trans_compare (Some a) T_EQUAL s, expr_trans_compare (Some b) T_EQUAL s) of
                    (Some e1, Some e2) \<Rightarrow>
                      Some (expr_alloc_two (if s = symbol_yes then T_OR else T_AND) e1 e2)
                  | _ \<Rightarrow> None)
               else Some (E_OR a b))
      in if t = T_UNEQUAL then map_option E_NOT e else e)"
| "expr_trans_compare (Some (E_NOT e)) t s =
     expr_trans_compare (Some e) (if t = T_EQUAL then T_UNEQUAL else T_EQUAL) s"
| "expr_trans_compare (Some (E_SYMBOL a)) t s =
     Some (if t = T_EQUAL then E_EQUAL a s else E_UNEQUAL a s)"
| "expr_trans_compare (Some e) t s =
     (if t = T_EQUAL then
        (if s = symbol_yes then Some (expr_copy e)
         else if s = symbol_mod then Some (E_SYMBOL symbol_no)
         else if s = symbol_no then Some (E_NOT (expr_copy e))
         else None)
      else
        (if s = symbol_yes then Some (E_NOT (expr_copy e))
         else if s = symbol_mod then Some (E_SYMBOL symbol_yes)
         else if s = symbol_no then Some (expr_copy e)
         else None))"

text \<open>The value a comparison with the constant \<open>s\<close> should have.\<close>

definition tri_bool :: "bool \<Rightarrow> tristate" where
  "tri_bool b = (if b then Tyes else Tno)"

definition compare_spec :: "expr_type \<Rightarrow> tristate \<Rightarrow> tristate \<Rightarrow> tristate" where
  "compare_spec t v c = tri_bool (if t = T_EQUAL then v = c else v \<noteq> c)"

text \<open>Every symbol used as a truth value is boolean or tristate and holds \<open>n\<close> or \<open>y\<close>.\<close>

fun logical_leaves :: "symtab \<Rightarrow> expr \<Rightarrow> bool" where
  "logical_leaves st (E_SYMBOL s) =
     ((s = symbol_yes \<or> s = symbol_no \<or> s_type (sym_obj st s) \<in> {S_BOOLEAN, S_TRISTATE}) \<and>
      s_tri (sym_obj st s) \<noteq> Tmod)"
| "logical_leaves st (E_NOT e) = logical_leaves st e"
| "logical_leaves st (E_AND a b) = (logical_leaves st a \<and> logical_leaves st b)"
| "logical_leaves st (E_OR a b) = (logical_leaves st a \<and> logical_leaves st b)"
| "logical_leaves st (E_EQUAL a b) = True"
| "logical_leaves st (E_UNEQUAL a b) = True"

lemma logical_leaves_two_valued:
  "logical_leaves st e \<Longrightarrow> expr_val st e \<noteq> Tmod"
  by (induction e) (auto simp: tri_and_def tri_or_def intro: tri_not.elims)

lemma expr_trans_compare_val:
  assumes "t = T_EQUAL \<or> t = T_UNEQUAL" and "s = symbol_yes \<or> s = symbol_no"
    and "logical_leaves st e"
  shows "\<exists>f. expr_trans_compare (Some e) t s = Some f \<and>
     expr_val st f = compare_spec t (expr_val st e) (s_tri (sym_obj st s))"
  using assms
proof (induction e arbitrary: t)
  case (E_SYMBOL a)
  then show ?case using sym_string_logical[of st a]
    by (auto simp: compare_spec_def tri_bool_def)
next
  case (E_NOT e)
  let ?t = "if t = T_EQUAL then T_UNEQUAL else T_EQUAL"
  obtain f where "expr_trans_compare (Some e) ?t s = Some f"
      "expr_val st f = compare_spec ?t (expr_val st e) (s_tri (sym_obj st s))"
    using E_NOT.IH[of ?t] E_NOT.prems by auto
  moreover have "expr_val st e = Tno \<or> expr_val st e = Tyes"
    using logical_leaves_two_valued[of st e] E_NOT.prems(3) by (cases "expr_val st e") auto
  ultimately show ?case using E_NOT.prems by (auto simp: compare_spec_def)
next
  case (E_AND a b)
  then obtain f g where "expr_trans_compare (Some a) T_EQUAL s = Some f"
      "expr_trans_compare (Some b) T_EQUAL s = Some g"
      "expr_val st f = compare_spec T_EQUAL (expr_val st a) (s_tri (sym_obj st s))"
      "expr_val st g = compare_spec T_EQUAL (expr_val st b) (s_tri (sym_obj st s))"
    by (metis logical_leaves.simps(3))
  then show ?case using E_AND.prems
    by (cases "expr_val st a"; cases "expr_val st b")
       (auto simp: compare_spec_def tri_bool_def)
next
  case (E_OR a b)
  then obtain f g where "expr_trans_compare (Some a) T_EQUAL s = Some f"
      "expr_trans_compare (Some b) T_EQUAL s = Some g"
      "expr_val st f = compare_spec T_EQUAL (expr_val st a) (s_tri (sym_obj st s))"
      "expr_val st g = compare_spec T_EQUAL (expr_val st b) (s_tri (sym_obj st s))"
    by (metis logical_leaves.simps(4))
  then show ?case using E_OR.prems
    by (cases "expr_val st a"; cases "expr_val st b")
       (auto simp: compare_spec_def tri_bool_def)
qed (auto simp: compare_spec_def tri_bool_def)

section \<open>Symbols an expression mentions\<close>

fun expr_contains_symbol :: "expr \<Rightarrow> sym \<Rightarrow> bool" where
  "expr_contains_symbol (E_AND a b) s = (expr_contains_symbol a s \<or> expr_contains_symbol b s)"
| "expr_contains_symbol (E_OR a b) s = (expr_contains_symbol a s \<or> expr_contains_symbol b s)"
| "expr_contains_symbol (E_SYMBOL a) s = (a = s)"
| "expr_contains_symbol (E_EQUAL a b) s = (a = s \<or> b = s)"
| "expr_contains_symbol (E_UNEQUAL a b) s = (a = s \<or> b = s)"
| "expr_contains_symbol (E_NOT e) s = expr_contains_symbol e s"

fun expr_depends_symbol :: "expr \<Rightarrow> sym \<Rightarrow> bool" where
  "expr_depends_symbol (E_AND a b) s = (expr_depends_symbol a s \<or> expr_depends_symbol b s)"
| "expr_depends_symbol (E_SYMBOL a) s = (a = s)"
| "expr_depends_symbol (E_EQUAL a b) s = (a = s \<and> (b = symbol_yes \<or> b = symbol_mod))"
| "expr_depends_symbol (E_UNEQUAL a b) s = (a = s \<and> b = symbol_no)"
| "expr_depends_symbol e s = False"

lemma sym_obj_upd: "s \<noteq> Sym x \<Longrightarrow> sym_obj (st(x := v)) s = sym_obj st s"
  by (cases s) auto

lemma sym_string_upd:
  "s \<noteq> Sym x \<Longrightarrow> sym_get_string_value (st(x := v)) s = sym_get_string_value st s"
  by (simp add: sym_get_string_value_def sym_get_tristate_value_def sym_obj_upd split: symbol_type.split)

lemma expr_contains_symbol_frame:
  "\<not> expr_contains_symbol e (Sym x) \<Longrightarrow> expr_val (st(x := v)) e = expr_val st e"
  by (induction e) (auto simp: sym_obj_upd sym_string_upd)

lemma expr_depends_symbol_no:
  "expr_depends_symbol e s \<Longrightarrow> s_type (sym_obj st s) \<in> {S_BOOLEAN, S_TRISTATE} \<Longrightarrow>
   s_tri (sym_obj st s) = Tno \<Longrightarrow> expr_val st e = Tno"
  using sym_string_logical[of st s]
  by (induction e s rule: expr_depends_symbol.induct) (auto simp: tri_and_no)

end
