(* ===== verification/Kconfig_Join.thy ===== *)
theory Kconfig_Join
  imports Kconfig_Transform
begin

text \<open>
  The merging of two operands over one symbol: \<open>expr_join_or\<close> and \<open>expr_join_and\<close> of
  \<open>openwrt/scripts/config/expr.c\<close>. A merged operand has the value of the two it replaces.
\<close>

section \<open>Joining two operands\<close>

fun join_sym1 :: "expr \<Rightarrow> sym option" where
  "join_sym1 (E_EQUAL a b) = Some a"
| "join_sym1 (E_UNEQUAL a b) = Some a"
| "join_sym1 (E_SYMBOL a) = Some a"
| "join_sym1 (E_NOT (E_EQUAL a b)) = Some a"
| "join_sym1 (E_NOT (E_UNEQUAL a b)) = Some a"
| "join_sym1 (E_NOT (E_SYMBOL a)) = Some a"
| "join_sym1 e = None"

fun join_sym2 :: "expr \<Rightarrow> sym option" where
  "join_sym2 (E_EQUAL a b) = Some a"
| "join_sym2 (E_UNEQUAL a b) = Some a"
| "join_sym2 (E_SYMBOL a) = Some a"
| "join_sym2 (E_NOT (E_SYMBOL a)) = Some a"
| "join_sym2 e = None"

text \<open>The common preamble of \<open>expr_join_or\<close> and \<open>expr_join_and\<close>: the one
  boolean or tristate symbol both operands test.\<close>

definition join_sym :: "symtab \<Rightarrow> expr \<Rightarrow> expr \<Rightarrow> sym option" where
  "join_sym st e1 e2 =
     (case (join_sym1 e1, join_sym2 e2) of
        (Some s1, Some s2) \<Rightarrow>
          if s1 \<noteq> s2 then None
          else if s_type (sym_obj st s1) \<noteq> S_BOOLEAN \<and> s_type (sym_obj st s1) \<noteq> S_TRISTATE then None
          else Some s1
      | _ \<Rightarrow> None)"

text \<open>\<open>e->type == E_EQUAL && e->right.sym == s\<close>, and the same for \<open>E_UNEQUAL\<close>.\<close>

definition is_eq :: "expr \<Rightarrow> sym \<Rightarrow> bool" where
  "is_eq e s \<longleftrightarrow> (case e of E_EQUAL a b \<Rightarrow> b = s | _ \<Rightarrow> False)"

definition is_neq :: "expr \<Rightarrow> sym \<Rightarrow> bool" where
  "is_neq e s \<longleftrightarrow> (case e of E_UNEQUAL a b \<Rightarrow> b = s | _ \<Rightarrow> False)"

definition is_sym :: "expr \<Rightarrow> bool" where
  "is_sym e \<longleftrightarrow> type_of e = T_SYMBOL"

definition is_not_sym :: "expr \<Rightarrow> bool" where
  "is_not_sym e \<longleftrightarrow> (case e of E_NOT (E_SYMBOL s) \<Rightarrow> True | _ \<Rightarrow> False)"

definition expr_join_or :: "symtab \<Rightarrow> expr \<Rightarrow> expr \<Rightarrow> expr option" where
  "expr_join_or st e1 e2 =
     (if expr_eq st e1 e2 then Some (expr_copy e1)
      else case join_sym st e1 e2 of
        None \<Rightarrow> None
      | Some s \<Rightarrow>
          let tri = s_type (sym_obj st s) = S_TRISTATE in
          if tri \<and> (is_eq e1 symbol_yes \<and> is_eq e2 symbol_mod \<or> is_eq e1 symbol_mod \<and> is_eq e2 symbol_yes)
            then Some (E_UNEQUAL s symbol_no)
          else if tri \<and> (is_eq e1 symbol_yes \<and> is_eq e2 symbol_no \<or> is_eq e1 symbol_no \<and> is_eq e2 symbol_yes)
            then Some (E_UNEQUAL s symbol_mod)
          else if tri \<and> (is_eq e1 symbol_mod \<and> is_eq e2 symbol_no \<or> is_eq e1 symbol_no \<and> is_eq e2 symbol_mod)
            then Some (E_UNEQUAL s symbol_yes)
          else if s_type (sym_obj st s) = S_BOOLEAN \<and>
              (is_not_sym e1 \<and> is_sym e2 \<or> is_not_sym e2 \<and> is_sym e1)
            then Some (E_SYMBOL symbol_yes)
          else None)"

fun join_and_tri :: "symtab \<Rightarrow> sym \<Rightarrow> expr \<Rightarrow> expr \<Rightarrow> expr option" where
  "join_and_tri st s (E_EQUAL _ b) (E_UNEQUAL _ c) =
     (if sym_flag st c SYMBOL_CONST \<and> sym_flag st b SYMBOL_CONST
      then Some (if b \<noteq> c then E_EQUAL s b else E_SYMBOL symbol_no) else None)"
| "join_and_tri st s (E_UNEQUAL _ c) (E_EQUAL _ b) =
     (if sym_flag st c SYMBOL_CONST \<and> sym_flag st b SYMBOL_CONST
      then Some (if b \<noteq> c then E_EQUAL s b else E_SYMBOL symbol_no) else None)"
| "join_and_tri st s (E_UNEQUAL _ b) (E_UNEQUAL _ c) =
     (if b = symbol_yes \<and> c = symbol_no \<or> b = symbol_no \<and> c = symbol_yes
        then Some (E_EQUAL s symbol_mod)
      else if b = symbol_yes \<and> c = symbol_mod \<or> b = symbol_mod \<and> c = symbol_yes
        then Some (E_EQUAL s symbol_no)
      else if b = symbol_mod \<and> c = symbol_no \<or> b = symbol_no \<and> c = symbol_mod
        then Some (E_EQUAL s symbol_yes)
      else None)"
| "join_and_tri st s e1 e2 = None"

definition expr_join_and :: "symtab \<Rightarrow> expr \<Rightarrow> expr \<Rightarrow> expr option" where
  "expr_join_and st e1 e2 =
     (if expr_eq st e1 e2 then Some (expr_copy e1)
      else case join_sym st e1 e2 of
        None \<Rightarrow> None
      | Some s \<Rightarrow>
          if is_sym e1 \<and> is_eq e2 symbol_yes \<or> is_sym e2 \<and> is_eq e1 symbol_yes
            then Some (E_EQUAL s symbol_yes)
          else if is_sym e1 \<and> is_neq e2 symbol_no \<or> is_sym e2 \<and> is_neq e1 symbol_no
            then Some (E_SYMBOL s)
          else if is_sym e1 \<and> is_neq e2 symbol_mod \<or> is_sym e2 \<and> is_neq e1 symbol_mod
            then Some (E_EQUAL s symbol_yes)
          else if s_type (sym_obj st s) = S_TRISTATE then join_and_tri st s e1 e2
          else None)"

text \<open>Constants are interned by name, so distinct constants have distinct values.\<close>

definition consts_ok :: "symtab \<Rightarrow> bool" where
  "consts_ok st \<longleftrightarrow> (\<forall>s1 s2. sym_flag st s1 SYMBOL_CONST \<longrightarrow> sym_flag st s2 SYMBOL_CONST \<longrightarrow>
     sym_get_string_value st s1 = sym_get_string_value st s2 \<longrightarrow> s1 = s2)"

lemma join_symD:
  assumes "join_sym st e1 e2 = Some s"
  shows "join_sym1 e1 = Some s" "join_sym2 e2 = Some s"
    "s_type (sym_obj st s) = S_BOOLEAN \<or> s_type (sym_obj st s) = S_TRISTATE"
    "sym_get_string_value st s = tri_string (s_tri (sym_obj st s))"
proof -
  show ty: "s_type (sym_obj st s) = S_BOOLEAN \<or> s_type (sym_obj st s) = S_TRISTATE"
    using assms by (auto simp: join_sym_def split: option.splits if_splits)
  show "sym_get_string_value st s = tri_string (s_tri (sym_obj st s))"
    using ty by (intro sym_string_logical) auto
qed (use assms in \<open>auto simp: join_sym_def split: option.splits if_splits\<close>)

lemmas join_shapes = is_eq_def is_neq_def is_sym_def is_not_sym_def

lemma is_shapeD:
  "is_eq e b \<Longrightarrow> \<exists>a. e = E_EQUAL a b"
  "is_neq e b \<Longrightarrow> \<exists>a. e = E_UNEQUAL a b"
  "is_sym e \<Longrightarrow> \<exists>a. e = E_SYMBOL a"
  "is_not_sym e \<Longrightarrow> \<exists>a. e = E_NOT (E_SYMBOL a)"
  by (auto simp: join_shapes split: expr.splits elim: type_of.elims)

lemma expr_join_or_val:
  assumes "bools_ok st" and J: "expr_join_or st e1 e2 = Some t"
  shows "expr_val st t = tri_or (expr_val st e1) (expr_val st e2)"
proof (cases "expr_eq st e1 e2")
  case True
  then show ?thesis using J expr_eq_sound[of st e1 e2 st] by (simp add: expr_join_or_def)
next
  case False
  then obtain s where s: "join_sym st e1 e2 = Some s"
    using J by (auto simp: expr_join_or_def split: option.splits)
  show ?thesis
    using J False s join_symD[OF s] bools_ok_sym[OF assms(1), of s]
    by (auto simp: expr_join_or_def Let_def split: if_splits dest!: is_shapeD intro: tristate.exhaust)
qed

lemma consts_okD:
  "consts_ok st \<Longrightarrow> sym_flag st b SYMBOL_CONST \<Longrightarrow> sym_flag st c SYMBOL_CONST \<Longrightarrow>
   sym_get_string_value st b = sym_get_string_value st c \<longleftrightarrow> b = c"
  by (auto simp: consts_ok_def)

lemma join_and_tri_val:
  assumes "consts_ok st" "join_and_tri st s e1 e2 = Some t"
    "join_sym1 e1 = Some s" "join_sym2 e2 = Some s"
    "sym_get_string_value st s = tri_string (s_tri (sym_obj st s))"
  shows "expr_val st t = tri_and (expr_val st e1) (expr_val st e2)"
  using assms
proof (induction st s e1 e2 rule: join_and_tri.induct)
  case (1 st s a b d c)
  then show ?case using consts_okD[of st b c] by (auto split: if_splits)
next
  case (2 st s a c d b)
  then show ?case using consts_okD[of st b c] by (auto split: if_splits)
next
  case (3 st s a b d c)
  then have "a = s" "d = s" by simp_all
  with 3 show ?case by (cases "s_tri (sym_obj st s)"; cases b; cases c) auto
qed simp_all

lemma sym_and_compare:
  assumes "sym_get_string_value st s = tri_string (s_tri (sym_obj st s))"
  shows "tri_and (s_tri (sym_obj st s)) (expr_val st (E_EQUAL s symbol_yes)) = expr_val st (E_EQUAL s symbol_yes)"
    "tri_and (s_tri (sym_obj st s)) (expr_val st (E_UNEQUAL s symbol_no)) = s_tri (sym_obj st s)"
    "tri_and (s_tri (sym_obj st s)) (expr_val st (E_UNEQUAL s symbol_mod)) = expr_val st (E_EQUAL s symbol_yes)"
  using assms by (cases "s_tri (sym_obj st s)"; simp)+

lemma tri_and_comm: "tri_and a b = tri_and b a"
  by (simp add: tri_and_min min.commute)

lemma expr_join_and_val:
  assumes "bools_ok st" "consts_ok st" and J: "expr_join_and st e1 e2 = Some t"
  shows "expr_val st t = tri_and (expr_val st e1) (expr_val st e2)"
proof (cases "expr_eq st e1 e2")
  case True
  then show ?thesis using J expr_eq_sound[of st e1 e2 st] by (simp add: expr_join_and_def)
next
  case False
  then obtain s where s: "join_sym st e1 e2 = Some s"
    using J by (auto simp: expr_join_and_def split: option.splits)
  note d = join_symD[OF s]
  have "join_and_tri st s e1 e2 = Some t \<or>
      (is_sym e1 \<and> (is_eq e2 symbol_yes \<or> is_neq e2 symbol_no \<or> is_neq e2 symbol_mod) \<or>
       is_sym e2 \<and> (is_eq e1 symbol_yes \<or> is_neq e1 symbol_no \<or> is_neq e1 symbol_mod))"
    using J False s by (auto simp: expr_join_and_def split: if_splits)
  then show ?thesis
  proof
    assume "join_and_tri st s e1 e2 = Some t"
    then show ?thesis using join_and_tri_val[OF assms(2) _ d(1,2,4)] by blast
  next
    assume sh: "is_sym e1 \<and> (is_eq e2 symbol_yes \<or> is_neq e2 symbol_no \<or> is_neq e2 symbol_mod) \<or>
       is_sym e2 \<and> (is_eq e1 symbol_yes \<or> is_neq e1 symbol_no \<or> is_neq e1 symbol_mod)"
    then consider
        (l) "e1 = E_SYMBOL s" "e2 \<in> {E_EQUAL s symbol_yes, E_UNEQUAL s symbol_no, E_UNEQUAL s symbol_mod}"
      | (r) "e2 = E_SYMBOL s" "e1 \<in> {E_EQUAL s symbol_yes, E_UNEQUAL s symbol_no, E_UNEQUAL s symbol_mod}"
      using d(1,2) by (auto dest!: is_shapeD)
    then show ?thesis
    proof cases
      case l
      then show ?thesis using J False s sym_and_compare[OF d(4)]
        by (auto simp: expr_join_and_def join_shapes)
    next
      case r
      then show ?thesis using J False s sym_and_compare[OF d(4)]
        by (auto simp: expr_join_and_def join_shapes tri_and_comm[of _ "s_tri (sym_obj st s)"])
    qed
  qed
qed

end
