(* ===== verification/Kconfig_Slots.thy ===== *)
theory Kconfig_Slots
  imports Kconfig_Join
begin

text \<open>
  The addresses of the fields of an expression tree. The passes of \<open>expr.c\<close> that replace
  operands in place receive a \<open>struct expr **\<close>, here a path from the root; reading and
  writing through it are \<open>sub\<close> and \<open>put\<close>. The lemmas say how writing one operand of a chain
  of conjunctions or disjunctions changes the tree, its value and its chain structure.
\<close>

section \<open>Slots of an expression tree\<close>

text \<open>
  A \<open>struct expr **\<close> into one tree is the path from the root variable to the field
  that holds the pointer. Two slots are the same address exactly when the paths are equal.
\<close>

datatype dir = L | R

type_synonym slot = "dir list"

fun child :: "expr \<Rightarrow> dir \<Rightarrow> expr option" where
  "child e L = expr_left e"
| "child e R = expr_right e"

fun sub :: "expr \<Rightarrow> slot \<Rightarrow> expr option" where
  "sub e [] = Some e"
| "sub e (d # p) = (case child e d of None \<Rightarrow> None | Some c \<Rightarrow> sub c p)"

fun set_child :: "expr \<Rightarrow> dir \<Rightarrow> expr \<Rightarrow> expr" where
  "set_child (E_NOT a) L x = E_NOT x"
| "set_child (E_AND a b) L x = E_AND x b"
| "set_child (E_AND a b) R x = E_AND a x"
| "set_child (E_OR a b) L x = E_OR x b"
| "set_child (E_OR a b) R x = E_OR a x"
| "set_child e d x = e"

fun put :: "expr \<Rightarrow> slot \<Rightarrow> expr \<Rightarrow> expr" where
  "put e [] x = x"
| "put e (d # p) x = (case child e d of None \<Rightarrow> e | Some c \<Rightarrow> set_child e d (put c p x))"

lemma child_set_child [simp]:
  "child e d = Some c \<Longrightarrow> child (set_child e d x) d = Some x"
  by (cases e; cases d) auto

lemma child_set_other [simp]:
  "d \<noteq> d' \<Longrightarrow> child (set_child e d x) d' = child e d'"
  by (cases e; cases d; cases d') auto

lemma set_child_same: "child e d = Some c \<Longrightarrow> set_child e d c = e"
  by (cases e; cases d) auto

lemma set_child_set [simp]: "set_child (set_child e d x) d y = set_child e d y"
  by (cases e; cases d) auto

lemma type_of_set_child [simp]: "type_of (set_child e d x) = type_of e"
  by (cases e; cases d) auto

lemma size_set_child: "child e d = Some c \<Longrightarrow> size (set_child e d x) + size c = size e + size x"
  by (cases e; cases d) auto

lemma size_child: "child e d = Some c \<Longrightarrow> size c < size e"
  by (cases e; cases d) auto

lemma sub_append: "sub e (p @ q) = (case sub e p of None \<Rightarrow> None | Some c \<Rightarrow> sub c q)"
  by (induction p arbitrary: e) (auto split: option.splits)

lemma sub_put_same [simp]: "sub e p = Some c \<Longrightarrow> sub (put e p x) p = Some x"
  by (induction p arbitrary: e) (auto split: option.splits)

lemma put_put_same [simp]: "put (put e p x) p y = put e p y"
  by (induction p arbitrary: e) (auto split: option.splits)

lemma put_sub_same: "sub e p = Some c \<Longrightarrow> put e p c = e"
  by (induction p arbitrary: e) (auto simp: set_child_same split: option.splits)

lemma put_append: "sub e p = Some c \<Longrightarrow> put e (p @ q) x = put e p (put c q x)"
  by (induction p arbitrary: e) (auto split: option.splits)

lemma size_put: "sub e p = Some c \<Longrightarrow> size (put e p x) + size c = size e + size x"
proof (induction p arbitrary: e)
  case (Cons d p)
  then obtain f where f: "child e d = Some f" by (auto split: option.splits)
  with Cons have "size (put f p x) + size c = size f + size x" by simp
  then show ?case using size_set_child[OF f, of "put f p x"] f by simp
qed simp

lemma size_sub: "sub e p = Some c \<Longrightarrow> length p + size c \<le> size e"
  by (induction p arbitrary: e) (force split: option.splits dest: size_child)+

lemma sub_binary_child:
  assumes "sub t p = Some e" "binary_type (type_of e)"
  shows "\<exists>a. sub t (p @ [d]) = Some a" "length p < size t"
proof -
  obtain a b where "expr_left e = Some a" "expr_right e = Some b"
    using children_ex[OF assms(2) refl] by blast
  then show ex: "\<exists>a. sub t (p @ [d]) = Some a"
    using assms(1) by (cases d) (auto simp: sub_append)
  then show "length p < size t" using size_sub[of t "p @ [d]"] by auto
qed

text \<open>Two replacements never make the tree larger, wherever the two slots are.\<close>

lemma child_leaf: "size x = 0 \<Longrightarrow> child x d = None"
  by (cases x; cases d) auto

lemma put_leaf: "size x = 0 \<Longrightarrow> p \<noteq> [] \<Longrightarrow> put x p y = x"
  by (cases p) (auto simp: child_leaf)

lemma size_put_put:
  "sub t p1 = Some e1 \<Longrightarrow> sub t p2 = Some e2 \<Longrightarrow> size x = 0 \<Longrightarrow> size y \<le> size e1 \<Longrightarrow>
   size (put (put t p1 x) p2 y) \<le> size t"
proof (induction p1 arbitrary: t p2)
  case Nil
  then show ?case by (cases p2) (simp_all add: child_leaf)
next
  case (Cons d p)
  then obtain f where f: "child t d = Some f" "sub f p = Some e1" by (auto split: option.splits)
  show ?case
  proof (cases p2)
    case Nil
    then show ?thesis using Cons.prems size_sub[of t "d # p" e1] by simp
  next
    case p2: (Cons d' q)
    show ?thesis
    proof (cases "d' = d")
      case True
      with p2 f Cons.prems have "size (put (put f p x) q y) \<le> size f"
        by (intro Cons.IH) auto
      then show ?thesis using True p2 f size_set_child[OF f(1), of "put (put f p x) q y"] by simp
    next
      case False
      with p2 f Cons.prems obtain g where g: "child t d' = Some g" "sub g q = Some e2"
        by (auto split: option.splits)
      have "child (set_child t d (put f p x)) d' = Some g" using False g by simp
      then show ?thesis
        using False p2 f g size_set_child[OF f(1), of "put f p x"] size_put[OF f(2), of x]
          size_put[OF g(2), of y] size_set_child[of "set_child t d (put f p x)" d' g "put g q y"]
          Cons.prems(3,4) by simp
    qed
  qed
qed

section \<open>Operand spines\<close>

text \<open>The operands of a nested \<open>t\<close>-chain sit at the ends of paths through \<open>t\<close>-nodes.\<close>

fun spine :: "expr_type \<Rightarrow> expr \<Rightarrow> slot \<Rightarrow> bool" where
  "spine t e [] = True"
| "spine t e (d # p) =
     (type_of e = t \<and> (case child e d of None \<Rightarrow> False | Some c \<Rightarrow> spine t c p))"

datatype skel = SLeaf | SNode skel skel

fun shape_dir :: "skel \<Rightarrow> dir \<Rightarrow> skel option" where
  "shape_dir SLeaf d = None"
| "shape_dir (SNode a b) L = Some a"
| "shape_dir (SNode a b) R = Some b"

fun shape_at :: "skel \<Rightarrow> slot \<Rightarrow> skel option" where
  "shape_at s [] = Some s"
| "shape_at s (d # p) = (case shape_dir s d of None \<Rightarrow> None | Some c \<Rightarrow> shape_at c p)"

fun shape :: "expr_type \<Rightarrow> expr \<Rightarrow> skel" where
  "shape t (E_AND a b) = (if t = T_AND then SNode (shape t a) (shape t b) else SLeaf)"
| "shape t (E_OR a b) = (if t = T_OR then SNode (shape t a) (shape t b) else SLeaf)"
| "shape t e = SLeaf"

lemma shape_dir_child:
  "binary_type t \<Longrightarrow> shape_dir (shape t e) d =
     (if type_of e = t then map_option (shape t) (child e d) else None)"
  by (cases e; cases d) (auto simp: binary_type_def)

lemma shape_leaf: "binary_type t \<Longrightarrow> shape t e = SLeaf \<longleftrightarrow> type_of e \<noteq> t"
  by (cases e) (auto simp: binary_type_def)

lemma spine_shape_at:
  "binary_type t \<Longrightarrow> spine t e p \<longleftrightarrow> shape_at (shape t e) p \<noteq> None"
  by (induction p arbitrary: e) (auto simp: shape_dir_child split: option.splits)

lemma spine_sub: "spine t e p \<Longrightarrow> \<exists>c. sub e p = Some c"
  by (induction p arbitrary: e) (auto split: option.splits)

lemma shape_at_sub:
  "binary_type t \<Longrightarrow> spine t e p \<Longrightarrow> sub e p = Some c \<Longrightarrow> shape_at (shape t e) p = Some (shape t c)"
  by (induction p arbitrary: e) (auto simp: shape_dir_child split: option.splits)

lemma spine_child:
  "spine t e p \<Longrightarrow> sub e p = Some c \<Longrightarrow> type_of c = t \<Longrightarrow> child c d = Some f \<Longrightarrow> spine t e (p @ [d])"
  by (induction p arbitrary: e) (auto split: option.splits)

lemma shape_set_child:
  "shape t x = shape t c \<Longrightarrow> child e d = Some c \<Longrightarrow> shape t (set_child e d x) = shape t e"
  by (cases e; cases d) auto

lemma shape_put:
  "sub e p = Some c \<Longrightarrow> shape t x = shape t c \<Longrightarrow> shape t (put e p x) = shape t e"
  by (induction p arbitrary: e) (auto simp: shape_set_child split: option.splits)

lemma spine_put_other:
  "spine t e p1 \<Longrightarrow> sub e p1 = Some e1 \<Longrightarrow> type_of e1 \<noteq> t \<Longrightarrow>
   spine t e p2 \<Longrightarrow> sub e p2 = Some e2 \<Longrightarrow> type_of e2 \<noteq> t \<Longrightarrow> p1 \<noteq> p2 \<Longrightarrow>
   sub (put e p1 x) p2 = Some e2"
proof (induction p1 arbitrary: e p2)
  case Nil
  then show ?case by (cases p2) auto
next
  case (Cons d p)
  then obtain d' q where p2: "p2 = d' # q" by (cases p2) auto
  show ?case using Cons p2 by (cases "d = d'") (auto split: option.splits)
qed

lemma expr_val_set_child:
  "binary_type t \<Longrightarrow> type_of e = t \<Longrightarrow> \<exists>k. \<forall>x. expr_val st (set_child e d x) = tri_op t (expr_val st x) k"
  by (cases e; cases d) (auto simp: binary_type_def tri_op_def tri_and_min tri_or_max ac_simps)

lemma spine_put_val:
  "binary_type t \<Longrightarrow> spine t e p \<Longrightarrow>
   \<exists>k. \<forall>x. expr_val st (put e p x) = tri_op t (expr_val st x) k"
proof (induction p arbitrary: e)
  case Nil
  then show ?case using expr_val_eq_const[of t st] by (metis put.simps(1) tri_op_ac(2))
next
  case (Cons d p)
  then obtain c where c: "child e d = Some c" "type_of e = t" "spine t c p"
    by (auto split: option.splits)
  obtain k where k: "\<forall>x. expr_val st (put c p x) = tri_op t (expr_val st x) k"
    using Cons c by blast
  obtain l where "\<forall>x. expr_val st (set_child e d x) = tri_op t (expr_val st x) l"
    using expr_val_set_child[OF Cons.prems(1) c(2)] by blast
  with k c show ?case by (intro exI[of _ "tri_op t k l"]) (simp add: tri_op_ac)
qed

end
