(* ===== verification/Kconfig_Dups.thy ===== *)
theory Kconfig_Dups
  imports Kconfig_Slots
begin

text \<open>
  The first pass of \<open>expr_eliminate_dups\<close>: \<open>expr_eliminate_dups1\<close> merges pairs of operands of
  a chain in place. The pass ends, keeps the value of the tree, and whenever it changed
  anything left a constant operand behind, which the next \<open>expr_eliminate_yn\<close> removes.
\<close>

section \<open>Merging operands of one chain\<close>

definition expr_join :: "symtab \<Rightarrow> expr_type \<Rightarrow> expr \<Rightarrow> expr \<Rightarrow> expr option" where
  "expr_join st ty e1 e2 =
     (if ty = T_OR then expr_join_or st e1 e2
      else if ty = T_AND then expr_join_and st e1 e2 else None)"

text \<open>The last \<open>switch\<close> of \<open>expr_eliminate_dups1\<close>.\<close>

definition dups1_join ::
  "symtab \<Rightarrow> expr_type \<Rightarrow> slot \<Rightarrow> slot \<Rightarrow> expr \<Rightarrow> nat \<Rightarrow> expr \<times> nat" where
  "dups1_join st ty p1 p2 t c =
     (case (sub t p1, sub t p2) of
        (Some e1, Some e2) \<Rightarrow>
          (case expr_join st ty e1 e2 of
             None \<Rightarrow> (t, c)
           | Some tmp \<Rightarrow> (put (put t p1 (eq_const ty)) p2 tmp, Suc c))
      | _ \<Rightarrow> (t, c))"

function expr_eliminate_dups1 ::
  "symtab \<Rightarrow> expr_type \<Rightarrow> slot \<Rightarrow> slot \<Rightarrow> expr \<Rightarrow> nat \<Rightarrow> expr \<times> nat" where
  "expr_eliminate_dups1 st ty p1 p2 t c =
     (case (sub t p1, sub t p2) of
        (Some e1, Some e2) \<Rightarrow>
          if binary_type ty \<and> type_of e1 = ty then
            (let (t', c') = expr_eliminate_dups1 st ty (p1 @ [L]) p2 t c
             in expr_eliminate_dups1 st ty (p1 @ [R]) p2 t' c')
          else if binary_type ty \<and> type_of e2 = ty then
            (let (t', c') = expr_eliminate_dups1 st ty p1 (p2 @ [L]) t c
             in expr_eliminate_dups1 st ty p1 (p2 @ [R]) t' c')
          else if p1 = p2 then (t, c)
          else
            (let (t', c') = (if binary_type (type_of e1)
                             then expr_eliminate_dups1 st (type_of e1) p1 p1 t c else (t, c))
             in dups1_join st ty p1 p2 t' c')
      | _ \<Rightarrow> (t, c))"
  by pat_completeness auto

lemma join_sym_size: "expr_join st ty e1 e2 = Some tmp \<Longrightarrow> size tmp \<le> size e1"
proof -
  have "join_and_tri st s e1 e2 = Some tmp \<Longrightarrow> size tmp = 0" for s
    by (induction st s e1 e2 rule: join_and_tri.induct) (auto split: if_splits)
  then show "expr_join st ty e1 e2 = Some tmp \<Longrightarrow> size tmp \<le> size e1"
    by (auto simp: expr_join_def expr_join_or_def expr_join_and_def Let_def
        split: if_splits option.splits)
qed

lemma dups1_join_size: "size (fst (dups1_join st ty p1 p2 t c)) \<le> size t"
proof (cases "sub t p1")
  case (Some e1)
  show ?thesis
  proof (cases "sub t p2")
    case e2: (Some e2)
    show ?thesis
    proof (cases "expr_join st ty e1 e2")
      case (Some tmp)
      then show ?thesis
        using size_put_put[OF \<open>sub t p1 = _\<close> e2 size_eq_const join_sym_size[OF Some]]
          \<open>sub t p1 = _\<close> e2 by (simp add: dups1_join_def)
    qed (simp add: dups1_join_def Some e2)
  qed (simp add: dups1_join_def Some)
qed (simp add: dups1_join_def)

lemma expr_eliminate_dups1_psize:
  "expr_eliminate_dups1_dom (st, ty, p1, p2, t, c) \<Longrightarrow>
   size (fst (expr_eliminate_dups1 st ty p1 p2 t c)) \<le> size t"
proof (induction st ty p1 p2 t c rule: expr_eliminate_dups1.pinduct)
  case (1 st ty p1 p2 t c)
  note unf = expr_eliminate_dups1.psimps[OF "1.hyps"]
  show ?case
  proof (cases "\<exists>e1 e2. sub t p1 = Some e1 \<and> sub t p2 = Some e2")
    case False
    then show ?thesis by (auto simp: unf split: option.splits)
  next
    case True
    then obtain e1 e2 where e: "sub t p1 = Some e1" "sub t p2 = Some e2" by blast
    consider (l) "binary_type ty \<and> type_of e1 = ty"
      | (r) "\<not> (binary_type ty \<and> type_of e1 = ty)" "binary_type ty \<and> type_of e2 = ty"
      | (eq) "\<not> (binary_type ty \<and> type_of e1 = ty)" "\<not> (binary_type ty \<and> type_of e2 = ty)" "p1 = p2"
      | (j) "\<not> (binary_type ty \<and> type_of e1 = ty)" "\<not> (binary_type ty \<and> type_of e2 = ty)" "p1 \<noteq> p2"
      by blast
    then show ?thesis
    proof cases
      case l
      obtain t' c' where A: "expr_eliminate_dups1 st ty (p1 @ [L]) p2 t c = (t', c')" by fastforce
      have "size t' \<le> size t" using "1.IH"(1)[OF refl e l] e A by simp
      moreover have "size (fst (expr_eliminate_dups1 st ty (p1 @ [R]) p2 t' c')) \<le> size t'"
        using "1.IH"(2)[OF refl e l refl] e A by simp
      ultimately show ?thesis using l A e by (simp add: unf)
    next
      case r
      obtain t' c' where A: "expr_eliminate_dups1 st ty p1 (p2 @ [L]) t c = (t', c')" by fastforce
      have "size t' \<le> size t" using "1.IH"(3)[OF refl e r] e A by simp
      moreover have "size (fst (expr_eliminate_dups1 st ty p1 (p2 @ [R]) t' c')) \<le> size t'"
        using "1.IH"(4)[OF refl e r refl] e A by simp
      ultimately show ?thesis using r A e by (simp add: unf)
    next
      case eq
      then show ?thesis unfolding unf using e by auto
    next
      case j
      obtain t' c' where A: "(if binary_type (type_of e1)
          then expr_eliminate_dups1 st (type_of e1) p1 p1 t c else (t, c)) = (t', c')"
        by fastforce
      have "size t' \<le> size t"
        using "1.IH"(5)[OF refl e j] e A by (auto split: if_splits)
      then show ?thesis using j A e dups1_join_size[of st ty p1 p2 t' c']
        by (auto simp: unf)
    qed
  qed
qed

text \<open>
  A slot can be descended only as often as the tree is large, and the tree never grows:
  the first slot descends, or the walk enters an operand it stands on, or the second
  slot descends.
\<close>

definition room :: "expr \<Rightarrow> slot \<Rightarrow> nat" where
  "room t p = Suc (size t) - length p"

definition off_type :: "expr_type \<Rightarrow> expr \<Rightarrow> slot \<Rightarrow> nat" where
  "off_type ty t p = (if map_option type_of (sub t p) = Some ty then 0 else 1)"

lemma room_step:
  "sub t p = Some e \<Longrightarrow> binary_type (type_of e) \<Longrightarrow> size t' \<le> size t \<Longrightarrow> room t' (p @ [d]) < room t p"
  using sub_binary_child(2)[of t p e] by (simp add: room_def)

lemma room_mono: "size t' \<le> size t \<Longrightarrow> room t' p \<le> room t p"
  by (simp add: room_def)

lemma off_type_le: "type_of e \<noteq> ty \<Longrightarrow> sub t p = Some e \<Longrightarrow> off_type ty t' p \<le> off_type ty t p"
  by (simp add: off_type_def)

lemma off_type_self: "type_of e \<noteq> ty \<Longrightarrow> sub t p = Some e \<Longrightarrow>
    off_type (type_of e) t p < off_type ty t p"
  by (simp add: off_type_def)

abbreviation "dups_measures \<equiv> measures
  [\<lambda>(st, ty, p1, p2, t, c). room t p1, \<lambda>(st, ty, p1, p2, t, c). off_type ty t p1,
   \<lambda>(st, ty, p1, p2, t, c). room t p2]"

lemma dups1_size_dest:
  "(t', c') = z \<Longrightarrow> z = expr_eliminate_dups1 st ty p1 p2 t c \<Longrightarrow>
   expr_eliminate_dups1_dom (st, ty, p1, p2, t, c) \<Longrightarrow> size t' \<le> size t"
  using expr_eliminate_dups1_psize[of st ty p1 p2 t c] by (metis fst_conv)

lemma expr_eliminate_dups1_total: "All expr_eliminate_dups1_dom"
proof (rule "expr_eliminate_dups1.termination"[where R = dups_measures], goal_cases)
  case (2 st ty p1 p2 t c x y e1 e2)
  then have "room t (p1 @ [L]) < room t p1" by (intro room_step) auto
  then show ?case by simp
next
  case (3 st ty p1 p2 t c x y e1 e2 z t' c')
  then have "size t' \<le> size t" by - (erule (2) dups1_size_dest)
  with 3 have "room t' (p1 @ [R]) < room t p1" by (intro room_step) auto
  then show ?case by simp
next
  case (4 st ty p1 p2 t c x y e1 e2)
  then have "room t (p2 @ [L]) < room t p2" by (intro room_step) auto
  then show ?case by simp
next
  case (5 st ty p1 p2 t c x y e1 e2 z t' c')
  then have "size t' \<le> size t" by - (erule (2) dups1_size_dest)
  moreover from 5 have "sub t p1 = Some e1" "sub t p2 = Some e2" by simp_all
  moreover from 5 have "type_of e1 \<noteq> ty" "type_of e2 = ty" "binary_type ty" by blast+
  ultimately have "room t' (p2 @ [R]) < room t p2" "room t' p1 \<le> room t p1"
      "off_type ty t' p1 \<le> off_type ty t p1"
    by (auto intro!: room_step room_mono off_type_le)
  then show ?case by auto
next
  case (6 st ty p1 p2 t c x y e1 e2)
  then have "sub t p1 = Some e1" "type_of e1 \<noteq> ty" by auto
  then have "off_type (type_of e1) t p1 < off_type ty t p1" by (intro off_type_self)
  then show ?case by simp
qed simp

termination expr_eliminate_dups1
  by (rule expr_eliminate_dups1_total)

lemmas expr_eliminate_dups1_size = expr_eliminate_dups1_psize[OF expr_eliminate_dups1_total[THEN spec]]

declare expr_eliminate_dups1.simps [simp del]

section \<open>Every merge leaves a constant to remove\<close>

definition is_yn :: "expr \<Rightarrow> bool" where
  "is_yn e \<longleftrightarrow> e = E_SYMBOL symbol_yes \<or> e = E_SYMBOL symbol_no"

fun redex :: "expr \<Rightarrow> bool" where
  "redex (E_AND a b) = (is_yn a \<or> is_yn b \<or> redex a \<or> redex b)"
| "redex (E_OR a b) = (is_yn a \<or> is_yn b \<or> redex a \<or> redex b)"
| "redex e = False"

lemma redex_shrinks: "redex e \<Longrightarrow> size (expr_eliminate_yn e) < size e"
proof (induction e rule: redex.induct)
  case (1 a b)
  then show ?case
    using expr_eliminate_yn_size[of a] expr_eliminate_yn_size[of b]
    by (auto simp: Let_def is_yn_def)
next
  case (2 a b)
  then show ?case
    using expr_eliminate_yn_size[of a] expr_eliminate_yn_size[of b]
    by (auto simp: Let_def is_yn_def)
qed auto

fun bpath :: "expr \<Rightarrow> slot \<Rightarrow> bool" where
  "bpath e [] = True"
| "bpath e (d # p) = (binary_type (type_of e) \<and> (case child e d of None \<Rightarrow> False | Some c \<Rightarrow> bpath c p))"

lemma spine_bpath: "binary_type t \<Longrightarrow> spine t e p \<Longrightarrow> bpath e p"
  by (induction p arbitrary: e) (auto split: option.splits)

lemma redex_set_child:
  "binary_type (type_of e) \<Longrightarrow> redex x \<or> is_yn x \<Longrightarrow> redex (set_child e d x)"
  by (cases e; cases d) (auto simp: binary_type_def)

lemma redex_put: "bpath e p \<Longrightarrow> redex x \<Longrightarrow> redex (put e p x)"
  by (induction p arbitrary: e) (auto simp: redex_set_child split: option.splits)

lemma redex_put_yn: "bpath e p \<Longrightarrow> p \<noteq> [] \<Longrightarrow> is_yn x \<Longrightarrow> redex (put e p x)"
proof (induction p arbitrary: e)
  case (Cons d p)
  then obtain c where c: "child e d = Some c" "bpath c p" by (auto split: option.splits)
  with Cons show ?case by (cases p) (auto simp: redex_set_child split: option.splits)
qed simp

lemma is_yn_eq_const [simp]: "is_yn (eq_const t)"
  by (simp add: is_yn_def eq_const_def)

lemma type_eq_const [simp]: "type_of (eq_const t) = T_SYMBOL"
  by (simp add: eq_const_def)

lemma put_swap:
  "spine t e p1 \<Longrightarrow> sub e p1 = Some e1 \<Longrightarrow> type_of e1 \<noteq> t \<Longrightarrow>
   spine t e p2 \<Longrightarrow> sub e p2 = Some e2 \<Longrightarrow> type_of e2 \<noteq> t \<Longrightarrow> p1 \<noteq> p2 \<Longrightarrow>
   put (put e p1 x) p2 y = put (put e p2 y) p1 x"
proof (induction p1 arbitrary: e p2)
  case Nil
  then show ?case by (cases p2) auto
next
  case (Cons d p)
  then obtain d' q where p2: "p2 = d' # q" by (cases p2) auto
  have swap: "d \<noteq> d' \<Longrightarrow> set_child (set_child e d a) d' b = set_child (set_child e d' b) d a" for a b
    by (cases e; cases d; cases d') auto
  show ?case using Cons p2 swap by (cases "d = d'") (auto split: option.splits)
qed

text \<open>No operand of the expression has the value \<open>m\<close>.\<close>

fun no_mod :: "symtab \<Rightarrow> expr \<Rightarrow> bool" where
  "no_mod st (E_SYMBOL s) = (s_tri (sym_obj st s) \<noteq> Tmod)"
| "no_mod st (E_NOT e) = no_mod st e"
| "no_mod st (E_AND a b) = (no_mod st a \<and> no_mod st b)"
| "no_mod st (E_OR a b) = (no_mod st a \<and> no_mod st b)"
| "no_mod st (E_EQUAL a b) = True"
| "no_mod st (E_UNEQUAL a b) = True"

lemma no_mod_val: "no_mod st e \<Longrightarrow> expr_val st e \<noteq> Tmod"
  by (induction e) (auto simp: tri_and_def tri_or_def intro: tri_not.elims)

lemma no_mod_sub: "no_mod st e \<Longrightarrow> sub e p = Some c \<Longrightarrow> no_mod st c"
proof (induction p arbitrary: e)
  case (Cons d p)
  then obtain f where f: "child e d = Some f" "sub f p = Some c" by (auto split: option.splits)
  with Cons have "no_mod st f" by (cases e; cases d) auto
  with f Cons show ?case by blast
qed simp

lemma no_mod_put: "no_mod st e \<Longrightarrow> no_mod st x \<Longrightarrow> no_mod st (put e p x)"
proof (induction p arbitrary: e)
  case (Cons d p)
  show ?case
  proof (cases "child e d")
    case (Some f)
    then have "no_mod st f" using Cons.prems(1) by (cases e; cases d) auto
    then have "no_mod st (put f p x)" using Cons by blast
    then show ?thesis using Some Cons.prems(1) by (cases e; cases d) auto
  qed (use Cons in simp)
qed simp

lemma no_mod_eliminate_yn: "no_mod st e \<Longrightarrow> no_mod st (expr_eliminate_yn e)"
  by (induction e rule: expr_eliminate_yn.induct) (simp_all add: Let_def)

section \<open>The merging pass\<close>

text \<open>What one walk over the subtree \<open>w\<close> may do: keep the value and the chain of
  operands, and either change nothing or leave a constant behind.\<close>

definition sane :: "symtab \<Rightarrow> bool" where
  "sane st \<longleftrightarrow> bools_ok st \<and> consts_ok st"

definition step_ok :: "symtab \<Rightarrow> expr_type \<Rightarrow> expr \<Rightarrow> nat \<Rightarrow> expr \<Rightarrow> nat \<Rightarrow> bool" where
  "step_ok st ty w c w' c' \<longleftrightarrow>
     (sane st \<longrightarrow> expr_val st w' = expr_val st w) \<and> (no_mod st w \<longrightarrow> no_mod st w') \<and>
     shape ty w' = shape ty w \<and>
     (c' = c \<and> w' = w \<or> c < c' \<and> redex w')"

lemma step_ok_refl: "step_ok st ty w c w c"
  by (simp add: step_ok_def)

lemma step_ok_trans:
  "step_ok st ty w c w' c' \<Longrightarrow> step_ok st ty w' c' w'' c'' \<Longrightarrow> step_ok st ty w c w'' c''"
  by (auto simp: step_ok_def)

lemma step_ok_spine:
  "binary_type ty \<Longrightarrow> step_ok st ty w c w' c' \<Longrightarrow> spine ty w p \<Longrightarrow> spine ty w' p"
  by (simp add: step_ok_def spine_shape_at)

lemma expr_join_val:
  assumes "sane st" "binary_type ty" "expr_join st ty e1 e2 = Some tmp"
  shows "expr_val st tmp = tri_op ty (expr_val st e1) (expr_val st e2)"
  using assms expr_join_or_val[of st e1 e2 tmp] expr_join_and_val[of st e1 e2 tmp]
  by (auto simp: sane_def expr_join_def tri_op_def binary_type_def split: if_splits)

lemma expr_join_type:
  assumes "binary_type ty" "type_of e1 \<noteq> ty" "expr_join st ty e1 e2 = Some tmp"
  shows "type_of tmp \<noteq> ty"
proof -
  have "join_and_tri st s e1 e2 = Some tmp \<Longrightarrow> type_of tmp = T_EQUAL \<or> type_of tmp = T_SYMBOL" for s
    by (induction st s e1 e2 rule: join_and_tri.induct) (auto split: if_splits)
  then show ?thesis using assms
    by (auto simp: expr_join_def expr_join_or_def expr_join_and_def binary_type_def Let_def
        split: if_splits option.splits)
qed

lemma expr_join_no_mod:
  assumes "expr_join st ty e1 e2 = Some tmp" "no_mod st e1" "no_mod st e2"
  shows "no_mod st tmp"
proof -
  have tri: "join_and_tri st s e1 e2 = Some tmp \<Longrightarrow> no_mod st tmp" for s
    by (induction st s e1 e2 rule: join_and_tri.induct) (auto split: if_splits)
  have "no_mod st (E_SYMBOL s)"
    if "join_sym st e1 e2 = Some s" "is_sym e1 \<or> is_sym e2" for s
    using assms(2,3) that join_symD(1,2)[OF that(1)] by (auto dest: is_shapeD)
  with tri assms show ?thesis
    by (auto simp: expr_join_def expr_join_or_def expr_join_and_def Let_def
        split: if_splits option.splits)
qed

lemma join_step:
  assumes b: "binary_type ty"
    and 1: "spine ty w r1" "sub w r1 = Some e1" "type_of e1 \<noteq> ty"
    and 2: "spine ty w r2" "sub w r2 = Some e2" "type_of e2 \<noteq> ty"
    and ne: "r1 \<noteq> r2" and J: "expr_join st ty e1 e2 = Some tmp"
  shows "step_ok st ty w c (put (put w r1 (eq_const ty)) r2 tmp) (Suc c)"
proof -
  let ?c = "eq_const ty" and ?w1 = "put w r1 (eq_const ty)"
  have leaf: "shape ty x = SLeaf" if "type_of x \<noteq> ty" for x using shape_leaf[OF b] that by blast
  have c: "type_of ?c \<noteq> ty" using b by (auto simp: binary_type_def)
  have s1: "shape ty ?w1 = shape ty w" using shape_put[OF 1(2)] leaf[OF 1(3)] leaf[OF c] by simp
  have sp: "spine ty ?w1 r2" using 2(1) s1 by (simp add: spine_shape_at b)
  have e2: "sub ?w1 r2 = Some e2" using spine_put_other[OF 1 2 ne] .
  have s2: "shape ty (put ?w1 r2 tmp) = shape ty w"
    using shape_put[OF e2] leaf[OF 2(3)] leaf[OF expr_join_type[OF b 1(3) J]] s1 by simp
  obtain k where k: "\<And>x. expr_val st (put w r1 x) = tri_op ty (expr_val st x) k"
    using spine_put_val[OF b 1(1), of st] by blast
  obtain l where l: "\<And>x. expr_val st (put ?w1 r2 x) = tri_op ty (expr_val st x) l"
    using spine_put_val[OF b sp, of st] by blast
  have "k = tri_op ty (expr_val st e2) l"
    using k[of ?c] l[of e2] put_sub_same[OF e2] b by simp
  then have v: "sane st \<Longrightarrow> expr_val st (put ?w1 r2 tmp) = expr_val st w"
    using k[of e1] put_sub_same[OF 1(2)] l[of tmp] expr_join_val[OF _ b J] by (simp add: tri_op_ac)
  have "r1 \<noteq> []" using 1 2 ne by (cases r1; cases r2) auto
  moreover have "spine ty (put w r2 tmp) r1"
    using 1(1) shape_put[OF 2(2), of ty tmp] leaf[OF 2(3)] leaf[OF expr_join_type[OF b 1(3) J]]
    by (simp add: spine_shape_at b)
  ultimately have "redex (put (put w r2 tmp) r1 ?c)"
    by (intro redex_put_yn spine_bpath[OF b]) auto
  moreover have "no_mod st w \<Longrightarrow> no_mod st (put ?w1 r2 tmp)"
    using expr_join_no_mod[OF J] no_mod_sub[OF _ 1(2)] no_mod_sub[OF _ 2(2)]
    by (auto intro!: no_mod_put simp: eq_const_def)
  ultimately show ?thesis using v s2 put_swap[OF 1 2 ne, of ?c tmp] by (simp add: step_ok_def)
qed

text \<open>A change of the operand at \<open>r\<close> is a change of the whole chain.\<close>

lemma step_ok_operand:
  assumes b: "binary_type ty" and 1: "spine ty w r" "sub w r = Some e" "type_of e \<noteq> ty"
    and S: "step_ok st (type_of e) e c e' c'" and b': "binary_type (type_of e)"
  shows "step_ok st ty w c (put w r e') c'" "type_of e' \<noteq> ty"
proof -
  have "shape (type_of e) e \<noteq> SLeaf" using shape_leaf[OF b'] by blast
  then have "type_of e' = type_of e" using S shape_leaf[OF b', of e'] by (auto simp: step_ok_def)
  then show ty: "type_of e' \<noteq> ty" using 1(3) by simp
  obtain k where k: "\<And>x. expr_val st (put w r x) = tri_op ty (expr_val st x) k"
    using spine_put_val[OF b 1(1), of st] by blast
  have "shape ty (put w r e') = shape ty w"
    using shape_put[OF 1(2)] shape_leaf[OF b, of e] shape_leaf[OF b, of e'] ty 1(3) by simp
  moreover have "sane st \<Longrightarrow> expr_val st (put w r e') = expr_val st w"
    using S k[of e'] k[of e] put_sub_same[OF 1(2)] by (simp add: step_ok_def)
  moreover have "no_mod st w \<Longrightarrow> no_mod st (put w r e')"
    using S no_mod_sub[OF _ 1(2)] by (auto intro!: no_mod_put simp: step_ok_def)
  ultimately show "step_ok st ty w c (put w r e') c'"
    using S redex_put[OF spine_bpath[OF b 1(1)]] put_sub_same[OF 1(2)] by (auto simp: step_ok_def)
qed

lemma dups1_join_ok:
  assumes b: "binary_type ty" and q: "sub t q = Some w"
    and 1: "spine ty w r1" "sub w r1 = Some e1" "type_of e1 \<noteq> ty"
    and 2: "spine ty w r2" "sub w r2 = Some e2" "type_of e2 \<noteq> ty" and ne: "r1 \<noteq> r2"
  shows "\<exists>w' c'. dups1_join st ty (q @ r1) (q @ r2) t c = (put t q w', c') \<and> step_ok st ty w c w' c'"
proof (cases "expr_join st ty e1 e2")
  case None
  then have "dups1_join st ty (q @ r1) (q @ r2) t c = (put t q w, c)"
    using q 1 2 put_sub_same[OF q] by (simp add: dups1_join_def sub_append)
  then show ?thesis using step_ok_refl by blast
next
  case (Some tmp)
  have "put (put t (q @ r1) (eq_const ty)) (q @ r2) tmp
      = put t q (put (put w r1 (eq_const ty)) r2 tmp)"
    using put_append[OF q, of r1] put_append[OF sub_put_same[OF q], where q = r2] by simp
  then have "dups1_join st ty (q @ r1) (q @ r2) t c
      = (put t q (put (put w r1 (eq_const ty)) r2 tmp), Suc c)"
    using q 1 2 Some by (simp add: dups1_join_def sub_append)
  then show ?thesis using join_step[OF b 1 2 ne Some] by blast
qed

lemma expr_eliminate_dups1_ok:
  "binary_type ty \<Longrightarrow> p1 = q @ r1 \<Longrightarrow> p2 = q @ r2 \<Longrightarrow> sub t q = Some w \<Longrightarrow>
    spine ty w r1 \<Longrightarrow> spine ty w r2 \<Longrightarrow>
    \<exists>w' c'. expr_eliminate_dups1 st ty p1 p2 t c = (put t q w', c') \<and> step_ok st ty w c w' c'"
proof (induction st ty p1 p2 t c arbitrary: q r1 r2 w rule: expr_eliminate_dups1.induct)
  case (1 st ty p1 p2 t c)
  note b = "1.prems"(1) and p = "1.prems"(2,3) and q = "1.prems"(4) and sp = "1.prems"(5,6)
  obtain e1 e2 where w: "sub w r1 = Some e1" "sub w r2 = Some e2" using spine_sub sp by blast
  then have e: "sub t p1 = Some e1" "sub t p2 = Some e2" using p q by (auto simp: sub_append)
  note unf = expr_eliminate_dups1.simps[of st ty p1 p2 t c]
  consider (l) "binary_type ty \<and> type_of e1 = ty"
    | (r) "\<not> (binary_type ty \<and> type_of e1 = ty)" "binary_type ty \<and> type_of e2 = ty"
    | (eq) "\<not> (binary_type ty \<and> type_of e1 = ty)" "\<not> (binary_type ty \<and> type_of e2 = ty)" "p1 = p2"
    | (j) "\<not> (binary_type ty \<and> type_of e1 = ty)" "\<not> (binary_type ty \<and> type_of e2 = ty)" "p1 \<noteq> p2"
    by blast
  then show ?case
  proof cases
    case l
    then have ch: "spine ty w (r1 @ [d])" for d
      using spine_child[OF sp(1) w(1)] children_ex[OF b, of e1] by (cases d) auto
    obtain w1 c1 where A: "expr_eliminate_dups1 st ty (p1 @ [L]) p2 t c = (put t q w1, c1)"
        "step_ok st ty w c w1 c1"
      using "1.IH"(1)[OF refl e l b, of q "r1 @ [L]" r2 w] p q ch sp by auto
    obtain w2 c2 where B: "expr_eliminate_dups1 st ty (p1 @ [R]) p2 (put t q w1) c1 = (put t q w2, c2)"
        "step_ok st ty w1 c1 w2 c2"
      using "1.IH"(2)[OF refl e l A(1)[symmetric] refl b, of q "r1 @ [R]" r2 w1] p
        sub_put_same[OF q] step_ok_spine[OF b A(2)] ch sp by auto
    have "expr_eliminate_dups1 st ty p1 p2 t c = (put t q w2, c2)"
      by (simp only: unf e prod.case option.case if_P[OF l] Let_def A(1) B(1))
    then show ?thesis using step_ok_trans[OF A(2) B(2)] by blast
  next
    case r
    then have ch: "spine ty w (r2 @ [d])" for d
      using spine_child[OF sp(2) w(2)] children_ex[OF b, of e2] by (cases d) auto
    obtain w1 c1 where A: "expr_eliminate_dups1 st ty p1 (p2 @ [L]) t c = (put t q w1, c1)"
        "step_ok st ty w c w1 c1"
      using "1.IH"(3)[OF refl e r b, of q r1 "r2 @ [L]" w] p q ch sp by auto
    obtain w2 c2 where B: "expr_eliminate_dups1 st ty p1 (p2 @ [R]) (put t q w1) c1 = (put t q w2, c2)"
        "step_ok st ty w1 c1 w2 c2"
      using "1.IH"(4)[OF refl e r A(1)[symmetric] refl b, of q r1 "r2 @ [R]" w1] p
        sub_put_same[OF q] step_ok_spine[OF b A(2)] ch sp by auto
    have "expr_eliminate_dups1 st ty p1 p2 t c = (put t q w2, c2)"
      by (simp only: unf e prod.case option.case if_not_P[OF r(1)] if_P[OF r(2)] Let_def A(1) B(1))
    then show ?thesis using step_ok_trans[OF A(2) B(2)] by blast
  next
    case eq
    then have "expr_eliminate_dups1 st ty p1 p2 t c = (put t q w, c)"
      unfolding unf using e put_sub_same[OF q] by auto
    then show ?thesis using step_ok_refl by blast
  next
    case j
    then have ne: "r1 \<noteq> r2" and t1: "type_of e1 \<noteq> ty" and t2: "type_of e2 \<noteq> ty" using p b by auto
    have "\<exists>w1 c1 f. (if binary_type (type_of e1)
        then expr_eliminate_dups1 st (type_of e1) p1 p1 t c else (t, c)) = (put t q w1, c1) \<and>
        step_ok st ty w c w1 c1 \<and> sub w1 r1 = Some f \<and> type_of f \<noteq> ty \<and> sub w1 r2 = Some e2"
    proof (cases "binary_type (type_of e1)")
      case True
      obtain f c1 where F: "expr_eliminate_dups1 st (type_of e1) p1 p1 t c = (put t p1 f, c1)"
          "step_ok st (type_of e1) e1 c f c1"
        using "1.IH"(5)[OF refl e j True True, of p1 "[]" "[]" e1] e by auto
      show ?thesis
        using True F put_append[OF q, of r1 f] p(1) step_ok_operand[OF b sp(1) w(1) t1 F(2) True]
          sub_put_same[OF w(1)] spine_put_other[OF sp(1) w(1) t1 sp(2) w(2) t2 ne] by auto
    next
      case False
      then show ?thesis using put_sub_same[OF q] w t1 step_ok_refl
        by (intro exI[of _ w] exI[of _ c] exI[of _ e1]) simp
    qed
    then obtain w1 c1 f where N: "(if binary_type (type_of e1)
        then expr_eliminate_dups1 st (type_of e1) p1 p1 t c else (t, c)) = (put t q w1, c1)"
        "step_ok st ty w c w1 c1" "sub w1 r1 = Some f" "type_of f \<noteq> ty" "sub w1 r2 = Some e2"
      by blast
    obtain w2 c2 where J: "dups1_join st ty p1 p2 (put t q w1) c1 = (put (put t q w1) q w2, c2)"
        "step_ok st ty w1 c1 w2 c2"
      using dups1_join_ok[OF b sub_put_same[OF q] step_ok_spine[OF b N(2) sp(1)] N(3,4)
          step_ok_spine[OF b N(2) sp(2)] N(5) t2 ne] p by blast
    have "expr_eliminate_dups1 st ty p1 p2 t c = (put t q w2, c2)"
      by (simp only: unf e prod.case option.case if_not_P[OF j(1)] if_not_P[OF j(2)]
          if_not_P[OF j(3)] Let_def N(1) J(1) put_put_same)
    then show ?thesis using step_ok_trans[OF N(2) J(2)] by blast
  qed
qed

end
