(* ===== verification/Kconfig_Elim.thy ===== *)
theory Kconfig_Elim
  imports Kconfig_Dups
begin

text \<open>
  Extracting the operands two expressions share, and the second pass of
  \<open>expr_eliminate_dups\<close>: \<open>expr_eliminate_dups2\<close> replaces an operand by a constant when the
  rest of the chain implies its complement.
\<close>

section \<open>Extracting common operands\<close>

function expr_extract_eq ::
  "symtab \<Rightarrow> expr_type \<Rightarrow> expr option \<Rightarrow> expr \<Rightarrow> expr \<Rightarrow> expr option \<times> expr \<times> expr" where
  "expr_extract_eq st ty ep e1 e2 =
     (if binary_type ty \<and> type_of e1 = ty then
        (case (expr_left e1, expr_right e1) of
           (Some a, Some b) \<Rightarrow>
             (let (ep', a', f2) = expr_extract_eq st ty ep a e2;
                  (ep'', b', g2) = expr_extract_eq st ty ep' b f2
              in (ep'', expr_alloc_two ty a' b', g2))
         | _ \<Rightarrow> (ep, e1, e2))
      else if binary_type ty \<and> type_of e2 = ty then
        (case (expr_left e2, expr_right e2) of
           (Some a, Some b) \<Rightarrow>
             (let (ep', f1, a') = expr_extract_eq st ty ep e1 a;
                  (ep'', g1, b') = expr_extract_eq st ty ep' f1 b
              in (ep'', g1, expr_alloc_two ty a' b'))
         | _ \<Rightarrow> (ep, e1, e2))
      else if expr_eq st e1 e2 then
        (Some (case ep of None \<Rightarrow> e1 | Some x \<Rightarrow> expr_alloc_two ty x e1), eq_const ty, eq_const ty)
      else (ep, e1, e2))"
  by pat_completeness auto

lemma expr_extract_eq_psize:
  "expr_extract_eq_dom (st, ty, ep, e1, e2) \<Longrightarrow>
   (case expr_extract_eq st ty ep e1 e2 of (_, f1, f2) \<Rightarrow> size f1 \<le> size e1 \<and> size f2 \<le> size e2)"
proof (induction st ty ep e1 e2 rule: expr_extract_eq.pinduct)
  case (1 st ty ep e1 e2)
  note unf = expr_extract_eq.psimps[OF "1.hyps"]
  consider (l) a b where "binary_type ty \<and> type_of e1 = ty" "expr_left e1 = Some a" "expr_right e1 = Some b"
    | (r) a b where "\<not> (binary_type ty \<and> type_of e1 = ty)" "binary_type ty \<and> type_of e2 = ty"
        "expr_left e2 = Some a" "expr_right e2 = Some b"
    | (n) "\<not> (binary_type ty \<and> type_of e1 = ty)" "\<not> (binary_type ty \<and> type_of e2 = ty)"
    using children_ex[of ty e1] children_ex[of ty e2] by blast
  then show ?case
  proof cases
    case l
    obtain ep' a' f2 where A: "expr_extract_eq st ty ep a e2 = (ep', a', f2)" by (metis prod_cases3)
    obtain ep'' b' g2 where B: "expr_extract_eq st ty ep' b f2 = (ep'', b', g2)" by (metis prod_cases3)
    have "size a' \<le> size a \<and> size f2 \<le> size e2" using "1.IH"(1)[OF l(1) refl l(2,3)] A by simp
    moreover have "size b' \<le> size b \<and> size g2 \<le> size f2"
      using "1.IH"(2)[OF l(1) refl l(2,3) A[symmetric] refl refl] B by simp
    ultimately show ?thesis using l A B size_children[OF l(2,3)] by (simp add: unf)
  next
    case r
    obtain ep' f1 a' where A: "expr_extract_eq st ty ep e1 a = (ep', f1, a')" by (metis prod_cases3)
    obtain ep'' g1 b' where B: "expr_extract_eq st ty ep' f1 b = (ep'', g1, b')" by (metis prod_cases3)
    have "size f1 \<le> size e1 \<and> size a' \<le> size a" using "1.IH"(3)[OF r(1,2) refl r(3,4)] A by simp
    moreover have "size g1 \<le> size f1 \<and> size b' \<le> size b"
      using "1.IH"(4)[OF r(1,2) refl r(3,4) A[symmetric] refl refl] B by simp
    ultimately show ?thesis using r A B size_children[OF r(3,4)] by (simp add: unf)
  next
    case n
    then show ?thesis by (auto simp: unf)
  qed
qed

lemma extract_size_dest:
  "(ep', y) = z \<Longrightarrow> (f1, f2) = y \<Longrightarrow> z = expr_extract_eq st ty ep e1 e2 \<Longrightarrow>
   expr_extract_eq_dom (st, ty, ep, e1, e2) \<Longrightarrow> size f1 \<le> size e1 \<and> size f2 \<le> size e2"
  using expr_extract_eq_psize[of st ty ep e1 e2] by (auto split: prod.splits)

termination expr_extract_eq
proof (relation "measure (\<lambda>(st, ty, ep, e1, e2). size e1 + size e2)", goal_cases)
  case (3 st ty ep e1 e2 x y a b z ep' w a' f2)
  then have "size f2 \<le> size e2" using extract_size_dest by blast
  then show ?case using 3 size_children[of e1 a b] by auto
next
  case (5 st ty ep e1 e2 x y a b z ep' w f1 a')
  then have "size f1 \<le> size e1" using extract_size_dest by blast
  then show ?case using 5 size_children[of e2 a b] by auto
qed (auto simp: size_children')

declare expr_extract_eq.simps [simp del]

definition opt_val :: "symtab \<Rightarrow> expr_type \<Rightarrow> expr option \<Rightarrow> tristate" where
  "opt_val sv ty ep = expr_val sv (case ep of None \<Rightarrow> eq_const ty | Some e \<Rightarrow> e)"

text \<open>What is taken out of both operands is exactly what is added to \<open>*ep\<close>.\<close>

lemma expr_extract_eq_val:
  "expr_extract_eq st ty ep e1 e2 = (ep', f1, f2) \<Longrightarrow> binary_type ty \<Longrightarrow>
   \<exists>d. expr_val sv e1 = tri_op ty (expr_val sv f1) d \<and> expr_val sv e2 = tri_op ty (expr_val sv f2) d \<and>
       opt_val sv ty ep' = tri_op ty (opt_val sv ty ep) d"
proof (induction st ty ep e1 e2 arbitrary: ep' f1 f2 rule: expr_extract_eq.induct)
  case (1 st ty ep e1 e2)
  note unf = expr_extract_eq.simps[of st ty ep e1 e2] and b = "1.prems"(2)
  consider (l) x y where "binary_type ty \<and> type_of e1 = ty" "expr_left e1 = Some x" "expr_right e1 = Some y"
    | (r) x y where "\<not> (binary_type ty \<and> type_of e1 = ty)" "binary_type ty \<and> type_of e2 = ty"
        "expr_left e2 = Some x" "expr_right e2 = Some y"
    | (n) "\<not> (binary_type ty \<and> type_of e1 = ty)" "\<not> (binary_type ty \<and> type_of e2 = ty)"
    using children_ex[of ty e1] children_ex[of ty e2] by blast
  then show ?case
  proof cases
    case l
    obtain h x' g where A: "expr_extract_eq st ty ep x e2 = (h, x', g)" by (metis prod_cases3)
    obtain h' y' g' where B: "expr_extract_eq st ty h y g = (h', y', g')" by (metis prod_cases3)
    have res: "ep' = h'" "f1 = expr_alloc_two ty x' y'" "f2 = g'"
      using "1.prems"(1) l A B by (auto simp: unf)
    obtain d1 where "expr_val sv x = tri_op ty (expr_val sv x') d1"
        "expr_val sv e2 = tri_op ty (expr_val sv g) d1" "opt_val sv ty h = tri_op ty (opt_val sv ty ep) d1"
      using "1.IH"(1)[OF l(1) refl l(2,3) A b] by blast
    moreover obtain d2 where "expr_val sv y = tri_op ty (expr_val sv y') d2"
        "expr_val sv g = tri_op ty (expr_val sv g') d2" "opt_val sv ty h' = tri_op ty (opt_val sv ty h) d2"
      using "1.IH"(2)[OF l(1) refl l(2,3) A[symmetric] refl refl B b] by blast
    ultimately show ?thesis
      using res b expr_val_children[OF b _ l(2,3), of sv] l(1)
      by (intro exI[of _ "tri_op ty d1 d2"]) (simp add: tri_op_ac)
  next
    case r
    obtain h g x' where A: "expr_extract_eq st ty ep e1 x = (h, g, x')" by (metis prod_cases3)
    obtain h' g' y' where B: "expr_extract_eq st ty h g y = (h', g', y')" by (metis prod_cases3)
    have res: "ep' = h'" "f1 = g'" "f2 = expr_alloc_two ty x' y'"
      using "1.prems"(1) r A B by (auto simp: unf)
    obtain d1 where "expr_val sv e1 = tri_op ty (expr_val sv g) d1"
        "expr_val sv x = tri_op ty (expr_val sv x') d1" "opt_val sv ty h = tri_op ty (opt_val sv ty ep) d1"
      using "1.IH"(3)[OF r(1,2) refl r(3,4) A b] by blast
    moreover obtain d2 where "expr_val sv g = tri_op ty (expr_val sv g') d2"
        "expr_val sv y = tri_op ty (expr_val sv y') d2" "opt_val sv ty h' = tri_op ty (opt_val sv ty h) d2"
      using "1.IH"(4)[OF r(1,2) refl r(3,4) A[symmetric] refl refl B b] by blast
    ultimately show ?thesis
      using res b expr_val_children[OF b _ r(3,4), of sv] r(2)
      by (intro exI[of _ "tri_op ty d1 d2"]) (simp add: tri_op_ac)
  next
    case n
    show ?thesis
    proof (cases "expr_eq st e1 e2")
      case True
      then have "expr_val sv e1 = expr_val sv e2" by (rule expr_eq_sound)
      with True show ?thesis using n "1.prems"(1) b
        by (intro exI[of _ "expr_val sv e1"]) (auto simp: unf opt_val_def split: option.splits)
    next
      case False
      have "tri_op ty d (expr_val sv (eq_const ty)) = d" for d
        using b tri_op_ac(2)[of ty d] by simp
      with False show ?thesis using n "1.prems"(1)
        by (intro exI[of _ "expr_val sv (eq_const ty)"]) (auto simp: unf)
    qed
  qed
qed

definition expr_extract_eq_and :: "symtab \<Rightarrow> expr \<Rightarrow> expr \<Rightarrow> expr option \<times> expr \<times> expr" where
  "expr_extract_eq_and st e1 e2 =
     (let (tmp, f1, f2) = expr_extract_eq st T_AND None e1 e2
      in if tmp \<noteq> None then (tmp, expr_eliminate_yn f1, expr_eliminate_yn f2) else (tmp, f1, f2))"

definition expr_extract_eq_or :: "symtab \<Rightarrow> expr \<Rightarrow> expr \<Rightarrow> expr option \<times> expr \<times> expr" where
  "expr_extract_eq_or st e1 e2 =
     (let (tmp, f1, f2) = expr_extract_eq st T_OR None e1 e2
      in if tmp \<noteq> None then (tmp, expr_eliminate_yn f1, expr_eliminate_yn f2) else (tmp, f1, f2))"

lemma binary_types [simp]: "binary_type T_AND" "binary_type T_OR"
  by (simp_all add: binary_type_def)

lemma expr_extract_eq_and_val:
  assumes "expr_extract_eq_and st e1 e2 = (tmp, f1, f2)"
  shows "expr_val sv e1 = tri_and (opt_val sv T_AND tmp) (expr_val sv f1)"
    "expr_val sv e2 = tri_and (opt_val sv T_AND tmp) (expr_val sv f2)"
proof -
  obtain g1 g2 where g: "expr_extract_eq st T_AND None e1 e2 = (tmp, g1, g2)"
      "expr_val sv f1 = expr_val sv g1" "expr_val sv f2 = expr_val sv g2"
    using assms by (auto simp: expr_extract_eq_and_def split: prod.splits if_splits)
  from expr_extract_eq_val[OF g(1), of sv] obtain d where
    "expr_val sv e1 = tri_op T_AND (expr_val sv g1) d" "expr_val sv e2 = tri_op T_AND (expr_val sv g2) d"
    "opt_val sv T_AND tmp = tri_op T_AND (opt_val sv T_AND None) d" by auto
  moreover have "opt_val sv T_AND None = Tyes" by (simp add: opt_val_def eq_const_def)
  ultimately show "expr_val sv e1 = tri_and (opt_val sv T_AND tmp) (expr_val sv f1)"
    "expr_val sv e2 = tri_and (opt_val sv T_AND tmp) (expr_val sv f2)"
    using g(2,3) by (simp_all add: tri_op_def tri_and_comm)
qed

lemma tri_or_comm: "tri_or a b = tri_or b a"
  by (simp add: tri_or_max max.commute)

lemma expr_extract_eq_or_val:
  assumes "expr_extract_eq_or st e1 e2 = (tmp, f1, f2)"
  shows "expr_val sv e1 = tri_or (opt_val sv T_OR tmp) (expr_val sv f1)"
    "expr_val sv e2 = tri_or (opt_val sv T_OR tmp) (expr_val sv f2)"
proof -
  obtain g1 g2 where g: "expr_extract_eq st T_OR None e1 e2 = (tmp, g1, g2)"
      "expr_val sv f1 = expr_val sv g1" "expr_val sv f2 = expr_val sv g2"
    using assms by (auto simp: expr_extract_eq_or_def split: prod.splits if_splits)
  from expr_extract_eq_val[OF g(1), of sv] obtain d where
    "expr_val sv e1 = tri_op T_OR (expr_val sv g1) d" "expr_val sv e2 = tri_op T_OR (expr_val sv g2) d"
    "opt_val sv T_OR tmp = tri_op T_OR (opt_val sv T_OR None) d" by auto
  moreover have "opt_val sv T_OR None = Tno" by (simp add: opt_val_def eq_const_def)
  ultimately show "expr_val sv e1 = tri_or (opt_val sv T_OR tmp) (expr_val sv f1)"
    "expr_val sv e2 = tri_or (opt_val sv T_OR tmp) (expr_val sv f2)"
    using g(2,3) by (simp_all add: tri_op_def tri_or_comm)
qed

section \<open>Cancelling complementary operands\<close>

text \<open>
  The two cases of the \<open>switch\<close> of \<open>expr_eliminate_dups2\<close>, after the nested
  call: the slot \<open>p1\<close> holds a disjunction (\<open>kind = T_OR\<close>) or a conjunction.
\<close>

definition dups2_cut ::
  "symtab \<Rightarrow> expr_type \<Rightarrow> slot \<Rightarrow> slot \<Rightarrow> expr \<Rightarrow> nat \<Rightarrow> expr \<times> nat" where
  "dups2_cut st kind p1 p2 t c =
     (case (sub t p1, sub t p2) of
        (Some e1, Some e2) \<Rightarrow>
          (let tmp1 = expr_transform st (E_NOT (expr_copy e1)); tmp2 = expr_copy e2 in
           if kind = T_OR then
             (case expr_extract_eq_and st tmp1 tmp2 of (tmp, tmp1', tmp2') \<Rightarrow>
                if expr_is_yes (Some tmp1') then (put t p1 (E_SYMBOL symbol_no), Suc c) else (t, c))
           else
             (case expr_extract_eq_or st tmp1 tmp2 of (tmp, tmp1', tmp2') \<Rightarrow>
                if expr_is_no (Some tmp1') then (put t p1 (E_SYMBOL symbol_yes), Suc c) else (t, c)))
      | _ \<Rightarrow> (t, c))"

function expr_eliminate_dups2 ::
  "symtab \<Rightarrow> expr_type \<Rightarrow> slot \<Rightarrow> slot \<Rightarrow> expr \<Rightarrow> nat \<Rightarrow> expr \<times> nat" where
  "expr_eliminate_dups2 st ty p1 p2 t c =
     (case (sub t p1, sub t p2) of
        (Some e1, Some e2) \<Rightarrow>
          if binary_type ty \<and> type_of e1 = ty then
            (let (t', c') = expr_eliminate_dups2 st ty (p1 @ [L]) p2 t c
             in expr_eliminate_dups2 st ty (p1 @ [R]) p2 t' c')
          else
            (let (t1, c1) =
               (if binary_type ty \<and> type_of e2 = ty then
                  (let (t', c') = expr_eliminate_dups2 st ty p1 (p2 @ [L]) t c
                   in expr_eliminate_dups2 st ty p1 (p2 @ [R]) t' c')
                else (t, c))
             in if p1 = p2 then (t1, c1)
                else (case map_option type_of (sub t1 p1) of
                        None \<Rightarrow> (t1, c1)
                      | Some kind \<Rightarrow>
                          if binary_type kind then
                            (let (t2, c2) = expr_eliminate_dups2 st kind p1 p1 t1 c1
                             in dups2_cut st kind p1 p2 t2 c2)
                          else (t1, c1)))
      | _ \<Rightarrow> (t, c))"
  by pat_completeness auto

lemma dups2_cut_size: "size (fst (dups2_cut st kind p1 p2 t c)) \<le> size t"
proof (cases "sub t p1")
  case (Some e1)
  then have "size (put t p1 (E_SYMBOL s)) \<le> size t" for s
    using size_put[OF Some, of "E_SYMBOL s"] by simp
  then show ?thesis by (auto simp: dups2_cut_def Let_def split: option.splits prod.splits)
qed (simp add: dups2_cut_def)

lemma expr_eliminate_dups2_psize:
  "expr_eliminate_dups2_dom (st, ty, p1, p2, t, c) \<Longrightarrow>
   size (fst (expr_eliminate_dups2 st ty p1 p2 t c)) \<le> size t"
proof (induction st ty p1 p2 t c rule: expr_eliminate_dups2.pinduct)
  case (1 st ty p1 p2 t c)
  note unf = expr_eliminate_dups2.psimps[OF "1.hyps"]
  show ?case
  proof (cases "\<exists>e1 e2. sub t p1 = Some e1 \<and> sub t p2 = Some e2")
    case False
    then show ?thesis by (auto simp: unf split: option.splits)
  next
    case True
    then obtain e1 e2 where e: "sub t p1 = Some e1" "sub t p2 = Some e2" by blast
    show ?thesis
    proof (cases "binary_type ty \<and> type_of e1 = ty")
      case l: True
      obtain t' c' where A: "expr_eliminate_dups2 st ty (p1 @ [L]) p2 t c = (t', c')" by fastforce
      have "size t' \<le> size t" using "1.IH"(1)[OF refl e l] A by simp
      moreover have "size (fst (expr_eliminate_dups2 st ty (p1 @ [R]) p2 t' c')) \<le> size t'"
        using "1.IH"(2)[OF refl e l A[symmetric] refl] .
      ultimately show ?thesis
        by (simp only: unf e prod.case option.case if_P[OF l] Let_def A)
    next
      case l: False
      let ?two = "if binary_type ty \<and> type_of e2 = ty
        then let (t', c') = expr_eliminate_dups2 st ty p1 (p2 @ [L]) t c
             in expr_eliminate_dups2 st ty p1 (p2 @ [R]) t' c' else (t, c)"
      obtain t1 c1 where B: "?two = (t1, c1)" by fastforce
      have t1: "size t1 \<le> size t"
      proof (cases "binary_type ty \<and> type_of e2 = ty")
        case r: True
        obtain t' c' where A: "expr_eliminate_dups2 st ty p1 (p2 @ [L]) t c = (t', c')" by fastforce
        have "size t' \<le> size t" using "1.IH"(3)[OF refl e l r] A by simp
        moreover have "size (fst (expr_eliminate_dups2 st ty p1 (p2 @ [R]) t' c')) \<le> size t'"
          using "1.IH"(4)[OF refl e l r A[symmetric] refl] .
        ultimately show ?thesis using B r A by simp
      qed (use B in \<open>auto split: if_splits\<close>)
      show ?thesis
      proof (cases "p1 \<noteq> p2 \<and> (\<exists>k. map_option type_of (sub t1 p1) = Some k \<and> binary_type k)")
        case True
        then obtain k where k: "p1 \<noteq> p2" "map_option type_of (sub t1 p1) = Some k" "binary_type k" by blast
        obtain t2 c2 where C: "expr_eliminate_dups2 st k p1 p1 t1 c1 = (t2, c2)" by fastforce
        have "size t2 \<le> size t1" using "1.IH"(5)[OF refl e l B[symmetric] refl k] C by simp
        moreover have "expr_eliminate_dups2 st ty p1 p2 t c = dups2_cut st k p1 p2 t2 c2"
          by (simp only: unf e prod.case option.case if_not_P[OF l] Let_def B[unfolded Let_def]
              if_not_P[OF k(1)] k(2) if_P[OF k(3)] C)
        ultimately show ?thesis using t1 dups2_cut_size[of st k p1 p2 t2 c2] by simp
      next
        case False
        have "expr_eliminate_dups2 st ty p1 p2 t c = (t1, c1)"
          unfolding unf e prod.case option.case if_not_P[OF l] B Let_def
          unfolding B[unfolded Let_def] using False by (auto split: option.splits)
        then show ?thesis using t1 by simp
      qed
    qed
  qed
qed

lemma dups2_size_dest:
  "(t', c') = z \<Longrightarrow> z = expr_eliminate_dups2 st ty p1 p2 t c \<Longrightarrow>
   expr_eliminate_dups2_dom (st, ty, p1, p2, t, c) \<Longrightarrow> size t' \<le> size t"
  using expr_eliminate_dups2_psize[of st ty p1 p2 t c] by (metis fst_conv)

lemma dups2_two_size:
  assumes "z = (if B then let (t', c') = expr_eliminate_dups2 st ty p1 (p2 @ [L]) t c
         in expr_eliminate_dups2 st ty p1 (p2 @ [R]) t' c' else (t, c))" "(t1, c1) = z"
    and "\<And>x t' c'. B \<Longrightarrow> x = expr_eliminate_dups2 st ty p1 (p2 @ [L]) t c \<Longrightarrow> (t', c') = x \<Longrightarrow>
       expr_eliminate_dups2_dom (st, ty, p1, p2 @ [R], t', c')"
    and "B \<Longrightarrow> expr_eliminate_dups2_dom (st, ty, p1, p2 @ [L], t, c)"
  shows "size t1 \<le> size t"
proof (cases B)
  case True
  obtain t' c' where A: "expr_eliminate_dups2 st ty p1 (p2 @ [L]) t c = (t', c')" by fastforce
  have "size t' \<le> size t" using dups2_size_dest[OF A[symmetric] refl assms(4)[OF True]] .
  moreover have "(t1, c1) = expr_eliminate_dups2 st ty p1 (p2 @ [R]) t' c'"
    using assms(1,2) True A by simp
  then have "size t1 \<le> size t'"
    using dups2_size_dest[OF _ refl assms(3)[OF True A[symmetric] refl]] by blast
  ultimately show ?thesis by simp
qed (use assms(1,2) in simp)

lemma expr_eliminate_dups2_total: "All expr_eliminate_dups2_dom"
proof (rule "expr_eliminate_dups2.termination"[where R = dups_measures], goal_cases)
  case (2 st ty p1 p2 t c x y e1 e2)
  then have "room t (p1 @ [L]) < room t p1" by (intro room_step) auto
  then show ?case by simp
next
  case (3 st ty p1 p2 t c x y e1 e2 z t' c')
  then have "size t' \<le> size t" by - (erule (2) dups2_size_dest)
  with 3 have "room t' (p1 @ [R]) < room t p1" by (intro room_step) auto
  then show ?case by simp
next
  case (4 st ty p1 p2 t c x y e1 e2)
  then have "room t (p2 @ [L]) < room t p2" by (intro room_step) auto
  then show ?case by simp
next
  case (5 st ty p1 p2 t c x y e1 e2 z t' c')
  then have "size t' \<le> size t" by - (erule (2) dups2_size_dest)
  moreover from 5 have "sub t p1 = Some e1" "sub t p2 = Some e2" by simp_all
  moreover from 5 have "type_of e1 \<noteq> ty" "type_of e2 = ty" "binary_type ty" by blast+
  ultimately have "room t' (p2 @ [R]) < room t p2" "room t' p1 \<le> room t p1"
      "off_type ty t' p1 \<le> off_type ty t p1"
    by (auto intro!: room_step room_mono off_type_le)
  then show ?case by auto
next
  case (6 st ty p1 p2 t c x y e1 e2 z t1 c1 k)
  have "size t1 \<le> size t" by (rule dups2_two_size[OF 6(5,6)]) (use 6(10,11) in blast)+
  then have "room t1 p1 \<le> room t p1" by (rule room_mono)
  moreover have "off_type k t1 p1 < off_type ty t p1"
    using 6 by (auto simp: off_type_def)
  ultimately show ?case by auto
qed simp

termination expr_eliminate_dups2
  by (rule expr_eliminate_dups2_total)

lemmas expr_eliminate_dups2_size = expr_eliminate_dups2_psize[OF expr_eliminate_dups2_total[THEN spec]]

declare expr_eliminate_dups2.simps [simp del]

end
