(* ===== verification/Kconfig_Dups2.thy ===== *)
theory Kconfig_Dups2
  imports Kconfig_Elim
begin

text \<open>
  Soundness of \<open>expr_eliminate_dups2\<close> and of the loop \<open>expr_eliminate_dups\<close> of
  \<open>openwrt/scripts/config/expr.c\<close>, which repeats the two passes until neither finds
  anything to do.
\<close>

section \<open>Steps of the second pass\<close>

definition step2_ok :: "symtab \<Rightarrow> expr_type \<Rightarrow> expr \<Rightarrow> nat \<Rightarrow> expr \<Rightarrow> nat \<Rightarrow> bool" where
  "step2_ok st ty w c w' c' \<longleftrightarrow>
     (sane st \<and> no_mod st w \<longrightarrow> expr_val st w' = expr_val st w \<and> no_mod st w') \<and>
     shape ty w' = shape ty w \<and> (c' = c \<and> w' = w \<or> c < c' \<and> redex w')"

lemma step2_ok_refl: "step2_ok st ty w c w c"
  by (simp add: step2_ok_def)

lemma step2_ok_trans:
  "step2_ok st ty w c w' c' \<Longrightarrow> step2_ok st ty w' c' w'' c'' \<Longrightarrow> step2_ok st ty w c w'' c''"
  by (auto simp: step2_ok_def)

lemma step2_ok_spine:
  "binary_type ty \<Longrightarrow> step2_ok st ty w c w' c' \<Longrightarrow> spine ty w p \<Longrightarrow> spine ty w' p"
  by (simp add: step2_ok_def spine_shape_at)

lemma step2_ok_leaf:
  assumes b: "binary_type ty" and S: "step2_ok st ty w c w' c'"
    and 1: "spine ty w p" "sub w p = Some e" "type_of e \<noteq> ty"
  shows "\<exists>f. sub w' p = Some f \<and> type_of f \<noteq> ty"
proof -
  obtain f where f: "sub w' p = Some f" using spine_sub[OF step2_ok_spine[OF b S 1(1)]] by blast
  have "shape ty f = shape ty e"
    using shape_at_sub[OF b 1(1,2)] shape_at_sub[OF b step2_ok_spine[OF b S 1(1)] f] S
    by (simp add: step2_ok_def)
  with f 1(3) shape_leaf[OF b] show ?thesis by metis
qed

lemma step2_ok_operand:
  assumes b: "binary_type ty" and 1: "spine ty w r" "sub w r = Some e" "type_of e \<noteq> ty"
    and S: "step2_ok st (type_of e) e c e' c'" and b': "binary_type (type_of e)"
  shows "step2_ok st ty w c (put w r e') c'" "type_of e' = type_of e"
proof -
  have "shape (type_of e) e \<noteq> SLeaf" using shape_leaf[OF b'] by blast
  then show ty: "type_of e' = type_of e" using S shape_leaf[OF b', of e'] by (auto simp: step2_ok_def)
  obtain k where k: "\<And>x. expr_val st (put w r x) = tri_op ty (expr_val st x) k"
    using spine_put_val[OF b 1(1), of st] by blast
  have "shape ty (put w r e') = shape ty w"
    using shape_put[OF 1(2)] shape_leaf[OF b, of e] shape_leaf[OF b, of e'] ty 1(3) by simp
  moreover have "expr_val st (put w r e') = expr_val st w \<and> no_mod st (put w r e')"
    if "sane st" "no_mod st w"
  proof -
    have "expr_val st e' = expr_val st e" "no_mod st e'"
      using S that no_mod_sub[OF that(2) 1(2)] by (simp_all add: step2_ok_def)
    then show ?thesis using k[of e'] k[of e] put_sub_same[OF 1(2)] no_mod_put[OF that(2)] by simp
  qed
  ultimately show "step2_ok st ty w c (put w r e') c'"
    using S redex_put[OF spine_bpath[OF b 1(1)]] put_sub_same[OF 1(2)] by (auto simp: step2_ok_def)
qed

text \<open>
  Replacing the operand at \<open>r1\<close> by the absorbing constant of the chain is sound as
  soon as the operand at \<open>r2\<close> implies its complement.
\<close>

definition absorbing :: "expr_type \<Rightarrow> expr" where
  "absorbing ty = (if ty = T_AND then E_SYMBOL symbol_no else E_SYMBOL symbol_yes)"

lemma absorb_step:
  assumes b: "binary_type ty" and 1: "spine ty w r1" "sub w r1 = Some e1" "type_of e1 \<noteq> ty" "r1 \<noteq> []"
    and 2: "spine ty w r2" "sub w r2 = Some e2"
    and imp: "sane st \<Longrightarrow> tri_op ty (expr_val st e2) (tri_not (expr_val st e1)) = expr_val st e2"
  shows "step2_ok st ty w c (put w r1 (absorbing ty)) (Suc c)"
proof -
  obtain k where k: "\<And>x. expr_val st (put w r1 x) = tri_op ty (expr_val st x) k"
    using spine_put_val[OF b 1(1), of st] by blast
  obtain l where l: "\<And>x. expr_val st (put w r2 x) = tri_op ty (expr_val st x) l"
    using spine_put_val[OF b 2(1), of st] by blast
  have ta: "type_of (absorbing ty) \<noteq> ty" using b by (auto simp: absorbing_def binary_type_def)
  have w1: "expr_val st w = tri_op ty (expr_val st e1) k" using k[of e1] put_sub_same[OF 1(2)] by simp
  have w2: "expr_val st w = tri_op ty (expr_val st e2) l" using l[of e2] put_sub_same[OF 2(2)] by simp
  have "expr_val st (put w r1 (absorbing ty)) = expr_val st w" if "sane st" "no_mod st w"
  proof -
    have "expr_val st e1 \<noteq> Tmod" using no_mod_val no_mod_sub[OF that(2) 1(2)] by blast
    then show ?thesis using imp[OF that(1)] k[of "absorbing ty"] w1 w2 b
      by (cases "expr_val st e1"; cases "expr_val st e2"; cases l; cases k)
         (auto simp: tri_op_def absorbing_def binary_type_def split: if_splits)
  qed
  moreover have "shape ty (put w r1 (absorbing ty)) = shape ty w"
    using shape_put[OF 1(2), of ty "absorbing ty"] shape_leaf[OF b, of e1]
      shape_leaf[OF b, of "absorbing ty"] ta 1(3) by simp
  moreover have "redex (put w r1 (absorbing ty))"
    using redex_put_yn[OF spine_bpath[OF b 1(1)] 1(4)] by (simp add: absorbing_def is_yn_def)
  moreover have "no_mod st w \<Longrightarrow> no_mod st (put w r1 (absorbing ty))"
    by (intro no_mod_put) (auto simp: absorbing_def)
  ultimately show ?thesis by (auto simp: step2_ok_def)
qed


lemma dups2_cut_ok:
  assumes b: "binary_type ty" and q: "sub t q = Some w" and bk: "binary_type (type_of e1)"
    and 1: "spine ty w r1" "sub w r1 = Some e1" "type_of e1 \<noteq> ty"
    and 2: "spine ty w r2" "sub w r2 = Some e2" and ne: "r1 \<noteq> r2"
  shows "\<exists>w' c'. dups2_cut st (type_of e1) (q @ r1) (q @ r2) t c = (put t q w', c') \<and>
    step2_ok st ty w c w' c'"
proof -
  let ?f = "expr_transform st (E_NOT e1)"
  have r1: "r1 \<noteq> []"
  proof
    assume r1: "r1 = []"
    with ne obtain d r where "r2 = d # r" by (cases r2) auto
    with r1 1 2(1) show False by simp
  qed
  have keep: "\<exists>w' c'. (t, c) = (put t q w', c') \<and> step2_ok st ty w c w' c'"
    using put_sub_same[OF q] step2_ok_refl by metis
  have cut: "\<exists>w' c'. (put t (q @ r1) (absorbing ty), Suc c) = (put t q w', c') \<and> step2_ok st ty w c w' c'"
    if "sane st \<Longrightarrow> tri_op ty (expr_val st e2) (expr_val st ?f) = expr_val st e2"
    using absorb_step[OF b 1 r1 2, of st c] that put_append[OF q, of r1 "absorbing ty"]
      expr_transform_val[of st "E_NOT e1"] by (auto simp: sane_def)
  have e: "sub t (q @ r1) = Some e1" "sub t (q @ r2) = Some e2" using 1 2 q by (auto simp: sub_append)
  consider (disj) "type_of e1 = T_OR" "ty = T_AND" | (conj) "type_of e1 = T_AND" "ty = T_OR"
    using b bk 1(3) by (auto simp: binary_type_def)
  then show ?thesis
  proof cases
    case disj
    obtain tmp f1 f2 where X: "expr_extract_eq_and st ?f e2 = (tmp, f1, f2)" by (metis prod_cases3)
    note V = expr_extract_eq_and_val[OF X, of st]
    have "expr_is_yes (Some f1) \<Longrightarrow> expr_val st f1 = Tyes" by (auto simp: expr_is_yes_def)
    with V have "expr_is_yes (Some f1) \<Longrightarrow> tri_and (expr_val st e2) (expr_val st ?f) = expr_val st e2"
      by (cases "expr_val st f1"; cases "expr_val st f2"; cases "opt_val st T_AND tmp") auto
    then show ?thesis using keep cut X disj e
      by (simp add: dups2_cut_def absorbing_def tri_op_def Let_def)
  next
    case conj
    obtain tmp f1 f2 where X: "expr_extract_eq_or st ?f e2 = (tmp, f1, f2)" by (metis prod_cases3)
    note V = expr_extract_eq_or_val[OF X, of st]
    have "expr_is_no (Some f1) \<Longrightarrow> expr_val st f1 = Tno" by (auto simp: expr_is_no_def)
    with V have "expr_is_no (Some f1) \<Longrightarrow> tri_or (expr_val st e2) (expr_val st ?f) = expr_val st e2"
      by (cases "expr_val st f1"; cases "expr_val st f2"; cases "opt_val st T_OR tmp") auto
    then show ?thesis using keep cut X conj e
      by (simp add: dups2_cut_def absorbing_def tri_op_def Let_def)
  qed
qed

section \<open>The second pass\<close>

text \<open>
  The recursion over the operands below \<open>p2\<close>: two calls threaded through the state.
\<close>

lemma dups2_seq_ok:
  assumes b: "binary_type ty" and q: "sub t q = Some w"
    and A: "\<exists>w1 c1. f t c = (put t q w1, c1) \<and> step2_ok st ty w c w1 c1"
    and B: "\<And>w1 c1. f t c = (put t q w1, c1) \<Longrightarrow> step2_ok st ty w c w1 c1 \<Longrightarrow>
       \<exists>w2 c2. g (put t q w1) c1 = (put (put t q w1) q w2, c2) \<and> step2_ok st ty w1 c1 w2 c2"
  shows "\<exists>w2 c2. (let (t', c') = f t c in g t' c') = (put t q w2, c2) \<and> step2_ok st ty w c w2 c2"
proof -
  from A obtain w1 c1 where 1: "f t c = (put t q w1, c1)" "step2_ok st ty w c w1 c1" by blast
  from B[OF this] obtain w2 c2 where
    "g (put t q w1) c1 = (put (put t q w1) q w2, c2)" "step2_ok st ty w1 c1 w2 c2" by blast
  then show ?thesis using 1(1) step2_ok_trans[OF 1(2)]
    by (intro exI[of _ w2] exI[of _ c2]) simp
qed

text \<open>The nested call on the operand, followed by the cancellation.\<close>

lemma dups2_tail_ok:
  assumes b: "binary_type ty" and q: "sub t q = Some w"
    and 1: "spine ty w r1" "sub w r1 = Some e1" "type_of e1 \<noteq> ty"
    and 2: "spine ty w r2" and ne: "r1 \<noteq> r2" and bk: "binary_type (type_of e1)"
    and N: "\<exists>f c1. g t c = (put t (q @ r1) f, c1) \<and> step2_ok st (type_of e1) e1 c f c1"
  shows "\<exists>w' c'. (let (t2, c2) = g t c in dups2_cut st (type_of e1) (q @ r1) (q @ r2) t2 c2)
      = (put t q w', c') \<and> step2_ok st ty w c w' c'"
proof -
  from N obtain f c1 where F: "g t c = (put t (q @ r1) f, c1)" "step2_ok st (type_of e1) e1 c f c1"
    by blast
  note S = step2_ok_operand[OF b 1 F(2) bk]
  have sp: "spine ty (put w r1 f) r1" "spine ty (put w r1 f) r2"
    using step2_ok_spine[OF b S(1)] 1(1) 2 by auto
  then obtain e2 where e2: "sub (put w r1 f) r2 = Some e2" using spine_sub by blast
  have tq: "sub (put t q (put w r1 f)) q = Some (put w r1 f)" using q by simp
  from dups2_cut_ok[OF b tq _ sp(1) sub_put_same[OF 1(2)] _ sp(2) e2 ne, of st c1]
  obtain w' c' where "dups2_cut st (type_of e1) (q @ r1) (q @ r2) (put t q (put w r1 f)) c1
      = (put (put t q (put w r1 f)) q w', c')" "step2_ok st ty (put w r1 f) c1 w' c'"
    using S(2) bk 1(3) by auto
  then show ?thesis using F(1) put_append[OF q, of r1 f] step2_ok_trans[OF S(1)] by auto
qed

lemma expr_eliminate_dups2_ok:
  "binary_type ty \<Longrightarrow> p1 = q @ r1 \<Longrightarrow> p2 = q @ r2 \<Longrightarrow> sub t q = Some w \<Longrightarrow>
    spine ty w r1 \<Longrightarrow> spine ty w r2 \<Longrightarrow>
    \<exists>w' c'. expr_eliminate_dups2 st ty p1 p2 t c = (put t q w', c') \<and> step2_ok st ty w c w' c'"
proof (induction st ty p1 p2 t c arbitrary: q r1 r2 w rule: expr_eliminate_dups2.induct)
  case (1 st ty p1 p2 t c)
  note b = "1.prems"(1) and p = "1.prems"(2,3) and q = "1.prems"(4) and sp = "1.prems"(5,6)
  obtain e1 e2 where w: "sub w r1 = Some e1" "sub w r2 = Some e2" using spine_sub sp by blast
  then have e: "sub t p1 = Some e1" "sub t p2 = Some e2" using p q by (auto simp: sub_append)
  note unf = expr_eliminate_dups2.simps[of st ty p1 p2 t c]
  show ?case
  proof (cases "binary_type ty \<and> type_of e1 = ty")
    case l: True
    then have ch: "spine ty w (r1 @ [d])" for d
      using spine_child[OF sp(1) w(1)] children_ex[OF b, of e1] by (cases d) auto
    have "\<exists>w2 c2. (let (t', c') = expr_eliminate_dups2 st ty (p1 @ [L]) p2 t c
        in expr_eliminate_dups2 st ty (p1 @ [R]) p2 t' c') = (put t q w2, c2) \<and> step2_ok st ty w c w2 c2"
    proof (rule dups2_seq_ok[OF b q])
      show "\<exists>w1 c1. expr_eliminate_dups2 st ty (p1 @ [L]) p2 t c = (put t q w1, c1) \<and> step2_ok st ty w c w1 c1"
        using "1.IH"(1)[OF refl e l b, of q "r1 @ [L]" r2 w] p q ch sp by auto
    next
      fix w1 c1
      assume A: "expr_eliminate_dups2 st ty (p1 @ [L]) p2 t c = (put t q w1, c1)" "step2_ok st ty w c w1 c1"
      then show "\<exists>w2 c2. expr_eliminate_dups2 st ty (p1 @ [R]) p2 (put t q w1) c1
          = (put (put t q w1) q w2, c2) \<and> step2_ok st ty w1 c1 w2 c2"
        using "1.IH"(2)[OF refl e l A(1)[symmetric] refl b, of q "r1 @ [R]" r2 w1] p
          sub_put_same[OF q] step2_ok_spine[OF b A(2)] ch sp by auto
    qed
    then show ?thesis by (simp only: unf e prod.case option.case if_P[OF l] Let_def)
  next
    case l: False
    then have t1: "type_of e1 \<noteq> ty" using b by blast
    let ?two = "if binary_type ty \<and> type_of e2 = ty
      then let (t', c') = expr_eliminate_dups2 st ty p1 (p2 @ [L]) t c
           in expr_eliminate_dups2 st ty p1 (p2 @ [R]) t' c' else (t, c)"
    have "\<exists>w1 c1. ?two = (put t q w1, c1) \<and> step2_ok st ty w c w1 c1"
    proof (cases "binary_type ty \<and> type_of e2 = ty")
      case r: True
      then have ch: "spine ty w (r2 @ [d])" for d
        using spine_child[OF sp(2) w(2)] children_ex[OF b, of e2] by (cases d) auto
      show ?thesis unfolding if_P[OF r]
      proof (rule dups2_seq_ok[OF b q])
        show "\<exists>w1 c1. expr_eliminate_dups2 st ty p1 (p2 @ [L]) t c = (put t q w1, c1) \<and> step2_ok st ty w c w1 c1"
          using "1.IH"(3)[OF refl e l r b, of q r1 "r2 @ [L]" w] p q ch sp by auto
      next
        fix w1 c1
        assume A: "expr_eliminate_dups2 st ty p1 (p2 @ [L]) t c = (put t q w1, c1)" "step2_ok st ty w c w1 c1"
        then show "\<exists>w2 c2. expr_eliminate_dups2 st ty p1 (p2 @ [R]) (put t q w1) c1
            = (put (put t q w1) q w2, c2) \<and> step2_ok st ty w1 c1 w2 c2"
          using "1.IH"(4)[OF refl e l r A(1)[symmetric] refl b, of q r1 "r2 @ [R]" w1] p
            sub_put_same[OF q] step2_ok_spine[OF b A(2)] ch sp by auto
      qed
    next
      case False
      then show ?thesis using put_sub_same[OF q] step2_ok_refl by (metis (no_types, lifting))
    qed
    then obtain w1 c1 where B: "?two = (put t q w1, c1)" and S: "step2_ok st ty w c w1 c1" by blast
    obtain f where f: "sub w1 r1 = Some f" "type_of f \<noteq> ty" using step2_ok_leaf[OF b S sp(1) w(1) t1] by blast
    have q1: "sub (put t q w1) q = Some w1" using q by simp
    have tf: "sub (put t q w1) p1 = Some f" using q1 f p(1) by (simp add: sub_append)
    show ?thesis
    proof (cases "p1 \<noteq> p2 \<and> binary_type (type_of f)")
      case True
      have k: "map_option type_of (sub (put t q w1) p1) = Some (type_of f)" using tf by simp
      have N: "\<exists>g d. expr_eliminate_dups2 st (type_of f) p1 p1 (put t q w1) c1
          = (put (put t q w1) (q @ r1) g, d) \<and> step2_ok st (type_of f) f c1 g d"
        using "1.IH"(5)[OF refl e l B[symmetric] refl _ k _ _, of p1 "[]" "[]" f] True tf p(1) by auto
      have ne: "r1 \<noteq> r2" using True p by auto
      note T = dups2_tail_ok[where g = "expr_eliminate_dups2 st (type_of f) p1 p1" and c = c1, OF b q1 step2_ok_spine[OF b S sp(1)] f step2_ok_spine[OF b S sp(2)] ne _ N]
      have "expr_eliminate_dups2 st ty p1 p2 t c =
          (let (t2, c2) = expr_eliminate_dups2 st (type_of f) p1 p1 (put t q w1) c1
           in dups2_cut st (type_of f) (q @ r1) (q @ r2) t2 c2)"
        using True by (simp only: unf e prod.case option.case if_not_P[OF l] Let_def B[unfolded Let_def]
            k if_False if_True p[symmetric] simp_thms)
      then show ?thesis using T True step2_ok_trans[OF S] by fastforce
    next
      case False
      have "expr_eliminate_dups2 st ty p1 p2 t c = (put t q w1, c1)"
        unfolding unf e prod.case option.case if_not_P[OF l] B Let_def
        unfolding B[unfolded Let_def] using False tf by auto
      then show ?thesis using S by blast
    qed
  qed
qed

section \<open>The loop\<close>

text \<open>
  One round of the \<open>while (1)\<close> of \<open>expr_eliminate_dups\<close>: the tree after both passes and
  the value of \<open>trans_count\<close>, which the round starts at 0.
\<close>

definition dups_round :: "symtab \<Rightarrow> expr \<Rightarrow> expr \<times> nat" where
  "dups_round st e =
     (if binary_type (type_of e) then
        (let (t, c) = expr_eliminate_dups1 st (type_of e) [] [] e 0
         in expr_eliminate_dups2 st (type_of t) [] [] t c)
      else (e, 0))"

lemma step_ok_type:
  "binary_type ty \<Longrightarrow> shape ty w' = shape ty w \<Longrightarrow> type_of w = ty \<Longrightarrow> type_of w' = ty"
  using shape_leaf by metis

lemma step_ok_step2: "step_ok st ty w c w' c' \<Longrightarrow> step2_ok st ty w c w' c'"
  by (auto simp: step_ok_def step2_ok_def)

lemma dups_round_ok:
  assumes b: "binary_type (type_of e)" and r: "dups_round st e = (e', c)"
  obtains t d where "expr_eliminate_dups1 st (type_of e) [] [] e 0 = (t, d)"
    "step_ok st (type_of e) e 0 t d" "step2_ok st (type_of e) t d e' c"
proof -
  obtain t d where 1: "expr_eliminate_dups1 st (type_of e) [] [] e 0 = (t, d)" "step_ok st (type_of e) e 0 t d"
    using expr_eliminate_dups1_ok[OF b, of "[]" "[]" "[]" "[]" "[]" e e st 0]
    by (simp only: append.simps sub.simps put.simps spine.simps simp_thms) blast
  then have ty: "type_of t = type_of e" using step_ok_type[OF b, of t e] by (simp add: step_ok_def)
  obtain t' d' where "expr_eliminate_dups2 st (type_of e) [] [] t d = (t', d')" "step2_ok st (type_of e) t d t' d'"
    using expr_eliminate_dups2_ok[OF b, of "[]" "[]" "[]" "[]" "[]" t t st d]
    by (simp only: append.simps sub.simps put.simps spine.simps simp_thms) blast
  with 1 r b ty have "step2_ok st (type_of e) t d e' c" by (simp add: dups_round_def)
  with 1 that show ?thesis by blast
qed

lemma dups_round_count:
  assumes r: "dups_round st e = (e', c)"
  shows "c = 0 \<and> e' = e \<or> 0 < c \<and> redex e'"
proof (cases "binary_type (type_of e)")
  case True
  from dups_round_ok[OF True r] show ?thesis by (auto simp: step_ok_def step2_ok_def)
qed (use r in \<open>simp add: dups_round_def\<close>)

lemma dups_round_size:
  assumes r: "dups_round st e = (e', c)" shows "size e' \<le> size e"
proof (cases "binary_type (type_of e)")
  case True
  obtain t d where "expr_eliminate_dups1 st (type_of e) [] [] e 0 = (t, d)" by fastforce
  then show ?thesis
    using expr_eliminate_dups1_size[of st "type_of e" "[]" "[]" e 0] True r
      expr_eliminate_dups2_size[of st "type_of t" "[]" "[]" t d]
    by (simp add: dups_round_def)
qed (use r in \<open>simp add: dups_round_def\<close>)

function dups_loop :: "symtab \<Rightarrow> expr \<Rightarrow> expr" where
  "dups_loop st e =
     (let (e', trans_count) = dups_round st e
      in if trans_count = 0 then e' else dups_loop st (expr_eliminate_yn e'))"
  by pat_completeness auto
termination
proof (relation "measure (size \<circ> snd)", goal_cases)
  case (2 st e x e' c)
  then have "dups_round st e = (e', c)" "c \<noteq> 0" by auto
  then show ?case
    using dups_round_count[of st e e' c] dups_round_size[of st e e' c] redex_shrinks[of e'] by simp
qed simp

declare dups_loop.simps [simp del]

definition expr_eliminate_dups :: "symtab \<Rightarrow> expr option \<Rightarrow> expr option" where
  "expr_eliminate_dups st e = map_option (dups_loop st) e"

lemma dups_round_val:
  assumes "dups_round st e = (e', c)" "sane st" "no_mod st e"
  shows "expr_val st e' = expr_val st e \<and> no_mod st e'"
proof (cases "binary_type (type_of e)")
  case True
  obtain t d where 1: "step_ok st (type_of e) e 0 t d" "step2_ok st (type_of e) t d e' c"
    using dups_round_ok[OF True assms(1)] by blast
  have "step2_ok st (type_of e) e 0 e' c" by (rule step2_ok_trans[OF step_ok_step2[OF 1(1)] 1(2)])
  with assms(2,3) show ?thesis by (simp add: step2_ok_def)
qed (use assms in \<open>simp add: dups_round_def\<close>)

lemma dups_loop_val:
  "sane st \<Longrightarrow> no_mod st e \<Longrightarrow> expr_val st (dups_loop st e) = expr_val st e"
proof (induction st e rule: dups_loop.induct)
  case (1 st e)
  obtain e' c where r: "dups_round st e = (e', c)" by fastforce
  note v = dups_round_val[OF r "1.prems"]
  show ?case
    using "1.IH"[OF r[symmetric] refl] "1.prems" v no_mod_eliminate_yn[of st e']
    by (subst dups_loop.simps) (simp add: r)
qed

lemma dups_loop_size: "size (dups_loop st e) \<le> size e"
proof (induction st e rule: dups_loop.induct)
  case (1 st e)
  obtain e' c where r: "dups_round st e = (e', c)" by fastforce
  show ?case using "1.IH"[OF r[symmetric] refl] dups_round_size[OF r] expr_eliminate_yn_size[of e']
    by (subst dups_loop.simps) (auto simp add: r)
qed

text \<open>The loop stops on a tree that neither pass can change any more.\<close>

lemma dups_loop_normal: "dups_round st (dups_loop st e) = (dups_loop st e, 0)"
proof (induction st e rule: dups_loop.induct)
  case (1 st e)
  obtain e' c where r: "dups_round st e = (e', c)" by fastforce
  show ?case
  proof (cases "c = 0")
    case True
    then have "e' = e" using dups_round_count[OF r] by simp
    with True r show ?thesis by (subst (1 2) dups_loop.simps) (simp add: r)
  next
    case False
    then show ?thesis using "1.IH"[OF r[symmetric] refl]
      by (subst (1 2) dups_loop.simps) (simp add: r)
  qed
qed

end
