(* ===== verification/Kconfig_Menu.thy ===== *)
theory Kconfig_Menu
  imports Kconfig_Dups2
begin

text \<open>
  The interface the menu builder uses: rewriting passes that keep the value of a
  dependency. The passes of \<open>expr.c\<close> are shown to satisfy it, and the test by which
  \<open>menu_finalize\<close> (\<open>openwrt/scripts/config/menu.c\<close>) makes an entry a child of the entry
  before it is proved to imply that the child is visible only with its parent.
\<close>

section \<open>Value-preserving passes\<close>

locale expr_pass =
  fixes pass :: "symtab \<Rightarrow> expr \<Rightarrow> expr"
    and ok :: "symtab \<Rightarrow> expr \<Rightarrow> bool"
  assumes pass_val: "ok st e \<Longrightarrow> expr_val st (pass st e) = expr_val st e"
    and pass_ok: "ok st e \<Longrightarrow> ok st (pass st e)"
begin

lemma iterate_ok: "ok st e \<Longrightarrow> ok st ((pass st ^^ n) e)"
  by (induction n) (auto intro: pass_ok)

lemma iterate_val: "ok st e \<Longrightarrow> expr_val st ((pass st ^^ n) e) = expr_val st e"
  by (induction n) (auto simp: pass_val iterate_ok)

lemma calc_value: "(\<And>x. e = Some x \<Longrightarrow> ok st x) \<Longrightarrow>
  expr_calc_value st (map_option (pass st) e) = expr_calc_value st e"
  by (cases e) (auto simp: expr_calc_value_def pass_val)

end

locale expr_passes = p: expr_pass pass1 ok + q: expr_pass pass2 ok
  for pass1 pass2 :: "symtab \<Rightarrow> expr \<Rightarrow> expr" and ok :: "symtab \<Rightarrow> expr \<Rightarrow> bool"
begin

lemma seq_val: "ok st e \<Longrightarrow> expr_val st (pass2 st (pass1 st e)) = expr_val st e"
  by (simp add: p.pass_val q.pass_val p.pass_ok)

lemma seq_ok: "ok st e \<Longrightarrow> ok st (pass2 st (pass1 st e))"
  by (intro q.pass_ok p.pass_ok)

end

definition two_valued :: "symtab \<Rightarrow> expr \<Rightarrow> bool" where
  "two_valued st e \<longleftrightarrow> sane st \<and> no_mod st e"

lemma no_mod_transform: "bools_ok st \<Longrightarrow> no_mod st e \<Longrightarrow> no_mod st (expr_transform st e)"
proof (induction st e rule: expr_transform.induct)
  case (4 st a b)
  then show ?case using bools_ok_sym[of st a] by auto
next
  case (5 st a b)
  then show ?case using bools_ok_sym[of st a] by auto
next
  case (6 st e)
  then have n: "no_mod st (expr_transform st e)" by simp
  show ?case
  proof (cases "expr_transform st e")
    case (E_NOT a)
    then show ?thesis using "6.IH"(2)[OF E_NOT "6.prems"(1)] n by (simp add: expr_transform.simps(6))
  next
    case (E_AND a b)
    then show ?thesis using "6.IH"(3)[OF E_AND "6.prems"(1)] n by (simp add: expr_transform.simps(6))
  next
    case (E_OR a b)
    then show ?thesis using "6.IH"(4)[OF E_OR "6.prems"(1)] n by (simp add: expr_transform.simps(6))
  qed (use n in \<open>auto simp: expr_transform.simps(6)\<close>)
qed simp_all

lemma dups_loop_no_mod: "sane st \<Longrightarrow> no_mod st e \<Longrightarrow> no_mod st (dups_loop st e)"
proof (induction st e rule: dups_loop.induct)
  case (1 st e)
  obtain e' c where r: "dups_round st e = (e', c)" by fastforce
  show ?case
    using "1.IH"[OF r[symmetric] refl] dups_round_val[OF r "1.prems"] no_mod_eliminate_yn[of st e'] "1.prems"
    by (subst dups_loop.simps) (simp add: r)
qed

interpretation yn: expr_pass "\<lambda>st. expr_eliminate_yn" two_valued
  by unfold_locales (auto simp: two_valued_def no_mod_eliminate_yn)

interpretation tr: expr_pass expr_transform two_valued
  by unfold_locales (auto simp: two_valued_def sane_def expr_transform_val no_mod_transform)

interpretation du: expr_pass dups_loop two_valued
  by unfold_locales (auto simp: two_valued_def dups_loop_val dups_loop_no_mod)

interpretation trdu: expr_passes expr_transform dups_loop two_valued ..

section \<open>Children of a menu entry\<close>

lemma tri_op_mono: "a \<le> b \<Longrightarrow> tri_op t a d \<le> tri_op t b d"
  by (auto simp: tri_op_def tri_and_min tri_or_max min_def max_def)

lemma expr_eliminate_eq_pair_mono:
  assumes P: "expr_eliminate_eq_pair st e1 e2 n = (f1, f2, m)" and le: "expr_val sv f1 \<le> expr_val sv f2"
  shows "expr_val sv e1 \<le> expr_val sv e2"
proof -
  have rec: "expr_val sv x \<le> expr_val sv y"
    if "(if B then expr_eliminate_eq_rec st t x y i else (x, y, i)) = (u, v, j)" "B \<Longrightarrow> binary_type t"
      "expr_val sv u \<le> expr_val sv v" for x y i u v j t B
    using that expr_eq_sound_aux(3)[of st t x y i u v j sv] by (auto split: if_splits intro: tri_op_mono)
  obtain g1 g2 k where G: "(if binary_type (type_of e1)
      then expr_eliminate_eq_rec st (type_of e1) e1 e2 n else (e1, e2, n)) = (g1, g2, k)"
    by (metis prod_cases3)
  obtain h1 h2 l where H: "(if type_of g1 \<noteq> type_of g2 \<and> binary_type (type_of g2)
      then expr_eliminate_eq_rec st (type_of g2) g1 g2 k else (g1, g2, k)) = (h1, h2, l)"
    by (metis prod_cases3)
  have "expr_val sv h1 \<le> expr_val sv h2"
    using P G H le by (auto simp: expr_eliminate_eq_pair.simps[of st e1 e2 n])
  from rec[OF H _ this] have "expr_val sv g1 \<le> expr_val sv g2" by blast
  from rec[OF G _ this] show ?thesis by blast
qed

text \<open>
  \<open>menu_finalize\<close> for a symbol that is not a menu: \<open>basedep\<close> from the prompt of the parent,
  and for each following entry the test whether its dependency contains that of the parent.
\<close>

definition submenu_basedep :: "symtab \<Rightarrow> expr option \<Rightarrow> expr option" where
  "submenu_basedep st visible =
     expr_eliminate_dups st (map_option (expr_transform st) (expr_trans_compare visible T_UNEQUAL symbol_no))"

datatype submenu_verdict = Stop | Child

definition submenu_test :: "symtab \<Rightarrow> sym \<Rightarrow> expr option \<Rightarrow> expr option \<Rightarrow> submenu_verdict" where
  "submenu_test st s basedep dep0 =
     (if \<not> (case dep0 of None \<Rightarrow> False | Some e \<Rightarrow> expr_contains_symbol e s) then Stop
      else if (case dep0 of None \<Rightarrow> False | Some e \<Rightarrow> expr_depends_symbol e s) then Child
      else
        let dep = expr_eliminate_dups st
              (map_option (expr_transform st) (expr_trans_compare dep0 T_UNEQUAL symbol_no));
            (dep', dep2, _) = expr_eliminate_eq st dep (map_option expr_copy basedep) 0
        in if \<not> expr_is_yes dep2 then Stop else Child)"

lemma expr_trans_compare_no_mod:
  "logical_leaves st e \<Longrightarrow> s = symbol_yes \<or> s = symbol_no \<Longrightarrow>
   expr_trans_compare (Some e) t s = Some f \<Longrightarrow> no_mod st f"
proof (induction e arbitrary: t f)
  case (E_AND a b)
  then show ?case by (auto simp: Let_def split: if_splits option.splits)
next
  case (E_OR a b)
  then show ?case by (auto simp: Let_def split: if_splits option.splits)
qed (auto split: if_splits)

lemma compare_pass:
  assumes "sane st" "logical_leaves st e"
  obtains f where
    "expr_eliminate_dups st (map_option (expr_transform st) (expr_trans_compare (Some e) T_UNEQUAL symbol_no)) = Some f"
    "expr_val st f = tri_bool (expr_val st e \<noteq> Tno)"
proof -
  obtain g where g: "expr_trans_compare (Some e) T_UNEQUAL symbol_no = Some g"
      "expr_val st g = tri_bool (expr_val st e \<noteq> Tno)"
    using expr_trans_compare_val[of T_UNEQUAL symbol_no st e] assms by (auto simp: compare_spec_def)
  have "two_valued st g"
    using expr_trans_compare_no_mod[OF assms(2) _ g(1)] assms(1) by (simp add: two_valued_def)
  from trdu.seq_val[OF this] g that show ?thesis by (simp add: expr_eliminate_dups_def)
qed

lemma submenu_test_sound:
  assumes "sane st" "logical_leaves st base" "logical_leaves st dep"
    and "submenu_test st s (submenu_basedep st (Some base)) (Some dep) = Child"
    and "\<not> expr_depends_symbol dep s" and "expr_val st dep \<noteq> Tno"
  shows "expr_val st base \<noteq> Tno"
proof -
  obtain b where b: "submenu_basedep st (Some base) = Some b" "expr_val st b = tri_bool (expr_val st base \<noteq> Tno)"
    using compare_pass[OF assms(1,2)] by (auto simp: submenu_basedep_def)
  obtain d where d: "expr_eliminate_dups st (map_option (expr_transform st)
        (expr_trans_compare (Some dep) T_UNEQUAL symbol_no)) = Some d"
      "expr_val st d = tri_bool (expr_val st dep \<noteq> Tno)"
    using compare_pass[OF assms(1,3)] by blast
  obtain d' d2 m where P: "expr_eliminate_eq_pair st d b 0 = (d', d2, m)" by (metis prod_cases3)
  have "expr_is_yes (Some d2)"
    using assms(4,5) b(1) d(1) P by (auto simp: submenu_test_def Let_def split: if_splits)
  then have "expr_val st d' \<le> expr_val st d2" by (cases "expr_val st d'") (auto simp: expr_is_yes_def tri_order)
  from expr_eliminate_eq_pair_mono[OF P this] show ?thesis
    using b(2) d(2) assms(6) by (auto simp: tri_bool_def tri_order split: if_splits)
qed

end
