(* ===== verification/Kconfig_Props.thy ===== *)
theory Kconfig_Props
  imports Kconfig_Menu
begin

text \<open>
  The properties of the configuration expressions, stated over the definitions of the
  component theories, with concrete symbol tables that satisfy their hypotheses.
\<close>

text \<open>A table of tristate symbols with the given values; every other symbol is \<open>n\<close>.\<close>

definition tri_table :: "tristate list \<Rightarrow> symtab" where
  "tri_table vs i = \<lparr>s_name = ''FOO'', s_type = S_TRISTATE, s_flags = SYMBOL_VALID, s_val = [],
     s_tri = (if i < length vs then vs ! i else Tno)\<rparr>"

lemma tri_table_sane: "sane (tri_table vs)"
proof -
  have "\<not> sym_flag (tri_table vs) (Sym i) SYMBOL_CONST" for i
    by (simp add: sym_flag_def tri_table_def symbol_flag_defs)
  then have c: "sym_flag (tri_table vs) s SYMBOL_CONST \<Longrightarrow> s = symbol_yes \<or> s = symbol_mod \<or> s = symbol_no" for s
    by (cases s) auto
  have "a = b" if "sym_flag (tri_table vs) a SYMBOL_CONST" "sym_flag (tri_table vs) b SYMBOL_CONST"
      "sym_get_string_value (tri_table vs) a = sym_get_string_value (tri_table vs) b" for a b
    using c[OF that(1)] c[OF that(2)] that(3) by auto
  then have "consts_ok (tri_table vs)" unfolding consts_ok_def by blast
  then show ?thesis by (simp add: sane_def bools_ok_def tri_table_def)
qed

text \<open>
  C8. \<open>expr_eliminate_dups\<close> keeps the value of every dependency, provided no operand
  has the value \<open>m\<close> and the symbol table is sane: a boolean symbol is never \<open>m\<close> and two
  different constant symbols differ in their text.
\<close>

theorem expr_eliminate_dups_keeps_value:
  assumes "sane st" and "\<And>x. e = Some x \<Longrightarrow> no_mod st x"
  shows "expr_calc_value st (expr_eliminate_dups st e) = expr_calc_value st e"
  using du.calc_value[of e st] assms by (simp add: expr_eliminate_dups_def two_valued_def)

definition dup_example :: expr where
  "dup_example = E_OR (E_EQUAL (Sym 0) symbol_yes) (E_OR (E_SYMBOL (Sym 1)) (E_EQUAL (Sym 0) symbol_mod))"

theorem expr_eliminate_dups_keeps_value_witness:
  "expr_calc_value (tri_table [Tyes]) (expr_eliminate_dups (tri_table [Tyes]) (Some dup_example)) = Tyes"
  by (subst expr_eliminate_dups_keeps_value)
     (auto simp: tri_table_sane dup_example_def expr_calc_value_def tri_table_def
        sym_get_string_value_def sym_get_tristate_value_def)

text \<open>
  C29. The loop of \<open>expr_eliminate_dups\<close> ends, on a tree that a further round would leave
  as it is, and that is no larger than the tree it started from.
\<close>

theorem expr_eliminate_dups_normal_form:
  "\<exists>f. expr_eliminate_dups st (Some e) = Some f \<and> dups_round st f = (f, 0) \<and> size f \<le> size e"
  using dups_loop_normal[of st e] dups_loop_size[of st e] by (simp add: expr_eliminate_dups_def)

definition mod_example :: expr where
  "mod_example = E_AND (E_OR (E_SYMBOL (Sym 0)) (E_SYMBOL (Sym 1)))
     (E_AND (E_NOT (E_SYMBOL (Sym 0))) (E_NOT (E_SYMBOL (Sym 1))))"

text \<open>
  The result is false of a dependency with the value \<open>m\<close>: cancelling
  \<open>(FOO || BAR) && (!FOO && !BAR)\<close> to \<open>n\<close> changes the value of the expression, which is \<open>m\<close>
  when both symbols are.
\<close>

theorem expr_eliminate_dups_mod_flaw:
  "expr_calc_value (tri_table [Tmod, Tmod]) (Some mod_example) = Tmod \<and>
   expr_eliminate_dups (tri_table [Tmod, Tmod]) (Some mod_example) = Some (E_SYMBOL symbol_no)"
  by code_simp

text \<open>
  C21. \<open>expr_transform\<close> keeps the value of an expression whatever the values of its symbols,
  \<open>m\<close> included, as long as no boolean symbol is \<open>m\<close>.
\<close>

theorem expr_transform_keeps_value:
  "bools_ok st \<Longrightarrow> expr_val st (expr_transform st e) = expr_val st e"
  by (rule expr_transform_val)

theorem expr_transform_keeps_value_witness:
  "expr_val (tri_table [Tmod]) (expr_transform (tri_table [Tmod])
     (E_NOT (E_AND (E_SYMBOL (Sym 0)) (E_UNEQUAL (Sym 1) symbol_yes)))) = Tmod"
  by (subst expr_transform_keeps_value)
     (auto simp: bools_ok_def tri_table_def sym_get_string_value_def sym_get_tristate_value_def)

text \<open>
  \<open>expr_transform\<close> pushes every negation down to a symbol, decides the comparisons of
  boolean symbols with the constants, and leaves its own results alone.
\<close>

theorem expr_transform_normal_form:
  "nnf st (expr_transform st e) \<and> expr_transform st (expr_transform st e) = expr_transform st e"
  using expr_transform_nnf[of st e] expr_transform_nnf_id[of st "expr_transform st e"] by simp

text \<open>
  Expressions \<open>expr_eq\<close> holds equal, by cancelling operands up to order, have the same
  value in every symbol table.
\<close>

theorem expr_eq_same_value: "expr_eq st e1 e2 \<Longrightarrow> expr_val sv e1 = expr_val sv e2"
  by (rule expr_eq_sound)

theorem expr_eq_same_value_witness:
  "expr_val (tri_table [Tmod]) (E_AND (E_SYMBOL (Sym 0)) (E_SYMBOL (Sym 1)))
   = expr_val (tri_table [Tmod]) (E_AND (E_SYMBOL (Sym 1)) (E_SYMBOL (Sym 0)))"
proof -
  have "expr_eq (tri_table []) (E_AND (E_SYMBOL (Sym 0)) (E_SYMBOL (Sym 1)))
      (E_AND (E_SYMBOL (Sym 1)) (E_SYMBOL (Sym 0)))" by code_simp
  then show ?thesis by (rule expr_eq_same_value)
qed

text \<open>
  C17. Let the symbols that the dependencies of an entry and of its parent name, other than in
  comparisons, be boolean or tristate and not have the value \<open>m\<close>, in a table where a boolean symbol is never \<open>m\<close> and the constants are
  themselves. If \<open>menu_finalize\<close> makes the entry a child on the strength of the comparison
  of the dependencies, and not because it names the symbol of the parent, then it is never visible while its parent is not. (With
  the value \<open>m\<close> this fails, \<open>expr_trans_compare_mod_flaw\<close>.)
\<close>

theorem submenu_child_visible_with_parent:
  assumes "sane st" "logical_leaves st base" "logical_leaves st dep"
    and "submenu_test st s (submenu_basedep st (Some base)) (Some dep) = Child"
    and "\<not> expr_depends_symbol dep s" and "expr_val st dep \<noteq> Tno"
  shows "expr_val st base \<noteq> Tno"
  using submenu_test_sound[OF assms] .

definition submenu_base :: expr where
  "submenu_base = E_SYMBOL (Sym 0)"

definition submenu_dep :: expr where
  "submenu_dep = E_AND (E_OR (E_SYMBOL (Sym 1)) (E_SYMBOL (Sym 2))) (E_SYMBOL (Sym 0))"

theorem submenu_child_visible_with_parent_witness:
  "expr_val (tri_table [Tyes, Tyes]) submenu_base \<noteq> Tno"
proof (rule submenu_child_visible_with_parent[OF tri_table_sane])
  show "submenu_test (tri_table [Tyes, Tyes]) (Sym 2)
      (submenu_basedep (tri_table [Tyes, Tyes]) (Some submenu_base)) (Some submenu_dep) = Child" by code_simp
qed (auto simp: submenu_base_def submenu_dep_def tri_table_def nth_Cons split: nat.split)

text \<open>
  \<open>expr_trans_compare\<close> against \<open>y\<close> or \<open>n\<close> returns an expression that is \<open>y\<close> exactly when
  the comparison holds, for expressions over logical symbols none of which is \<open>m\<close>.
\<close>

theorem expr_trans_compare_value:
  assumes "t = T_EQUAL \<or> t = T_UNEQUAL" and "s = symbol_yes \<or> s = symbol_no" and "logical_leaves st e"
  shows "\<exists>f. expr_trans_compare (Some e) t s = Some f \<and>
     expr_val st f = compare_spec t (expr_val st e) (s_tri (sym_obj st s))"
  using expr_trans_compare_val[OF assms] .

theorem expr_trans_compare_value_witness:
  "\<exists>f. expr_trans_compare (Some submenu_dep) T_UNEQUAL symbol_no = Some f \<and>
     expr_val (tri_table [Tyes, Tyes]) f = compare_spec T_UNEQUAL
       (expr_val (tri_table [Tyes, Tyes]) submenu_dep) (s_tri (sym_obj (tri_table [Tyes, Tyes]) symbol_no))"
  by (rule expr_trans_compare_value)
     (auto simp: submenu_dep_def tri_table_def nth_Cons split: nat.split)

text \<open>
  With \<open>m\<close> the comparison goes wrong below a negation: \<open>!FOO\<close> is \<open>m\<close> when \<open>FOO\<close> is, hence
  differs from \<open>n\<close>, but the expression \<open>menu_finalize\<close> obtains for \<open>!FOO != n\<close> is \<open>n\<close>.
\<close>

theorem expr_trans_compare_mod_flaw:
  "\<exists>f. expr_trans_compare (Some (E_NOT (E_SYMBOL (Sym 0)))) T_UNEQUAL symbol_no = Some f \<and>
     expr_val (tri_table [Tmod]) (E_NOT (E_SYMBOL (Sym 0))) = Tmod \<and>
     expr_val (tri_table [Tmod]) f = Tno"
  by (simp add: tri_table_def sym_get_string_value_def sym_get_tristate_value_def)

text \<open>
  Joining two operands of a disjunction or of a conjunction gives an operand with
  the value of the two together.
\<close>

theorem expr_join_value:
  assumes "sane st" "binary_type ty" "expr_join st ty e1 e2 = Some tmp"
  shows "expr_val st tmp = tri_op ty (expr_val st e1) (expr_val st e2)"
  by (rule expr_join_val[OF assms])

theorem expr_join_value_witness:
  "expr_val (tri_table [Tmod]) (E_EQUAL (Sym 0) symbol_mod) =
   tri_op T_AND (expr_val (tri_table [Tmod]) (E_UNEQUAL (Sym 0) symbol_yes))
     (expr_val (tri_table [Tmod]) (E_UNEQUAL (Sym 0) symbol_no))"
proof (rule expr_join_value[OF tri_table_sane])
  show "expr_join (tri_table [Tmod]) T_AND (E_UNEQUAL (Sym 0) symbol_yes) (E_UNEQUAL (Sym 0) symbol_no)
      = Some (E_EQUAL (Sym 0) symbol_mod)" by code_simp
qed simp

text \<open>
  Taking the common factors out of two expressions is exact: each is the
  conjunction of the common part with what is left of it, in every symbol table.
\<close>

theorem expr_extract_eq_and_factors:
  assumes "expr_extract_eq_and st e1 e2 = (tmp, f1, f2)"
  shows "expr_val sv e1 = tri_and (opt_val sv T_AND tmp) (expr_val sv f1) \<and>
    expr_val sv e2 = tri_and (opt_val sv T_AND tmp) (expr_val sv f2)"
  using expr_extract_eq_and_val[OF assms] by blast

theorem expr_extract_eq_and_factors_witness:
  "expr_val (tri_table [Tmod, Tyes]) (E_AND (E_SYMBOL (Sym 0)) (E_SYMBOL (Sym 1)))
     = tri_and (opt_val (tri_table [Tmod, Tyes]) T_AND (Some (E_SYMBOL (Sym 0))))
         (expr_val (tri_table [Tmod, Tyes]) (E_SYMBOL (Sym 1))) \<and>
   expr_val (tri_table [Tmod, Tyes]) (E_AND (E_SYMBOL (Sym 2)) (E_SYMBOL (Sym 0)))
     = tri_and (opt_val (tri_table [Tmod, Tyes]) T_AND (Some (E_SYMBOL (Sym 0))))
         (expr_val (tri_table [Tmod, Tyes]) (E_SYMBOL (Sym 2)))"
proof (rule expr_extract_eq_and_factors)
  show "expr_extract_eq_and (tri_table []) (E_AND (E_SYMBOL (Sym 0)) (E_SYMBOL (Sym 1)))
      (E_AND (E_SYMBOL (Sym 2)) (E_SYMBOL (Sym 0)))
     = (Some (E_SYMBOL (Sym 0)), E_SYMBOL (Sym 1), E_SYMBOL (Sym 2))" by code_simp
qed

text \<open>
  \<open>expr_trans_bool\<close>, applied to an expression in normal form, may change its value but
  not whether it is \<open>n\<close>, which is all a boolean symbol needs of its dependency.
\<close>

theorem expr_trans_bool_keeps_visibility:
  "nnf st e \<Longrightarrow> expr_val st (expr_trans_bool st e) = Tno \<longleftrightarrow> expr_val st e = Tno"
  by (rule expr_trans_bool_visible)

theorem expr_trans_bool_keeps_visibility_witness:
  "expr_val (tri_table [Tmod]) (expr_trans_bool (tri_table [Tmod])
     (E_AND (E_UNEQUAL (Sym 0) symbol_no) (E_SYMBOL (Sym 0)))) = Tno \<longleftrightarrow>
   expr_val (tri_table [Tmod]) (E_AND (E_UNEQUAL (Sym 0) symbol_no) (E_SYMBOL (Sym 0))) = Tno"
  by (rule expr_trans_bool_keeps_visibility) (simp add: tri_table_def)

text \<open>
  A dependency that \<open>expr_depends_symbol\<close> ties to a logical symbol is \<open>n\<close> whenever the
  symbol is; one that does not contain the symbol does not change with it.
\<close>

theorem expr_symbol_dependence:
  "(expr_depends_symbol e s \<and> s_type (sym_obj st s) \<in> {S_BOOLEAN, S_TRISTATE} \<and>
      s_tri (sym_obj st s) = Tno \<longrightarrow> expr_val st e = Tno) \<and>
   (\<not> expr_contains_symbol e (Sym x) \<longrightarrow> expr_val (st(x := v)) e = expr_val st e)"
  using expr_depends_symbol_no expr_contains_symbol_frame by blast

theorem expr_symbol_dependence_witness:
  "expr_val (tri_table [Tno, Tyes]) submenu_dep = Tno \<and>
   expr_val ((tri_table [Tno, Tyes])(7 := tri_table [Tyes] 0)) submenu_dep = expr_val (tri_table [Tno, Tyes]) submenu_dep"
  using expr_symbol_dependence[of submenu_dep "Sym 0" "tri_table [Tno, Tyes]" 7 "tri_table [Tyes] 0"]
  by (simp add: submenu_dep_def tri_table_def)

end
