(* ===== verification/Kconfig_Symbol.thy ===== *)
theory Kconfig_Symbol
  imports Kconfig_Expr
begin

text \<open>
  The symbols of the configuration tool (\<open>openwrt/scripts/config/symbol.c\<close>, \<open>expr.h\<close>,
  \<open>lkc.h\<close>): the symbol with its properties, the hash table that finds it by name, the
  predicates on its flags and the strings its values are written as.

  The tool's global state is the record \<open>kconf\<close>: the symbols by address (the three static
  ones and those that \<open>sym_lookup\<close> allocates), the hash chains, the flags of the menus, and
  the global variables. A \<open>void *\<close> value is a \<open>symval\<close>: a null pointer, a string with the
  storage it lies in, or the address of a symbol, so that the comparison of two values by
  address is equality. The fields \<open>help\<close>, \<open>dep\<close>, \<open>dep2\<close>, \<open>file\<close> and \<open>lineno\<close> are never read
  here and are left out.
\<close>

section \<open>Data\<close>

definition SYMBOL_CHECK :: u32 where "SYMBOL_CHECK = 0x0008"
definition SYMBOL_CHOICE :: u32 where "SYMBOL_CHOICE = 0x0010"
definition SYMBOL_CHOICEVAL :: u32 where "SYMBOL_CHOICEVAL = 0x0020"
definition SYMBOL_OPTIONAL :: u32 where "SYMBOL_OPTIONAL = 0x0100"
definition SYMBOL_WRITE :: u32 where "SYMBOL_WRITE = 0x0200"
definition SYMBOL_CHANGED :: u32 where "SYMBOL_CHANGED = 0x0400"
definition SYMBOL_NEW :: u32 where "SYMBOL_NEW = 0x0800"
definition SYMBOL_AUTO :: u32 where "SYMBOL_AUTO = 0x1000"
definition SYMBOL_CHECKED :: u32 where "SYMBOL_CHECKED = 0x2000"
definition MENU_CHANGED :: u32 where "MENU_CHANGED = 0x0001"

lemmas ksymbol_flag_defs = symbol_flag_defs SYMBOL_CHECK_def SYMBOL_CHOICE_def
  SYMBOL_CHOICEVAL_def SYMBOL_OPTIONAL_def SYMBOL_WRITE_def SYMBOL_CHANGED_def SYMBOL_NEW_def
  SYMBOL_AUTO_def SYMBOL_CHECKED_def MENU_CHANGED_def

datatype prop_type =
  P_UNKNOWN | P_PROMPT | P_COMMENT | P_MENU | P_DEFAULT | P_CHOICE | P_DESELECT | P_SELECT
  | P_RANGE | P_RESET

text \<open>
  What \<open>prop->expr\<close> points at: nothing, an expression, the chain of \<open>E_CHOICE\<close> cells of a
  choice (the symbols in their \<open>right.sym\<close>, in the order of the chain), or the \<open>E_RANGE\<close>
  cell of a range.
\<close>

datatype pexpr = PE_NULL | PE_EXPR expr | PE_CHOICE "sym list" | PE_RANGE sym sym

record property =
  p_type :: prop_type
  p_text :: "string option"
  p_visible :: "expr option"
  p_tri :: tristate
  p_expr :: pexpr
  p_menu :: "nat option"

datatype symval =
    V_NULL
  | V_lit string
  | V_name sym string
  | V_heap nat string
  | V_sym sym

record symbol_value =
  v_val :: symval
  v_tri :: tristate

record ksymbol =
  sy_name :: "string option"
  sy_type :: symbol_type
  sy_curr :: symbol_value
  sy_user :: symbol_value
  sy_visible :: tristate
  sy_flags :: u32
  sy_prop :: "property list"
  sy_rev_dep :: "expr option"
  sy_rev_tri :: tristate
  sy_rev_dep_inv :: "expr option"

record kconf =
  k_tab :: "sym \<Rightarrow> ksymbol"
  k_count :: nat
  k_hash :: "nat \<Rightarrow> sym list"
  k_menu :: "nat \<Rightarrow> u32"
  k_heap :: nat
  modules_sym :: "sym option"
  modules_val :: tristate
  sym_change_count :: u32

text \<open>A pointer that is null, or of the wrong type, is dereferenced; or the recursion is cut off.\<close>

datatype kerr = Bad_pointer | Out_of_fuel

abbreviation obj :: "kconf \<Rightarrow> sym \<Rightarrow> ksymbol" where
  "obj k s \<equiv> k_tab k s"

definition upd :: "sym \<Rightarrow> (ksymbol \<Rightarrow> ksymbol) \<Rightarrow> kconf \<Rightarrow> kconf" where
  "upd s f k = k\<lparr>k_tab := (k_tab k)(s := f (k_tab k s))\<rparr>"

definition flag_on :: "u32 \<Rightarrow> ksymbol \<Rightarrow> ksymbol" where
  "flag_on m y = y\<lparr>sy_flags := sy_flags y OR m\<rparr>"

definition flag_off :: "u32 \<Rightarrow> ksymbol \<Rightarrow> ksymbol" where
  "flag_off m y = y\<lparr>sy_flags := sy_flags y AND NOT m\<rparr>"

definition has_flag :: "u32 \<Rightarrow> ksymbol \<Rightarrow> bool" where
  "has_flag m y \<longleftrightarrow> sy_flags y AND m \<noteq> 0"

definition static_symbol :: "string \<Rightarrow> tristate \<Rightarrow> u32 \<Rightarrow> ksymbol" where
  "static_symbol n t f =
     \<lparr>sy_name = Some n, sy_type = S_UNKNOWN, sy_curr = \<lparr>v_val = V_lit n, v_tri = t\<rparr>,
      sy_user = \<lparr>v_val = V_NULL, v_tri = Tno\<rparr>, sy_visible = Tno, sy_flags = f OR SYMBOL_VALID,
      sy_prop = [], sy_rev_dep = None, sy_rev_tri = Tno, sy_rev_dep_inv = None\<rparr>"

definition symbol_empty_curr :: symbol_value where
  "symbol_empty_curr = \<lparr>v_val = V_lit '''', v_tri = Tno\<rparr>"

definition symbol_no_curr :: symbol_value where
  "symbol_no_curr = \<lparr>v_val = V_lit ''n'', v_tri = Tno\<rparr>"

text \<open>The state before the configuration files are read.\<close>

definition new_symbol :: "string option \<Rightarrow> bool \<Rightarrow> ksymbol" where
  "new_symbol n isconst =
     \<lparr>sy_name = n, sy_type = S_UNKNOWN, sy_curr = \<lparr>v_val = V_NULL, v_tri = Tno\<rparr>,
      sy_user = \<lparr>v_val = V_NULL, v_tri = Tno\<rparr>, sy_visible = Tno,
      sy_flags = (if isconst then SYMBOL_NEW OR SYMBOL_CONST else SYMBOL_NEW),
      sy_prop = [], sy_rev_dep = None, sy_rev_tri = Tno, sy_rev_dep_inv = None\<rparr>"

fun kconf_start_tab :: "sym \<Rightarrow> ksymbol" where
  "kconf_start_tab symbol_yes = static_symbol ''y'' Tyes SYMBOL_YES"
| "kconf_start_tab symbol_mod = static_symbol ''m'' Tmod SYMBOL_MOD"
| "kconf_start_tab symbol_no = static_symbol ''n'' Tno SYMBOL_NO"
| "kconf_start_tab (Sym a) = new_symbol None False"

definition kconf_start :: kconf where
  "kconf_start = \<lparr>k_tab = kconf_start_tab, k_count = 0, k_hash = (\<lambda>_. []), k_menu = (\<lambda>_. 0),
     k_heap = 0, modules_sym = None, modules_val = Tno, sym_change_count = 0\<rparr>"

section \<open>Flags and types\<close>

definition sym_is_choice :: "ksymbol \<Rightarrow> bool" where
  "sym_is_choice y = has_flag SYMBOL_CHOICE y"

definition sym_is_choice_value :: "ksymbol \<Rightarrow> bool" where
  "sym_is_choice_value y = has_flag SYMBOL_CHOICEVAL y"

definition sym_is_optional :: "ksymbol \<Rightarrow> bool" where
  "sym_is_optional y = has_flag SYMBOL_OPTIONAL y"

definition sym_has_value :: "ksymbol \<Rightarrow> bool" where
  "sym_has_value y = (\<not> has_flag SYMBOL_NEW y)"

definition sym_get_type :: "ksymbol \<Rightarrow> symbol_type" where
  "sym_get_type y =
     (if sy_type y = S_TRISTATE then
        (if sym_is_choice_value y \<and> sy_visible y = Tyes then S_BOOLEAN else S_TRISTATE)
      else sy_type y)"

fun sym_type_name :: "symbol_type \<Rightarrow> string" where
  "sym_type_name S_BOOLEAN = ''boolean''"
| "sym_type_name S_TRISTATE = ''tristate''"
| "sym_type_name S_INT = ''integer''"
| "sym_type_name S_HEX = ''hex''"
| "sym_type_name S_STRING = ''string''"
| "sym_type_name S_UNKNOWN = ''unknown''"
| "sym_type_name S_OTHER = ''???''"

fun prop_get_type_name :: "prop_type \<Rightarrow> string" where
  "prop_get_type_name P_PROMPT = ''prompt''"
| "prop_get_type_name P_COMMENT = ''comment''"
| "prop_get_type_name P_MENU = ''menu''"
| "prop_get_type_name P_DEFAULT = ''default''"
| "prop_get_type_name P_CHOICE = ''choice''"
| "prop_get_type_name P_SELECT = ''select''"
| "prop_get_type_name P_DESELECT = ''deselect''"
| "prop_get_type_name P_RANGE = ''range''"
| "prop_get_type_name P_UNKNOWN = ''unknown''"
| "prop_get_type_name P_RESET = ''unknown''"

section \<open>Properties\<close>

text \<open>
  \<open>prop_get_symbol\<close> reads \<open>left.sym\<close> of the expression. For the chain of a choice that
  field is the next cell, which is no symbol; it counts as a null pointer.
\<close>

definition prop_get_symbol :: "property \<Rightarrow> sym option" where
  "prop_get_symbol p = (case p_expr p of PE_EXPR (E_SYMBOL s) \<Rightarrow> Some s | _ \<Rightarrow> None)"

definition sym_get_choice_prop :: "ksymbol \<Rightarrow> property option" where
  "sym_get_choice_prop y = find (\<lambda>p. p_type p = P_CHOICE) (sy_prop y)"

text \<open>The values of a choice, and the choice of a value; both walk through the choice property.\<close>

definition choice_values :: "ksymbol \<Rightarrow> kerr + sym list" where
  "choice_values y =
     (case sym_get_choice_prop y of
        None \<Rightarrow> Inl Bad_pointer
      | Some p \<Rightarrow> (case p_expr p of PE_NULL \<Rightarrow> Inr [] | PE_CHOICE vs \<Rightarrow> Inr vs | _ \<Rightarrow> Inl Bad_pointer))"

definition choice_of :: "ksymbol \<Rightarrow> kerr + sym" where
  "choice_of y =
     (case sym_get_choice_prop y of
        None \<Rightarrow> Inl Bad_pointer
      | Some p \<Rightarrow> (case prop_get_symbol p of None \<Rightarrow> Inl Bad_pointer | Some s \<Rightarrow> Inr s))"

definition prop_alloc :: "prop_type \<Rightarrow> property" where
  "prop_alloc t = \<lparr>p_type = t, p_text = None, p_visible = None, p_tri = Tno, p_expr = PE_NULL, p_menu = None\<rparr>"

definition sym_add_prop :: "sym \<Rightarrow> property \<Rightarrow> kconf \<Rightarrow> kconf" where
  "sym_add_prop s p k = upd s (\<lambda>y. y\<lparr>sy_prop := sy_prop y @ [p]\<rparr>) k"

definition mark_menu :: "property \<Rightarrow> kconf \<Rightarrow> kconf" where
  "mark_menu p k =
     (case p_menu p of None \<Rightarrow> k | Some m \<Rightarrow> k\<lparr>k_menu := (k_menu k)(m := k_menu k m OR MENU_CHANGED)\<rparr>)"

definition sym_set_changed :: "kconf \<Rightarrow> sym \<Rightarrow> kconf" where
  "sym_set_changed k s =
     (let k1 = upd s (flag_on SYMBOL_CHANGED) k in fold mark_menu (sy_prop (obj k1 s)) k1)"

section \<open>The symbol table\<close>

definition schar :: "char \<Rightarrow> int" where
  "schar c = (let b = int (of_char c) in if b < 128 then b else b - 256)"

definition sym_hash :: "string \<Rightarrow> nat" where
  "sym_hash name = nat (take_bit 8 (sum_list (map schar name)))"

fun sym_lookup_const :: "string \<Rightarrow> sym option" where
  "sym_lookup_const name =
     (if name = ''y'' then Some symbol_yes else if name = ''m'' then Some symbol_mod
      else if name = ''n'' then Some symbol_no else None)"

definition sym_matches :: "kconf \<Rightarrow> string \<Rightarrow> bool \<Rightarrow> sym \<Rightarrow> bool" where
  "sym_matches k name isconst s \<longleftrightarrow>
     sy_name (obj k s) = Some name \<and> has_flag SYMBOL_CONST (obj k s) = isconst"

definition sym_alloc :: "kconf \<Rightarrow> string option \<Rightarrow> bool \<Rightarrow> nat \<Rightarrow> kconf \<times> sym" where
  "sym_alloc k name isconst h =
     (let s = Sym (k_count k) in
      (k\<lparr>k_tab := (k_tab k)(s := new_symbol name isconst),
         k_count := Suc (k_count k),
         k_hash := (k_hash k)(h := s # k_hash k h)\<rparr>, s))"

fun sym_lookup :: "kconf \<Rightarrow> string option \<Rightarrow> bool \<Rightarrow> kconf \<times> sym" where
  "sym_lookup k None isconst = sym_alloc k None isconst 256"
| "sym_lookup k (Some name) isconst =
     (case sym_lookup_const name of
        Some s \<Rightarrow> (k, s)
      | None \<Rightarrow>
          (case find (sym_matches k name isconst) (k_hash k (sym_hash name)) of
             Some s \<Rightarrow> (k, s)
           | None \<Rightarrow> sym_alloc k (Some name) isconst (sym_hash name)))"

definition sym_find :: "kconf \<Rightarrow> string \<Rightarrow> sym option" where
  "sym_find k name =
     (case sym_lookup_const name of
        Some s \<Rightarrow> Some s
      | None \<Rightarrow> find (sym_matches k name False) (k_hash k (sym_hash name)))"

definition all_symbols :: "kconf \<Rightarrow> sym list" where
  "all_symbols k = filter (\<lambda>s. sy_type (obj k s) \<noteq> S_OTHER) (concat (map (k_hash k) [0..<257]))"

definition sym_set_all_changed :: "kconf \<Rightarrow> kconf" where
  "sym_set_all_changed k = fold (\<lambda>s k. sym_set_changed k s) (all_symbols k) k"

definition sym_add_default :: "kconf \<Rightarrow> sym \<Rightarrow> string \<Rightarrow> kconf" where
  "sym_add_default k s d =
     (let (k', d') = sym_lookup k (Some d) True
      in sym_add_prop s ((prop_alloc P_DEFAULT)\<lparr>p_expr := PE_EXPR (E_SYMBOL d')\<rparr>) k')"

text \<open>
  \<open>sym_init\<close>, called once: three string symbols whose default is a value of the environment.
  The arguments are the results of \<open>getenv\<close> and of \<open>uname\<close>.
\<close>

definition sym_init_one :: "string \<Rightarrow> string option \<Rightarrow> kconf \<Rightarrow> kconf" where
  "sym_init_one name v k =
     (let (k1, s) = sym_lookup k (Some name) False;
          k2 = upd s (\<lambda>y. flag_on SYMBOL_AUTO (y\<lparr>sy_type := S_STRING\<rparr>)) k1
      in case v of None \<Rightarrow> k2 | Some d \<Rightarrow> sym_add_default k2 s d)"

definition sym_init :: "string option \<Rightarrow> string option \<Rightarrow> string \<Rightarrow> kconf \<Rightarrow> kconf" where
  "sym_init arch version release k =
     sym_init_one ''UNAME_RELEASE'' (Some release)
       (sym_init_one ''OPENWRTVERSION'' version (sym_init_one ''ARCH'' arch k))"

section \<open>Strings and numbers\<close>

fun symval_string :: "symval \<Rightarrow> kerr + string" where
  "symval_string (V_lit t) = Inr t"
| "symval_string (V_name s t) = Inr t"
| "symval_string (V_heap a t) = Inr t"
| "symval_string V_NULL = Inl Bad_pointer"
| "symval_string (V_sym s) = Inl Bad_pointer"

definition sym_string :: "ksymbol \<Rightarrow> kerr + string" where
  "sym_string y =
     (case sy_type y of
        S_BOOLEAN \<Rightarrow> Inr (tri_string (v_tri (sy_curr y)))
      | S_TRISTATE \<Rightarrow> Inr (tri_string (v_tri (sy_curr y)))
      | _ \<Rightarrow> symval_string (v_val (sy_curr y)))"

definition isspace :: "char \<Rightarrow> bool" where
  "isspace c \<longleftrightarrow> c = CHR 0x20 \<or> of_char c \<in> {9..13::nat}"

definition isdigit :: "char \<Rightarrow> bool" where
  "isdigit c \<longleftrightarrow> of_char c \<in> {48..57::nat}"

definition isxdigit :: "char \<Rightarrow> bool" where
  "isxdigit c \<longleftrightarrow> isdigit c \<or> of_char c \<in> {65..70::nat} \<or> of_char c \<in> {97..102::nat}"

definition digit_value :: "char \<Rightarrow> nat" where
  "digit_value c =
     (let n = of_char c :: nat in if n \<le> 57 then n - 48 else if n \<le> 70 then n - 55 else n - 87)"

definition digit_ok :: "nat \<Rightarrow> char \<Rightarrow> bool" where
  "digit_ok base c = (if base = 16 then isxdigit c else isdigit c)"

definition number_value :: "nat \<Rightarrow> string \<Rightarrow> nat" where
  "number_value base ds = foldl (\<lambda>a c. a * base + digit_value c) 0 ds"

fun strip_0x :: "string \<Rightarrow> string" where
  "strip_0x (z # x # d # r) =
     (if z = CHR ''0'' \<and> (x = CHR ''x'' \<or> x = CHR ''X'') \<and> isxdigit d then d # r else z # x # d # r)"
| "strip_0x t = t"

fun strip_sign :: "string \<Rightarrow> bool \<times> string" where
  "strip_sign (c # t) = (if c = CHR ''-'' then (True, t) else if c = CHR ''+'' then (False, t) else (False, c # t))"
| "strip_sign [] = (False, [])"

text \<open>
  \<open>strtol\<close> for the bases 10 and 16, with a \<open>long\<close> of 64 bits, and the conversion of its
  result to \<open>int\<close>.
\<close>

definition strtol :: "string \<Rightarrow> nat \<Rightarrow> int" where
  "strtol t base =
     (let (neg, u) = strip_sign (dropWhile isspace t);
          ds = takeWhile (digit_ok base) (if base = 16 then strip_0x u else u);
          v = (if neg then - int (number_value base ds) else int (number_value base ds))
      in max (- (2 ^ 63)) (min (2 ^ 63 - 1) v))"

definition to_int :: "int \<Rightarrow> int" where
  "to_int v = signed_take_bit 31 v"

definition digit_char :: "nat \<Rightarrow> char" where
  "digit_char d = (if d < 10 then char_of (48 + d) else char_of (87 + d))"

fun number_string :: "nat \<Rightarrow> nat \<Rightarrow> string" where
  "number_string base n =
     (if base < 2 \<or> n < base then [digit_char n]
      else number_string base (n div base) @ [digit_char (n mod base)])"

declare number_string.simps [simp del]

definition print_int :: "int \<Rightarrow> string" where
  "print_int v = (if v < 0 then ''-'' @ number_string 10 (nat (- v)) else number_string 10 (nat v))"

definition print_hex :: "int \<Rightarrow> string" where
  "print_hex v = ''0x'' @ number_string 16 (nat (take_bit 32 v))"

text \<open>
  \<open>sym_string_valid\<close>: the C string ends where the list does, and reading one character
  past it gives \<open>NUL\<close>, which is no digit.
\<close>

fun int_string_valid :: "string \<Rightarrow> bool" where
  "int_string_valid [] = False"
| "int_string_valid (ch # str) =
     (isdigit ch \<and> \<not> (ch = CHR ''0'' \<and> str \<noteq> []) \<and> list_all isdigit str)"

fun hex_prefix :: "string \<Rightarrow> string" where
  "hex_prefix (z # x # r) =
     (if z = CHR ''0'' \<and> (x = CHR ''x'' \<or> x = CHR ''X'') then r else z # x # r)"
| "hex_prefix t = t"

fun tristate_letter :: "string \<Rightarrow> tristate option" where
  "tristate_letter (c # t) =
     (if c = CHR ''y'' \<or> c = CHR ''Y'' then Some Tyes
      else if c = CHR ''m'' \<or> c = CHR ''M'' then Some Tmod
      else if c = CHR ''n'' \<or> c = CHR ''N'' then Some Tno else None)"
| "tristate_letter [] = None"

definition sym_string_valid :: "ksymbol \<Rightarrow> string \<Rightarrow> bool" where
  "sym_string_valid y str =
     (case sy_type y of
        S_STRING \<Rightarrow> True
      | S_INT \<Rightarrow> int_string_valid (case str of [] \<Rightarrow> [] | c # t \<Rightarrow> if c = CHR ''-'' then t else str)
      | S_HEX \<Rightarrow> hex_prefix str \<noteq> [] \<and> list_all isxdigit (hex_prefix str)
      | S_BOOLEAN \<Rightarrow> tristate_letter str \<noteq> None
      | S_TRISTATE \<Rightarrow> tristate_letter str \<noteq> None
      | _ \<Rightarrow> False)"

section \<open>Ranges of a tristate\<close>

definition sym_tristate_within_range :: "ksymbol \<Rightarrow> tristate \<Rightarrow> bool" where
  "sym_tristate_within_range y val =
     (let type = sym_get_type y in
      if sy_visible y = Tno then False
      else if type \<noteq> S_BOOLEAN \<and> type \<noteq> S_TRISTATE then False
      else if type = S_BOOLEAN \<and> val = Tmod then False
      else if sy_visible y \<le> sy_rev_tri y then False
      else if sym_is_choice_value y \<and> sy_visible y = Tyes then val = Tyes
      else sy_rev_tri y \<le> val \<and> val \<le> sy_visible y)"

definition sym_is_changable :: "ksymbol \<Rightarrow> bool" where
  "sym_is_changable y \<longleftrightarrow> sy_rev_tri y < sy_visible y"

end
