(* ===== verification/Kconfig_Calc.thy ===== *)
theory Kconfig_Calc
  imports Kconfig_Symbol
begin

text \<open>
  The evaluation of symbols (\<open>sym_calc_value\<close> and what it calls in \<open>symbol.c\<close>, and
  \<open>expr_calc_value\<close> of \<open>expr.c\<close>). The functions of the C source call each other through
  \<open>sym_calc_value\<close> only, which marks a symbol valid before it evaluates anything else. Each
  definition takes the function it calls back as the argument \<open>calc\<close>, and
  \<open>sym_calc_value\<close> ties the knot with a bound on the depth of its activations; a depth of one
  more than the number of symbols that are not valid is enough (theory \<open>Kconfig_Total\<close>).
\<close>

type_synonym calc_fun = "kconf \<Rightarrow> sym \<Rightarrow> kerr + kconf"

section \<open>Expressions\<close>

primrec expr_calc :: "calc_fun \<Rightarrow> expr \<Rightarrow> kconf \<Rightarrow> kerr + (kconf \<times> tristate)" where
  "expr_calc calc (E_SYMBOL s) k =
     rbind (calc k s) (\<lambda>k1. Inr (k1, v_tri (sy_curr (obj k1 s))))"
| "expr_calc calc (E_AND a b) k =
     rbind (expr_calc calc a k) (\<lambda>(k1, val1).
     rbind (expr_calc calc b k1) (\<lambda>(k2, val2). Inr (k2, tri_and val1 val2)))"
| "expr_calc calc (E_OR a b) k =
     rbind (expr_calc calc a k) (\<lambda>(k1, val1).
     rbind (expr_calc calc b k1) (\<lambda>(k2, val2). Inr (k2, tri_or val1 val2)))"
| "expr_calc calc (E_NOT a) k =
     rbind (expr_calc calc a k) (\<lambda>(k1, val1). Inr (k1, tri_not val1))"
| "expr_calc calc (E_EQUAL a b) k =
     rbind (calc k a) (\<lambda>k1. rbind (calc k1 b) (\<lambda>k2.
     rbind (sym_string (obj k2 a)) (\<lambda>str1. rbind (sym_string (obj k2 b)) (\<lambda>str2.
     Inr (k2, if str1 = str2 then Tyes else Tno)))))"
| "expr_calc calc (E_UNEQUAL a b) k =
     rbind (calc k a) (\<lambda>k1. rbind (calc k1 b) (\<lambda>k2.
     rbind (sym_string (obj k2 a)) (\<lambda>str1. rbind (sym_string (obj k2 b)) (\<lambda>str2.
     Inr (k2, if str1 = str2 then Tno else Tyes)))))"

fun expr_calc_opt :: "calc_fun \<Rightarrow> expr option \<Rightarrow> kconf \<Rightarrow> kerr + (kconf \<times> tristate)" where
  "expr_calc_opt calc None k = Inr (k, Tyes)"
| "expr_calc_opt calc (Some e) k = expr_calc calc e k"

text \<open>The expression of a property; the two other kinds of cell evaluate to \<open>no\<close> with a message.\<close>

fun pexpr_calc :: "calc_fun \<Rightarrow> pexpr \<Rightarrow> kconf \<Rightarrow> kerr + (kconf \<times> tristate)" where
  "pexpr_calc calc PE_NULL k = Inr (k, Tyes)"
| "pexpr_calc calc (PE_EXPR e) k = expr_calc calc e k"
| "pexpr_calc calc (PE_CHOICE vs) k = Inr (k, Tno)"
| "pexpr_calc calc (PE_RANGE a b) k = Inr (k, Tno)"

section \<open>Properties\<close>

definition set_prop_tri :: "sym \<Rightarrow> nat \<Rightarrow> tristate \<Rightarrow> kconf \<Rightarrow> kconf" where
  "set_prop_tri s i t k =
     upd s (\<lambda>y. y\<lparr>sy_prop := (sy_prop y)[i := (sy_prop y ! i)\<lparr>p_tri := t\<rparr>]\<rparr>) k"

text \<open>\<open>prop->visible.tri = expr_calc_value(prop->visible.expr)\<close> for the property at a position.\<close>

definition calc_prop :: "calc_fun \<Rightarrow> sym \<Rightarrow> nat \<Rightarrow> kconf \<Rightarrow> kerr + (kconf \<times> tristate)" where
  "calc_prop calc s i k =
     rbind (expr_calc_opt calc (p_visible (sy_prop (obj k s) ! i)) k)
       (\<lambda>(k1, t). Inr (set_prop_tri s i t k1, t))"

primrec calc_prompts :: "calc_fun \<Rightarrow> sym \<Rightarrow> nat list \<Rightarrow> tristate \<Rightarrow> kconf \<Rightarrow> kerr + (kconf \<times> tristate)" where
  "calc_prompts calc s [] tri k = Inr (k, tri)"
| "calc_prompts calc s (i # is) tri k =
     (if p_text (sy_prop (obj k s) ! i) \<noteq> None then
        rbind (calc_prop calc s i k) (\<lambda>(k1, t). calc_prompts calc s is (tri_or tri t) k1)
      else calc_prompts calc s is tri k)"

primrec first_visible :: "calc_fun \<Rightarrow> prop_type \<Rightarrow> sym \<Rightarrow> nat list \<Rightarrow> kconf \<Rightarrow> kerr + (kconf \<times> nat option)" where
  "first_visible calc ty s [] k = Inr (k, None)"
| "first_visible calc ty s (i # is) k =
     (if p_type (sy_prop (obj k s) ! i) = ty then
        rbind (calc_prop calc s i k) (\<lambda>(k1, t).
          if t \<noteq> Tno then Inr (k1, Some i) else first_visible calc ty s is k1)
      else first_visible calc ty s is k)"

abbreviation prop_indices :: "kconf \<Rightarrow> sym \<Rightarrow> nat list" where
  "prop_indices k s \<equiv> [0..<length (sy_prop (obj k s))]"

definition sym_get_default_prop :: "calc_fun \<Rightarrow> sym \<Rightarrow> kconf \<Rightarrow> kerr + (kconf \<times> nat option)" where
  "sym_get_default_prop calc s k = first_visible calc P_DEFAULT s (prop_indices k s) k"

definition sym_get_range_prop :: "calc_fun \<Rightarrow> sym \<Rightarrow> kconf \<Rightarrow> kerr + (kconf \<times> nat option)" where
  "sym_get_range_prop calc s k = first_visible calc P_RANGE s (prop_indices k s) k"

section \<open>Ranges\<close>

definition type_base :: "symbol_type \<Rightarrow> nat \<Rightarrow> nat" where
  "type_base t base = (case t of S_INT \<Rightarrow> 10 | S_HEX \<Rightarrow> 16 | _ \<Rightarrow> base)"

definition sym_get_range_val :: "calc_fun \<Rightarrow> sym \<Rightarrow> nat \<Rightarrow> kconf \<Rightarrow> kerr + (kconf \<times> int)" where
  "sym_get_range_val calc s base k =
     rbind (calc k s) (\<lambda>k1.
     rbind (symval_string (v_val (sy_curr (obj k1 s)))) (\<lambda>str.
     Inr (k1, to_int (strtol str (type_base (sy_type (obj k1 s)) base)))))"

definition range_of :: "property \<Rightarrow> kerr + (sym \<times> sym)" where
  "range_of p = (case p_expr p of PE_RANGE l r \<Rightarrow> Inr (l, r) | _ \<Rightarrow> Inl Bad_pointer)"

definition set_range_string :: "sym \<Rightarrow> int \<Rightarrow> kconf \<Rightarrow> kconf" where
  "set_range_string s v k =
     (let str = (if sy_type (obj k s) = S_INT then print_int v else print_hex v)
      in (upd s (\<lambda>y. y\<lparr>sy_curr := (sy_curr y)\<lparr>v_val := V_heap (k_heap k) str\<rparr>\<rparr>) k)
           \<lparr>k_heap := Suc (k_heap k)\<rparr>)"

definition sym_validate_range :: "calc_fun \<Rightarrow> sym \<Rightarrow> kconf \<Rightarrow> kerr + kconf" where
  "sym_validate_range calc s k =
     (if sy_type (obj k s) \<noteq> S_INT \<and> sy_type (obj k s) \<noteq> S_HEX then Inr k
      else let base = type_base (sy_type (obj k s)) 10 in
        rbind (sym_get_range_prop calc s k) (\<lambda>(k1, pr). case pr of None \<Rightarrow> Inr k1 | Some i \<Rightarrow>
        rbind (symval_string (v_val (sy_curr (obj k1 s)))) (\<lambda>str.
        rbind (range_of (sy_prop (obj k1 s) ! i)) (\<lambda>(l, r).
        let val = to_int (strtol str base) in
        rbind (sym_get_range_val calc l base k1) (\<lambda>(k2, val2).
        if val2 \<le> val then
          rbind (sym_get_range_val calc r base k2) (\<lambda>(k3, val3).
          if val \<le> val3 then Inr k3 else Inr (set_range_string s val3 k3))
        else Inr (set_range_string s val2 k2))))))"

section \<open>Visibility\<close>

definition sym_deselected :: "calc_fun \<Rightarrow> sym \<Rightarrow> kconf \<Rightarrow> kerr + (kconf \<times> bool)" where
  "sym_deselected calc s k =
     (case sy_rev_dep_inv (obj k s) of
        None \<Rightarrow> Inr (k, False)
      | Some e \<Rightarrow> rbind (expr_calc calc e k) (\<lambda>(k1, t). Inr (k1, t = Tyes)))"

definition set_visible :: "sym \<Rightarrow> tristate \<Rightarrow> kconf \<Rightarrow> kconf" where
  "set_visible s tri k =
     (if sy_visible (obj k s) \<noteq> tri then sym_set_changed (upd s (\<lambda>y. y\<lparr>sy_visible := tri\<rparr>) k) s else k)"

definition set_rev_tri :: "sym \<Rightarrow> tristate \<Rightarrow> kconf \<Rightarrow> kconf" where
  "set_rev_tri s tri k =
     (if sy_rev_tri (obj k s) \<noteq> tri then sym_set_changed (upd s (\<lambda>y. y\<lparr>sy_rev_tri := tri\<rparr>) k) s else k)"

definition calc_rev_dep :: "calc_fun \<Rightarrow> sym \<Rightarrow> kconf \<Rightarrow> kerr + kconf" where
  "calc_rev_dep calc s k =
     rbind (case sy_rev_dep (obj k s) of None \<Rightarrow> Inr (k, Tno) | Some e \<Rightarrow> expr_calc calc e k)
       (\<lambda>(k1, tri). Inr (set_rev_tri s
          (if tri = Tmod \<and> sym_get_type (obj k1 s) = S_BOOLEAN then Tyes else tri) k1))"

text \<open>The end of \<open>sym_calc_visibility\<close>, where \<open>tri\<close> is the new visibility.\<close>

definition store_visibility :: "calc_fun \<Rightarrow> sym \<Rightarrow> bool \<Rightarrow> tristate \<Rightarrow> kconf \<Rightarrow> kerr + kconf" where
  "store_visibility calc s deselected tri k =
     (let k1 = set_visible s tri k in
      if sym_is_choice_value (obj k1 s) \<or> deselected then Inr k1 else calc_rev_dep calc s k1)"

definition sym_calc_visibility :: "calc_fun \<Rightarrow> sym \<Rightarrow> kconf \<Rightarrow> kerr + kconf" where
  "sym_calc_visibility calc s k =
     rbind (calc_prompts calc s (prop_indices k s) Tno k) (\<lambda>(k1, tri).
     rbind (sym_deselected calc s k1) (\<lambda>(k2, deselected).
     store_visibility calc s deselected
       (if deselected then Tno
        else if tri = Tmod \<and> sy_type (obj k1 s) \<noteq> S_TRISTATE then Tyes else tri) k2))"

section \<open>Choices\<close>

text \<open>Whether a candidate of a choice is visible.\<close>

definition candidate_visible :: "calc_fun \<Rightarrow> sym \<Rightarrow> kconf \<Rightarrow> kerr + (kconf \<times> bool)" where
  "candidate_visible calc d k =
     rbind (sym_calc_visibility calc d k) (\<lambda>k1. Inr (k1, sy_visible (obj k1 d) \<noteq> Tno))"

primrec choice_first :: "calc_fun \<Rightarrow> sym list \<Rightarrow> kconf \<Rightarrow> kerr + (kconf \<times> sym option)" where
  "choice_first calc [] k = Inr (k, None)"
| "choice_first calc (d # ds) k =
     rbind (candidate_visible calc d k) (\<lambda>(k1, vis).
       if vis then Inr (k1, Some d) else choice_first calc ds k1)"

primrec choice_default :: "calc_fun \<Rightarrow> sym \<Rightarrow> nat list \<Rightarrow> kconf \<Rightarrow> kerr + (kconf \<times> sym option)" where
  "choice_default calc s [] k = Inr (k, None)"
| "choice_default calc s (i # is) k =
     (if p_type (sy_prop (obj k s) ! i) = P_DEFAULT then
        rbind (calc_prop calc s i k) (\<lambda>(k1, t).
        if t = Tno then choice_default calc s is k1
        else case prop_get_symbol (sy_prop (obj k1 s) ! i) of
          None \<Rightarrow> Inl Bad_pointer
        | Some d \<Rightarrow> rbind (candidate_visible calc d k1) (\<lambda>(k2, vis).
            if vis then Inr (k2, Some d) else choice_default calc s is k2))
      else choice_default calc s is k)"

definition choice_user :: "calc_fun \<Rightarrow> sym \<Rightarrow> kconf \<Rightarrow> kerr + (kconf \<times> sym option)" where
  "choice_user calc s k =
     (case v_val (sy_user (obj k s)) of
        V_NULL \<Rightarrow> Inr (k, None)
      | V_sym d \<Rightarrow> rbind (candidate_visible calc d k) (\<lambda>(k1, vis). Inr (k1, if vis then Some d else None))
      | _ \<Rightarrow> Inl Bad_pointer)"

definition choice_pick :: "calc_fun \<Rightarrow> sym \<Rightarrow> kconf \<Rightarrow> kerr + (kconf \<times> sym option)" where
  "choice_pick calc s k =
     rbind (choice_user calc s k) (\<lambda>(k1, r1). if r1 \<noteq> None then Inr (k1, r1) else
     rbind (choice_default calc s (prop_indices k1 s) k1) (\<lambda>(k2, r2). if r2 \<noteq> None then Inr (k2, r2) else
     rbind (choice_values (obj k2 s)) (\<lambda>vs. choice_first calc vs k2)))"

definition sym_calc_choice :: "calc_fun \<Rightarrow> sym \<Rightarrow> kconf \<Rightarrow> kerr + (kconf \<times> sym option)" where
  "sym_calc_choice calc s k =
     rbind (choice_pick calc s k) (\<lambda>(k1, r).
       if r \<noteq> None then Inr (k1, r)
       else Inr (upd s (\<lambda>y. y\<lparr>sy_curr := (sy_curr y)\<lparr>v_tri := Tno\<rparr>\<rparr>) k1, None))"

section \<open>Values\<close>

definition set_curr :: "sym \<Rightarrow> symbol_value \<Rightarrow> kconf \<Rightarrow> kconf" where
  "set_curr s v k = upd s (\<lambda>y. y\<lparr>sy_curr := v\<rparr>) k"

definition calc_default :: "calc_fun \<Rightarrow> sym \<Rightarrow> kconf \<Rightarrow> kerr + (kconf \<times> tristate option)" where
  "calc_default calc s k =
     rbind (sym_get_default_prop calc s k) (\<lambda>(k1, pr). case pr of
       None \<Rightarrow> Inr (k1, None)
     | Some i \<Rightarrow> rbind (pexpr_calc calc (p_expr (sy_prop (obj k1 s) ! i)) k1) (\<lambda>(k2, t). Inr (k2, Some t)))"

definition calc_visible_tristate :: "calc_fun \<Rightarrow> sym \<Rightarrow> kconf \<Rightarrow> kerr + (kconf \<times> tristate)" where
  "calc_visible_tristate calc s k =
     (let k1 = upd s (flag_on SYMBOL_WRITE) k in
      rbind (if sym_has_value (obj k1 s) then Inr (k1, v_tri (sy_user (obj k1 s)))
             else if \<not> sym_is_choice (obj k1 s)
             then rbind (calc_default calc s k1) (\<lambda>(k2, d). Inr (k2, case d of None \<Rightarrow> Tno | Some t \<Rightarrow> t))
             else Inr (k1, Tno))
        (\<lambda>(k3, t). Inr (k3, tri_or (tri_and t (sy_visible (obj k3 s))) (sy_rev_tri (obj k3 s)))))"

definition calc_hidden_tristate :: "calc_fun \<Rightarrow> sym \<Rightarrow> kconf \<Rightarrow> kerr + (kconf \<times> tristate)" where
  "calc_hidden_tristate calc s k =
     (if sym_is_choice (obj k s) then Inr (k, Tno)
      else rbind (sym_get_default_prop calc s k) (\<lambda>(k1, pr). case pr of
        None \<Rightarrow> Inr (k1, Tno)
      | Some i \<Rightarrow> pexpr_calc calc (p_expr (sy_prop (obj k1 s) ! i)) (upd s (flag_on SYMBOL_WRITE) k1)))"

definition calc_tristate :: "calc_fun \<Rightarrow> sym \<Rightarrow> kconf \<Rightarrow> kerr + (kconf \<times> tristate)" where
  "calc_tristate calc s k =
     rbind
       (if sym_is_choice_value (obj k s) \<and> sy_visible (obj k s) = Tyes then
          rbind (choice_of (obj k s)) (\<lambda>cs.
            Inr (k, if v_val (sy_curr (obj k cs)) = V_sym s then Tyes else Tno))
        else rbind (sym_deselected calc s k) (\<lambda>(k1, deselected).
          if deselected then Inr (k1, Tno)
          else if tri_or (sy_visible (obj k1 s)) (sy_rev_tri (obj k1 s)) \<noteq> Tno
          then calc_visible_tristate calc s k1
          else calc_hidden_tristate calc s k1))
       (\<lambda>(k2, t). Inr (k2, if t = Tmod \<and> sym_get_type (obj k2 s) = S_BOOLEAN then Tyes else t))"

definition calc_string :: "calc_fun \<Rightarrow> sym \<Rightarrow> kconf \<Rightarrow> kerr + (kconf \<times> symval)" where
  "calc_string calc s k =
     (let vis = (sy_visible (obj k s) \<noteq> Tno);
          k1 = (if vis then upd s (flag_on SYMBOL_WRITE) k else k) in
      if vis \<and> sym_has_value (obj k1 s) then Inr (k1, v_val (sy_user (obj k1 s)))
      else rbind (sym_get_default_prop calc s k1) (\<lambda>(k2, pr). case pr of
        None \<Rightarrow> Inr (k2, V_lit '''')
      | Some i \<Rightarrow> (case prop_get_symbol (sy_prop (obj k2 s) ! i) of
          None \<Rightarrow> Inr (k2, V_lit '''')
        | Some ds \<Rightarrow> rbind (calc (upd s (flag_on SYMBOL_WRITE) k2) ds)
            (\<lambda>k3. Inr (k3, v_val (sy_curr (obj k3 ds)))))))"

text \<open>The two switches of \<open>sym_calc_value\<close>: the value a symbol starts from, and its new value.\<close>

fun initial_curr :: "symbol_type \<Rightarrow> symbol_value option" where
  "initial_curr S_INT = Some symbol_empty_curr"
| "initial_curr S_HEX = Some symbol_empty_curr"
| "initial_curr S_STRING = Some symbol_empty_curr"
| "initial_curr S_BOOLEAN = Some symbol_no_curr"
| "initial_curr S_TRISTATE = Some symbol_no_curr"
| "initial_curr _ = None"

definition calc_newval :: "calc_fun \<Rightarrow> sym \<Rightarrow> kconf \<Rightarrow> kerr + (kconf \<times> symbol_value)" where
  "calc_newval calc s k =
     (if sym_get_type (obj k s) = S_BOOLEAN \<or> sym_get_type (obj k s) = S_TRISTATE
      then rbind (calc_tristate calc s k) (\<lambda>(k1, t). Inr (k1, symbol_no_curr\<lparr>v_tri := t\<rparr>))
      else rbind (calc_string calc s k) (\<lambda>(k1, v). Inr (k1, symbol_empty_curr\<lparr>v_val := v\<rparr>)))"

definition choice_result :: "sym option \<Rightarrow> symval" where
  "choice_result r = (case r of None \<Rightarrow> V_NULL | Some d \<Rightarrow> V_sym d)"

definition calc_choice_value :: "calc_fun \<Rightarrow> sym \<Rightarrow> kconf \<Rightarrow> kerr + kconf" where
  "calc_choice_value calc s k =
     (if sym_is_choice (obj k s) \<and> v_tri (sy_curr (obj k s)) = Tyes then
        rbind (sym_calc_choice calc s k) (\<lambda>(k1, r).
          Inr (upd s (\<lambda>y. y\<lparr>sy_curr := (sy_curr y)\<lparr>v_val := choice_result r\<rparr>\<rparr>) k1))
      else Inr k)"

text \<open>The end of \<open>sym_calc_value\<close>: change marks, the value of \<open>MODULES\<close>, the flags of the values of a choice.\<close>

definition mark_choice_value :: "u32 \<Rightarrow> sym \<Rightarrow> kconf \<Rightarrow> kconf" where
  "mark_choice_value flags v k =
     (let k1 = upd v (flag_on flags) k
      in if flags AND SYMBOL_CHANGED \<noteq> 0 then sym_set_changed k1 v else k1)"

definition calc_finish :: "sym \<Rightarrow> symbol_value \<Rightarrow> kconf \<Rightarrow> kerr + kconf" where
  "calc_finish s oldval k =
     (let k1 = (if oldval \<noteq> sy_curr (obj k s) then sym_set_changed k s else k);
          k2 = (if modules_sym k1 = Some s then k1\<lparr>modules_val := v_tri (sy_curr (obj k1 s))\<rparr> else k1)
      in if sym_is_choice (obj k2 s) then
           rbind (choice_values (obj k2 s)) (\<lambda>vs.
             Inr (fold (mark_choice_value (sy_flags (obj k2 s) AND (SYMBOL_CHANGED OR SYMBOL_WRITE))) vs k2))
         else Inr k2)"

definition name_pointer :: "sym \<Rightarrow> ksymbol \<Rightarrow> symval" where
  "name_pointer s y = (case sy_name y of None \<Rightarrow> V_NULL | Some n \<Rightarrow> V_name s n)"

text \<open>\<open>sym_calc_value\<close> from the second switch on, and as a whole.\<close>

definition value_half :: "calc_fun \<Rightarrow> sym \<Rightarrow> symbol_value \<Rightarrow> kconf \<Rightarrow> kerr + kconf" where
  "value_half calc s oldval k =
     rbind (calc_newval calc s k) (\<lambda>(k4, newval).
     rbind (calc_choice_value calc s (set_curr s newval k4)) (\<lambda>k5.
     rbind (sym_validate_range calc s k5) (\<lambda>k6.
     calc_finish s oldval k6)))"

definition sym_calc_body :: "calc_fun \<Rightarrow> calc_fun" where
  "sym_calc_body calc k s =
     (if has_flag SYMBOL_VALID (obj k s) then Inr k
      else let k1 = upd s (flag_on SYMBOL_VALID) k; oldval = sy_curr (obj k s) in
      case initial_curr (sy_type (obj k1 s)) of
        None \<Rightarrow> Inr (set_curr s \<lparr>v_val = name_pointer s (obj k1 s), v_tri = Tno\<rparr> k1)
      | Some newval \<Rightarrow>
          let k2 = (if sym_is_choice_value (obj k1 s) then k1 else upd s (flag_off SYMBOL_WRITE) k1) in
          rbind (sym_calc_visibility calc s k2) (\<lambda>k3.
          value_half calc s oldval (set_curr s newval k3)))"

primrec sym_calc_value :: "nat \<Rightarrow> calc_fun" where
  "sym_calc_value 0 k s = Inl Out_of_fuel"
| "sym_calc_value (Suc n) k s = sym_calc_body (sym_calc_value n) k s"

section \<open>Operations on the whole table\<close>

text \<open>The number of symbols that are still to be evaluated, and evaluation with that bound.\<close>

definition syms_of :: "kconf \<Rightarrow> sym list" where
  "syms_of k = [symbol_yes, symbol_mod, symbol_no] @ map Sym [0..<k_count k]"

definition invalid_count :: "kconf \<Rightarrow> nat" where
  "invalid_count k = length (filter (\<lambda>s. \<not> has_flag SYMBOL_VALID (obj k s)) (syms_of k))"

definition sym_calc :: calc_fun where
  "sym_calc k s = sym_calc_value (Suc (invalid_count k)) k s"

definition sym_clear_all_valid :: "kconf \<Rightarrow> kerr + kconf" where
  "sym_clear_all_valid k =
     (let k1 = fold (\<lambda>s. upd s (flag_off SYMBOL_VALID)) (all_symbols k) k;
          k2 = k1\<lparr>sym_change_count := sym_change_count k1 + 1\<rparr>
      in case modules_sym k2 of None \<Rightarrow> Inr k2 | Some m \<Rightarrow> sym_calc k2 m)"

definition clear_new :: "sym \<Rightarrow> kconf \<Rightarrow> kconf" where
  "clear_new s k =
     (if has_flag SYMBOL_NEW (obj k s) then sym_set_changed (upd s (flag_off SYMBOL_NEW) k) s else k)"

definition choose_value :: "sym \<Rightarrow> kconf \<Rightarrow> kerr + kconf" where
  "choose_value s k =
     rbind (choice_of (obj k s)) (\<lambda>cs.
     let k1 = upd cs (\<lambda>y. flag_off SYMBOL_NEW (y\<lparr>sy_user := (sy_user y)\<lparr>v_val := V_sym s\<rparr>\<rparr>)) k in
     rbind (choice_values (obj k1 cs)) (\<lambda>vs.
     Inr (fold (\<lambda>v k. if sy_visible (obj k v) \<noteq> Tno then upd v (flag_off SYMBOL_NEW) k else k) vs k1)))"

definition sym_set_tristate_value :: "sym \<Rightarrow> tristate \<Rightarrow> kconf \<Rightarrow> kerr + (kconf \<times> bool)" where
  "sym_set_tristate_value s val k =
     (let oldval = v_tri (sy_curr (obj k s)) in
      if oldval \<noteq> val \<and> \<not> sym_tristate_within_range (obj k s) val then Inr (k, False)
      else let k1 = clear_new s k in
        rbind (if sym_is_choice_value (obj k1 s) \<and> val = Tyes then choose_value s k1 else Inr k1) (\<lambda>k2.
        let k3 = upd s (\<lambda>y. y\<lparr>sy_user := (sy_user y)\<lparr>v_tri := val\<rparr>\<rparr>) k2 in
        if oldval \<noteq> val then
          rbind (sym_clear_all_valid k3) (\<lambda>k4.
          Inr (if modules_sym k4 = Some s then sym_set_all_changed k4 else k4, True))
        else Inr (k3, True)))"

fun next_tristate :: "tristate \<Rightarrow> tristate" where
  "next_tristate Tno = Tmod"
| "next_tristate Tmod = Tyes"
| "next_tristate Tyes = Tno"

text \<open>
  The loop of \<open>sym_toggle_tristate_value\<close>; its bound is the number of tristates, and the value
  it started from is always accepted.
\<close>

primrec toggle_loop :: "nat \<Rightarrow> tristate \<Rightarrow> sym \<Rightarrow> tristate \<Rightarrow> kconf \<Rightarrow> kerr + (kconf \<times> tristate)" where
  "toggle_loop 0 oldval s newval k = Inl Out_of_fuel"
| "toggle_loop (Suc n) oldval s newval k =
     rbind (sym_set_tristate_value s (next_tristate newval) k) (\<lambda>(k1, set).
       if set \<or> oldval = next_tristate newval then Inr (k1, next_tristate newval)
       else toggle_loop n oldval s (next_tristate newval) k1)"

definition sym_toggle_tristate_value :: "sym \<Rightarrow> kconf \<Rightarrow> kerr + (kconf \<times> tristate)" where
  "sym_toggle_tristate_value s k =
     toggle_loop 3 (v_tri (sy_curr (obj k s))) s (v_tri (sy_curr (obj k s))) k"

definition sym_within_limits :: "sym \<Rightarrow> string \<Rightarrow> nat \<Rightarrow> kconf \<Rightarrow> kerr + (kconf \<times> bool)" where
  "sym_within_limits s str base k =
     (if \<not> sym_string_valid (obj k s) str then Inr (k, False)
      else rbind (sym_get_range_prop sym_calc s k) (\<lambda>(k1, pr). case pr of
        None \<Rightarrow> Inr (k1, True)
      | Some i \<Rightarrow>
          rbind (range_of (sy_prop (obj k1 s) ! i)) (\<lambda>(l, r).
          let val = to_int (strtol str base) in
          rbind (sym_get_range_val sym_calc l base k1) (\<lambda>(k2, lo).
          if lo \<le> val then rbind (sym_get_range_val sym_calc r base k2) (\<lambda>(k3, hi). Inr (k3, val \<le> hi))
          else Inr (k2, False)))))"

definition sym_string_within_range :: "sym \<Rightarrow> string \<Rightarrow> kconf \<Rightarrow> kerr + (kconf \<times> bool)" where
  "sym_string_within_range s str k =
     (case sy_type (obj k s) of
        S_STRING \<Rightarrow> Inr (k, sym_string_valid (obj k s) str)
      | S_INT \<Rightarrow> sym_within_limits s str 10 k
      | S_HEX \<Rightarrow> sym_within_limits s str 16 k
      | S_BOOLEAN \<Rightarrow> Inr (k, case tristate_letter str of None \<Rightarrow> False | Some t \<Rightarrow> sym_tristate_within_range (obj k s) t)
      | S_TRISTATE \<Rightarrow> Inr (k, case tristate_letter str of None \<Rightarrow> False | Some t \<Rightarrow> sym_tristate_within_range (obj k s) t)
      | _ \<Rightarrow> Inr (k, False))"

text \<open>The string \<open>sym_set_string_value\<close> stores: a hexadecimal number gets its prefix.\<close>

fun has_0x :: "string \<Rightarrow> bool" where
  "has_0x (z # x # r) \<longleftrightarrow> z = CHR ''0'' \<and> (x = CHR ''x'' \<or> x = CHR ''X'')"
| "has_0x _ \<longleftrightarrow> False"

definition needs_0x :: "ksymbol \<Rightarrow> string \<Rightarrow> bool" where
  "needs_0x y str \<longleftrightarrow> sy_type y = S_HEX \<and> \<not> has_0x str"

definition set_user_string :: "sym \<Rightarrow> string \<Rightarrow> kconf \<Rightarrow> kconf" where
  "set_user_string s str k =
     (upd s (\<lambda>y. y\<lparr>sy_user := (sy_user y)\<lparr>v_val := V_heap (k_heap k) str\<rparr>\<rparr>) k)\<lparr>k_heap := Suc (k_heap k)\<rparr>"

definition sym_set_string_value :: "sym \<Rightarrow> string \<Rightarrow> kconf \<Rightarrow> kerr + (kconf \<times> bool)" where
  "sym_set_string_value s newval k =
     (if sy_type (obj k s) = S_BOOLEAN \<or> sy_type (obj k s) = S_TRISTATE then
        (case tristate_letter newval of None \<Rightarrow> Inr (k, False) | Some t \<Rightarrow> sym_set_tristate_value s t k)
      else rbind (sym_string_within_range s newval k) (\<lambda>(k1, ok).
        if \<not> ok then Inr (k1, False)
        else let k2 = clear_new s k1 in
          if needs_0x (obj k2 s) newval then
            rbind (sym_clear_all_valid (set_user_string s (''0x'' @ newval) k2)) (\<lambda>k3. Inr (k3, True))
          else if v_val (sy_user (obj k2 s)) = V_NULL then
            rbind (sym_clear_all_valid (set_user_string s newval k2)) (\<lambda>k3. Inr (k3, True))
          else rbind (symval_string (v_val (sy_user (obj k2 s)))) (\<lambda>oldval.
            if oldval = newval then Inr (k2, True)
            else rbind (sym_clear_all_valid (set_user_string s newval k2)) (\<lambda>k3. Inr (k3, True)))))"

end
