(* ===== verification/Kconfig_Frame.thy ===== *)
theory Kconfig_Frame
  imports Kconfig_Calc
begin

text \<open>
  What the evaluation of a symbol may change, and what it should compute. \<open>erase\<close> is the
  part of a symbol that the configuration files and the user fix; \<open>frame\<close> says that a
  later state has the same fixed part and keeps the value of every valid symbol. The
  functions \<open>eval\<close>, \<open>spec_vis\<close>, \<open>spec_tri\<close>, \<open>spec_choose\<close> and \<open>spec_string\<close> are the meaning
  of a symbol as a function of the values of other symbols, without evaluation order, marks
  or caches; \<open>solved\<close> says that the value stored in a symbol is that meaning.
\<close>

section \<open>The fixed part of a symbol\<close>

definition STATIC :: u32 where
  "STATIC = NOT (SYMBOL_VALID OR SYMBOL_WRITE OR SYMBOL_CHANGED)"

definition erase :: "ksymbol \<Rightarrow> ksymbol" where
  "erase y = y\<lparr>sy_curr := symbol_empty_curr, sy_visible := Tno, sy_rev_tri := Tno,
     sy_flags := sy_flags y AND STATIC, sy_prop := map (p_tri_update (\<lambda>_. Tno)) (sy_prop y)\<rparr>"

lemma erase_fields [simp]:
  "sy_name (erase y) = sy_name y" "sy_type (erase y) = sy_type y" "sy_user (erase y) = sy_user y"
  "sy_rev_dep (erase y) = sy_rev_dep y" "sy_rev_dep_inv (erase y) = sy_rev_dep_inv y"
  "length (sy_prop (erase y)) = length (sy_prop y)"
  by (simp_all add: erase_def)

lemma static_flag:
  assumes "m AND STATIC = m" shows "has_flag m (erase y) = has_flag m y"
proof -
  have "sy_flags y AND STATIC AND m = sy_flags y AND m"
    using assms by (metis and.assoc and.commute)
  then show ?thesis by (simp add: has_flag_def erase_def and.assoc)
qed

lemma erase_flags [simp]:
  "has_flag SYMBOL_CHOICE (erase y) = has_flag SYMBOL_CHOICE y"
  "has_flag SYMBOL_CHOICEVAL (erase y) = has_flag SYMBOL_CHOICEVAL y"
  "has_flag SYMBOL_NEW (erase y) = has_flag SYMBOL_NEW y"
  by (rule static_flag, simp add: STATIC_def ksymbol_flag_defs)+

lemma find_map: "find P (map f xs) = map_option f (find (P \<circ> f) xs)"
  by (induction xs) auto

lemma erase_props [simp]:
  "i < length (sy_prop y) \<Longrightarrow> p_type (sy_prop (erase y) ! i) = p_type (sy_prop y ! i)"
  "i < length (sy_prop y) \<Longrightarrow> p_text (sy_prop (erase y) ! i) = p_text (sy_prop y ! i)"
  "i < length (sy_prop y) \<Longrightarrow> p_visible (sy_prop (erase y) ! i) = p_visible (sy_prop y ! i)"
  "i < length (sy_prop y) \<Longrightarrow> p_expr (sy_prop (erase y) ! i) = p_expr (sy_prop y ! i)"
  by (simp_all add: erase_def)

lemma erase_choice_prop:
  "map_option p_expr (sym_get_choice_prop (erase y)) = map_option p_expr (sym_get_choice_prop y)"
  by (simp add: sym_get_choice_prop_def erase_def find_map comp_def option.map_comp)

lemma choice_values_expr:
  "choice_values y = (case map_option p_expr (sym_get_choice_prop y) of
     None \<Rightarrow> Inl Bad_pointer | Some PE_NULL \<Rightarrow> Inr [] | Some (PE_CHOICE vs) \<Rightarrow> Inr vs | _ \<Rightarrow> Inl Bad_pointer)"
  by (auto simp: choice_values_def split: option.splits pexpr.splits)

lemma choice_of_expr:
  "choice_of y = (case map_option p_expr (sym_get_choice_prop y) of
     Some (PE_EXPR (E_SYMBOL s)) \<Rightarrow> Inr s | _ \<Rightarrow> Inl Bad_pointer)"
  by (auto simp: choice_of_def prop_get_symbol_def split: option.splits pexpr.splits expr.splits)

lemma erase_more [simp]:
  "sym_is_choice (erase y) = sym_is_choice y"
  "sym_is_choice_value (erase y) = sym_is_choice_value y"
  "sym_has_value (erase y) = sym_has_value y"
  "choice_values (erase y) = choice_values y"
  "choice_of (erase y) = choice_of y"
  by (simp_all add: sym_is_choice_def sym_is_choice_value_def sym_has_value_def
    choice_values_expr choice_of_expr erase_choice_prop)

text \<open>A function of the fixed part agrees on two symbols with the same fixed part.\<close>

lemma erase_cong:
  assumes "erase y = erase z"
  shows "sy_name y = sy_name z" "sy_type y = sy_type z" "sy_user y = sy_user z"
    "sy_rev_dep y = sy_rev_dep z" "sy_rev_dep_inv y = sy_rev_dep_inv z"
    "length (sy_prop y) = length (sy_prop z)" "sym_is_choice y = sym_is_choice z"
    "sym_is_choice_value y = sym_is_choice_value z" "sym_has_value y = sym_has_value z"
    "choice_values y = choice_values z" "choice_of y = choice_of z"
  using assms erase_fields erase_more by metis+

lemma erase_cong_prop:
  assumes "erase y = erase z" "i < length (sy_prop y)"
  shows "p_type (sy_prop y ! i) = p_type (sy_prop z ! i)" "p_text (sy_prop y ! i) = p_text (sy_prop z ! i)"
    "p_visible (sy_prop y ! i) = p_visible (sy_prop z ! i)" "p_expr (sy_prop y ! i) = p_expr (sy_prop z ! i)"
  using assms erase_props erase_fields(6) by metis+

section \<open>Frames\<close>

definition valid :: "kconf \<Rightarrow> sym \<Rightarrow> bool" where
  "valid k s = has_flag SYMBOL_VALID (obj k s)"

definition same_globals :: "kconf \<Rightarrow> kconf \<Rightarrow> bool" where
  "same_globals k k' \<longleftrightarrow> k_count k = k_count k' \<and> k_hash k = k_hash k' \<and> modules_sym k = modules_sym k'"

definition frame :: "sym set \<Rightarrow> kconf \<Rightarrow> kconf \<Rightarrow> bool" where
  "frame X k k' \<longleftrightarrow> same_globals k k' \<and> (\<forall>t. erase (obj k t) = erase (obj k' t)) \<and>
     (\<forall>t. valid k t \<longrightarrow> valid k' t) \<and>
     (\<forall>t. valid k t \<longrightarrow> t \<notin> X \<longrightarrow> sy_curr (obj k' t) = sy_curr (obj k t))"

lemma frame_refl [simp, intro]: "frame X k k"
  by (simp add: frame_def same_globals_def)

lemma frame_trans [trans]: "frame X k k' \<Longrightarrow> frame X k' k'' \<Longrightarrow> frame X k k''"
  by (simp add: frame_def same_globals_def)

lemma frame_mono: "frame X k k' \<Longrightarrow> X \<subseteq> Y \<Longrightarrow> frame Y k k'"
  by (auto simp: frame_def)

lemma frame_empty: "frame {} k k' \<Longrightarrow> frame X k k'"
  by (erule frame_mono) simp

lemma frame_static: "frame X k k' \<Longrightarrow> erase (obj k' t) = erase (obj k t)"
  by (simp add: frame_def)

lemma frame_valid: "frame X k k' \<Longrightarrow> valid k t \<Longrightarrow> valid k' t"
  by (simp add: frame_def)

lemma frame_curr: "frame X k k' \<Longrightarrow> valid k t \<Longrightarrow> t \<notin> X \<Longrightarrow> sy_curr (obj k' t) = sy_curr (obj k t)"
  by (simp add: frame_def)

section \<open>The meaning of a symbol\<close>

primrec expr_syms :: "expr \<Rightarrow> sym list" where
  "expr_syms (E_SYMBOL s) = [s]"
| "expr_syms (E_NOT e) = expr_syms e"
| "expr_syms (E_AND a b) = expr_syms a @ expr_syms b"
| "expr_syms (E_OR a b) = expr_syms a @ expr_syms b"
| "expr_syms (E_EQUAL a b) = [a, b]"
| "expr_syms (E_UNEQUAL a b) = [a, b]"

primrec eval :: "kconf \<Rightarrow> expr \<Rightarrow> tristate" where
  "eval k (E_SYMBOL s) = v_tri (sy_curr (obj k s))"
| "eval k (E_NOT e) = tri_not (eval k e)"
| "eval k (E_AND a b) = tri_and (eval k a) (eval k b)"
| "eval k (E_OR a b) = tri_or (eval k a) (eval k b)"
| "eval k (E_EQUAL a b) = (if sym_string (obj k a) = sym_string (obj k b) then Tyes else Tno)"
| "eval k (E_UNEQUAL a b) = (if sym_string (obj k a) = sym_string (obj k b) then Tno else Tyes)"

definition eval_opt :: "kconf \<Rightarrow> expr option \<Rightarrow> tristate" where
  "eval_opt k e = (case e of None \<Rightarrow> Tyes | Some e \<Rightarrow> eval k e)"

definition eval_pexpr :: "kconf \<Rightarrow> pexpr \<Rightarrow> tristate" where
  "eval_pexpr k e = (case e of PE_NULL \<Rightarrow> Tyes | PE_EXPR e \<Rightarrow> eval k e | _ \<Rightarrow> Tno)"

definition prop_vis :: "kconf \<Rightarrow> sym \<Rightarrow> nat \<Rightarrow> tristate" where
  "prop_vis k s i = eval_opt k (p_visible (sy_prop (obj k s) ! i))"

definition has_prompt :: "kconf \<Rightarrow> sym \<Rightarrow> nat \<Rightarrow> bool" where
  "has_prompt k s i \<longleftrightarrow> p_text (sy_prop (obj k s) ! i) \<noteq> None"

primrec prompts_vis :: "kconf \<Rightarrow> sym \<Rightarrow> nat list \<Rightarrow> tristate \<Rightarrow> tristate" where
  "prompts_vis k s [] tri = tri"
| "prompts_vis k s (i # is) tri =
     prompts_vis k s is (if has_prompt k s i then tri_or tri (prop_vis k s i) else tri)"

definition spec_desel :: "kconf \<Rightarrow> sym \<Rightarrow> bool" where
  "spec_desel k s = (case sy_rev_dep_inv (obj k s) of None \<Rightarrow> False | Some e \<Rightarrow> eval k e = Tyes)"

definition raise :: "bool \<Rightarrow> tristate \<Rightarrow> tristate" where
  "raise b t = (if t = Tmod \<and> b then Tyes else t)"

definition spec_vis :: "kconf \<Rightarrow> sym \<Rightarrow> tristate" where
  "spec_vis k s =
     (if spec_desel k s then Tno
      else raise (sy_type (obj k s) \<noteq> S_TRISTATE) (prompts_vis k s (prop_indices k s) Tno))"

definition spec_rev :: "kconf \<Rightarrow> sym \<Rightarrow> tristate" where
  "spec_rev k s =
     raise (sy_type (obj k s) = S_BOOLEAN)
       (case sy_rev_dep (obj k s) of None \<Rightarrow> Tno | Some e \<Rightarrow> eval k e)"

definition first_prop :: "prop_type \<Rightarrow> kconf \<Rightarrow> sym \<Rightarrow> nat list \<Rightarrow> nat option" where
  "first_prop ty k s is = find (\<lambda>i. p_type (sy_prop (obj k s) ! i) = ty \<and> prop_vis k s i \<noteq> Tno) is"

definition spec_default :: "kconf \<Rightarrow> sym \<Rightarrow> tristate" where
  "spec_default k s =
     (case first_prop P_DEFAULT k s (prop_indices k s) of
        None \<Rightarrow> Tno | Some i \<Rightarrow> eval_pexpr k (p_expr (sy_prop (obj k s) ! i)))"

text \<open>The tristate value: a value of a visible choice, or between the selected and the visible value.\<close>

definition choice_picks :: "kconf \<Rightarrow> sym \<Rightarrow> bool" where
  "choice_picks k s = (case choice_of (obj k s) of Inl _ \<Rightarrow> False | Inr cs \<Rightarrow> v_val (sy_curr (obj k cs)) = V_sym s)"

definition sym_wish :: "kconf \<Rightarrow> sym \<Rightarrow> tristate" where
  "sym_wish k s =
     (if sym_has_value (obj k s) then v_tri (sy_user (obj k s))
      else if sym_is_choice (obj k s) then Tno else spec_default k s)"

definition picked_by_choice :: "kconf \<Rightarrow> sym \<Rightarrow> bool" where
  "picked_by_choice k s \<longleftrightarrow> sym_is_choice_value (obj k s) \<and> spec_vis k s = Tyes"

definition spec_select :: "kconf \<Rightarrow> sym \<Rightarrow> tristate" where
  "spec_select k s = (if sym_is_choice_value (obj k s) then Tno else spec_rev k s)"

definition spec_free :: "kconf \<Rightarrow> sym \<Rightarrow> tristate" where
  "spec_free k s =
     (if spec_desel k s then Tno
      else if tri_or (spec_vis k s) (spec_select k s) \<noteq> Tno
      then tri_or (tri_and (sym_wish k s) (spec_vis k s)) (spec_select k s)
      else if sym_is_choice (obj k s) then Tno else spec_default k s)"

definition spec_tri :: "kconf \<Rightarrow> sym \<Rightarrow> tristate" where
  "spec_tri k s =
     (if picked_by_choice k s then (if choice_picks k s then Tyes else Tno)
      else raise (sy_type (obj k s) = S_BOOLEAN) (spec_free k s))"

text \<open>The value a choice picks: the first visible one of the user's value, the defaults and all values.\<close>

definition user_candidates :: "kconf \<Rightarrow> sym \<Rightarrow> sym list" where
  "user_candidates k s = (case v_val (sy_user (obj k s)) of V_sym d \<Rightarrow> [d] | _ \<Rightarrow> [])"

definition default_candidates :: "kconf \<Rightarrow> sym \<Rightarrow> nat list \<Rightarrow> sym list" where
  "default_candidates k s is =
     concat (map (\<lambda>i. if p_type (sy_prop (obj k s) ! i) = P_DEFAULT \<and> prop_vis k s i \<noteq> Tno
       then (case prop_get_symbol (sy_prop (obj k s) ! i) of None \<Rightarrow> [] | Some d \<Rightarrow> [d]) else []) is)"

definition value_candidates :: "kconf \<Rightarrow> sym \<Rightarrow> sym list" where
  "value_candidates k s = (case choice_values (obj k s) of Inl _ \<Rightarrow> [] | Inr vs \<Rightarrow> vs)"

definition candidates :: "kconf \<Rightarrow> sym \<Rightarrow> sym list" where
  "candidates k s = user_candidates k s @ default_candidates k s (prop_indices k s) @ value_candidates k s"

definition spec_choose :: "kconf \<Rightarrow> sym \<Rightarrow> sym option" where
  "spec_choose k s = find (\<lambda>d. spec_vis k d \<noteq> Tno) (candidates k s)"

text \<open>The text of a string, decimal or hexadecimal symbol, before and after its range.\<close>

definition textof :: "symval \<Rightarrow> string" where
  "textof v = (case symval_string v of Inl _ \<Rightarrow> [] | Inr t \<Rightarrow> t)"

definition val_text :: "kconf \<Rightarrow> sym \<Rightarrow> string" where
  "val_text k s = textof (v_val (sy_curr (obj k s)))"

definition spec_text :: "kconf \<Rightarrow> sym \<Rightarrow> string" where
  "spec_text k s =
     (if spec_vis k s \<noteq> Tno \<and> sym_has_value (obj k s)
      then textof (v_val (sy_user (obj k s)))
      else (case first_prop P_DEFAULT k s (prop_indices k s) of
        None \<Rightarrow> []
      | Some i \<Rightarrow> (case prop_get_symbol (sy_prop (obj k s) ! i) of None \<Rightarrow> [] | Some d \<Rightarrow> val_text k d)))"

definition val_number :: "kconf \<Rightarrow> sym \<Rightarrow> nat \<Rightarrow> int" where
  "val_number k s base = to_int (strtol (val_text k s) (type_base (sy_type (obj k s)) base))"

definition clamp_text :: "kconf \<Rightarrow> sym \<Rightarrow> string \<Rightarrow> string" where
  "clamp_text k s str =
     (let ty = sy_type (obj k s); base = type_base ty 10; val = to_int (strtol str base);
          pr = (\<lambda>v. if ty = S_INT then print_int v else print_hex v) in
      if ty \<noteq> S_INT \<and> ty \<noteq> S_HEX then str
      else case first_prop P_RANGE k s (prop_indices k s) of
        None \<Rightarrow> str
      | Some i \<Rightarrow> (case p_expr (sy_prop (obj k s) ! i) of
          PE_RANGE l r \<Rightarrow>
            if val < val_number k l base then pr (val_number k l base)
            else if val_number k r base < val then pr (val_number k r base) else str
        | _ \<Rightarrow> str))"

text \<open>
  The equation of a symbol. The candidates of a choice are judged with the choice itself
  on; if none is visible the choice is off.
\<close>

definition tri_type :: "symbol_type \<Rightarrow> bool" where
  "tri_type t \<longleftrightarrow> t = S_BOOLEAN \<or> t = S_TRISTATE"

definition text_type :: "symbol_type \<Rightarrow> bool" where
  "text_type t \<longleftrightarrow> t = S_INT \<or> t = S_HEX \<or> t = S_STRING"

definition choice_on :: "sym \<Rightarrow> kconf \<Rightarrow> kconf" where
  "choice_on s k = set_curr s (symbol_no_curr\<lparr>v_tri := Tyes\<rparr>) k"

definition spec_curr :: "kconf \<Rightarrow> sym \<Rightarrow> symbol_value" where
  "spec_curr k s =
     (if sym_is_choice (obj k s) \<and> spec_tri k s = Tyes then
        (case spec_choose (choice_on s k) s of
           None \<Rightarrow> \<lparr>v_val = V_NULL, v_tri = Tno\<rparr>
         | Some d \<Rightarrow> \<lparr>v_val = V_sym d, v_tri = Tyes\<rparr>)
      else symbol_no_curr\<lparr>v_tri := spec_tri k s\<rparr>)"

definition solved :: "kconf \<Rightarrow> sym \<Rightarrow> bool" where
  "solved k s \<longleftrightarrow>
     (let y = obj k s in
      if tri_type (sy_type y) then sy_curr y = spec_curr k s
      else if text_type (sy_type y) then
        symval_string (v_val (sy_curr y)) = Inr (clamp_text k s (spec_text k s)) \<and> v_tri (sy_curr y) = Tno
      else sy_curr y = \<lparr>v_val = name_pointer s y, v_tri = Tno\<rparr>)"

end
