(* ===== verification/Kconfig_Total.thy ===== *)
theory Kconfig_Total
  imports Kconfig_Frame
begin

text \<open>
  A calculus for the evaluation of symbols. \<open>okr\<close> is a postcondition of a computation that
  may fail; \<open>step\<close> strengthens \<open>frame\<close> by what happens to the cached visibility and the
  cached reverse dependency of every symbol; \<open>stab\<close> says that a fact about the values of some
  symbols holds now and in every later state that keeps those values. The locale
  \<open>calc_context\<close> is the contract under which the operations run inside an activation of
  \<open>sym_calc_value\<close>, and every operation is specified once in it.
\<close>

section \<open>Postconditions\<close>

text \<open>Out of fuel is never accepted; a bad pointer is accepted unless \<open>strict\<close>.\<close>

definition okr :: "bool \<Rightarrow> ('a \<Rightarrow> bool) \<Rightarrow> kerr + 'a \<Rightarrow> bool" where
  "okr strict P r = (case r of Inl e \<Rightarrow> e = Bad_pointer \<and> \<not> strict | Inr x \<Rightarrow> P x)"

lemma okr_simps [simp]:
  "okr strict P (Inr x) = P x"
  "okr strict P (Inl Bad_pointer) = (\<not> strict)"
  "okr strict P (Inl Out_of_fuel) = False"
  by (simp_all add: okr_def)

lemma okr_bind: "okr strict Q r \<Longrightarrow> (\<And>x. Q x \<Longrightarrow> okr strict P (f x)) \<Longrightarrow> okr strict P (rbind r f)"
  by (cases r) (auto simp: okr_def)

lemma okr_mono: "okr strict Q r \<Longrightarrow> (\<And>x. Q x \<Longrightarrow> P x) \<Longrightarrow> okr strict P r"
  by (cases r) (auto simp: okr_def)

lemma okr_bind2:
  "okr strict (\<lambda>(x, y). Q x y) r \<Longrightarrow> (\<And>x y. Q x y \<Longrightarrow> okr strict P (f (x, y))) \<Longrightarrow> okr strict P (rbind r f)"
  by (erule okr_bind) auto

section \<open>Syntactic dependencies\<close>

definition opt_syms :: "expr option \<Rightarrow> sym list" where
  "opt_syms e = (case e of None \<Rightarrow> [] | Some e \<Rightarrow> expr_syms e)"

fun pexpr_syms :: "pexpr \<Rightarrow> sym list" where
  "pexpr_syms (PE_EXPR e) = expr_syms e"
| "pexpr_syms (PE_RANGE l r) = [l, r]"
| "pexpr_syms _ = []"

definition prop_deps :: "(property \<Rightarrow> bool) \<Rightarrow> (property \<Rightarrow> sym list) \<Rightarrow> ksymbol \<Rightarrow> sym list" where
  "prop_deps P f y = concat (map f (filter P (sy_prop y)))"

definition prompt_deps :: "ksymbol \<Rightarrow> sym list" where
  "prompt_deps y = prop_deps (\<lambda>p. p_text p \<noteq> None) (\<lambda>p. opt_syms (p_visible p)) y"

definition vis_deps :: "ksymbol \<Rightarrow> sym list" where
  "vis_deps y = prompt_deps y @ opt_syms (sy_rev_dep_inv y)"

definition rev_deps :: "ksymbol \<Rightarrow> sym list" where
  "rev_deps y = (if sym_is_choice_value y then [] else opt_syms (sy_rev_dep y))"

definition list_deps :: "prop_type \<Rightarrow> ksymbol \<Rightarrow> sym list" where
  "list_deps ty y = prop_deps (\<lambda>p. p_type p = ty) (\<lambda>p. opt_syms (p_visible p)) y"

definition arg_deps :: "prop_type \<Rightarrow> ksymbol \<Rightarrow> sym list" where
  "arg_deps ty y = prop_deps (\<lambda>p. p_type p = ty) (\<lambda>p. pexpr_syms (p_expr p)) y"

definition choice_link :: "ksymbol \<Rightarrow> sym list" where
  "choice_link y = (if sym_is_choice_value y then (case choice_of y of Inl _ \<Rightarrow> [] | Inr cs \<Rightarrow> [cs]) else [])"

definition val_deps :: "ksymbol \<Rightarrow> sym list" where
  "val_deps y = vis_deps y @ rev_deps y @ list_deps P_DEFAULT y @ list_deps P_RANGE y @ arg_deps P_RANGE y @
     (if sym_is_choice y \<and> tri_type (sy_type y) then [] else arg_deps P_DEFAULT y) @ choice_link y"

text \<open>All symbols a choice may have to look at.\<close>

definition possible :: "ksymbol \<Rightarrow> sym list" where
  "possible y = (case v_val (sy_user y) of V_sym d \<Rightarrow> [d] | _ \<Rightarrow> []) @
     prop_deps (\<lambda>p. p_type p = P_DEFAULT) (\<lambda>p. case prop_get_symbol p of None \<Rightarrow> [] | Some d \<Rightarrow> [d]) y @
     (case choice_values y of Inl _ \<Rightarrow> [] | Inr vs \<Rightarrow> vs)"

definition cand_deps :: "kconf \<Rightarrow> ksymbol \<Rightarrow> sym list" where
  "cand_deps k y = concat (map (\<lambda>d. vis_deps (obj k d) @ rev_deps (obj k d)) (possible y))"

lemma choice_link_mem: "sym_is_choice_value y \<Longrightarrow> choice_of y = Inr cs \<Longrightarrow> choice_link y = [cs]"
  by (simp add: choice_link_def)

lemma val_deps_parts:
  "set (vis_deps y) \<subseteq> set (val_deps y)" "set (rev_deps y) \<subseteq> set (val_deps y)"
  "set (list_deps P_DEFAULT y) \<subseteq> set (val_deps y)" "set (list_deps P_RANGE y) \<subseteq> set (val_deps y)"
  "set (arg_deps P_RANGE y) \<subseteq> set (val_deps y)" "set (choice_link y) \<subseteq> set (val_deps y)"
  "\<not> (sym_is_choice y \<and> tri_type (sy_type y)) \<Longrightarrow> set (arg_deps P_DEFAULT y) \<subseteq> set (val_deps y)"
  unfolding val_deps_def set_append by (blast | simp)+

lemma prop_deps_erase:
  "(\<And>p. P (p\<lparr>p_tri := Tno\<rparr>) = P p) \<Longrightarrow> (\<And>p. f (p\<lparr>p_tri := Tno\<rparr>) = f p) \<Longrightarrow>
   prop_deps P f (erase y) = prop_deps P f y"
  by (simp add: prop_deps_def erase_def filter_map comp_def)

lemma deps_erase [simp]:
  "vis_deps (erase y) = vis_deps y" "rev_deps (erase y) = rev_deps y" "prompt_deps (erase y) = prompt_deps y"
  "list_deps ty (erase y) = list_deps ty y" "arg_deps ty (erase y) = arg_deps ty y"
  "val_deps (erase y) = val_deps y" "possible (erase y) = possible y"
  by (simp_all add: prompt_deps_def vis_deps_def rev_deps_def list_deps_def arg_deps_def val_deps_def possible_def prop_deps_erase
    choice_link_def prop_get_symbol_def)

lemma deps_cong:
  assumes "erase y = erase z"
  shows "vis_deps y = vis_deps z" "rev_deps y = rev_deps z" "list_deps ty y = list_deps ty z"
    "arg_deps ty y = arg_deps ty z" "val_deps y = val_deps z" "possible y = possible z"
  using assms deps_erase by metis+

lemma cand_deps_cong:
  assumes "erase y = erase z" "\<And>t. erase (obj k t) = erase (obj k' t)"
  shows "cand_deps k y = cand_deps k' z"
  using deps_cong(6) [OF assms(1)] deps_cong(1,2) [OF assms(2)] by (simp add: cand_deps_def)

lemma prop_deps_nth:
  "i < length (sy_prop y) \<Longrightarrow> P (sy_prop y ! i) \<Longrightarrow> set (f (sy_prop y ! i)) \<subseteq> set (prop_deps P f y)"
  by (force simp: prop_deps_def)

lemma prop_deps_set:
  "set (prop_deps P f y) = (\<Union>i\<in>{i\<in>set [0..<length (sy_prop y)]. P (sy_prop y ! i)}. set (f (sy_prop y ! i)))"
  unfolding prop_deps_def set_concat set_map set_filter set_conv_nth [of "sy_prop y"] by auto

section \<open>Well-formed symbols\<close>

definition stringy :: "ksymbol \<Rightarrow> bool" where
  "stringy y \<longleftrightarrow> (if tri_type (sy_type y) then \<not> sym_is_choice y else text_type (sy_type y) \<or> sy_name y \<noteq> None)"

definition printable :: "ksymbol \<Rightarrow> bool" where
  "printable y \<longleftrightarrow> tri_type (sy_type y) \<or> stringy y"

primrec expr_ok :: "kconf \<Rightarrow> expr \<Rightarrow> bool" where
  "expr_ok k (E_SYMBOL s) = True"
| "expr_ok k (E_NOT e) = expr_ok k e"
| "expr_ok k (E_AND a b) = (expr_ok k a \<and> expr_ok k b)"
| "expr_ok k (E_OR a b) = (expr_ok k a \<and> expr_ok k b)"
| "expr_ok k (E_EQUAL a b) = (printable (obj k a) \<and> printable (obj k b))"
| "expr_ok k (E_UNEQUAL a b) = (printable (obj k a) \<and> printable (obj k b))"

definition opt_ok :: "kconf \<Rightarrow> expr option \<Rightarrow> bool" where
  "opt_ok k e = (case e of None \<Rightarrow> True | Some e \<Rightarrow> expr_ok k e)"

definition is_text :: "symval \<Rightarrow> bool" where
  "is_text v \<longleftrightarrow> (case symval_string v of Inl _ \<Rightarrow> False | Inr _ \<Rightarrow> True)"

definition prop_ok :: "kconf \<Rightarrow> ksymbol \<Rightarrow> property \<Rightarrow> bool" where
  "prop_ok k y p \<longleftrightarrow> opt_ok k (p_visible p) \<and>
     (case p_expr p of PE_EXPR e \<Rightarrow> expr_ok k e | _ \<Rightarrow> True) \<and>
     (p_type p = P_DEFAULT \<longrightarrow> (case prop_get_symbol p of
        None \<Rightarrow> \<not> (sym_is_choice y \<and> tri_type (sy_type y))
      | Some d \<Rightarrow> text_type (sy_type y) \<longrightarrow> stringy (obj k d))) \<and>
     (p_type p = P_RANGE \<longrightarrow> (case p_expr p of
        PE_RANGE l r \<Rightarrow> stringy (obj k l) \<and> stringy (obj k r)
      | _ \<Rightarrow> False))"

definition sym_ok :: "kconf \<Rightarrow> ksymbol \<Rightarrow> bool" where
  "sym_ok k y \<longleftrightarrow> list_all (prop_ok k y) (sy_prop y) \<and>
     opt_ok k (sy_rev_dep y) \<and> opt_ok k (sy_rev_dep_inv y) \<and>
     (sym_is_choice y \<longrightarrow> choice_values y \<noteq> Inl Bad_pointer \<and>
        (tri_type (sy_type y) \<longrightarrow> (case v_val (sy_user y) of V_NULL \<Rightarrow> True | V_sym _ \<Rightarrow> True | _ \<Rightarrow> False))) \<and>
     (sym_is_choice_value y \<longrightarrow> choice_of y \<noteq> Inl Bad_pointer) \<and>
     (text_type (sy_type y) \<and> sym_has_value y \<longrightarrow> is_text (v_val (sy_user y)))"

lemma choice_values_err: "choice_values y = Inl e \<Longrightarrow> e = Bad_pointer"
  by (auto simp: choice_values_def split: option.splits pexpr.splits)

lemma choice_of_err: "choice_of y = Inl e \<Longrightarrow> e = Bad_pointer"
  by (auto simp: choice_of_def split: option.splits)

lemma symval_string_err: "symval_string v = Inl e \<Longrightarrow> e = Bad_pointer"
  by (cases v) auto

lemma stringy_erase [simp]: "stringy (erase y) = stringy y" "printable (erase y) = printable y"
  by (simp_all add: stringy_def printable_def)

lemma stringy_cong: "erase y = erase z \<Longrightarrow> stringy y = stringy z" "erase y = erase z \<Longrightarrow> printable y = printable z"
  by (metis stringy_erase)+

lemma expr_ok_cong:
  assumes "\<And>t. erase (obj k t) = erase (obj k' t)" shows "expr_ok k e = expr_ok k' e"
proof -
  have "printable (obj k t) = printable (obj k' t)" for t
    using stringy_cong(2) assms .
  then show ?thesis by (induction e) simp_all
qed

lemma opt_ok_cong: "(\<And>t. erase (obj k t) = erase (obj k' t)) \<Longrightarrow> opt_ok k e = opt_ok k' e"
  using expr_ok_cong [of k k'] by (simp add: opt_ok_def split: option.splits)

section \<open>Steps and stability\<close>

definition moved :: "sym set \<Rightarrow> (ksymbol \<Rightarrow> tristate) \<Rightarrow> (kconf \<Rightarrow> sym \<Rightarrow> tristate) \<Rightarrow> kconf \<Rightarrow> kconf \<Rightarrow> sym \<Rightarrow> bool" where
  "moved X get spec k k' t \<longleftrightarrow>
     get (obj k' t) = get (obj k t) \<or> (\<exists>k1. frame X k k1 \<and> get (obj k' t) = spec k1 t)"

definition step :: "sym set \<Rightarrow> kconf \<Rightarrow> kconf \<Rightarrow> bool" where
  "step X k k' \<longleftrightarrow> frame X k k' \<and> (\<forall>t. moved X sy_visible spec_vis k k' t) \<and>
     (\<forall>t. if sym_is_choice_value (obj k t) then sy_rev_tri (obj k' t) = sy_rev_tri (obj k t)
          else moved X sy_rev_tri spec_rev k k' t)"

lemma moved_refl [simp, intro]: "moved X get spec k k t"
  by (simp add: moved_def)

lemma moved_trans:
  "moved X get spec k k' t \<Longrightarrow> frame X k k' \<Longrightarrow> moved X get spec k' k'' t \<Longrightarrow> moved X get spec k k'' t"
  by (auto simp: moved_def intro: frame_trans)

lemma moved_mono: "moved X get spec k k' t \<Longrightarrow> X \<subseteq> Y \<Longrightarrow> moved Y get spec k k' t"
  by (auto simp: moved_def intro: frame_mono)

lemma step_refl [simp, intro]: "step X k k"
  by (simp add: step_def)

lemma step_frame: "step X k k' \<Longrightarrow> frame X k k'"
  by (simp add: step_def)

lemma step_trans [trans]:
  assumes "step X k k'" "step X k' k''" shows "step X k k''"
proof -
  have "sym_is_choice_value (obj k' t) = sym_is_choice_value (obj k t)" for t
    using assms(1) frame_static [of X k k'] erase_cong(8) by (metis step_frame)
  with assms show ?thesis
    unfolding step_def by (auto intro: frame_trans moved_trans split: if_splits)
qed

lemma step_mono: "step X k k' \<Longrightarrow> X \<subseteq> Y \<Longrightarrow> step Y k k'"
  by (auto simp: step_def intro: frame_mono moved_mono split: if_splits)

lemma step_empty: "step {} k k' \<Longrightarrow> step X k k'"
  by (erule step_mono) simp

definition stab :: "sym set \<Rightarrow> kconf \<Rightarrow> (kconf \<Rightarrow> bool) \<Rightarrow> bool" where
  "stab Y k P \<longleftrightarrow> (\<forall>X k'. X \<inter> Y = {} \<longrightarrow> frame X k k' \<longrightarrow> P k')"

lemma stab_now: "stab Y k P \<Longrightarrow> P k"
  unfolding stab_def using frame_refl [of "{}"] by blast

lemma stab_later:
  assumes "stab Y k P" "frame X k k'" "X \<inter> Y = {}" shows "stab Y k' P"
  unfolding stab_def
proof (intro allI impI)
  fix Z k'' assume "Z \<inter> Y = {}" "frame Z k' k''"
  then have "frame (X \<union> Z) k k''" "(X \<union> Z) \<inter> Y = {}"
    using assms(2,3) by (auto intro: frame_trans frame_mono)
  with assms(1) show "P k''" by (simp add: stab_def)
qed

lemma stab_step: "stab Y k P \<Longrightarrow> step {} k k' \<Longrightarrow> stab Y k' P"
  by (metis stab_later step_frame inf_bot_left)

lemma stab_mono: "stab Y k P \<Longrightarrow> Y \<subseteq> Z \<Longrightarrow> stab Z k P"
  unfolding stab_def by blast

lemma stab_combine:
  "stab Y k P \<Longrightarrow> stab Z k Q \<Longrightarrow> (\<And>k'. frame UNIV k k' \<Longrightarrow> P k' \<Longrightarrow> Q k' \<Longrightarrow> R k') \<Longrightarrow> stab (Y \<union> Z) k R"
  unfolding stab_def by (meson disjoint_iff UnI1 UnI2 frame_mono subset_UNIV)

lemma stab_weaken: "stab Y k P \<Longrightarrow> (\<And>k'. frame UNIV k k' \<Longrightarrow> P k' \<Longrightarrow> Q k') \<Longrightarrow> stab Y k Q"
  unfolding stab_def by (meson frame_mono subset_UNIV)

lemma stab_static: "(\<And>k'. frame UNIV k k' \<Longrightarrow> P k') \<Longrightarrow> stab Y k P"
  unfolding stab_def by (meson frame_mono subset_UNIV)

text \<open>A cached value that agrees with a stable specification keeps agreeing.\<close>

lemma moved_stab:
  assumes "stab Y k (\<lambda>k. spec k t = v)" "get (obj k t) = v" "moved X get spec k k' t" "X \<inter> Y = {}"
  shows "get (obj k' t) = v"
  using assms unfolding moved_def stab_def by metis

text \<open>The cached visibility and reverse dependency of a symbol are what they should be, and stay so.\<close>

definition cached :: "kconf \<Rightarrow> sym \<Rightarrow> bool" where
  "cached k t \<longleftrightarrow>
     stab (set (val_deps (obj k t))) k (\<lambda>k'. spec_desel k' t = spec_desel k t) \<and>
     stab (set (val_deps (obj k t))) k (\<lambda>k'. spec_vis k' t = sy_visible (obj k t)) \<and>
     (\<not> sym_is_choice_value (obj k t) \<and> \<not> spec_desel k t \<longrightarrow>
        stab (set (val_deps (obj k t))) k (\<lambda>k'. spec_rev k' t = sy_rev_tri (obj k t)))"

lemma cached_step:
  assumes "cached k t" "step X k k'" "X \<inter> set (val_deps (obj k t)) = {}" shows "cached k' t"
proof -
  let ?Y = "set (val_deps (obj k t))"
  have f: "frame X k k'" by (rule step_frame [OF assms(2)])
  have e: "erase (obj k' t) = erase (obj k t)" by (rule frame_static [OF f])
  have d: "stab ?Y k (\<lambda>k'. spec_desel k' t = spec_desel k t)" and v: "stab ?Y k (\<lambda>k'. spec_vis k' t = sy_visible (obj k t))"
    using assms(1) by (simp_all add: cached_def)
  have dv: "spec_desel k' t = spec_desel k t" using stab_now [OF stab_later [OF d f assms(3)]] .
  have vv: "sy_visible (obj k' t) = sy_visible (obj k t)"
    by (rule moved_stab [where spec = spec_vis and get = sy_visible and X = X, OF v refl _ assms(3)])
       (use assms(2) in \<open>simp add: step_def\<close>)
  have r: "stab ?Y k' (\<lambda>k2. spec_rev k2 t = sy_rev_tri (obj k' t))" if c: "\<not> sym_is_choice_value (obj k t)" "\<not> spec_desel k t"
  proof -
    have sr: "stab ?Y k (\<lambda>k'. spec_rev k' t = sy_rev_tri (obj k t))" using assms(1) c by (simp add: cached_def)
    have "moved X sy_rev_tri spec_rev k k' t" using assms(2) c(1) by (auto simp: step_def split: if_splits)
    then have "sy_rev_tri (obj k' t) = sy_rev_tri (obj k t)"
      by (rule moved_stab [where spec = spec_rev and get = sy_rev_tri and X = X, OF sr refl _ assms(3)])
    then show ?thesis using stab_later [OF sr f assms(3)] by simp
  qed
  show ?thesis
    unfolding cached_def deps_cong(5) [OF e] dv vv erase_cong(8) [OF e]
    using stab_later [OF d f assms(3)] stab_later [OF v f assms(3)] r by blast
qed

section \<open>Updates that keep all values\<close>

definition benign :: "kconf \<Rightarrow> kconf \<Rightarrow> bool" where
  "benign k k' \<longleftrightarrow> same_globals k k' \<and>
     (\<forall>t. erase (obj k' t) = erase (obj k t) \<and> sy_curr (obj k' t) = sy_curr (obj k t) \<and>
          sy_visible (obj k' t) = sy_visible (obj k t) \<and> sy_rev_tri (obj k' t) = sy_rev_tri (obj k t) \<and>
          valid k' t = valid k t)"

definition keeps_others :: "sym \<Rightarrow> kconf \<Rightarrow> kconf \<Rightarrow> bool" where
  "keeps_others s k k' \<longleftrightarrow> step {s} k k' \<and>
     (\<forall>t. valid k' t = valid k t \<and> (t \<noteq> s \<longrightarrow> sy_curr (obj k' t) = sy_curr (obj k t)))"

lemma benign_step: "benign k k' \<Longrightarrow> step X k k'"
  by (auto simp: benign_def step_def frame_def moved_def)

lemma benign_keeps: "benign k k' \<Longrightarrow> keeps_others s k k'"
  using benign_step by (auto simp: benign_def keeps_others_def)

lemma keeps_frame: "keeps_others s k k' \<Longrightarrow> frame {s} k k'"
  by (auto simp: keeps_others_def intro: step_frame)

lemma benign_refl [simp, intro]: "benign k k"
  by (simp add: benign_def same_globals_def)

lemma benign_trans: "benign k k' \<Longrightarrow> benign k' k'' \<Longrightarrow> benign k k''"
  by (simp add: benign_def same_globals_def)

lemma obj_upd: "obj (upd s f k) t = (if t = s then f (obj k s) else obj k t)"
  by (simp add: upd_def)

lemma globals_upd [simp]: "same_globals k (upd s f k)"
  by (simp add: upd_def same_globals_def)

lemma flag_on_fields [simp]:
  "sy_curr (flag_on m y) = sy_curr y" "sy_visible (flag_on m y) = sy_visible y"
  "sy_rev_tri (flag_on m y) = sy_rev_tri y" "sy_type (flag_on m y) = sy_type y"
  "sy_curr (flag_off m y) = sy_curr y" "sy_visible (flag_off m y) = sy_visible y"
  "sy_rev_tri (flag_off m y) = sy_rev_tri y" "sy_type (flag_off m y) = sy_type y"
  "sy_prop (flag_on m y) = sy_prop y" "sy_prop (flag_off m y) = sy_prop y"
  by (simp_all add: flag_on_def flag_off_def)

lemma and_not_disjoint:
  assumes "m AND n = 0" shows "n AND NOT m = (n :: u32)"
proof (rule bit_word_eqI)
  fix i assume "i < LENGTH(32)"
  moreover have "\<not> bit (m AND n) i" using assms by simp
  ultimately show "bit (n AND NOT m) i = bit n i" by (auto simp: bit_simps)
qed

lemma erase_flag:
  "m AND STATIC = 0 \<Longrightarrow> erase (flag_on m y) = erase y"
  "m AND STATIC = 0 \<Longrightarrow> erase (flag_off m y) = erase y"
proof -
  assume m: "m AND STATIC = 0"
  have "(sy_flags y OR m) AND STATIC = sy_flags y AND STATIC"
    using m by (simp add: bit.conj_disj_distrib2)
  then show "erase (flag_on m y) = erase y" by (simp add: erase_def flag_on_def)
  have "(sy_flags y AND NOT m) AND STATIC = sy_flags y AND STATIC"
    using and_not_disjoint [OF m] by (metis and.assoc and.commute)
  then show "erase (flag_off m y) = erase y" by (simp add: erase_def flag_off_def)
qed

lemma has_flag_on: "has_flag n (flag_on m y) \<longleftrightarrow> has_flag n y \<or> m AND n \<noteq> 0"
proof -
  have "(sy_flags y OR m) AND n = (sy_flags y AND n) OR (m AND n)"
    by (simp add: bit.conj_disj_distrib2)
  then show ?thesis by (simp add: has_flag_def flag_on_def or_eq_0_iff)
qed

lemma has_flag_off:
  assumes "m AND n = 0" shows "has_flag n (flag_off m y) = has_flag n y"
proof -
  have "n AND NOT m = n"
    using assms by (rule and_not_disjoint)
  then have "(sy_flags y AND NOT m) AND n = sy_flags y AND n"
    by (metis and.assoc and.commute)
  then show ?thesis by (simp add: has_flag_def flag_off_def)
qed

end
