(* ===== verification/Kconfig_Ops.thy ===== *)
theory Kconfig_Ops
  imports Kconfig_Total
begin

text \<open>
  The operations inside one activation of \<open>sym_calc_value\<close>, for the symbol \<open>s\<close>: what each
  returns and what it leaves unchanged, proved from the contract of the function it calls
  back.
\<close>

section \<open>Elementary updates\<close>

lemma benign_upd:
  assumes "erase (f (obj k s)) = erase (obj k s)" "sy_curr (f (obj k s)) = sy_curr (obj k s)"
    "sy_visible (f (obj k s)) = sy_visible (obj k s)" "sy_rev_tri (f (obj k s)) = sy_rev_tri (obj k s)"
    "has_flag SYMBOL_VALID (f (obj k s)) = has_flag SYMBOL_VALID (obj k s)"
  shows "benign k (upd s f k)"
  using assms by (simp add: benign_def valid_def obj_upd)

definition soft_flags :: u32 where "soft_flags = SYMBOL_WRITE OR SYMBOL_CHANGED"

lemma soft_flag:
  assumes "m AND soft_flags = m" shows "m AND STATIC = 0" "m AND SYMBOL_VALID = 0"
proof -
  have "soft_flags AND STATIC = 0" "soft_flags AND SYMBOL_VALID = 0"
    by (simp_all add: soft_flags_def STATIC_def ksymbol_flag_defs)
  then show "m AND STATIC = 0" "m AND SYMBOL_VALID = 0"
    using assms by (metis and.assoc and_zero_eq)+
qed

lemma benign_flag [intro]:
  assumes "m AND soft_flags = m"
  shows "benign k (upd s (flag_on m) k)" "benign k (upd s (flag_off m) k)"
  using soft_flag [OF assms]
  by (auto intro!: benign_upd simp: erase_flag has_flag_on has_flag_off)

lemma soft_flag_consts [simp]:
  "SYMBOL_WRITE AND soft_flags = SYMBOL_WRITE" "SYMBOL_CHANGED AND soft_flags = SYMBOL_CHANGED"
  by (simp_all add: soft_flags_def ksymbol_flag_defs)

lemma benign_menu: "benign k (k'\<lparr>k_menu := m\<rparr>) = benign k k'" "benign k (k'\<lparr>modules_val := t\<rparr>) = benign k k'"
  by (simp_all add: benign_def same_globals_def valid_def)

lemma benign_mark_menus: "benign k (fold mark_menu ps k)"
proof (induction ps arbitrary: k)
  case (Cons p ps)
  have "benign k (mark_menu p k)" by (simp add: mark_menu_def benign_menu split: option.splits)
  from benign_trans [OF this Cons.IH] show ?case by simp
qed simp

lemma benign_changed [intro]: "benign k (sym_set_changed k s)"
  unfolding sym_set_changed_def Let_def by (rule benign_trans [OF benign_flag(1) benign_mark_menus]) simp

lemma map_update_same: "f v = f (xs ! i) \<Longrightarrow> map f (xs[i := v]) = map f xs"
  by (cases "i < length xs") (simp_all add: map_update list_update_same_conv list_update_beyond)

lemma benign_prop_tri [intro]: "benign k (set_prop_tri s i t k)"
  unfolding set_prop_tri_def by (rule benign_upd) (simp_all add: erase_def has_flag_def map_update_same)

lemma benign_mark [intro]:
  assumes "m AND soft_flags = m" shows "benign k (mark_choice_value m v k)"
  using benign_trans [OF benign_flag(1) [OF assms] benign_changed] benign_flag(1) [OF assms]
  by (simp add: mark_choice_value_def Let_def)

lemma benign_marks:
  assumes "m AND soft_flags = m" shows "benign k (fold (mark_choice_value m) vs k)"
  by (induction vs arbitrary: k) (auto intro: benign_trans [OF benign_mark [OF assms]])

lemma keeps_trans: "keeps_others s k k' \<Longrightarrow> keeps_others s k' k'' \<Longrightarrow> keeps_others s k k''"
  by (auto simp: keeps_others_def intro: step_trans)

lemma set_visible_step:
  assumes "spec_vis k t = v" shows "step X k (set_visible t v k)" "keeps_others s k (set_visible t v k)"
    "sy_visible (obj (set_visible t v k) t) = v"
proof -
  let ?k = "upd t (\<lambda>y. y\<lparr>sy_visible := v\<rparr>) k"
  have e: "erase (obj ?k u) = erase (obj k u)" "valid ?k u = valid k u" "sy_curr (obj ?k u) = sy_curr (obj k u)"
    "sy_rev_tri (obj ?k u) = sy_rev_tri (obj k u)" for u
    by (simp_all add: obj_upd erase_def valid_def has_flag_def)
  then have f: "frame Y k ?k" for Y by (simp add: frame_def)
  have "moved X sy_visible spec_vis k ?k u" for u
    using assms by (auto simp: moved_def obj_upd)
  with e f have s1: "step X k ?k" for X using assms by (auto simp: step_def moved_def obj_upd)
  have k1: "keeps_others s k ?k" using e s1 by (simp add: keeps_others_def)
  have b: "benign ?k (sym_set_changed ?k t)" ..
  show "step X k (set_visible t v k)"
    using step_trans [OF s1 benign_step [OF b]] by (simp add: set_visible_def)
  show "keeps_others s k (set_visible t v k)"
    using keeps_trans [OF k1 benign_keeps [OF b]] by (auto simp: set_visible_def keeps_others_def)
  have "sy_visible (obj (sym_set_changed ?k t) t) = sy_visible (obj ?k t)"
    using b by (simp add: benign_def)
  then show "sy_visible (obj (set_visible t v k) t) = v"
    by (simp add: set_visible_def obj_upd)
qed

lemma set_rev_tri_step:
  assumes "spec_rev k t = v" "\<not> sym_is_choice_value (obj k t)"
  shows "step X k (set_rev_tri t v k)" "keeps_others s k (set_rev_tri t v k)"
    "sy_rev_tri (obj (set_rev_tri t v k) t) = v" "sy_visible (obj (set_rev_tri t v k) u) = sy_visible (obj k u)"
proof -
  let ?k = "upd t (\<lambda>y. y\<lparr>sy_rev_tri := v\<rparr>) k"
  have e: "erase (obj ?k u) = erase (obj k u)" "valid ?k u = valid k u" "sy_curr (obj ?k u) = sy_curr (obj k u)"
    "sy_visible (obj ?k u) = sy_visible (obj k u)" for u
    by (simp_all add: obj_upd erase_def valid_def has_flag_def)
  then have f: "frame Y k ?k" for Y by (simp add: frame_def)
  have m: "moved X sy_rev_tri spec_rev k ?k u" for u X
    using assms by (auto simp: moved_def obj_upd)
  have "sy_rev_tri (obj ?k u) = sy_rev_tri (obj k u)" if "sym_is_choice_value (obj k u)" for u
    using assms(2) that by (auto simp: obj_upd)
  with m e f have s1: "step X k ?k" for X by (simp add: step_def moved_def [of X sy_visible])
  have k1: "keeps_others s k ?k" using e s1 by (simp add: keeps_others_def)
  have b: "benign ?k (sym_set_changed ?k t)" ..
  show "step X k (set_rev_tri t v k)"
    using step_trans [OF s1 benign_step [OF b]] by (simp add: set_rev_tri_def)
  show "keeps_others s k (set_rev_tri t v k)"
    using keeps_trans [OF k1 benign_keeps [OF b]] by (auto simp: set_rev_tri_def keeps_others_def)
  have "sy_rev_tri (obj (sym_set_changed ?k t) t) = sy_rev_tri (obj ?k t)"
    "sy_visible (obj (sym_set_changed ?k t) u) = sy_visible (obj ?k u)"
    using b by (simp_all add: benign_def)
  then show "sy_rev_tri (obj (set_rev_tri t v k) t) = v"
    "sy_visible (obj (set_rev_tri t v k) u) = sy_visible (obj k u)"
    using e(4) by (simp_all add: set_rev_tri_def obj_upd)
qed

lemma curr_update_step:
  assumes "\<And>y. f y = y\<lparr>sy_curr := g y\<rparr>"
  shows "step {s} k (upd s f k)" "keeps_others s k (upd s f k)"
    "sy_visible (obj (upd s f k) t) = sy_visible (obj k t)" "sy_rev_tri (obj (upd s f k) t) = sy_rev_tri (obj k t)"
  using assms by (auto simp: step_def keeps_others_def frame_def moved_def obj_upd erase_def valid_def has_flag_def)

section \<open>Stability of the parts of a symbol\<close>

lemma stab_same_spec:
  assumes "stab Y k (\<lambda>k'. P k')" shows "frame X k k' \<Longrightarrow> X \<inter> Y = {} \<Longrightarrow> P k'"
  using assms by (auto simp: stab_def)

lemma frame_prop:
  assumes "frame X k k'" "i < length (sy_prop (obj k t))"
  shows "p_type (sy_prop (obj k' t) ! i) = p_type (sy_prop (obj k t) ! i)"
    "p_text (sy_prop (obj k' t) ! i) = p_text (sy_prop (obj k t) ! i)"
    "p_visible (sy_prop (obj k' t) ! i) = p_visible (sy_prop (obj k t) ! i)"
    "p_expr (sy_prop (obj k' t) ! i) = p_expr (sy_prop (obj k t) ! i)"
  using erase_cong_prop [OF frame_static [OF assms(1), of t, symmetric] assms(2)] by simp_all

lemmas frame_fields = erase_cong [OF frame_static]

lemma frame_indices: "frame X k k' \<Longrightarrow> prop_indices k' t = prop_indices k t"
  by (simp add: frame_fields(6))

lemma frame_deps:
  assumes "frame X k k'"
  shows "vis_deps (obj k' t) = vis_deps (obj k t)" "rev_deps (obj k' t) = rev_deps (obj k t)"
    "list_deps ty (obj k' t) = list_deps ty (obj k t)" "arg_deps ty (obj k' t) = arg_deps ty (obj k t)"
    "val_deps (obj k' t) = val_deps (obj k t)" "possible (obj k' t) = possible (obj k t)"
    "cand_deps k' (obj k' t) = cand_deps k (obj k t)"
  using deps_cong [OF frame_static [OF assms]] cand_deps_cong [OF frame_static [OF assms] frame_static [OF assms]]
  by simp_all

section \<open>The contract of an activation\<close>

text \<open>
  \<open>s\<close> is being evaluated since the state \<open>k0\<close>, in which it is marked valid; the symbols in \<open>L\<close> may
  be evaluated; \<open>I\<close> is what the callee needs and keeps, whatever happens to \<open>s\<close>.
\<close>

locale calc_context =
  fixes strict :: bool and calc :: calc_fun and s :: sym and k0 :: kconf
    and I :: "kconf \<Rightarrow> bool" and L :: "sym set"
  assumes calc_ok: "frame {s} k0 k \<Longrightarrow> I k \<Longrightarrow> d \<in> L \<Longrightarrow>
      okr strict (\<lambda>k'. step {} k k' \<and> valid k' d \<and> I k') (calc k d)"
    and I_keeps: "I k \<Longrightarrow> keeps_others s k k' \<Longrightarrow> I k'"
    and text_ok: "frame {s} k0 k \<Longrightarrow> I k \<Longrightarrow> strict \<Longrightarrow> d \<in> L \<Longrightarrow> valid k d \<Longrightarrow>
      stringy (obj k0 d) \<Longrightarrow> is_text (v_val (sy_curr (obj k d)))"
    and self_valid: "valid k0 s"
begin

definition A :: "kconf \<Rightarrow> bool" where
  "A k \<longleftrightarrow> frame {s} k0 k \<and> I k"

definition goes :: "kconf \<Rightarrow> kconf \<Rightarrow> bool" where
  "goes k k' \<longleftrightarrow> A k' \<and> step {} k k'"

lemma goes_refl: "A k \<Longrightarrow> goes k k"
  by (simp add: goes_def)

lemma goes_trans: "goes k k' \<Longrightarrow> goes k' k'' \<Longrightarrow> goes k k''"
  by (auto simp: goes_def intro: step_trans)

lemma goes_A: "goes k k' \<Longrightarrow> A k'"
  by (simp add: goes_def)

lemma goes_frame: "goes k k' \<Longrightarrow> frame X k k'"
  by (auto simp: goes_def intro: frame_empty step_frame)

lemma goes_stab: "goes k k' \<Longrightarrow> stab Y k P \<Longrightarrow> stab Y k' P"
  by (auto simp: goes_def intro: stab_step)

lemma A_keeps: "A k \<Longrightarrow> keeps_others s k k' \<Longrightarrow> A k'"
  unfolding A_def by (meson frame_trans I_keeps keeps_frame)

lemma goes_benign: "A k \<Longrightarrow> benign k k' \<Longrightarrow> goes k k'"
  unfolding goes_def using A_keeps benign_keeps benign_step by blast

lemma A_static: "A k \<Longrightarrow> erase (obj k t) = erase (obj k0 t)"
  by (auto simp: A_def frame_static)

lemma A_valid: "A k \<Longrightarrow> valid k s"
  using self_valid by (auto simp: A_def frame_valid)

lemma call_ok:
  assumes "A k" "d \<in> L"
  shows "okr strict (\<lambda>k'. goes k k' \<and> valid k' d) (calc k d)"
proof -
  have "okr strict (\<lambda>k'. step {} k k' \<and> valid k' d \<and> I k') (calc k d)"
    using assms by (intro calc_ok) (auto simp: A_def)
  then show ?thesis
    by (rule okr_mono) (use assms in \<open>auto simp: goes_def A_def intro: frame_trans [OF _ frame_empty [OF step_frame]]\<close>)
qed

lemma string_ok:
  assumes "A k" "d \<in> L" "valid k d" "strict \<longrightarrow> printable (obj k0 d)"
  shows "okr strict (\<lambda>t. sym_string (obj k d) = Inr t) (sym_string (obj k d))"
proof (cases "tri_type (sy_type (obj k d))")
  case True then show ?thesis by (auto simp: sym_string_def tri_type_def)
next
  case False
  then have e: "sym_string (obj k d) = symval_string (v_val (sy_curr (obj k d)))"
    by (auto simp: sym_string_def tri_type_def split: symbol_type.splits)
  have "is_text (v_val (sy_curr (obj k d)))" if strict
    using text_ok [of k d] assms that False erase_cong(2) [OF A_static [OF assms(1)]]
    by (simp add: A_def printable_def)
  with e show ?thesis
    by (cases "symval_string (v_val (sy_curr (obj k d)))")
       (auto simp: okr_def is_text_def dest: symval_string_err)
qed

lemma stab_curr: "valid k d \<Longrightarrow> stab {d} k (\<lambda>k'. sy_curr (obj k' d) = sy_curr (obj k d))"
  by (auto simp: stab_def frame_curr)

lemma stab_string: "valid k d \<Longrightarrow> stab {d} k (\<lambda>k'. sym_string (obj k' d) = sym_string (obj k d))"
  by (erule stab_weaken [OF stab_curr])
     (simp add: sym_string_def frame_fields(2) cong: symbol_type.case_cong)

lemma compare_ok:
  assumes "A k" "a \<in> L" "b \<in> L" "strict \<longrightarrow> printable (obj k0 a) \<and> printable (obj k0 b)"
  shows "okr strict (\<lambda>(k', t). goes k k' \<and> stab {a, b} k' (\<lambda>k. g (sym_string (obj k a) = sym_string (obj k b)) = t))
    (rbind (calc k a) (\<lambda>k1. rbind (calc k1 b) (\<lambda>k2.
     rbind (sym_string (obj k2 a)) (\<lambda>str1. rbind (sym_string (obj k2 b)) (\<lambda>str2.
     Inr (k2, g (str1 = str2)))))))"
proof (rule okr_bind [OF call_ok [OF assms(1,2)]], elim conjE, rule okr_bind [OF call_ok [OF goes_A assms(3)]], assumption, elim conjE)
  fix k1 k2 assume g: "goes k k1" "goes k1 k2" and v: "valid k1 a" "valid k2 b"
  have v2: "valid k2 a" using frame_valid [OF goes_frame [OF g(2)] v(1)] .
  have st: "stab ({a} \<union> {b}) k2 (\<lambda>k. g (sym_string (obj k a) = sym_string (obj k b)) = g (sym_string (obj k2 a) = sym_string (obj k2 b)))"
    by (rule stab_combine [OF stab_string [OF v2] stab_string [OF v(2)]]) simp
  show "okr strict (\<lambda>(k', t). goes k k' \<and> stab {a, b} k' (\<lambda>k. g (sym_string (obj k a) = sym_string (obj k b)) = t))
    (rbind (sym_string (obj k2 a)) (\<lambda>str1. rbind (sym_string (obj k2 b)) (\<lambda>str2. Inr (k2, g (str1 = str2)))))"
  proof (rule okr_bind [OF string_ok [OF goes_A [OF g(2)] assms(2) v2]], use assms(4) in simp,
      rule okr_bind [OF string_ok [OF goes_A [OF g(2)] assms(3) v(2)]], use assms(4) in simp)
    fix x y assume "sym_string (obj k2 a) = Inr x" "sym_string (obj k2 b) = Inr y"
    with st goes_trans [OF g]
    show "okr strict (\<lambda>(k', t). goes k k' \<and> stab {a, b} k' (\<lambda>k. g (sym_string (obj k a) = sym_string (obj k b)) = t)) (Inr (k2, g (x = y)))"
      by (simp add: insert_is_Un [of a "{b}"] del: Un_insert_left Un_insert_right)
  qed
qed

definition evaluates :: "sym set \<Rightarrow> kconf \<Rightarrow> (kconf \<Rightarrow> 'a) \<Rightarrow> kconf \<times> 'a \<Rightarrow> bool" where
  "evaluates Y k f = (\<lambda>(k', t). goes k k' \<and> stab Y k' (\<lambda>k. f k = t))"

lemma evaluates_pair:
  assumes "okr strict (evaluates Y k f) (op1 k)"
    and "\<And>k1. goes k k1 \<Longrightarrow> okr strict (evaluates Z k1 g) (op2 k1)"
  shows "okr strict (evaluates (Y \<union> Z) k (\<lambda>k. h (f k) (g k)))
    (rbind (op1 k) (\<lambda>(k1, x). rbind (op2 k1) (\<lambda>(k2, y). Inr (k2, h x y))))"
proof (rule okr_bind [OF assms(1)], clarsimp simp: evaluates_def, rule okr_bind [OF assms(2)], assumption, clarsimp simp: evaluates_def)
  fix k1 x k2 y
  assume g: "goes k k1" "goes k1 k2" and st: "stab Y k1 (\<lambda>k. f k = x)" "stab Z k2 (\<lambda>k. g k = y)"
  show "goes k k2 \<and> stab (Y \<union> Z) k2 (\<lambda>k. h (f k) (g k) = h x y)"
    using goes_trans [OF g] stab_combine [OF goes_stab [OF g(2) st(1)] st(2)] by simp
qed

lemma evaluates_map:
  assumes "okr strict (evaluates Y k f) r"
  shows "okr strict (evaluates Y k (\<lambda>k. h (f k))) (rbind r (\<lambda>(k1, x). Inr (k1, h x)))"
  by (rule okr_bind [OF assms]) (auto simp: evaluates_def intro: stab_weaken)

lemma evaluates_mono: "okr strict (evaluates Y k f) r \<Longrightarrow> Y \<subseteq> Z \<Longrightarrow> okr strict (evaluates Z k f) r"
  by (erule okr_mono) (auto simp: evaluates_def intro: stab_mono)

lemma evaluates_const_pair: "A k \<Longrightarrow> evaluates Y k (\<lambda>_. c) (k, c)"
  by (simp add: evaluates_def goes_refl stab_def)

lemma evaluates_const: "A k \<Longrightarrow> okr strict (evaluates Y k (\<lambda>_. c)) (Inr (k, c))"
  by (simp add: evaluates_const_pair)

lemma expr_calc_ok:
  assumes "set (expr_syms e) \<subseteq> L" "strict \<longrightarrow> expr_ok k0 e" "A k"
  shows "okr strict (evaluates (set (expr_syms e)) k (\<lambda>k. eval k e)) (expr_calc calc e k)"
  using assms
proof (induction e arbitrary: k)
  case (E_SYMBOL d)
  then have "okr strict (\<lambda>k'. goes k k' \<and> valid k' d) (calc k d)"
    by (intro call_ok) auto
  then show ?case
    by (simp, elim okr_bind) (auto simp: evaluates_def intro: stab_weaken [OF stab_curr])
next
  case (E_NOT e)
  then have "okr strict (evaluates (set (expr_syms e)) k (\<lambda>k. eval k e)) (expr_calc calc e k)" by simp
  from evaluates_map [OF this, of tri_not] show ?case by simp
next
  case (E_AND a b)
  then show ?case
    using evaluates_pair [of "set (expr_syms a)" k "\<lambda>k. eval k a" "expr_calc calc a" "set (expr_syms b)" "\<lambda>k. eval k b" "expr_calc calc b" tri_and]
    by (simp add: goes_A)
next
  case (E_OR a b)
  then show ?case
    using evaluates_pair [of "set (expr_syms a)" k "\<lambda>k. eval k a" "expr_calc calc a" "set (expr_syms b)" "\<lambda>k. eval k b" "expr_calc calc b" tri_or]
    by (simp add: goes_A)
next
  case (E_EQUAL a b)
  then show ?case
    using compare_ok [of k a b "\<lambda>b. if b then Tyes else Tno"] by (simp add: evaluates_def)
next
  case (E_UNEQUAL a b)
  then show ?case
    using compare_ok [of k a b "\<lambda>b. if b then Tno else Tyes"] by (simp add: evaluates_def)
qed

text \<open>Every symbol of an expression is valid once the expression has been evaluated.\<close>

lemma okr_conj: "okr b P r \<Longrightarrow> okr b Q r \<Longrightarrow> okr b (\<lambda>x. P x \<and> Q x) r"
  by (cases r) (auto simp: okr_def)

definition touches :: "sym set \<Rightarrow> kconf \<Rightarrow> kconf \<times> 'a \<Rightarrow> bool" where
  "touches V k = (\<lambda>(k', _). goes k k' \<and> (\<forall>d\<in>V. valid k' d))"

lemma touches_pair:
  assumes "okr strict (touches V k) r" "\<And>k1 x. goes k k1 \<Longrightarrow> okr strict (touches W k1) (h k1 x)"
  shows "okr strict (touches (V \<union> W) k) (rbind r (\<lambda>(k1, x). h k1 x))"
proof (rule okr_bind [OF assms(1)], clarsimp simp: touches_def)
  fix k1 x assume g: "goes k k1" and v: "\<forall>d\<in>V. valid k1 d"
  show "okr strict (\<lambda>(k', _). goes k k' \<and> (\<forall>d\<in>V \<union> W. valid k' d)) (h k1 x)"
    using assms(2) [OF g, of x]
    by (rule okr_mono) (auto simp: touches_def v intro: goes_trans [OF g] frame_valid [OF goes_frame])
qed

lemma compare_touches:
  assumes "A k" "a \<in> L" "b \<in> L" "strict \<longrightarrow> printable (obj k0 a) \<and> printable (obj k0 b)"
  shows "okr strict (touches {a, b} k)
    (rbind (calc k a) (\<lambda>k1. rbind (calc k1 b) (\<lambda>k2.
     rbind (sym_string (obj k2 a)) (\<lambda>str1. rbind (sym_string (obj k2 b)) (\<lambda>str2.
     Inr (k2, g (str1 = str2)))))))"
proof (rule okr_bind [OF call_ok [OF assms(1,2)]], elim conjE, rule okr_bind [OF call_ok [OF goes_A assms(3)]], assumption, elim conjE)
  fix k1 k2 assume g: "goes k k1" "goes k1 k2" and v: "valid k1 a" "valid k2 b"
  have v2: "valid k2 a" using frame_valid [OF goes_frame [OF g(2)] v(1)] .
  have t: "touches {a, b} k (k2, x)" for x using goes_trans [OF g] v v2 by (simp add: touches_def)
  show "okr strict (touches {a, b} k)
    (rbind (sym_string (obj k2 a)) (\<lambda>str1. rbind (sym_string (obj k2 b)) (\<lambda>str2. Inr (k2, g (str1 = str2)))))"
    by (rule okr_bind [OF string_ok [OF goes_A [OF g(2)] assms(2) v2]], use assms(4) in simp,
        rule okr_bind [OF string_ok [OF goes_A [OF g(2)] assms(3) v(2)]], use assms(4) in simp) (simp add: t)
qed

lemma expr_touches:
  assumes "set (expr_syms e) \<subseteq> L" "strict \<longrightarrow> expr_ok k0 e" "A k"
  shows "okr strict (touches (set (expr_syms e)) k) (expr_calc calc e k)"
  using assms
proof (induction e arbitrary: k)
  case (E_SYMBOL d)
  then have "okr strict (\<lambda>k'. goes k k' \<and> valid k' d) (calc k d)" by (intro call_ok) auto
  then show ?case by (simp, elim okr_bind) (auto simp: touches_def)
next
  case (E_NOT e)
  then have "okr strict (touches (set (expr_syms e)) k) (expr_calc calc e k)" by simp
  then show ?case by (simp, elim okr_bind) (auto simp: touches_def)
next
  case (E_AND a b)
  have b: "okr strict (touches (set (expr_syms b)) k1) (rbind (expr_calc calc b k1) (\<lambda>(k2, y). Inr (k2, tri_and x y)))"
    if "goes k k1" for k1 x
    using E_AND.IH(2) [of k1] E_AND.prems goes_A [OF that]
    by (intro okr_bind [of strict "touches (set (expr_syms b)) k1"]) (auto simp: touches_def)
  have "okr strict (touches (set (expr_syms a)) k) (expr_calc calc a k)"
    using E_AND.IH(1) [of k] E_AND.prems by simp
  from touches_pair [OF this b] show ?case by simp
next
  case (E_OR a b)
  have b: "okr strict (touches (set (expr_syms b)) k1) (rbind (expr_calc calc b k1) (\<lambda>(k2, y). Inr (k2, tri_or x y)))"
    if "goes k k1" for k1 x
    using E_OR.IH(2) [of k1] E_OR.prems goes_A [OF that]
    by (intro okr_bind [of strict "touches (set (expr_syms b)) k1"]) (auto simp: touches_def)
  have "okr strict (touches (set (expr_syms a)) k) (expr_calc calc a k)"
    using E_OR.IH(1) [of k] E_OR.prems by simp
  from touches_pair [OF this b] show ?case by simp
next
  case (E_EQUAL a b)
  then show ?case using compare_touches [of k a b "\<lambda>b. if b then Tyes else Tno"] by simp
next
  case (E_UNEQUAL a b)
  then show ?case using compare_touches [of k a b "\<lambda>b. if b then Tno else Tyes"] by simp
qed

lemma opt_touches:
  assumes "set (opt_syms e) \<subseteq> L" "strict \<longrightarrow> opt_ok k0 e" "A k"
  shows "okr strict (touches (set (opt_syms e)) k) (expr_calc_opt calc e k)"
  using expr_touches assms by (cases e) (auto simp: opt_syms_def opt_ok_def touches_def goes_refl)

lemma opt_calc_ok:
  assumes "set (opt_syms e) \<subseteq> L" "strict \<longrightarrow> opt_ok k0 e" "A k"
  shows "okr strict (evaluates (set (opt_syms e)) k (\<lambda>k. eval_opt k e)) (expr_calc_opt calc e k)"
  using expr_calc_ok assms evaluates_const
  by (cases e) (auto simp: opt_syms_def opt_ok_def eval_opt_def)

lemma pexpr_calc_ok:
  assumes "set (pexpr_syms e) \<subseteq> L" "strict \<longrightarrow> (case e of PE_EXPR e \<Rightarrow> expr_ok k0 e | _ \<Rightarrow> True)" "A k"
  shows "okr strict (evaluates (set (pexpr_syms e)) k (\<lambda>k. eval_pexpr k e)) (pexpr_calc calc e k)"
  using expr_calc_ok assms evaluates_const
  by (cases e) (auto simp: eval_pexpr_def)

text \<open>The properties of a symbol \<open>u\<close>.\<close>

lemma A_prop:
  assumes "A k" "i < length (sy_prop (obj k0 u))"
  shows "p_type (sy_prop (obj k u) ! i) = p_type (sy_prop (obj k0 u) ! i)"
    "p_text (sy_prop (obj k u) ! i) = p_text (sy_prop (obj k0 u) ! i)"
    "p_visible (sy_prop (obj k u) ! i) = p_visible (sy_prop (obj k0 u) ! i)"
    "p_expr (sy_prop (obj k u) ! i) = p_expr (sy_prop (obj k0 u) ! i)"
  using assms frame_prop [of "{s}" k0 k] by (simp_all add: A_def)

lemma A_fields:
  assumes "A k"
  shows "sy_type (obj k u) = sy_type (obj k0 u)" "sy_user (obj k u) = sy_user (obj k0 u)"
    "sy_rev_dep (obj k u) = sy_rev_dep (obj k0 u)" "sy_rev_dep_inv (obj k u) = sy_rev_dep_inv (obj k0 u)"
    "length (sy_prop (obj k u)) = length (sy_prop (obj k0 u))" "sym_is_choice (obj k u) = sym_is_choice (obj k0 u)"
    "sym_is_choice_value (obj k u) = sym_is_choice_value (obj k0 u)" "sym_has_value (obj k u) = sym_has_value (obj k0 u)"
    "choice_values (obj k u) = choice_values (obj k0 u)" "choice_of (obj k u) = choice_of (obj k0 u)"
    "sy_name (obj k u) = sy_name (obj k0 u)"
  using erase_cong [OF A_static [OF assms, of u]] by simp_all

lemma frame_A:
  assumes "A k" "frame X k k'"
  shows "erase (obj k' u) = erase (obj k0 u)"
  using assms by (simp add: frame_static [OF assms(2)] A_static)

lemma prop_vis_static:
  assumes "A k" "frame X k k'" "i < length (sy_prop (obj k0 u))"
  shows "prop_vis k' u i = eval_opt k' (p_visible (sy_prop (obj k0 u) ! i))"
    "has_prompt k' u i = (p_text (sy_prop (obj k0 u) ! i) \<noteq> None)"
    "p_type (sy_prop (obj k' u) ! i) = p_type (sy_prop (obj k0 u) ! i)"
    "p_expr (sy_prop (obj k' u) ! i) = p_expr (sy_prop (obj k0 u) ! i)"
  using erase_cong_prop [OF frame_A [OF assms(1,2), symmetric] assms(3)]
  by (simp_all add: prop_vis_def has_prompt_def)

definition prop_fine :: "sym \<Rightarrow> nat \<Rightarrow> bool" where
  "prop_fine u i \<longleftrightarrow> i < length (sy_prop (obj k0 u)) \<and>
     (strict \<longrightarrow> opt_ok k0 (p_visible (sy_prop (obj k0 u) ! i)))"

lemma calc_prop_ok:
  assumes "A k" "prop_fine u i" "set (opt_syms (p_visible (sy_prop (obj k0 u) ! i))) \<subseteq> Y" "Y \<subseteq> L"
  shows "okr strict (evaluates Y k (\<lambda>k. prop_vis k u i)) (calc_prop calc u i k)"
proof -
  let ?e = "p_visible (sy_prop (obj k0 u) ! i)"
  have i: "i < length (sy_prop (obj k0 u))" using assms(2) by (simp add: prop_fine_def)
  have "okr strict (evaluates (set (opt_syms ?e)) k (\<lambda>k. eval_opt k ?e)) (expr_calc_opt calc ?e k)"
    using assms by (intro opt_calc_ok) (auto simp: prop_fine_def)
  then have "okr strict (evaluates Y k (\<lambda>k. eval_opt k ?e)) (expr_calc_opt calc ?e k)"
    using assms(3) by (rule evaluates_mono)
  then show ?thesis
    unfolding calc_prop_def A_prop(3) [OF assms(1) i]
  proof (rule okr_bind, clarsimp simp: evaluates_def)
    fix k1 t assume g: "goes k k1" and st: "stab Y k1 (\<lambda>k. eval_opt k ?e = t)"
    have g2: "goes k1 (set_prop_tri u i t k1)" using g by (auto intro: goes_benign goes_A)
    have "stab Y (set_prop_tri u i t k1) (\<lambda>k. eval_opt k ?e = t)" by (rule goes_stab [OF g2 st])
    then have "stab Y (set_prop_tri u i t k1) (\<lambda>k. prop_vis k u i = t)"
      by (rule stab_weaken) (simp add: prop_vis_static(1) [OF goes_A [OF g2] _ i])
    with goes_trans [OF g g2]
    show "goes k (set_prop_tri u i t k1) \<and> stab Y (set_prop_tri u i t k1) (\<lambda>k. prop_vis k u i = t)" ..
  qed
qed

lemma calc_prompts_ok:
  assumes "A k" "\<And>i. i \<in> set is \<Longrightarrow> prop_fine u i" "Y \<subseteq> L"
    "\<And>i. i \<in> set is \<Longrightarrow> p_text (sy_prop (obj k0 u) ! i) \<noteq> None \<Longrightarrow> set (opt_syms (p_visible (sy_prop (obj k0 u) ! i))) \<subseteq> Y"
  shows "okr strict (evaluates Y k (\<lambda>k. prompts_vis k u is tri)) (calc_prompts calc u is tri k)"
  using assms
proof (induction "is" arbitrary: tri k)
  case Nil then show ?case using evaluates_const by simp
next
  case (Cons i "is")
  have i: "i < length (sy_prop (obj k0 u))" using Cons.prems(2) [of i] by (simp add: prop_fine_def)
  show ?case
  proof (cases "p_text (sy_prop (obj k0 u) ! i) = None")
    case True
    have "okr strict (evaluates Y k (\<lambda>k. prompts_vis k u is tri)) (calc_prompts calc u is tri k)"
      using Cons by simp
    with True show ?thesis
      by (simp add: A_prop(2) [OF Cons.prems(1) i], elim okr_mono)
         (auto simp: evaluates_def prop_vis_static(2) [OF goes_A _ i] intro: stab_weaken)
  next
    case False
    have "okr strict (evaluates Y k (\<lambda>k. prop_vis k u i)) (calc_prop calc u i k)"
      using Cons.prems False by (intro calc_prop_ok) auto
    then have "okr strict (evaluates Y k (\<lambda>k. prompts_vis k u is (tri_or tri (prop_vis k u i))))
        (rbind (calc_prop calc u i k) (\<lambda>(k1, t). calc_prompts calc u is (tri_or tri t) k1))"
    proof (rule okr_bind, clarsimp simp: evaluates_def)
      fix k1 t assume g: "goes k k1" and st: "stab Y k1 (\<lambda>k. prop_vis k u i = t)"
      have "okr strict (evaluates Y k1 (\<lambda>k. prompts_vis k u is (tri_or tri t))) (calc_prompts calc u is (tri_or tri t) k1)"
        using Cons.prems goes_A [OF g] by (intro Cons.IH) auto
      then show "okr strict (\<lambda>(k', t). goes k k' \<and> stab Y k' (\<lambda>k. prompts_vis k u is (tri_or tri (prop_vis k u i)) = t))
         (calc_prompts calc u is (tri_or tri t) k1)"
        by (rule okr_mono)
           (auto simp: evaluates_def intro: goes_trans [OF g] stab_combine [of Y _ _ Y, simplified, OF goes_stab [OF _ st]])
    qed
    then show ?thesis
      using False
      by (simp add: A_prop(2) [OF Cons.prems(1) i], elim okr_mono)
         (auto simp: evaluates_def prop_vis_static(2) [OF goes_A _ i] intro: stab_weaken)
  qed
qed

lemma prompts_touches:
  assumes "A k" "\<And>i. i \<in> set is \<Longrightarrow> prop_fine u i"
    "\<And>i. i \<in> set is \<Longrightarrow> p_text (sy_prop (obj k0 u) ! i) \<noteq> None \<Longrightarrow> set (opt_syms (p_visible (sy_prop (obj k0 u) ! i))) \<subseteq> L"
  shows "okr strict (touches (\<Union>i\<in>{i\<in>set is. p_text (sy_prop (obj k0 u) ! i) \<noteq> None}. set (opt_syms (p_visible (sy_prop (obj k0 u) ! i)))) k)
     (calc_prompts calc u is tri k)"
  using assms
proof (induction "is" arbitrary: tri k)
  case Nil then show ?case by (simp add: touches_def goes_refl)
next
  case (Cons i "is")
  let ?D = "\<lambda>is. \<Union>i\<in>{i\<in>set is. p_text (sy_prop (obj k0 u) ! i) \<noteq> None}. set (opt_syms (p_visible (sy_prop (obj k0 u) ! i)))"
  let ?e = "p_visible (sy_prop (obj k0 u) ! i)"
  have i: "i < length (sy_prop (obj k0 u))" using Cons.prems(2) [of i] by (simp add: prop_fine_def)
  have IH: "okr strict (touches (?D is) k1) (calc_prompts calc u is t k1)" if "A k1" for k1 t
    using Cons.prems that by (intro Cons.IH) auto
  show ?case
  proof (cases "p_text (sy_prop (obj k0 u) ! i) = None")
    case True
    then have "?D (i # is) = ?D is" by auto
    with True IH [OF Cons.prems(1)] show ?thesis by (simp only: calc_prompts.simps A_prop(2) [OF Cons.prems(1) i]) simp
  next
    case False
    then have D: "?D (i # is) = set (opt_syms ?e) \<union> ?D is" by auto
    have "okr strict (touches (set (opt_syms ?e)) k) (expr_calc_opt calc ?e k)"
      using Cons.prems False by (intro opt_touches) (auto simp: prop_fine_def)
    then have "okr strict (touches (set (opt_syms ?e)) k) (calc_prop calc u i k)"
      unfolding calc_prop_def A_prop(3) [OF Cons.prems(1) i]
    proof (rule okr_bind, clarsimp simp: touches_def)
      fix k1 t assume g: "goes k k1" and v: "\<forall>d\<in>set (opt_syms ?e). valid k1 d"
      have g2: "goes k1 (set_prop_tri u i t k1)" using g by (auto intro: goes_benign goes_A)
      show "goes k (set_prop_tri u i t k1) \<and> (\<forall>d\<in>set (opt_syms ?e). valid (set_prop_tri u i t k1) d)"
        using goes_trans [OF g g2] v frame_valid [OF goes_frame [OF g2]] by blast
    qed
    then have "okr strict (touches (set (opt_syms ?e) \<union> ?D is) k)
        (rbind (calc_prop calc u i k) (\<lambda>(k1, t). calc_prompts calc u is (tri_or tri t) k1))"
      by (rule touches_pair) (rule IH [OF goes_A])
    with False D show ?thesis by (simp only: calc_prompts.simps A_prop(2) [OF Cons.prems(1) i]) simp
  qed
qed

end

end
