(* ===== verification/Kconfig_Visible.thy ===== *)
theory Kconfig_Visible
  imports Kconfig_Ops
begin

text \<open>
  The operations of an activation, continued: the first visible property, the visibility
  and the reverse dependency of a symbol, the choice among candidates, and defaults.
\<close>

context calc_context
begin

lemma evaluates_then:
  assumes "okr strict (evaluates Y k f) r"
    and "\<And>k1 x. goes k k1 \<Longrightarrow> stab Y k1 (\<lambda>k. f k = x) \<Longrightarrow> okr strict (evaluates Y k1 (\<lambda>k. g k x)) (h k1 x)"
  shows "okr strict (evaluates Y k (\<lambda>k. g k (f k))) (rbind r (\<lambda>(k1, x). h k1 x))"
proof (rule okr_bind [OF assms(1)], clarsimp simp: evaluates_def)
  fix k1 x assume g: "goes k k1" and st: "stab Y k1 (\<lambda>k. f k = x)"
  show "okr strict (\<lambda>(k', t). goes k k' \<and> stab Y k' (\<lambda>k. g k (f k) = t)) (h k1 x)"
    using assms(2) [OF g st]
    by (rule okr_mono)
       (auto simp: evaluates_def intro: goes_trans [OF g] stab_combine [of Y _ _ Y, simplified, OF goes_stab [OF _ st]])
qed

lemma evaluates_cong:
  assumes "okr strict (evaluates Y k f) r"
    and "\<And>k1 k2. A k1 \<Longrightarrow> frame UNIV k1 k2 \<Longrightarrow> f k2 = g k2"
  shows "okr strict (evaluates Y k g) r"
proof (rule okr_mono [OF assms(1)])
  fix x assume "evaluates Y k f x"
  then obtain k1 t where x: "x = (k1, t)" and g: "goes k k1" and st: "stab Y k1 (\<lambda>k. f k = t)"
    by (auto simp: evaluates_def)
  have "stab Y k1 (\<lambda>k. g k = t)"
    using st by (rule stab_weaken) (simp add: assms(2) [OF goes_A [OF g]])
  with x g show "evaluates Y k g x" by (simp add: evaluates_def)
qed

lemma first_visible_ok:
  assumes "A k" "\<And>i. i \<in> set is \<Longrightarrow> prop_fine u i" "Y \<subseteq> L"
    "\<And>i. i \<in> set is \<Longrightarrow> p_type (sy_prop (obj k0 u) ! i) = ty \<Longrightarrow> set (opt_syms (p_visible (sy_prop (obj k0 u) ! i))) \<subseteq> Y"
  shows "okr strict (evaluates Y k (\<lambda>k. first_prop ty k u is)) (first_visible calc ty u is k)"
  using assms
proof (induction "is" arbitrary: k)
  case Nil then show ?case using evaluates_const by (simp add: first_prop_def)
next
  case (Cons i "is")
  have i: "i < length (sy_prop (obj k0 u))" using Cons.prems(2) [of i] by (simp add: prop_fine_def)
  have IH: "okr strict (evaluates Y k1 (\<lambda>k. first_prop ty k u is)) (first_visible calc ty u is k1)" if "A k1" for k1
    using Cons.prems that by (intro Cons.IH) auto
  show ?case
  proof (cases "p_type (sy_prop (obj k0 u) ! i) = ty")
    case False
    with IH [OF Cons.prems(1)] show ?thesis
      by (simp add: A_prop(1) [OF Cons.prems(1) i], elim evaluates_cong)
         (auto simp: first_prop_def prop_vis_static(3) [OF _ _ i])
  next
    case True
    have "okr strict (evaluates Y k (\<lambda>k. prop_vis k u i)) (calc_prop calc u i k)"
      using Cons.prems True by (intro calc_prop_ok) auto
    then have "okr strict (evaluates Y k (\<lambda>k. (\<lambda>k t. if t \<noteq> Tno then Some i else first_prop ty k u is) k (prop_vis k u i)))
        (rbind (calc_prop calc u i k) (\<lambda>(k1, t). if t \<noteq> Tno then Inr (k1, Some i) else first_visible calc ty u is k1))"
      by (rule evaluates_then) (auto intro: evaluates_const_pair IH goes_A)
    with True show ?thesis
      by (simp add: A_prop(1) [OF Cons.prems(1) i], elim evaluates_cong)
         (auto simp: first_prop_def prop_vis_static(3) [OF _ _ i])
  qed
qed

lemma deselected_ok:
  assumes "A k" "set (opt_syms (sy_rev_dep_inv (obj k0 u))) \<subseteq> Y" "Y \<subseteq> L" "strict \<longrightarrow> opt_ok k0 (sy_rev_dep_inv (obj k0 u))"
  shows "okr strict (evaluates Y k (\<lambda>k. spec_desel k u)) (sym_deselected calc u k)"
proof (cases "sy_rev_dep_inv (obj k0 u)")
  case None
  have "okr strict (evaluates Y k (\<lambda>k. spec_desel k u)) (Inr (k, False))"
    by (rule evaluates_cong [OF evaluates_const [OF assms(1)]])
       (auto simp: spec_desel_def erase_cong(5) [OF frame_A] None)
  with None show ?thesis by (simp add: sym_deselected_def A_fields(4) [OF assms(1)])
next
  case (Some e)
  have "okr strict (evaluates (set (expr_syms e)) k (\<lambda>k. eval k e)) (expr_calc calc e k)"
    using assms Some by (intro expr_calc_ok) (auto simp: opt_syms_def opt_ok_def)
  then have "okr strict (evaluates Y k (\<lambda>k. eval k e = Tyes)) (rbind (expr_calc calc e k) (\<lambda>(k1, t). Inr (k1, t = Tyes)))"
    using assms(2) Some by (intro evaluates_map [where h = "\<lambda>t. t = Tyes"], elim evaluates_mono) (simp add: opt_syms_def)
  then show ?thesis
    unfolding sym_deselected_def using Some
    by (simp add: A_fields(4) [OF assms(1)], elim evaluates_cong)
       (auto simp: spec_desel_def erase_cong(5) [OF frame_A])
qed

definition sym_fine :: "sym \<Rightarrow> bool" where
  "sym_fine u \<longleftrightarrow> (strict \<longrightarrow> sym_ok k0 (obj k0 u))"

lemma fine_prop: "sym_fine u \<Longrightarrow> i \<in> set (prop_indices k0 u) \<Longrightarrow> prop_fine u i"
  by (auto simp: sym_fine_def prop_fine_def sym_ok_def list_all_length prop_ok_def)

lemma A_indices: "A k \<Longrightarrow> prop_indices k u = prop_indices k0 u"
  by (simp add: A_fields(5))

lemma prompts_ok:
  assumes "A k" "sym_fine u" "set (vis_deps (obj k0 u)) \<subseteq> L"
  shows "okr strict (evaluates (set (vis_deps (obj k0 u))) k (\<lambda>k. prompts_vis k u (prop_indices k u) Tno))
    (calc_prompts calc u (prop_indices k u) Tno k)"
proof -
  have "set (opt_syms (p_visible (sy_prop (obj k0 u) ! i))) \<subseteq> set (vis_deps (obj k0 u))"
    if "i \<in> set (prop_indices k0 u)" "p_text (sy_prop (obj k0 u) ! i) \<noteq> None" for i
    using that prop_deps_nth [of i "obj k0 u" "\<lambda>p. p_text p \<noteq> None" "\<lambda>p. opt_syms (p_visible p)"]
    by (auto simp: vis_deps_def prompt_deps_def)
  then have "okr strict (evaluates (set (vis_deps (obj k0 u))) k (\<lambda>k. prompts_vis k u (prop_indices k0 u) Tno))
    (calc_prompts calc u (prop_indices k0 u) Tno k)"
    using assms fine_prop by (intro calc_prompts_ok) auto
  then show ?thesis
    unfolding A_indices [OF assms(1)]
    by (rule evaluates_cong) (auto simp: erase_cong(6) [OF frame_A])
qed

lemma prompts_valid:
  assumes "A k" "sym_fine u" "set (prompt_deps (obj k0 u)) \<subseteq> L"
  shows "okr strict (touches (set (prompt_deps (obj k0 u))) k) (calc_prompts calc u (prop_indices k u) Tno k)"
proof -
  have D: "set (prompt_deps (obj k0 u)) = (\<Union>i\<in>{i\<in>set (prop_indices k0 u). p_text (sy_prop (obj k0 u) ! i) \<noteq> None}.
      set (opt_syms (p_visible (sy_prop (obj k0 u) ! i))))"
    unfolding prompt_deps_def by (rule prop_deps_set)
  show ?thesis
    unfolding D A_indices [OF assms(1)] by (rule prompts_touches [OF assms(1) fine_prop [OF assms(2)]]) (use D assms(3) in blast)+
qed

lemma calc_rev_dep_ok:
  assumes "A k" "sym_fine u" "set (rev_deps (obj k0 u)) \<subseteq> L" "\<not> sym_is_choice_value (obj k0 u)"
  shows "okr strict (\<lambda>k'. goes k k' \<and> stab (set (rev_deps (obj k0 u))) k' (\<lambda>k. spec_rev k u = sy_rev_tri (obj k' u)))
    (calc_rev_dep calc u k)"
proof -
  let ?e = "sy_rev_dep (obj k0 u)" and ?Y = "set (rev_deps (obj k0 u))"
  let ?b = "sy_type (obj k0 u) = S_BOOLEAN"
  have "okr strict (evaluates ?Y k (\<lambda>k. case ?e of None \<Rightarrow> Tno | Some e \<Rightarrow> eval k e))
      (case ?e of None \<Rightarrow> Inr (k, Tno) | Some e \<Rightarrow> expr_calc calc e k)"
    using assms by (cases ?e)
      (auto simp: rev_deps_def opt_syms_def sym_fine_def sym_ok_def opt_ok_def evaluates_const_pair intro!: expr_calc_ok)
  then show ?thesis
    unfolding calc_rev_dep_def A_fields(3) [OF assms(1)] evaluates_def
  proof (rule okr_bind2, simp only: prod.case okr_simps, elim conjE)
    fix k1 t
    assume g: "goes k k1" and st: "stab ?Y k1 (\<lambda>k. (case ?e of None \<Rightarrow> Tno | Some e \<Rightarrow> eval k e) = t)"
    have ty: "sym_get_type (obj k1 u) = sy_type (obj k0 u)"
      using assms(4) A_fields [OF goes_A [OF g], of u] by (simp add: sym_get_type_def)
    have st2: "stab ?Y k1 (\<lambda>k. spec_rev k u = raise ?b t)"
      using st by (rule stab_weaken)
        (simp add: spec_rev_def erase_cong(2,4) [OF frame_A [OF goes_A [OF g]]])
    have v: "(if t = Tmod \<and> sym_get_type (obj k1 u) = S_BOOLEAN then Tyes else t) = raise ?b t"
      by (auto simp: raise_def ty)
    have sp: "spec_rev k1 u = raise ?b t" using stab_now [OF st2] .
    have nc: "\<not> sym_is_choice_value (obj k1 u)" using assms(4) A_fields(7) [OF goes_A [OF g]] by simp
    let ?k = "set_rev_tri u (raise ?b t) k1"
    have g2: "goes k1 ?k"
      using set_rev_tri_step(1,2) [OF sp nc] A_keeps [OF goes_A [OF g]] by (simp add: goes_def)
    show "goes k (set_rev_tri u (if t = Tmod \<and> sym_get_type (obj k1 u) = S_BOOLEAN then Tyes else t) k1) \<and>
       stab ?Y (set_rev_tri u (if t = Tmod \<and> sym_get_type (obj k1 u) = S_BOOLEAN then Tyes else t) k1)
        (\<lambda>k. spec_rev k u = sy_rev_tri (obj (set_rev_tri u (if t = Tmod \<and> sym_get_type (obj k1 u) = S_BOOLEAN then Tyes else t) k1) u))"
      unfolding v set_rev_tri_step(3) [OF sp nc]
      using goes_trans [OF g g2] goes_stab [OF g2 st2] by simp
  qed
qed

text \<open>What holds of the cached visibility and reverse dependency after they have been computed.\<close>

definition seen :: "sym \<Rightarrow> kconf \<Rightarrow> bool" where
  "seen u k \<longleftrightarrow> (\<forall>d\<in>set (prompt_deps (obj k0 u)). valid k d) \<and> stab (set (vis_deps (obj k0 u))) k (\<lambda>k'. spec_desel k' u = spec_desel k u) \<and>
     stab (set (vis_deps (obj k0 u))) k (\<lambda>k'. spec_vis k' u = sy_visible (obj k u)) \<and>
     (\<not> sym_is_choice_value (obj k0 u) \<and> \<not> spec_desel k u \<longrightarrow>
        stab (set (rev_deps (obj k0 u))) k (\<lambda>k'. spec_rev k' u = sy_rev_tri (obj k u)))"

lemma seen_goes:
  assumes "seen u k" "goes k k'" "A k" shows "seen u k'"
proof -
  have b: "stab (set (vis_deps (obj k0 u))) k (\<lambda>k'. spec_desel k' u = spec_desel k u)"
    using assms(1) by (auto simp: seen_def)
  have st: "step {} k k'" using assms(2) by (simp add: goes_def)
  have v: "sy_visible (obj k' u) = sy_visible (obj k u)"
  proof (rule moved_stab [where X = "{}" and spec = spec_vis])
    show "stab (set (vis_deps (obj k0 u))) k (\<lambda>k'. spec_vis k' u = sy_visible (obj k u))"
      using assms(1) by (simp add: seen_def)
  qed (use st in \<open>auto simp: step_def\<close>)
  have d: "spec_desel k' u = spec_desel k u"
    using stab_now [OF stab_step [OF b st]] .
  have r: "sy_rev_tri (obj k' u) = sy_rev_tri (obj k u)" if "\<not> sym_is_choice_value (obj k0 u)" "\<not> spec_desel k u"
  proof (rule moved_stab [where X = "{}" and spec = spec_rev and Y = "set (rev_deps (obj k0 u))"])
    show "moved {} sy_rev_tri spec_rev k k' u"
      using st that(1) A_fields(7) [OF assms(3), of u] by (auto simp: step_def split: if_splits)
  qed (use assms(1) that in \<open>auto simp: seen_def\<close>)
  have "stab (set (vis_deps (obj k0 u))) k' (\<lambda>k1. spec_vis k1 u = sy_visible (obj k' u))"
    unfolding v by (rule stab_step [OF _ st]) (use assms(1) in \<open>simp add: seen_def\<close>)
  moreover have "stab (set (rev_deps (obj k0 u))) k' (\<lambda>k1. spec_rev k1 u = sy_rev_tri (obj k' u))"
    if c: "\<not> sym_is_choice_value (obj k0 u)" "\<not> spec_desel k' u"
    unfolding r [OF c(1) c(2) [unfolded d]]
    by (rule stab_step [OF _ st]) (use assms(1) c d in \<open>simp add: seen_def\<close>)
  ultimately show ?thesis
    using stab_step [OF b st] d assms(1) frame_valid [OF step_frame [OF st]] by (auto simp: seen_def)
qed

lemma store_visibility_ok:
  assumes "A k" "sym_fine u" "set (rev_deps (obj k0 u)) \<subseteq> L"
    and v0: "\<forall>d\<in>set (prompt_deps (obj k0 u)). valid k d"
    and sd: "stab (set (vis_deps (obj k0 u))) k (\<lambda>k. spec_desel k u = d)"
    and sv: "stab (set (vis_deps (obj k0 u))) k (\<lambda>k. spec_vis k u = v)"
  shows "okr strict (\<lambda>k'. goes k k' \<and> seen u k') (store_visibility calc u d v k)"
proof -
  define k1 where "k1 = set_visible u v k"
  note vs = set_visible_step [OF stab_now [OF sv], folded k1_def]
  have g: "goes k k1" using vs(1,2) A_keeps [OF assms(1)] by (simp add: goes_def)
  have cv: "sym_is_choice_value (obj k1 u) = sym_is_choice_value (obj k0 u)" using A_fields(7) [OF goes_A [OF g]] .
  have sd1: "stab (set (vis_deps (obj k0 u))) k1 (\<lambda>k. spec_desel k u = d)"
    and sv1: "stab (set (vis_deps (obj k0 u))) k1 (\<lambda>k. spec_vis k u = sy_visible (obj k1 u))"
    using goes_stab [OF g sd] goes_stab [OF g sv] vs(3) by simp_all
  have d: "spec_desel k1 u = d" using stab_now [OF sd1] .
  show ?thesis
  proof (cases "sym_is_choice_value (obj k1 u) \<or> d")
    case True
    then have "seen u k1" using sd1 sv1 d cv v0 frame_valid [OF goes_frame [OF g]] by (auto simp: seen_def)
    with True g show ?thesis by (auto simp: store_visibility_def k1_def Let_def)
  next
    case False
    then have "\<not> sym_is_choice_value (obj k0 u)" using cv by simp
    note r = calc_rev_dep_ok [OF goes_A [OF g] assms(2,3) this]
    have "goes k k' \<and> seen u k'"
      if g2: "goes k1 k'" and sr: "stab (set (rev_deps (obj k0 u))) k' (\<lambda>k. spec_rev k u = sy_rev_tri (obj k' u))" for k'
    proof -
      have st: "step {} k1 k'" using g2 by (simp add: goes_def)
      have "sy_visible (obj k' u) = sy_visible (obj k1 u)"
        by (rule moved_stab [where X = "{}" and spec = spec_vis, OF sv1]) (use st in \<open>auto simp: step_def\<close>)
      moreover have "spec_desel k' u = d" using stab_now [OF goes_stab [OF g2 sd1]] .
      ultimately show ?thesis
        using sr goes_trans [OF g g2] goes_stab [OF g2 sd1] goes_stab [OF g2 sv1]
          v0 frame_valid [OF goes_frame [OF goes_trans [OF g g2]]] by (auto simp: seen_def)
    qed
    with False okr_mono [OF r] show ?thesis by (auto simp: store_visibility_def k1_def Let_def)
  qed
qed

lemma visibility_ok:
  assumes "A k" "sym_fine u" "set (vis_deps (obj k0 u)) \<subseteq> L" "set (rev_deps (obj k0 u)) \<subseteq> L"
  shows "okr strict (\<lambda>k'. goes k k' \<and> seen u k') (sym_calc_visibility calc u k)"
  unfolding sym_calc_visibility_def
proof (rule okr_bind [OF okr_conj [OF prompts_ok [OF assms(1-3)] prompts_valid [OF assms(1,2)]]], goal_cases)
  case 1 then show ?case using assms(3) by (simp add: vis_deps_def)
next
  case (2 x)
  let ?Y = "set (vis_deps (obj k0 u))"
  obtain k1 tri where x: "x = (k1, tri)" by fastforce
  with 2 have g1: "goes k k1" and st: "stab ?Y k1 (\<lambda>k. prompts_vis k u (prop_indices k u) Tno = tri)"
    and v1: "\<forall>d\<in>set (prompt_deps (obj k0 u)). valid k1 d"
    by (auto simp: evaluates_def touches_def)
  have d: "okr strict (evaluates ?Y k1 (\<lambda>k. spec_desel k u)) (sym_deselected calc u k1)"
    using goes_A [OF g1] assms by (intro deselected_ok) (auto simp: vis_deps_def sym_fine_def sym_ok_def)
  let ?v = "\<lambda>d. if d then Tno else if tri = Tmod \<and> sy_type (obj k1 u) \<noteq> S_TRISTATE then Tyes else tri"
  have "okr strict (\<lambda>k'. goes k k' \<and> seen u k')
     (rbind (sym_deselected calc u k1) (\<lambda>(k2, deselected). store_visibility calc u deselected (?v deselected) k2))"
  proof (rule okr_bind2 [OF d [unfolded evaluates_def]], simp only: prod.case, elim conjE)
    fix k2 d assume g2: "goes k1 k2" and sd: "stab ?Y k2 (\<lambda>k. spec_desel k u = d)"
    have ty: "sy_type (obj k1 u) = sy_type (obj k0 u)" using A_fields(1) [OF goes_A [OF g1]] .
    have "stab ?Y k2 (\<lambda>k. spec_vis k u = ?v d)"
      by (rule stab_combine [of ?Y k2 _ ?Y, simplified, OF goes_stab [OF g2 st] sd])
         (auto simp: spec_vis_def raise_def ty erase_cong(2) [OF frame_A [OF goes_A [OF g2]]])
    moreover have "\<forall>d\<in>set (prompt_deps (obj k0 u)). valid k2 d"
      using v1 frame_valid [OF goes_frame [OF g2]] by blast
    ultimately have "okr strict (\<lambda>k'. goes k2 k' \<and> seen u k') (store_visibility calc u d (?v d) k2)"
      using sd by (intro store_visibility_ok [OF goes_A [OF g2] assms(2,4)])
    then show "okr strict (\<lambda>k'. goes k k' \<and> seen u k') (store_visibility calc u d (?v d) k2)"
      by (rule okr_mono) (blast intro: goes_trans [OF goes_trans [OF g1 g2]])
  qed
  then show ?case by (simp add: x)
qed

end

end
