(* ===== verification/Kconfig_Choice.thy ===== *)
theory Kconfig_Choice
  imports Kconfig_Visible
begin

text \<open>
  The operations of an activation, continued: the candidates of a choice and the default of
  a symbol.
\<close>

context calc_context
begin

definition cand_fine :: "sym set \<Rightarrow> sym \<Rightarrow> bool" where
  "cand_fine Y d \<longleftrightarrow> sym_fine d \<and> set (vis_deps (obj k0 d)) \<subseteq> Y \<and> set (rev_deps (obj k0 d)) \<subseteq> Y"

lemma candidate_visible_ok:
  assumes "A k" "cand_fine Y d" "Y \<subseteq> L"
  shows "okr strict (evaluates Y k (\<lambda>k. spec_vis k d \<noteq> Tno)) (candidate_visible calc d k)"
  unfolding candidate_visible_def
proof (rule okr_bind [OF visibility_ok], goal_cases)
  case (5 k1)
  then have "stab (set (vis_deps (obj k0 d))) k1 (\<lambda>k'. spec_vis k' d = sy_visible (obj k1 d))"
    by (simp add: seen_def)
  then have "stab Y k1 (\<lambda>k. spec_vis k d = sy_visible (obj k1 d))"
    using assms(2) by (auto simp: cand_fine_def intro: stab_mono)
  then have "stab Y k1 (\<lambda>k. (spec_vis k d \<noteq> Tno) = (sy_visible (obj k1 d) \<noteq> Tno))"
    by (rule stab_weaken) simp
  with 5 show ?case by (simp add: evaluates_def)
qed (use assms in \<open>auto simp: cand_fine_def\<close>)

lemma choice_first_ok:
  assumes "A k" "\<And>d. d \<in> set ds \<Longrightarrow> cand_fine Y d" "Y \<subseteq> L"
  shows "okr strict (evaluates Y k (\<lambda>k. find (\<lambda>d. spec_vis k d \<noteq> Tno) ds)) (choice_first calc ds k)"
  using assms
proof (induction ds arbitrary: k)
  case Nil then show ?case by (simp add: evaluates_const_pair)
next
  case (Cons d ds)
  have "okr strict (evaluates Y k (\<lambda>k. (\<lambda>k b. if b then Some d else find (\<lambda>d. spec_vis k d \<noteq> Tno) ds) k (spec_vis k d \<noteq> Tno)))
     (rbind (candidate_visible calc d k) (\<lambda>(k1, vis). if vis then Inr (k1, Some d) else choice_first calc ds k1))"
    using Cons.prems
    by (intro evaluates_then candidate_visible_ok) (auto simp: evaluates_const_pair goes_A intro!: Cons.IH)
  then show ?case by (simp cong: if_cong)
qed

lemma default_candidates_Cons:
  "default_candidates k u (i # is) =
     (if p_type (sy_prop (obj k u) ! i) = P_DEFAULT \<and> prop_vis k u i \<noteq> Tno
      then (case prop_get_symbol (sy_prop (obj k u) ! i) of None \<Rightarrow> [] | Some d \<Rightarrow> [d]) else []) @
     default_candidates k u is"
  by (simp add: default_candidates_def)

lemma prop_get_symbol_cong: "p_expr p = p_expr q \<Longrightarrow> prop_get_symbol p = prop_get_symbol q"
  by (simp add: prop_get_symbol_def)

lemma choice_default_ok:
  assumes "A k" "\<And>i. i \<in> set is \<Longrightarrow> prop_fine u i" "Y \<subseteq> L"
    "\<And>i. i \<in> set is \<Longrightarrow> p_type (sy_prop (obj k0 u) ! i) = P_DEFAULT \<Longrightarrow>
       set (opt_syms (p_visible (sy_prop (obj k0 u) ! i))) \<subseteq> Y \<and>
       (case prop_get_symbol (sy_prop (obj k0 u) ! i) of None \<Rightarrow> \<not> strict | Some d \<Rightarrow> cand_fine Y d)"
  shows "okr strict (evaluates Y k (\<lambda>k. find (\<lambda>d. spec_vis k d \<noteq> Tno) (default_candidates k u is)))
     (choice_default calc u is k)"
  using assms
proof (induction "is" arbitrary: k)
  case Nil then show ?case by (simp add: default_candidates_def evaluates_const_pair)
next
  case (Cons i "is")
  let ?vis = "\<lambda>k d. spec_vis k d \<noteq> Tno"
  have i: "i < length (sy_prop (obj k0 u))" using Cons.prems(2) [of i] by (simp add: prop_fine_def)
  have IH: "okr strict (evaluates Y k1 (\<lambda>k. find (?vis k) (default_candidates k u is))) (choice_default calc u is k1)"
    if "A k1" for k1 using Cons.prems that by (intro Cons.IH) auto
  let ?s = "prop_get_symbol (sy_prop (obj k0 u) ! i)"
  have sym: "prop_get_symbol (sy_prop (obj k1 u) ! i) = ?s" if "A k1" for k1
    using A_prop(4) [OF that i] by (rule prop_get_symbol_cong)
  show ?case
  proof (cases "p_type (sy_prop (obj k0 u) ! i) = P_DEFAULT")
    case False
    with IH [OF Cons.prems(1)] show ?thesis
      by (simp add: A_prop(1) [OF Cons.prems(1) i], elim evaluates_cong)
         (auto simp: default_candidates_Cons prop_vis_static(3) [OF _ _ i])
  next
    case True
    note d = Cons.prems(4) [OF list.set_intros(1) True]
    define tail where "tail = (\<lambda>k1 t. if t = Tno then choice_default calc u is k1
        else case prop_get_symbol (sy_prop (obj k1 u) ! i) of
          None \<Rightarrow> Inl Bad_pointer
        | Some d \<Rightarrow> rbind (candidate_visible calc d k1) (\<lambda>(k2, vis).
            if vis then Inr (k2, Some d) else choice_default calc u is k2))"
    define g where "g = (\<lambda>k t. if t = Tno then find (?vis k) (default_candidates k u is)
        else case ?s of None \<Rightarrow> find (?vis k) (default_candidates k u is)
        | Some d \<Rightarrow> if ?vis k d then Some d else find (?vis k) (default_candidates k u is))"
    have t: "okr strict (evaluates Y k1 (\<lambda>k. g k t)) (tail k1 t)" if "A k1" for k1 t
    proof (cases "t = Tno")
      case True then show ?thesis using IH [OF that] by (simp add: g_def tail_def)
    next
      case False
      show ?thesis
      proof (cases ?s)
        case None with False d show ?thesis by (simp add: tail_def sym [OF that])
      next
        case (Some c)
        have "okr strict (evaluates Y k1 (\<lambda>k. (\<lambda>k b. if b then Some c else find (?vis k) (default_candidates k u is)) k (?vis k c)))
          (rbind (candidate_visible calc c k1) (\<lambda>(k2, vis). if vis then Inr (k2, Some c) else choice_default calc u is k2))"
          using d Some that Cons.prems(3)
          by (intro evaluates_then candidate_visible_ok) (auto simp: evaluates_const_pair goes_A intro!: IH)
        with False Some show ?thesis by (simp add: g_def tail_def sym [OF that] cong: if_cong)
      qed
    qed
    have "okr strict (evaluates Y k (\<lambda>k. prop_vis k u i)) (calc_prop calc u i k)"
      using Cons.prems d by (intro calc_prop_ok) auto
    then have "okr strict (evaluates Y k (\<lambda>k. g k (prop_vis k u i))) (rbind (calc_prop calc u i k) (\<lambda>(k1, t). tail k1 t))"
      by (rule evaluates_then) (auto intro: t goes_A)
    moreover have "g k2 (prop_vis k2 u i) = find (?vis k2) (default_candidates k2 u (i # is))"
      if "A k1" "frame UNIV k1 k2" for k1 k2
      using True prop_vis_static(3) [OF that i] prop_get_symbol_cong [OF prop_vis_static(4) [OF that i]]
      by (auto simp: g_def default_candidates_Cons split: option.splits)
    ultimately show ?thesis
      using True by (simp add: A_prop(1) [OF Cons.prems(1) i] tail_def, elim evaluates_cong) blast
  qed
qed

lemma choice_user_ok:
  assumes "A k" "Y \<subseteq> L"
    "case v_val (sy_user (obj k0 u)) of V_NULL \<Rightarrow> True | V_sym d \<Rightarrow> cand_fine Y d | _ \<Rightarrow> \<not> strict"
  shows "okr strict (evaluates Y k (\<lambda>k. find (\<lambda>d. spec_vis k d \<noteq> Tno) (user_candidates k u))) (choice_user calc u k)"
proof -
  have *: "okr strict (evaluates Y k f) (choice_user calc u k) \<Longrightarrow>
      (\<And>k1 k2. A k1 \<Longrightarrow> frame UNIV k1 k2 \<Longrightarrow> f k2 = find (\<lambda>d. spec_vis k2 d \<noteq> Tno) (user_candidates k2 u)) \<Longrightarrow> ?thesis" for f
    by (erule evaluates_cong)
  show ?thesis
  proof (cases "v_val (sy_user (obj k0 u))")
    case V_NULL
    then show ?thesis
      by (intro * [of "\<lambda>_. None"])
         (auto simp: choice_user_def A_fields(2) [OF assms(1)] evaluates_const_pair assms(1) user_candidates_def erase_cong(3) [OF frame_A])
  next
    case (V_sym d)
    have "okr strict (evaluates Y k (\<lambda>k. (\<lambda>b. if b then Some d else None) (spec_vis k d \<noteq> Tno)))
       (rbind (candidate_visible calc d k) (\<lambda>(k1, vis). Inr (k1, if vis then Some d else None)))"
      using assms V_sym by (intro evaluates_map candidate_visible_ok) auto
    then show ?thesis
      using V_sym by (intro * [of "\<lambda>k. if spec_vis k d \<noteq> Tno then Some d else None"])
         (auto simp: choice_user_def A_fields(2) [OF assms(1)] user_candidates_def erase_cong(3) [OF frame_A])
  qed (use assms in \<open>simp_all add: choice_user_def A_fields(2) [OF assms(1)]\<close>)
qed

definition choice_fine :: "sym set \<Rightarrow> sym \<Rightarrow> bool" where
  "choice_fine Y u \<longleftrightarrow> Y \<subseteq> L \<and> sym_fine u \<and> sym_is_choice (obj k0 u) \<and> tri_type (sy_type (obj k0 u)) \<and>
     set (list_deps P_DEFAULT (obj k0 u)) \<subseteq> Y \<and> (\<forall>d\<in>set (possible (obj k0 u)). cand_fine Y d)"

lemma choice_fine_parts:
  assumes "choice_fine Y u"
  shows "case v_val (sy_user (obj k0 u)) of V_NULL \<Rightarrow> True | V_sym d \<Rightarrow> cand_fine Y d | _ \<Rightarrow> \<not> strict"
    "i \<in> set (prop_indices k0 u) \<Longrightarrow> p_type (sy_prop (obj k0 u) ! i) = P_DEFAULT \<Longrightarrow>
       set (opt_syms (p_visible (sy_prop (obj k0 u) ! i))) \<subseteq> Y \<and>
       (case prop_get_symbol (sy_prop (obj k0 u) ! i) of None \<Rightarrow> \<not> strict | Some d \<Rightarrow> cand_fine Y d)"
    "choice_values (obj k0 u) = Inr vs \<Longrightarrow> d \<in> set vs \<Longrightarrow> cand_fine Y d"
proof -
  have c: "\<And>d. d \<in> set (possible (obj k0 u)) \<Longrightarrow> cand_fine Y d" using assms by (simp add: choice_fine_def)
  have ok: "strict \<longrightarrow> sym_ok k0 (obj k0 u)" "sym_is_choice (obj k0 u)" "tri_type (sy_type (obj k0 u))"
    using assms by (auto simp: choice_fine_def sym_fine_def)
  show "case v_val (sy_user (obj k0 u)) of V_NULL \<Rightarrow> True | V_sym d \<Rightarrow> cand_fine Y d | _ \<Rightarrow> \<not> strict"
    using ok c by (auto simp: sym_ok_def possible_def split: symval.splits)
  show "choice_values (obj k0 u) = Inr vs \<Longrightarrow> d \<in> set vs \<Longrightarrow> cand_fine Y d"
    using c by (auto simp: possible_def)
  assume i: "i \<in> set (prop_indices k0 u)" and ty: "p_type (sy_prop (obj k0 u) ! i) = P_DEFAULT"
  have "set (opt_syms (p_visible (sy_prop (obj k0 u) ! i))) \<subseteq> Y"
    using assms i ty prop_deps_nth [of i "obj k0 u" "\<lambda>p. p_type p = P_DEFAULT" "\<lambda>p. opt_syms (p_visible p)"]
    by (auto simp: choice_fine_def list_deps_def)
  moreover have "case prop_get_symbol (sy_prop (obj k0 u) ! i) of None \<Rightarrow> \<not> strict | Some d \<Rightarrow> cand_fine Y d"
    using ok i ty c prop_deps_nth [of i "obj k0 u" "\<lambda>p. p_type p = P_DEFAULT" "\<lambda>p. case prop_get_symbol p of None \<Rightarrow> [] | Some d \<Rightarrow> [d]"]
    by (auto simp: sym_ok_def list_all_length prop_ok_def possible_def split: option.splits)
  ultimately show "set (opt_syms (p_visible (sy_prop (obj k0 u) ! i))) \<subseteq> Y \<and>
       (case prop_get_symbol (sy_prop (obj k0 u) ! i) of None \<Rightarrow> \<not> strict | Some d \<Rightarrow> cand_fine Y d)" ..
qed

lemma choice_pick_ok:
  assumes "A k" "choice_fine Y u"
  shows "okr strict (evaluates Y k (\<lambda>k. spec_choose k u)) (choice_pick calc u k)"
proof -
  let ?vis = "\<lambda>k d. spec_vis k d \<noteq> Tno"
  have YL: "Y \<subseteq> L" and fine: "sym_fine u" using assms(2) by (simp_all add: choice_fine_def)
  note parts = choice_fine_parts [OF assms(2)]
  have val: "okr strict (evaluates Y k2 (\<lambda>k. find (?vis k) (value_candidates k u)))
      (rbind (choice_values (obj k2 u)) (\<lambda>vs. choice_first calc vs k2))" if "A k2" for k2
  proof (cases "choice_values (obj k0 u)")
    case (Inl e)
    moreover have "\<not> strict"
      using Inl choice_values_err [OF Inl] assms(2) by (auto simp: choice_fine_def sym_fine_def sym_ok_def)
    ultimately show ?thesis using choice_values_err [OF Inl] by (simp add: A_fields(9) [OF that])
  next
    case (Inr vs)
    have "okr strict (evaluates Y k2 (\<lambda>k. find (?vis k) vs)) (choice_first calc vs k2)"
      using that YL parts(3) [OF Inr] by (intro choice_first_ok) auto
    then have "okr strict (evaluates Y k2 (\<lambda>k. find (?vis k) (value_candidates k u))) (choice_first calc vs k2)"
      by (rule evaluates_cong) (auto simp: value_candidates_def erase_cong(10) [OF frame_A] Inr)
    then show ?thesis by (simp add: A_fields(9) [OF that] Inr)
  qed
  have def: "okr strict (evaluates Y k1 (\<lambda>k. find (?vis k) (default_candidates k u (prop_indices k u))))
      (choice_default calc u (prop_indices k1 u) k1)" if "A k1" for k1
  proof -
    have "okr strict (evaluates Y k1 (\<lambda>k. find (?vis k) (default_candidates k u (prop_indices k0 u))))
      (choice_default calc u (prop_indices k0 u) k1)"
      using that YL fine_prop [OF fine] parts(2) by (intro choice_default_ok) auto
    then show ?thesis
      unfolding A_indices [OF that] by (rule evaluates_cong) (simp add: erase_cong(6) [OF frame_A])
  qed
  have "okr strict (evaluates Y k1 (\<lambda>k. (\<lambda>k r. if r \<noteq> None then r else find (?vis k) (value_candidates k u)) k
        (find (?vis k) (default_candidates k u (prop_indices k u)))))
      (rbind (choice_default calc u (prop_indices k1 u) k1) (\<lambda>(k2, r2). if r2 \<noteq> None then Inr (k2, r2)
         else rbind (choice_values (obj k2 u)) (\<lambda>vs. choice_first calc vs k2)))" if "A k1" for k1
    using def [OF that] by (rule evaluates_then) (use val goes_A in \<open>auto simp: evaluates_const_pair\<close>)
  note tail = this
  have "okr strict (evaluates Y k (\<lambda>k. (\<lambda>k r. if r \<noteq> None then r
        else if find (?vis k) (default_candidates k u (prop_indices k u)) \<noteq> None
        then find (?vis k) (default_candidates k u (prop_indices k u))
        else find (?vis k) (value_candidates k u)) k (find (?vis k) (user_candidates k u))))
      (choice_pick calc u k)"
    unfolding choice_pick_def
    using choice_user_ok [OF assms(1) YL parts(1)]
  proof (rule evaluates_then)
    fix k1 r assume g: "goes k k1"
    show "okr strict (evaluates Y k1 (\<lambda>k. if r \<noteq> None then r
        else if find (?vis k) (default_candidates k u (prop_indices k u)) \<noteq> None
        then find (?vis k) (default_candidates k u (prop_indices k u))
        else find (?vis k) (value_candidates k u)))
      (if r \<noteq> None then Inr (k1, r)
       else rbind (choice_default calc u (prop_indices k1 u) k1) (\<lambda>(k2, r2). if r2 \<noteq> None then Inr (k2, r2)
         else rbind (choice_values (obj k2 u)) (\<lambda>vs. choice_first calc vs k2)))"
      using tail [OF goes_A [OF g]] goes_A [OF g] by (cases r) (auto simp: evaluates_const_pair)
  qed
  then show ?thesis
    by (rule evaluates_cong) (auto simp: spec_choose_def candidates_def find_append split: option.splits)
qed

text \<open>The first visible default of a symbol.\<close>

definition val_fine :: "sym set \<Rightarrow> bool" where
  "val_fine Y \<longleftrightarrow> Y \<subseteq> L \<and> sym_fine s \<and> set (val_deps (obj k0 s)) \<subseteq> Y"

lemma val_fine_deps:
  assumes "val_fine Y"
  shows "set (vis_deps (obj k0 s)) \<subseteq> Y" "set (rev_deps (obj k0 s)) \<subseteq> Y" "set (list_deps P_DEFAULT (obj k0 s)) \<subseteq> Y"
    "set (list_deps P_RANGE (obj k0 s)) \<subseteq> Y" "set (arg_deps P_RANGE (obj k0 s)) \<subseteq> Y"
    "\<not> (sym_is_choice (obj k0 s) \<and> tri_type (sy_type (obj k0 s))) \<longrightarrow> set (arg_deps P_DEFAULT (obj k0 s)) \<subseteq> Y"
    "Y \<subseteq> L" "sym_fine s"
proof -
  have Y: "set (val_deps (obj k0 s)) \<subseteq> Y" using assms by (simp add: val_fine_def)
  note order_trans [OF val_deps_parts(1) Y] order_trans [OF val_deps_parts(2) Y] order_trans [OF val_deps_parts(3) Y]
    order_trans [OF val_deps_parts(4) Y] order_trans [OF val_deps_parts(5) Y] order_trans [OF val_deps_parts(7) Y]
  then show "set (vis_deps (obj k0 s)) \<subseteq> Y" "set (rev_deps (obj k0 s)) \<subseteq> Y" "set (list_deps P_DEFAULT (obj k0 s)) \<subseteq> Y"
    "set (list_deps P_RANGE (obj k0 s)) \<subseteq> Y" "set (arg_deps P_RANGE (obj k0 s)) \<subseteq> Y"
    "\<not> (sym_is_choice (obj k0 s) \<and> tri_type (sy_type (obj k0 s))) \<longrightarrow> set (arg_deps P_DEFAULT (obj k0 s)) \<subseteq> Y"
    by blast+
  show "Y \<subseteq> L" "sym_fine s" using assms by (simp_all add: val_fine_def)
qed

lemma first_prop_ok:
  assumes "A k" "val_fine Y" "ty = P_DEFAULT \<or> ty = P_RANGE"
  shows "okr strict (evaluates Y k (\<lambda>k. first_prop ty k s (prop_indices k s))) (first_visible calc ty s (prop_indices k s) k)"
proof -
  note d = val_fine_deps [OF assms(2)]
  have "okr strict (evaluates Y k (\<lambda>k. first_prop ty k s (prop_indices k0 s))) (first_visible calc ty s (prop_indices k0 s) k)"
  proof (rule first_visible_ok [OF assms(1) fine_prop [OF d(8)] d(7)])
    fix i assume "i \<in> set (prop_indices k0 s)" "p_type (sy_prop (obj k0 s) ! i) = ty"
    then have "set (opt_syms (p_visible (sy_prop (obj k0 s) ! i))) \<subseteq> set (list_deps ty (obj k0 s))"
      unfolding list_deps_def by (intro prop_deps_nth) auto
    with d(3,4) assms(3) show "set (opt_syms (p_visible (sy_prop (obj k0 s) ! i))) \<subseteq> Y" by blast
  qed
  then show ?thesis
    unfolding A_indices [OF assms(1)] by (rule evaluates_cong) (simp add: erase_cong(6) [OF frame_A])
qed

lemma first_prop_bound:
  assumes "stab Y k (\<lambda>k. first_prop ty k u (prop_indices k u) = Some i)" "A k"
  shows "i < length (sy_prop (obj k0 u))" "p_type (sy_prop (obj k0 u) ! i) = ty"
proof -
  have "i \<in> set (prop_indices k u) \<and> p_type (sy_prop (obj k u) ! i) = ty"
    using stab_now [OF assms(1)] by (auto simp: first_prop_def find_Some_iff)
  then show "i < length (sy_prop (obj k0 u))" "p_type (sy_prop (obj k0 u) ! i) = ty"
    using A_fields(5) [OF assms(2)] A_prop(1) [OF assms(2)] by auto
qed

end

end
