(* ===== verification/Kconfig_Value.thy ===== *)
theory Kconfig_Value
  imports Kconfig_Choice
begin

text \<open>
  The value of the symbol an activation evaluates: its tristate, its text and its range.
  What is computed agrees with the meaning of the symbol under the condition \<open>C\<close>: no pointer
  is bad, the symbol does not depend on itself, and a value of a choice mentions its
  choice in a prompt.
\<close>

context calc_context
begin

definition calm :: "kconf \<Rightarrow> kconf \<Rightarrow> bool" where
  "calm k k' \<longleftrightarrow> A k' \<and> step {s} k k'"

lemma goes_calm: "goes k k' \<Longrightarrow> calm k k'"
  by (auto simp: goes_def calm_def intro: step_empty)

lemma calm_refl: "A k \<Longrightarrow> calm k k"
  by (simp add: calm_def)

lemma calm_trans: "calm k k' \<Longrightarrow> calm k' k'' \<Longrightarrow> calm k k''"
  by (auto simp: calm_def intro: step_trans)

lemma calm_A: "calm k k' \<Longrightarrow> A k'"
  by (simp add: calm_def)

lemma calm_curr:
  assumes "A k" "\<And>y. f y = y\<lparr>sy_curr := g y\<rparr>" shows "calm k (upd s f k)"
  using curr_update_step(1,2) [OF assms(2)] A_keeps [OF assms(1)] by (simp add: calm_def)

lemma calm_heap: "calm k (k'\<lparr>k_heap := n\<rparr>) = calm k k'"
proof -
  have f: "frame X a (b\<lparr>k_heap := n\<rparr>) = frame X a b" for X a b
    by (simp add: frame_def same_globals_def valid_def)
  then have "benign b (b\<lparr>k_heap := n\<rparr>)" "benign (b\<lparr>k_heap := n\<rparr>) b" for b
    by (simp_all add: benign_def same_globals_def valid_def)
  then have "A (k'\<lparr>k_heap := n\<rparr>) = A k'" using A_keeps benign_keeps by blast
  moreover have "step {s} k (k'\<lparr>k_heap := n\<rparr>) = step {s} k k'" using f by (simp add: step_def moved_def)
  ultimately show ?thesis by (simp add: calm_def)
qed

definition C :: bool where
  "C \<longleftrightarrow> strict \<and> s \<notin> set (val_deps (obj k0 s)) \<and>
     (sym_is_choice_value (obj k0 s) \<longrightarrow> set (choice_link (obj k0 s)) \<subseteq> set (prompt_deps (obj k0 s)))"

definition ready :: "kconf \<Rightarrow> bool" where
  "ready k \<longleftrightarrow> (sym_is_choice_value (obj k0 s) \<longrightarrow> sy_rev_tri (obj k s) = Tno) \<and> seen s k"

lemma stab_calm: "stab Y k P \<Longrightarrow> calm k k' \<Longrightarrow> s \<notin> Y \<Longrightarrow> stab Y k' P"
  by (erule stab_later [of _ _ _ "{s}"]) (auto simp: calm_def intro: step_frame)

lemma calm_rev: "sym_is_choice_value (obj k0 s) \<Longrightarrow> A k \<Longrightarrow> calm k k' \<Longrightarrow> sy_rev_tri (obj k' s) = sy_rev_tri (obj k s)"
  using A_fields(7) [of k s] by (auto simp: calm_def step_def split: if_splits)

lemma ready_calm:
  assumes "ready k" "calm k k'" "A k" C shows "ready k'"
proof -
  have n: "s \<notin> set (vis_deps (obj k0 s))" "s \<notin> set (rev_deps (obj k0 s))"
    using assms(4) val_deps_parts(1,2) [of "obj k0 s"] by (auto simp: C_def)
  have st: "step {s} k k'" using assms(2) by (simp add: calm_def)
  have sn: "seen s k" using assms(1) by (simp add: ready_def)
  have v: "sy_visible (obj k' s) = sy_visible (obj k s)"
    by (rule moved_stab [where X = "{s}" and spec = spec_vis and Y = "set (vis_deps (obj k0 s))"])
       (use sn st n in \<open>auto simp: seen_def step_def\<close>)
  have b: "stab (set (vis_deps (obj k0 s))) k (\<lambda>k'. spec_desel k' s = spec_desel k s)" using sn by (simp add: seen_def)
  have d: "spec_desel k' s = spec_desel k s" using stab_now [OF stab_calm [OF b assms(2) n(1)]] .
  have r: "sy_rev_tri (obj k' s) = sy_rev_tri (obj k s)" if "\<not> sym_is_choice_value (obj k0 s)" "\<not> spec_desel k s"
  proof (rule moved_stab [where X = "{s}" and spec = spec_rev and Y = "set (rev_deps (obj k0 s))"])
    show "moved {s} sy_rev_tri spec_rev k k' s"
      using st that(1) A_fields(7) [OF assms(3), of s] by (auto simp: step_def split: if_splits)
  qed (use sn that n in \<open>auto simp: seen_def\<close>)
  have sv: "stab (set (vis_deps (obj k0 s))) k' (\<lambda>k1. spec_vis k1 s = sy_visible (obj k' s))"
    unfolding v by (rule stab_calm [OF _ assms(2) n(1)]) (use sn in \<open>simp add: seen_def\<close>)
  have sr: "stab (set (rev_deps (obj k0 s))) k' (\<lambda>k1. spec_rev k1 s = sy_rev_tri (obj k' s))"
    if c: "\<not> sym_is_choice_value (obj k0 s)" "\<not> spec_desel k' s"
    unfolding r [OF c(1) c(2) [unfolded d]]
    by (rule stab_calm [OF _ assms(2) n(2)]) (use sn c d in \<open>simp add: seen_def\<close>)
  have "\<forall>d\<in>set (prompt_deps (obj k0 s)). valid k' d"
    using sn frame_valid [OF step_frame [OF st]] by (auto simp: seen_def)
  then show ?thesis
    using assms(1) sv sr d stab_calm [OF b assms(2) n(1)] calm_rev [OF _ assms(3,2)] by (auto simp: ready_def seen_def)
qed

lemma ready_vis:
  assumes "ready k" "val_fine Y" shows "stab Y k (\<lambda>k'. spec_vis k' s = sy_visible (obj k s))"
  using assms(1) val_fine_deps(1) [OF assms(2)] by (auto simp: ready_def seen_def intro: stab_mono)

lemma ready_desel:
  assumes "ready k" "val_fine Y" shows "stab Y k (\<lambda>k'. spec_desel k' s = spec_desel k s)"
  using assms(1) val_fine_deps(1) [OF assms(2)] by (auto simp: ready_def seen_def intro: stab_mono)

lemma ready_select:
  assumes "ready k" "val_fine Y" "\<not> spec_desel k s" "A k"
  shows "stab Y k (\<lambda>k'. spec_select k' s = sy_rev_tri (obj k s))"
proof (cases "sym_is_choice_value (obj k0 s)")
  case True
  then show ?thesis
    using assms by (intro stab_static) (auto simp: spec_select_def ready_def erase_cong(8) [OF frame_A])
next
  case False
  then have "stab (set (rev_deps (obj k0 s))) k (\<lambda>k'. spec_rev k' s = sy_rev_tri (obj k s))"
    using assms(1,3) by (simp add: ready_def seen_def)
  then have "stab Y k (\<lambda>k'. spec_rev k' s = sy_rev_tri (obj k s))"
    using val_fine_deps(2) [OF assms(2)] by (rule stab_mono)
  then show ?thesis
    by (rule stab_weaken) (simp add: spec_select_def erase_cong(8) [OF frame_A [OF assms(4)]] False)
qed

text \<open>Evaluation of a part of the value, exact under \<open>C\<close>.\<close>

definition ceval :: "sym set \<Rightarrow> kconf \<Rightarrow> (kconf \<Rightarrow> 'a) \<Rightarrow> kconf \<times> 'a \<Rightarrow> bool" where
  "ceval Y k f = (\<lambda>(k', t). goes k k' \<and> (C \<longrightarrow> stab Y k' (\<lambda>k. f k = t)))"

lemma evaluates_ceval: "okr strict (evaluates Y k f) r \<Longrightarrow> okr strict (ceval Y k f) r"
  by (erule okr_mono) (auto simp: evaluates_def ceval_def)

lemma ceval_after: "goes k k1 \<Longrightarrow> okr strict (ceval Y k1 f) r \<Longrightarrow> okr strict (ceval Y k f) r"
  by (erule okr_mono) (auto simp: ceval_def intro: goes_trans)

lemma ceval_cong:
  assumes "okr strict (ceval Y k f) r" "A k" "C \<Longrightarrow> stab Y k P"
    "\<And>k1 k2. A k1 \<Longrightarrow> frame UNIV k1 k2 \<Longrightarrow> C \<Longrightarrow> P k2 \<Longrightarrow> f k2 = g k2"
  shows "okr strict (ceval Y k g) r"
proof (rule okr_mono [OF assms(1)])
  fix x assume "ceval Y k f x"
  then obtain k1 t where x: "x = (k1, t)" and g: "goes k k1" and st: "C \<longrightarrow> stab Y k1 (\<lambda>k. f k = t)"
    by (auto simp: ceval_def)
  have "stab Y k1 (\<lambda>k. g k = t)" if C
  proof (rule stab_combine [of Y k1 P Y, simplified])
    show "stab Y k1 P" by (rule goes_stab [OF g assms(3) [OF that]])
    show "stab Y k1 (\<lambda>k. f k = t)" using st that by simp
    fix k2 assume "frame UNIV k1 k2" "P k2" "f k2 = t"
    with assms(4) [OF goes_A [OF g] _ that] show "g k2 = t" by simp
  qed
  with x g show "ceval Y k g x" by (simp add: ceval_def)
qed

definition default_val :: "kconf \<Rightarrow> tristate option" where
  "default_val k = map_option (\<lambda>i. eval_pexpr k (p_expr (sy_prop (obj k s) ! i))) (first_prop P_DEFAULT k s (prop_indices k s))"

lemma default_val_spec: "spec_default k s = (case default_val k of None \<Rightarrow> Tno | Some t \<Rightarrow> t)"
  by (simp add: default_val_def spec_default_def split: option.splits)

lemma default_arg_ok:
  assumes "A k" "val_fine Y" "\<not> (sym_is_choice (obj k0 s) \<and> tri_type (sy_type (obj k0 s)))"
    "i < length (sy_prop (obj k0 s))" "p_type (sy_prop (obj k0 s) ! i) = P_DEFAULT"
  shows "okr strict (evaluates Y k (\<lambda>k. eval_pexpr k (p_expr (sy_prop (obj k s) ! i)))) (pexpr_calc calc (p_expr (sy_prop (obj k s) ! i)) k)"
proof -
  note d = val_fine_deps [OF assms(2)]
  let ?e = "p_expr (sy_prop (obj k0 s) ! i)"
  have sub: "set (pexpr_syms ?e) \<subseteq> Y"
    using d(6) assms(3) prop_deps_nth [OF assms(4), where P = "\<lambda>p. p_type p = P_DEFAULT" and f = "\<lambda>p. pexpr_syms (p_expr p)"] assms(5)
    by (auto simp: arg_deps_def)
  have "strict \<longrightarrow> (case ?e of PE_EXPR e \<Rightarrow> expr_ok k0 e | _ \<Rightarrow> True)"
    using d(8) assms(4) by (auto simp: sym_fine_def sym_ok_def list_all_length prop_ok_def)
  then have "okr strict (evaluates (set (pexpr_syms ?e)) k (\<lambda>k. eval_pexpr k ?e)) (pexpr_calc calc ?e k)"
    using sub d(7) assms(1) by (intro pexpr_calc_ok) auto
  then have "okr strict (evaluates Y k (\<lambda>k. eval_pexpr k ?e)) (pexpr_calc calc ?e k)"
    using sub by (rule evaluates_mono)
  then show ?thesis
    unfolding A_prop(4) [OF assms(1,4)] by (rule evaluates_cong) (simp add: prop_vis_static(4) [OF _ _ assms(4)])
qed

lemma calc_default_ok:
  assumes "A k" "val_fine Y" "\<not> (sym_is_choice (obj k0 s) \<and> tri_type (sy_type (obj k0 s)))"
  shows "okr strict (evaluates Y k default_val) (calc_default calc s k)"
proof -
  have "okr strict (evaluates Y k (\<lambda>k. (\<lambda>k pr. map_option (\<lambda>i. eval_pexpr k (p_expr (sy_prop (obj k s) ! i))) pr) k
      (first_prop P_DEFAULT k s (prop_indices k s)))) (calc_default calc s k)"
    unfolding calc_default_def sym_get_default_prop_def
    using first_prop_ok [OF assms(1,2)]
  proof (rule evaluates_then, goal_cases)
    case 1 then show ?case by simp
  next
    case (2 k1 pr)
    show ?case
    proof (cases pr)
      case None then show ?thesis using goes_A [OF 2(1)] by (simp add: evaluates_const_pair)
    next
      case (Some i)
      have i: "i < length (sy_prop (obj k0 s))" "p_type (sy_prop (obj k0 s) ! i) = P_DEFAULT"
        using first_prop_bound [OF _ goes_A [OF 2(1)]] 2(2) Some by auto
      show ?thesis
        using evaluates_map [OF default_arg_ok [OF goes_A [OF 2(1)] assms(2,3) i], of Some] Some by simp
    qed
  qed
  then show ?thesis by (simp add: default_val_def [abs_def])
qed

lemma write_goes: "A k \<Longrightarrow> goes k (upd s (flag_on SYMBOL_WRITE) k)"
  by (rule goes_benign) auto

lemma wish_ok:
  assumes "A k" "val_fine Y"
  shows "okr strict (evaluates Y k (\<lambda>k. sym_wish k s))
     (if sym_has_value (obj k s) then Inr (k, v_tri (sy_user (obj k s)))
      else if \<not> sym_is_choice (obj k s)
      then rbind (calc_default calc s k) (\<lambda>(k2, d). Inr (k2, case d of None \<Rightarrow> Tno | Some t \<Rightarrow> t))
      else Inr (k, Tno))"
proof -
  let ?r = "if sym_has_value (obj k s) then Inr (k, v_tri (sy_user (obj k s)))
      else if \<not> sym_is_choice (obj k s)
      then rbind (calc_default calc s k) (\<lambda>(k2, d). Inr (k2, case d of None \<Rightarrow> Tno | Some t \<Rightarrow> t))
      else Inr (k, Tno)"
  define f where "f = (\<lambda>k. if sym_has_value (obj k0 s) then v_tri (sy_user (obj k0 s))
      else if sym_is_choice (obj k0 s) then Tno else case default_val k of None \<Rightarrow> Tno | Some t \<Rightarrow> t)"
  have "okr strict (evaluates Y k f) ?r"
    using evaluates_map [OF calc_default_ok [OF assms], of "\<lambda>d. case d of None \<Rightarrow> Tno | Some t \<Rightarrow> t"]
    by (auto simp: f_def A_fields(2,6,8) [OF assms(1)] evaluates_const_pair assms(1))
  then show ?thesis
    by (rule evaluates_cong) (auto simp: f_def sym_wish_def default_val_spec erase_cong(3,7,9) [OF frame_A])
qed

lemma visible_tristate_ok:
  assumes "A k" "val_fine Y" "C \<Longrightarrow> ready k \<and> \<not> spec_desel k s"
  shows "okr strict (ceval Y k (\<lambda>k. tri_or (tri_and (sym_wish k s) (spec_vis k s)) (spec_select k s)))
    (calc_visible_tristate calc s k)"
proof (rule ceval_after [OF write_goes [OF assms(1)]])
  let ?k = "upd s (flag_on SYMBOL_WRITE) k"
  have g: "goes k ?k" by (rule write_goes [OF assms(1)])
  have r: "ready ?k \<and> \<not> spec_desel ?k s" if C
  proof -
    have "spec_desel ?k s = spec_desel k s"
      using stab_now [OF goes_stab [OF g ready_desel [OF _ assms(2)]]] assms(3) [OF that] by simp
    then show ?thesis using assms(3) [OF that] ready_calm [OF _ goes_calm [OF g] assms(1) that] by simp
  qed
  show "okr strict (ceval Y ?k (\<lambda>k. tri_or (tri_and (sym_wish k s) (spec_vis k s)) (spec_select k s))) (calc_visible_tristate calc s k)"
    unfolding calc_visible_tristate_def Let_def
  proof (rule okr_bind [OF wish_ok [OF goes_A [OF g] assms(2)]], clarsimp simp: evaluates_def ceval_def)
    fix k3 t assume g3: "goes ?k k3" and st: "stab Y k3 (\<lambda>k. sym_wish k s = t)" and C
    note r = r [OF this(3)]
    have r3: "ready k3" using r ready_calm [OF _ goes_calm [OF g3] goes_A [OF g] \<open>C\<close>] by simp
    have d3: "\<not> spec_desel k3 s" using stab_now [OF goes_stab [OF g3 ready_desel [OF _ assms(2)]]] r by simp
    have "stab Y k3 (\<lambda>k. spec_vis k s = sy_visible (obj k3 s) \<and> spec_select k s = sy_rev_tri (obj k3 s))"
      by (rule stab_combine [of Y k3 _ Y, simplified, OF ready_vis [OF r3 assms(2)] ready_select [OF r3 assms(2) d3 goes_A [OF g3]]]) simp
    then show "stab Y k3 (\<lambda>k. tri_or (tri_and (sym_wish k s) (spec_vis k s)) (spec_select k s) =
         tri_or (tri_and t (sy_visible (obj k3 s))) (sy_rev_tri (obj k3 s)))"
      by (rule stab_combine [of Y k3 _ Y, simplified, OF st]) simp
  qed
qed

lemma hidden_tristate_ok:
  assumes "A k" "val_fine Y"
  shows "okr strict (evaluates Y k (\<lambda>k. if sym_is_choice (obj k s) then Tno else spec_default k s)) (calc_hidden_tristate calc s k)"
proof (cases "sym_is_choice (obj k0 s)")
  case True
  have "okr strict (evaluates Y k (\<lambda>k. if sym_is_choice (obj k s) then Tno else spec_default k s)) (Inr (k, Tno))"
    by (rule evaluates_cong [OF evaluates_const [OF assms(1)]]) (simp add: erase_cong(7) [OF frame_A] True)
  then show ?thesis by (simp add: calc_hidden_tristate_def A_fields(6) [OF assms(1)] True)
next
  case False
  have "okr strict (evaluates Y k (\<lambda>k. (\<lambda>k pr. case pr of None \<Rightarrow> Tno | Some i \<Rightarrow> eval_pexpr k (p_expr (sy_prop (obj k s) ! i))) k
      (first_prop P_DEFAULT k s (prop_indices k s)))) (calc_hidden_tristate calc s k)"
    unfolding calc_hidden_tristate_def sym_get_default_prop_def A_fields(6) [OF assms(1)] if_not_P [OF False]
    using first_prop_ok [OF assms]
  proof (rule evaluates_then, goal_cases)
    case 1 then show ?case by simp
  next
    case (2 k1 pr)
    show ?case
    proof (cases pr)
      case None then show ?thesis using goes_A [OF 2(1)] by (simp add: evaluates_const_pair)
    next
      case (Some i)
      have i: "i < length (sy_prop (obj k0 s))" "p_type (sy_prop (obj k0 s) ! i) = P_DEFAULT"
        using first_prop_bound [OF _ goes_A [OF 2(1)]] 2(2) Some by auto
      let ?k = "upd s (flag_on SYMBOL_WRITE) k1"
      have g: "goes k1 ?k" by (rule write_goes [OF goes_A [OF 2(1)]])
      have "okr strict (evaluates Y ?k (\<lambda>k. eval_pexpr k (p_expr (sy_prop (obj k s) ! i)))) (pexpr_calc calc (p_expr (sy_prop (obj ?k s) ! i)) ?k)"
        using False i by (intro default_arg_ok [OF goes_A [OF g] assms(2)]) auto
      then have "okr strict (evaluates Y k1 (\<lambda>k. eval_pexpr k (p_expr (sy_prop (obj k s) ! i)))) (pexpr_calc calc (p_expr (sy_prop (obj ?k s) ! i)) ?k)"
        by (rule okr_mono) (auto simp: evaluates_def intro: goes_trans [OF g])
      moreover have "p_expr (sy_prop (obj ?k s) ! i) = p_expr (sy_prop (obj k1 s) ! i)"
        using A_prop(4) [OF goes_A [OF g] i(1)] A_prop(4) [OF goes_A [OF 2(1)] i(1)] by simp
      ultimately show ?thesis using Some by simp
    qed
  qed
  then show ?thesis
    by (rule evaluates_cong) (auto simp: spec_default_def erase_cong(7) [OF frame_A] False)
qed

definition free_calc :: "kconf \<Rightarrow> kerr + (kconf \<times> tristate)" where
  "free_calc k = rbind (sym_deselected calc s k) (\<lambda>(k1, deselected).
     if deselected then Inr (k1, Tno)
     else if tri_or (sy_visible (obj k1 s)) (sy_rev_tri (obj k1 s)) \<noteq> Tno
     then calc_visible_tristate calc s k1
     else calc_hidden_tristate calc s k1)"

lemma free_calc_ok:
  assumes "A k" "val_fine Y" "C \<Longrightarrow> ready k"
  shows "okr strict (ceval Y k (\<lambda>k. spec_free k s)) (free_calc k)"
proof -
  note d = val_fine_deps [OF assms(2)]
  have "okr strict (evaluates Y k (\<lambda>k. spec_desel k s)) (sym_deselected calc s k)"
    using d(1,7,8) assms(1) by (intro deselected_ok) (auto simp: vis_deps_def sym_fine_def sym_ok_def)
  then show ?thesis
    unfolding free_calc_def
  proof (rule okr_bind, clarsimp simp only: evaluates_def prod.case)
    fix k1 b assume g: "goes k k1" and sd: "stab Y k1 (\<lambda>k. spec_desel k s = b)"
    have A1: "A k1" by (rule goes_A [OF g])
    have r1: "ready k1" if C using ready_calm [OF assms(3) [OF that] goes_calm [OF g] assms(1) that] .
    let ?v = "tri_or (sy_visible (obj k1 s)) (sy_rev_tri (obj k1 s))"
    have "okr strict (ceval Y k1 (\<lambda>k. spec_free k s))
      (if b then Inr (k1, Tno) else if ?v \<noteq> Tno then calc_visible_tristate calc s k1 else calc_hidden_tristate calc s k1)"
    proof (cases b)
      case True
      have "stab Y k1 (\<lambda>k. spec_free k s = Tno)" by (rule stab_weaken [OF sd]) (simp add: spec_free_def True)
      then show ?thesis using True A1 by (simp add: ceval_def goes_refl)
    next
      case False
      have nd: "\<not> spec_desel k1 s" using stab_now [OF sd] False by simp
      have st: "stab Y k1 (\<lambda>k. \<not> spec_desel k s \<and> tri_or (spec_vis k s) (spec_select k s) = ?v)" if C
        by (rule stab_combine [of Y k1 _ Y, simplified, OF sd
            stab_combine [of Y k1 _ Y, simplified, OF ready_vis [OF r1 [OF that] assms(2)] ready_select [OF r1 [OF that] assms(2) nd A1],
              of "\<lambda>k. tri_or (spec_vis k s) (spec_select k s) = ?v"]]) (simp_all add: False)
      show ?thesis
      proof (cases "?v = Tno")
        case True
        have "okr strict (ceval Y k1 (\<lambda>k. spec_free k s)) (calc_hidden_tristate calc s k1)"
          by (rule ceval_cong [OF evaluates_ceval [OF hidden_tristate_ok [OF A1 assms(2)]] A1 st]) (auto simp: spec_free_def True)
        then show ?thesis using False True by simp
      next
        case v: False
        have "okr strict (ceval Y k1 (\<lambda>k. spec_free k s)) (calc_visible_tristate calc s k1)"
          by (rule ceval_cong [OF visible_tristate_ok [OF A1 assms(2)] A1 st]) (use r1 nd v in \<open>auto simp: spec_free_def\<close>)
        then show ?thesis using False v by simp
      qed
    qed
    then show "okr strict (ceval Y k (\<lambda>k. spec_free k s))
      (if b then Inr (k1, Tno) else if ?v \<noteq> Tno then calc_visible_tristate calc s k1 else calc_hidden_tristate calc s k1)"
      by (rule ceval_after [OF g])
  qed
qed

lemma picked_ok:
  assumes "A k" "val_fine Y" "C \<Longrightarrow> ready k" "sym_is_choice_value (obj k0 s)" "sy_visible (obj k s) = Tyes"
  shows "okr strict (ceval Y k (\<lambda>k. spec_tri k s))
    (rbind (choice_of (obj k s)) (\<lambda>cs. Inr (k, if v_val (sy_curr (obj k cs)) = V_sym s then Tyes else Tno)))"
proof (cases "choice_of (obj k0 s)")
  case (Inl e)
  moreover have "\<not> strict"
    using Inl choice_of_err [OF Inl] val_fine_deps(8) [OF assms(2)] assms(4) by (auto simp: sym_fine_def sym_ok_def)
  ultimately show ?thesis using choice_of_err [OF Inl] by (simp add: A_fields(10) [OF assms(1)])
next
  case (Inr cs)
  have link: "choice_link (obj k0 s) = [cs]" by (rule choice_link_mem [OF assms(4) Inr])
  have "stab Y k (\<lambda>k'. spec_tri k' s = (if v_val (sy_curr (obj k cs)) = V_sym s then Tyes else Tno))" if c: C
  proof (rule stab_combine [of Y k _ Y, simplified])
    show "stab Y k (\<lambda>k'. spec_vis k' s = Tyes)" using ready_vis [OF assms(3) [OF c] assms(2)] assms(5) by simp
    have "valid k cs" using c assms(3) [OF c] link assms(4) by (auto simp: C_def ready_def seen_def)
    moreover have "cs \<in> Y"
      using link val_deps_parts(6) [of "obj k0 s"] assms(2) by (auto simp: val_fine_def)
    ultimately show "stab Y k (\<lambda>k'. sy_curr (obj k' cs) = sy_curr (obj k cs))"
      by (intro stab_mono [OF stab_curr]) auto
    fix k' assume f: "frame UNIV k k'" and "spec_vis k' s = Tyes" "sy_curr (obj k' cs) = sy_curr (obj k cs)"
    moreover have "sym_is_choice_value (obj k' s)" "choice_of (obj k' s) = Inr cs"
      using erase_cong(8,11) [OF frame_A [OF assms(1) f]] assms(4) Inr by simp_all
    ultimately show "spec_tri k' s = (if v_val (sy_curr (obj k cs)) = V_sym s then Tyes else Tno)"
      by (simp add: spec_tri_def picked_by_choice_def choice_picks_def)
  qed
  then show ?thesis
    using Inr goes_refl [OF assms(1)] by (simp add: A_fields(10) [OF assms(1)] ceval_def)
qed

lemma calc_tristate_ok:
  assumes "A k" "val_fine Y" "C \<Longrightarrow> ready k"
  shows "okr strict (ceval Y k (\<lambda>k. spec_tri k s)) (calc_tristate calc s k)"
proof (cases "sym_is_choice_value (obj k0 s) \<and> sy_visible (obj k s) = Tyes")
  case True
  then have "calc_tristate calc s k = rbind (choice_of (obj k s)) (\<lambda>cs. Inr (k, if v_val (sy_curr (obj k cs)) = V_sym s then Tyes else Tno))"
    by (cases "choice_of (obj k s)") (simp_all add: calc_tristate_def A_fields(7) [OF assms(1)])
  then show ?thesis using picked_ok [OF assms] True by simp
next
  case False
  then have e: "calc_tristate calc s k = rbind (free_calc k) (\<lambda>(k2, t). Inr (k2, if t = Tmod \<and> sym_get_type (obj k2 s) = S_BOOLEAN then Tyes else t))"
    by (auto simp: calc_tristate_def free_calc_def A_fields(7) [OF assms(1)])
  show ?thesis
    unfolding e
  proof (rule okr_bind [OF free_calc_ok [OF assms]])
    fix x assume "ceval Y k (\<lambda>k. spec_free k s) x"
    then obtain k2 t where x: "x = (k2, t)" and g: "goes k k2" and st: "C \<longrightarrow> stab Y k2 (\<lambda>k. spec_free k s = t)"
      by (auto simp: ceval_def)
    have "stab Y k2 (\<lambda>k. spec_tri k s = (if t = Tmod \<and> sym_get_type (obj k2 s) = S_BOOLEAN then Tyes else t))" if c: C
    proof -
    have vis: "stab Y k2 (\<lambda>k'. spec_vis k' s = sy_visible (obj k s))"
      by (rule goes_stab [OF g ready_vis [OF assms(3) [OF c] assms(2)]])
    have "sy_visible (obj k2 s) = sy_visible (obj k s)"
      using stab_now [OF ready_vis [OF ready_calm [OF assms(3) [OF c] goes_calm [OF g] assms(1) c] assms(2)]] stab_now [OF vis] by simp
    then have ty: "sym_get_type (obj k2 s) = sy_type (obj k0 s)"
      using False A_fields(1,7) [OF goes_A [OF g], of s] by (auto simp: sym_get_type_def)
    show ?thesis
    proof (rule stab_combine [of Y k2 _ Y, simplified, OF vis st [rule_format, OF c]])
      fix k' assume f: "frame UNIV k2 k'" and "spec_vis k' s = sy_visible (obj k s)" "spec_free k' s = t"
      with False show "spec_tri k' s = (if t = Tmod \<and> sym_get_type (obj k2 s) = S_BOOLEAN then Tyes else t)"
        using erase_cong(2,8) [OF frame_A [OF goes_A [OF g] f]]
        by (auto simp: spec_tri_def picked_by_choice_def raise_def ty)
    qed
    qed
    then show "okr strict (ceval Y k (\<lambda>k. spec_tri k s))
       (case x of (k2, t) \<Rightarrow> Inr (k2, if t = Tmod \<and> sym_get_type (obj k2 s) = S_BOOLEAN then Tyes else t))"
      using g by (simp add: x ceval_def)
  qed
qed

end

end
