(* ===== verification/Kconfig_Text.thy ===== *)
theory Kconfig_Text
  imports Kconfig_Value
begin

text \<open>
  The text of a string, decimal or hexadecimal symbol inside an activation, and the range
  it is clamped to.
\<close>

context calc_context
begin

lemma textof_text: "is_text v \<Longrightarrow> symval_string v = Inr (textof v)"
  by (auto simp: is_text_def textof_def split: sum.splits)

lemma not_text: "\<not> is_text v \<Longrightarrow> symval_string v = Inl Bad_pointer"
  by (cases v) (auto simp: is_text_def)

lemma text_call_ok:
  assumes "A k" "d \<in> Y" "Y \<subseteq> L" "strict \<longrightarrow> stringy (obj k0 d)"
  shows "okr strict (\<lambda>k'. goes k k' \<and> valid k' d \<and> stab Y k' (\<lambda>k''. sy_curr (obj k'' d) = sy_curr (obj k' d)) \<and>
     (strict \<longrightarrow> is_text (v_val (sy_curr (obj k' d))))) (calc k d)"
proof -
  have "okr strict (\<lambda>k'. goes k k' \<and> valid k' d) (calc k d)" using assms by (intro call_ok) auto
  then show ?thesis
  proof (rule okr_mono, elim conjE, intro conjI)
    fix k' assume g: "goes k k'" and v: "valid k' d"
    show "stab Y k' (\<lambda>k''. sy_curr (obj k'' d) = sy_curr (obj k' d))"
      using stab_curr [OF v] assms(2) by (auto intro: stab_mono)
    show "strict \<longrightarrow> is_text (v_val (sy_curr (obj k' d)))"
      using text_ok [of k' d] goes_A [OF g] assms v by (auto simp: A_def)
  qed
qed

definition text_eval :: "sym set \<Rightarrow> kconf \<Rightarrow> kconf \<times> symval \<Rightarrow> bool" where
  "text_eval Y k = (\<lambda>(k', v). goes k k' \<and> (strict \<longrightarrow> is_text v) \<and> (C \<longrightarrow> stab Y k' (\<lambda>k. spec_text k s = textof v)))"

definition default_text :: "kconf \<Rightarrow> kconf \<times> nat option \<Rightarrow> kerr + (kconf \<times> symval)" where
  "default_text k = (\<lambda>(k2, pr). case pr of
        None \<Rightarrow> Inr (k2, V_lit '''')
      | Some i \<Rightarrow> (case prop_get_symbol (sy_prop (obj k2 s) ! i) of
          None \<Rightarrow> Inr (k2, V_lit '''')
        | Some ds \<Rightarrow> rbind (calc (upd s (flag_on SYMBOL_WRITE) k2) ds)
            (\<lambda>k3. Inr (k3, v_val (sy_curr (obj k3 ds))))))"

lemma default_text_ok:
  assumes "A k" "val_fine Y" "text_type (sy_type (obj k0 s))" "sy_type (obj k0 s) = ty"
    and nouser: "C \<Longrightarrow> stab Y k (\<lambda>k. \<not> (spec_vis k s \<noteq> Tno \<and> sym_has_value (obj k s)))"
    and pr: "stab Y k (\<lambda>k. first_prop P_DEFAULT k s (prop_indices k s) = pr)"
  shows "okr strict (text_eval Y k) (default_text k (k, pr))"
proof -
  note d = val_fine_deps [OF assms(2)]
  have nt: "\<not> tri_type (sy_type (obj k0 s))" using assms(3) by (auto simp: text_type_def tri_type_def)
  have empty: "text_eval Y k (k, V_lit [])"
    if "\<And>k'. frame UNIV k k' \<Longrightarrow> first_prop P_DEFAULT k' s (prop_indices k' s) = pr \<Longrightarrow>
          (case pr of None \<Rightarrow> True | Some i \<Rightarrow> prop_get_symbol (sy_prop (obj k' s) ! i) = None)"
  proof -
    have "stab Y k (\<lambda>k. spec_text k s = [])" if C
      by (rule stab_combine [of Y k _ Y, simplified, OF nouser [OF that] pr])
         (use \<open>\<And>k'. frame UNIV k k' \<Longrightarrow> first_prop P_DEFAULT k' s (prop_indices k' s) = pr \<Longrightarrow> _\<close> in
           \<open>auto simp: spec_text_def split: option.splits\<close>)
    then show ?thesis using goes_refl [OF assms(1)] by (simp add: text_eval_def is_text_def textof_def)
  qed
  show ?thesis
  proof (cases pr)
    case None then show ?thesis using empty by (simp add: default_text_def)
  next
    case (Some i)
    have i: "i < length (sy_prop (obj k0 s))" "p_type (sy_prop (obj k0 s) ! i) = P_DEFAULT"
      using first_prop_bound [OF pr [unfolded Some] assms(1)] by auto
    have sym: "prop_get_symbol (sy_prop (obj k' s) ! i) = prop_get_symbol (sy_prop (obj k0 s) ! i)" if "frame UNIV k k'" for k'
      by (rule prop_get_symbol_cong [OF prop_vis_static(4) [OF assms(1) that i(1)]])
    show ?thesis
    proof (cases "prop_get_symbol (sy_prop (obj k0 s) ! i)")
      case None then show ?thesis using empty sym Some sym [OF frame_refl] by (simp add: default_text_def)
    next
      case (Some ds)
      have "set (pexpr_syms (p_expr (sy_prop (obj k0 s) ! i))) \<subseteq> set (arg_deps P_DEFAULT (obj k0 s))"
        unfolding arg_deps_def by (rule prop_deps_nth [where f = "\<lambda>p. pexpr_syms (p_expr p)"]) (use i in auto)
      then have dsY: "ds \<in> Y"
        using Some d(6) nt by (auto simp: prop_get_symbol_def split: pexpr.splits expr.splits)
      have str: "strict \<longrightarrow> stringy (obj k0 ds)"
        using d(8) i Some assms(3) by (auto simp: sym_fine_def sym_ok_def list_all_length prop_ok_def)
      let ?k = "upd s (flag_on SYMBOL_WRITE) k"
      have g: "goes k ?k" by (rule write_goes [OF assms(1)])
      have "okr strict (text_eval Y k) (rbind (calc ?k ds) (\<lambda>k3. Inr (k3, v_val (sy_curr (obj k3 ds)))))"
      proof (rule okr_bind [OF text_call_ok [OF goes_A [OF g] dsY d(7) str]], elim conjE)
        fix k3 assume g3: "goes ?k k3" and st: "stab Y k3 (\<lambda>k''. sy_curr (obj k'' ds) = sy_curr (obj k3 ds))"
          and it: "strict \<longrightarrow> is_text (v_val (sy_curr (obj k3 ds)))"
        have gk: "goes k k3" by (rule goes_trans [OF g g3])
        have "stab Y k3 (\<lambda>k. spec_text k s = textof (v_val (sy_curr (obj k3 ds))))" if C
        proof (rule stab_combine [of Y k3 _ Y, simplified, OF
              stab_combine [of Y k3 _ Y "\<lambda>k. first_prop P_DEFAULT k s (prop_indices k s) = pr", simplified,
                OF goes_stab [OF gk nouser [OF that]] goes_stab [OF gk pr]] st])
          fix k'
          assume f: "frame UNIV k3 k'" and *: "\<not> (spec_vis k' s \<noteq> Tno \<and> sym_has_value (obj k' s)) \<and>
              first_prop P_DEFAULT k' s (prop_indices k' s) = pr" "sy_curr (obj k' ds) = sy_curr (obj k3 ds)"
          have "frame UNIV k k'" using frame_trans [OF goes_frame [OF gk] f] .
          with * sym Some \<open>pr = Some i\<close> show "spec_text k' s = textof (v_val (sy_curr (obj k3 ds)))"
            by (auto simp: spec_text_def val_text_def)
        qed simp
        with gk it show "okr strict (text_eval Y k) (Inr (k3, v_val (sy_curr (obj k3 ds))))"
          by (simp add: text_eval_def)
      qed
      then show ?thesis using Some \<open>pr = Some i\<close> sym [OF frame_refl] by (simp add: default_text_def)
    qed
  qed
qed

lemma calc_string_ok:
  assumes "A k" "val_fine Y" "C \<Longrightarrow> ready k" "text_type (sy_type (obj k0 s))"
  shows "okr strict (text_eval Y k) (calc_string calc s k)"
proof -
  let ?vis = "sy_visible (obj k s) \<noteq> Tno"
  define k1 where "k1 = (if ?vis then upd s (flag_on SYMBOL_WRITE) k else k)"
  have g: "goes k k1" using write_goes [OF assms(1)] goes_refl [OF assms(1)] by (simp add: k1_def)
  have sv: "stab Y k1 (\<lambda>k'. spec_vis k' s = sy_visible (obj k s))" if C
    by (rule goes_stab [OF g ready_vis [OF assms(3) [OF that] assms(2)]])
  have hv: "sym_has_value (obj k1 s) = sym_has_value (obj k0 s)" by (rule A_fields(8) [OF goes_A [OF g]])
  have us: "sy_user (obj k1 s) = sy_user (obj k0 s)" by (rule A_fields(2) [OF goes_A [OF g]])
  show ?thesis
  proof (cases "?vis \<and> sym_has_value (obj k0 s)")
    case True
    have "stab Y k1 (\<lambda>k. spec_text k s = textof (v_val (sy_user (obj k0 s))))" if C
      by (rule stab_weaken [OF sv [OF that]])
         (use True in \<open>simp add: spec_text_def erase_cong(3,9) [OF frame_A [OF goes_A [OF g]]]\<close>)
    moreover have "strict \<longrightarrow> is_text (v_val (sy_user (obj k0 s)))"
      using val_fine_deps(8) [OF assms(2)] True assms(4) by (auto simp: sym_fine_def sym_ok_def)
    moreover have "calc_string calc s k = Inr (k1, v_val (sy_user (obj k0 s)))"
      using True hv us by (simp add: calc_string_def k1_def Let_def)
    ultimately show ?thesis using g by (simp add: text_eval_def)
  next
    case False
    have e: "calc_string calc s k = rbind (sym_get_default_prop calc s k1) (\<lambda>(k2, pr). default_text k2 (k2, pr))"
      using False hv by (auto simp: calc_string_def k1_def Let_def default_text_def)
    have nouser: "stab Y k1 (\<lambda>k. \<not> (spec_vis k s \<noteq> Tno \<and> sym_has_value (obj k s)))" if C
      by (rule stab_weaken [OF sv [OF that]])
         (use False in \<open>auto simp: erase_cong(9) [OF frame_A [OF goes_A [OF g]]]\<close>)
    show ?thesis
      unfolding e sym_get_default_prop_def
    proof (rule okr_bind [OF first_prop_ok [OF goes_A [OF g] assms(2)]], simp, clarsimp simp only: evaluates_def prod.case)
      fix k2 pr assume g2: "goes k1 k2" and pr: "stab Y k2 (\<lambda>k. first_prop P_DEFAULT k s (prop_indices k s) = pr)"
      have "okr strict (text_eval Y k2) (default_text k2 (k2, pr))"
        by (rule default_text_ok [OF goes_A [OF g2] assms(2,4) refl goes_stab [OF g2 nouser] pr])
      then show "okr strict (text_eval Y k) (default_text k2 (k2, pr))"
        by (rule okr_mono) (auto simp: text_eval_def intro: goes_trans [OF goes_trans [OF g g2]])
    qed
  qed
qed

lemma range_val_ok:
  assumes "A k" "d \<in> Y" "Y \<subseteq> L" "strict \<longrightarrow> stringy (obj k0 d)"
  shows "okr strict (evaluates Y k (\<lambda>k. val_number k d base)) (sym_get_range_val calc d base k)"
  unfolding sym_get_range_val_def
proof (rule okr_bind [OF text_call_ok [OF assms]], elim conjE)
  fix k1 assume g: "goes k k1" and st: "stab Y k1 (\<lambda>k''. sy_curr (obj k'' d) = sy_curr (obj k1 d))"
    and it: "strict \<longrightarrow> is_text (v_val (sy_curr (obj k1 d)))"
  let ?v = "v_val (sy_curr (obj k1 d))"
  have "stab Y k1 (\<lambda>k. val_number k d base = to_int (strtol (textof ?v) (type_base (sy_type (obj k1 d)) base)))"
    using st by (rule stab_weaken) (simp add: val_number_def val_text_def frame_fields(2))
  then show "okr strict (evaluates Y k (\<lambda>k. val_number k d base))
     (rbind (symval_string ?v) (\<lambda>str. Inr (k1, to_int (strtol str (type_base (sy_type (obj k1 d)) base)))))"
    using g it by (cases "is_text ?v") (simp_all add: evaluates_def textof_text not_text)
qed

definition clamped :: "sym set \<Rightarrow> kconf \<Rightarrow> kconf \<Rightarrow> bool" where
  "clamped Y k k' \<longleftrightarrow> calm k k' \<and> v_tri (sy_curr (obj k' s)) = v_tri (sy_curr (obj k s)) \<and>
     (strict \<longrightarrow> is_text (v_val (sy_curr (obj k' s)))) \<and>
     (C \<longrightarrow> stab Y k' (\<lambda>k2. clamp_text k2 s (textof (v_val (sy_curr (obj k s)))) = textof (v_val (sy_curr (obj k' s)))))"

lemma goes_curr: "goes k k' \<Longrightarrow> A k \<Longrightarrow> sy_curr (obj k' s) = sy_curr (obj k s)"
  by (rule frame_curr [OF goes_frame [of k k' "{}"] A_valid]) simp_all

lemma clamped_same:
  assumes "goes k k'" "A k" "strict \<longrightarrow> is_text (v_val (sy_curr (obj k s)))"
    "C \<Longrightarrow> stab Y k' (\<lambda>k2. clamp_text k2 s (textof (v_val (sy_curr (obj k s)))) = textof (v_val (sy_curr (obj k s))))"
  shows "clamped Y k k'"
  using assms goes_calm [OF assms(1)] goes_curr [OF assms(1,2)] by (simp add: clamped_def)

lemma clamped_set:
  assumes "goes k k1" "A k" "C \<Longrightarrow> s \<notin> Y"
    "C \<Longrightarrow> stab Y k1 (\<lambda>k2. clamp_text k2 s (textof (v_val (sy_curr (obj k s)))) =
       (if sy_type (obj k0 s) = S_INT then print_int v else print_hex v))"
  shows "clamped Y k (set_range_string s v k1)"
proof -
  let ?k = "set_range_string s v k1"
  have c: "calm k1 ?k"
    unfolding set_range_string_def Let_def calm_heap by (rule calm_curr [OF goes_A [OF assms(1)]]) rule
  have v: "sy_curr (obj ?k s) = (sy_curr (obj k1 s))\<lparr>v_val := V_heap (k_heap k1)
      (if sy_type (obj k0 s) = S_INT then print_int v else print_hex v)\<rparr>"
    by (simp add: set_range_string_def Let_def obj_upd A_fields(1) [OF goes_A [OF assms(1)]])
  show ?thesis
    unfolding clamped_def
    using calm_trans [OF goes_calm [OF assms(1)] c] goes_curr [OF assms(1,2)] stab_calm [OF assms(4) c assms(3)]
    by (auto simp: v is_text_def textof_def)
qed

lemma validate_range_ok:
  assumes "A k" "val_fine Y" "C \<Longrightarrow> s \<notin> Y" "strict \<longrightarrow> is_text (v_val (sy_curr (obj k s)))"
  shows "okr strict (clamped Y k) (sym_validate_range calc s k)"
proof (cases "sy_type (obj k0 s) = S_INT \<or> sy_type (obj k0 s) = S_HEX")
  case False
  have "clamped Y k k"
    using assms False
    by (intro clamped_same goes_refl stab_static) (auto simp: clamp_text_def Let_def erase_cong(2) [OF frame_A])
  with False show ?thesis by (auto simp: sym_validate_range_def A_fields(1) [OF assms(1)])
next
  case True
  note d = val_fine_deps [OF assms(2)]
  let ?ty = "sy_type (obj k0 s)" and ?v = "v_val (sy_curr (obj k s))"
  let ?base = "type_base ?ty 10" let ?val = "to_int (strtol (textof ?v) ?base)"
  let ?pr = "\<lambda>v. if ?ty = S_INT then print_int v else print_hex v"
  have e: "sym_validate_range calc s k =
     rbind (sym_get_range_prop calc s k) (\<lambda>(k1, pr). case pr of None \<Rightarrow> Inr k1 | Some i \<Rightarrow>
        rbind (symval_string (v_val (sy_curr (obj k1 s)))) (\<lambda>str.
        rbind (range_of (sy_prop (obj k1 s) ! i)) (\<lambda>(l, r).
        rbind (sym_get_range_val calc l ?base k1) (\<lambda>(k2, val2).
        if val2 \<le> to_int (strtol str ?base) then
          rbind (sym_get_range_val calc r ?base k2) (\<lambda>(k3, val3).
          if to_int (strtol str ?base) \<le> val3 then Inr k3 else Inr (set_range_string s val3 k3))
        else Inr (set_range_string s val2 k2)))))"
    using True by (auto simp: sym_validate_range_def A_fields(1) [OF assms(1)] Let_def)
  show ?thesis
    unfolding e sym_get_range_prop_def
  proof (rule okr_bind [OF first_prop_ok [OF assms(1,2)]], simp, clarsimp simp only: evaluates_def prod.case)
    fix k1 pr assume g: "goes k k1" and pr: "stab Y k1 (\<lambda>k. first_prop P_RANGE k s (prop_indices k s) = pr)"
    have A1: "A k1" by (rule goes_A [OF g])
    have ty: "sy_type (obj k' s) = ?ty" if "frame UNIV k1 k'" for k' using erase_cong(2) [OF frame_A [OF A1 that]] .
    have cu: "sy_curr (obj k1 s) = sy_curr (obj k s)" by (rule goes_curr [OF g assms(1)])
    show "okr strict (clamped Y k) (case pr of None \<Rightarrow> Inr k1 | Some i \<Rightarrow>
        rbind (symval_string (v_val (sy_curr (obj k1 s)))) (\<lambda>str.
        rbind (range_of (sy_prop (obj k1 s) ! i)) (\<lambda>(l, r).
        rbind (sym_get_range_val calc l ?base k1) (\<lambda>(k2, val2).
        if val2 \<le> to_int (strtol str ?base) then
          rbind (sym_get_range_val calc r ?base k2) (\<lambda>(k3, val3).
          if to_int (strtol str ?base) \<le> val3 then Inr k3 else Inr (set_range_string s val3 k3))
        else Inr (set_range_string s val2 k2)))))"
    proof (cases pr)
      case None
      have "clamped Y k k1"
        by (rule clamped_same [OF g assms(1,4)], rule stab_weaken [OF pr]) (auto simp: clamp_text_def Let_def ty None)
      with None show ?thesis by simp
    next
      case (Some i)
      have i: "i < length (sy_prop (obj k0 s))" "p_type (sy_prop (obj k0 s) ! i) = P_RANGE"
        using first_prop_bound [OF pr [unfolded Some] A1] by auto
      have ex: "p_expr (sy_prop (obj k' s) ! i) = p_expr (sy_prop (obj k0 s) ! i)" if "frame UNIV k1 k'" for k'
        by (rule prop_vis_static(4) [OF A1 that i(1)])
      have err: "okr strict (clamped Y k) (Inl Bad_pointer)" if "\<not> strict" using that by simp
      show ?thesis
      proof (cases "\<exists>l r. p_expr (sy_prop (obj k0 s) ! i) = PE_RANGE l r")
        case False
        have "strict \<longrightarrow> prop_ok k0 (obj k0 s) (sy_prop (obj k0 s) ! i)"
          using d(8) i(1) by (auto simp: sym_fine_def sym_ok_def list_all_length)
        then have "\<not> strict" using False i(2) by (cases "p_expr (sy_prop (obj k0 s) ! i)") (auto simp: prop_ok_def)
        moreover have "range_of (sy_prop (obj k1 s) ! i) = Inl Bad_pointer"
          using False ex [OF frame_refl] by (auto simp: range_of_def split: pexpr.splits)
        ultimately show ?thesis
          using Some by (cases "symval_string ?v") (auto simp: cu dest: symval_string_err)
      next
        case True
        then obtain l r where lr: "p_expr (sy_prop (obj k0 s) ! i) = PE_RANGE l r" by blast
        have "set (pexpr_syms (p_expr (sy_prop (obj k0 s) ! i))) \<subseteq> set (arg_deps P_RANGE (obj k0 s))"
          unfolding arg_deps_def by (rule prop_deps_nth [where f = "\<lambda>p. pexpr_syms (p_expr p)"]) (use i in auto)
        then have lrY: "l \<in> Y" "r \<in> Y" using d(5) lr by auto
        have str: "strict \<longrightarrow> stringy (obj k0 l)" "strict \<longrightarrow> stringy (obj k0 r)"
          using d(8) i lr by (auto simp: sym_fine_def sym_ok_def list_all_length prop_ok_def)
        have clamp: "stab Y k' (\<lambda>k2. clamp_text k2 s (textof ?v) =
            (if ?val < val_number k2 l ?base then ?pr (val_number k2 l ?base)
             else if val_number k2 r ?base < ?val then ?pr (val_number k2 r ?base) else textof ?v))" if "goes k1 k'" for k'
        proof (rule goes_stab [OF that], rule stab_weaken [OF pr])
          fix k2 assume "frame UNIV k1 k2" "first_prop P_RANGE k2 s (prop_indices k2 s) = pr"
          then show "clamp_text k2 s (textof ?v) =
            (if ?val < val_number k2 l ?base then ?pr (val_number k2 l ?base)
             else if val_number k2 r ?base < ?val then ?pr (val_number k2 r ?base) else textof ?v)"
            using \<open>?ty = S_INT \<or> ?ty = S_HEX\<close> by (auto simp: clamp_text_def Let_def ty ex lr Some)
        qed
        have body: "okr strict (clamped Y k)
         (rbind (sym_get_range_val calc l ?base k1) (\<lambda>(k2, val2).
            if val2 \<le> ?val then
              rbind (sym_get_range_val calc r ?base k2) (\<lambda>(k3, val3).
              if ?val \<le> val3 then Inr k3 else Inr (set_range_string s val3 k3))
            else Inr (set_range_string s val2 k2)))"
        proof (rule okr_bind [OF range_val_ok [OF A1 lrY(1) d(7) str(1)]], clarsimp simp only: evaluates_def prod.case)
          fix k2 lo assume g2: "goes k1 k2" and lo: "stab Y k2 (\<lambda>k. val_number k l ?base = lo)"
          have gk2: "goes k k2" by (rule goes_trans [OF g g2])
          have "clamped Y k (set_range_string s lo k2)" if "\<not> lo \<le> ?val"
            by (rule clamped_set [OF gk2 assms(1,3)], assumption,
                rule stab_combine [of Y k2 _ Y, simplified, OF clamp [OF g2] lo]) (use that in auto)
          moreover have "okr strict (clamped Y k) (rbind (sym_get_range_val calc r ?base k2) (\<lambda>(k3, val3).
              if ?val \<le> val3 then Inr k3 else Inr (set_range_string s val3 k3)))" if le: "lo \<le> ?val"
          proof (rule okr_bind [OF range_val_ok [OF goes_A [OF g2] lrY(2) d(7) str(2)]], clarsimp simp only: evaluates_def prod.case)
            fix k3 hi assume g3: "goes k2 k3" and hi: "stab Y k3 (\<lambda>k. val_number k r ?base = hi)"
            have gk3: "goes k k3" by (rule goes_trans [OF gk2 g3])
            have lohi: "stab Y k3 (\<lambda>k. val_number k l ?base = lo \<and> val_number k r ?base = hi)"
              by (rule stab_combine [of Y k3 _ Y, simplified, OF goes_stab [OF g3 lo] hi]) simp
            have "clamped Y k k3" if "?val \<le> hi"
              by (rule clamped_same [OF gk3 assms(1,4)],
                  rule stab_combine [of Y k3 _ Y, simplified, OF clamp [OF goes_trans [OF g2 g3]] lohi]) (use that le in auto)
            moreover have "clamped Y k (set_range_string s hi k3)" if "\<not> ?val \<le> hi"
              by (rule clamped_set [OF gk3 assms(1,3)], assumption,
                  rule stab_combine [of Y k3 _ Y, simplified, OF clamp [OF goes_trans [OF g2 g3]] lohi]) (use that le in auto)
            ultimately show "okr strict (clamped Y k) (if ?val \<le> hi then Inr k3 else Inr (set_range_string s hi k3))" by simp
          qed
          ultimately show "okr strict (clamped Y k) (if lo \<le> ?val then
              rbind (sym_get_range_val calc r ?base k2) (\<lambda>(k3, val3).
              if ?val \<le> val3 then Inr k3 else Inr (set_range_string s val3 k3))
            else Inr (set_range_string s lo k2))" by simp
        qed
        have ro: "range_of (sy_prop (obj k1 s) ! i) = Inr (l, r)" using ex [OF frame_refl] lr by (simp add: range_of_def)
        show ?thesis
        proof (cases "is_text ?v")
          case True then show ?thesis using body by (simp add: Some cu textof_text ro)
        next
          case False
          then have "symval_string ?v = Inl Bad_pointer" "\<not> strict" using assms(4) by (simp_all add: not_text)
          then show ?thesis by (simp add: Some cu)
        qed
      qed
    qed
  qed
qed

end

end
