(* ===== verification/Kconfig_Body.thy ===== *)
theory Kconfig_Body
  imports Kconfig_Text
begin

text \<open>One activation of \<open>sym_calc_value\<close> as a whole.\<close>

text \<open>All symbols whose values the value of a symbol may depend on; those of a choice include the choice.\<close>

definition deps_of :: "kconf \<Rightarrow> sym \<Rightarrow> sym set" where
  "deps_of k s = set (val_deps (obj k s)) \<union>
     (if sym_is_choice (obj k s) \<and> tri_type (sy_type (obj k s)) then set (cand_deps k (obj k s)) else {})"

lemma choice_on_frame:
  assumes "frame X k2 k3" "s \<notin> X" "frame {s} k1 k2" "sy_curr (obj k1 s) = symbol_no_curr\<lparr>v_tri := Tyes\<rparr>"
  shows "frame X k1 (choice_on s k3)"
proof -
  have "erase (obj (choice_on s k3) t) = erase (obj k3 t)" "valid (choice_on s k3) t = valid k3 t" for t
    by (simp_all add: choice_on_def set_curr_def obj_upd erase_def valid_def has_flag_def)
  moreover have "sy_curr (obj (choice_on s k3) t) = sy_curr (obj k1 t)" if "valid k1 t" "t \<notin> X" for t
  proof (cases "t = s")
    case True then show ?thesis using assms(4) by (simp add: choice_on_def set_curr_def obj_upd)
  next
    case False
    then show ?thesis
      using that assms(1,3) by (simp add: frame_def choice_on_def set_curr_def obj_upd)
  qed
  moreover have "same_globals k1 (choice_on s k3)"
    using assms(1,3) by (simp add: frame_def same_globals_def choice_on_def set_curr_def upd_def)
  ultimately show ?thesis using assms(1,3) by (simp add: frame_def)
qed

context calc_context
begin

text \<open>The value is settled: it solves the equation of the symbol, now and as long as what it depends on is kept.\<close>

definition settled :: "sym set \<Rightarrow> kconf \<Rightarrow> bool" where
  "settled Z k \<longleftrightarrow> stab (insert s Z) k (\<lambda>k. solved k s)"

lemma stab_self: "A k \<Longrightarrow> stab (insert s Z) k (\<lambda>k'. sy_curr (obj k' s) = sy_curr (obj k s))"
  using A_valid by (auto simp: stab_def frame_curr)

lemma settled_tri:
  assumes "A k" "tri_type (sy_type (obj k0 s))" "Y \<subseteq> Z" "stab Y k (\<lambda>k. spec_tri k s = t)"
    and "\<not> (sym_is_choice (obj k0 s) \<and> t = Tyes)" "sy_curr (obj k s) = symbol_no_curr\<lparr>v_tri := t\<rparr>"
  shows "settled Z k"
  unfolding settled_def
proof (rule stab_combine [of "insert s Z" k _ "insert s Z", simplified, OF stab_self [OF assms(1)] stab_mono [OF assms(4)]])
  show "Y \<subseteq> insert s Z" using assms(3) by blast
  fix k' assume f: "frame UNIV k k'" and "sy_curr (obj k' s) = sy_curr (obj k s)" "spec_tri k' s = t"
  then show "solved k' s"
    using assms(2,5,6) erase_cong(2,7) [OF frame_A [OF assms(1) f]] by (auto simp: solved_def Let_def spec_curr_def)
qed

lemma settled_choice:
  assumes "A k" "tri_type (sy_type (obj k0 s))" "sym_is_choice (obj k0 s)" "Y \<subseteq> Z" "stab Y k (\<lambda>k. spec_tri k s = Tyes)"
    and "stab W k1 (\<lambda>k. spec_choose k s = r)" "W \<subseteq> insert s Z" "calm k1 k"
    and "sy_curr (obj k1 s) = symbol_no_curr\<lparr>v_tri := Tyes\<rparr>"
    and "sy_curr (obj k s) = \<lparr>v_val = choice_result r, v_tri = if r = None then Tno else Tyes\<rparr>"
  shows "settled Z k"
  unfolding settled_def stab_def
proof (intro allI impI)
  fix X k2 assume X: "X \<inter> insert s Z = {}" and f: "frame X k k2"
  then have sX: "s \<notin> X" by blast
  have "spec_tri k2 s = Tyes" using assms(4,5) X f by (intro stab_same_spec [OF assms(5) f]) blast
  moreover have "spec_choose (choice_on s k2) s = r"
  proof (rule stab_same_spec [OF assms(6)])
    show "frame X k1 (choice_on s k2)"
      using choice_on_frame [OF f sX _ assms(9)] assms(8) by (auto simp: calm_def intro: step_frame)
    show "X \<inter> W = {}" using assms(7) X by blast
  qed
  moreover have "sy_curr (obj k2 s) = sy_curr (obj k s)" using frame_curr [OF f A_valid [OF assms(1)] sX] .
  moreover have "sy_type (obj k2 s) = sy_type (obj k0 s)" "sym_is_choice (obj k2 s) = sym_is_choice (obj k0 s)"
    using erase_cong(2,7) [OF frame_A [OF assms(1) f]] by auto
  ultimately show "solved k2 s"
    using assms(2,3,10) by (auto simp: solved_def Let_def spec_curr_def choice_result_def split: option.splits)
qed

lemma settled_text:
  assumes "A k" "text_type (sy_type (obj k0 s))" "Y \<subseteq> Z" "stab Y k (\<lambda>k. spec_text k s = t)"
    and "stab Y k (\<lambda>k1. clamp_text k1 s t = textof (v_val (sy_curr (obj k s))))"
    and "is_text (v_val (sy_curr (obj k s)))" "v_tri (sy_curr (obj k s)) = Tno"
  shows "settled Z k"
  unfolding settled_def stab_def
proof (intro allI impI)
  fix X k2 assume X: "X \<inter> insert s Z = {}" and f: "frame X k k2"
  then have sX: "s \<notin> X" and XY: "X \<inter> Y = {}" using assms(3) by blast+
  have "spec_text k2 s = t" "clamp_text k2 s t = textof (v_val (sy_curr (obj k s)))"
    using stab_same_spec [OF assms(4) f XY] stab_same_spec [OF assms(5) f XY] by auto
  moreover have "sy_curr (obj k2 s) = sy_curr (obj k s)" using frame_curr [OF f A_valid [OF assms(1)] sX] .
  moreover have "sy_type (obj k2 s) = sy_type (obj k0 s)" "\<not> tri_type (sy_type (obj k0 s))"
    using erase_cong(2) [OF frame_A [OF assms(1) f]] assms(2) by (auto simp: text_type_def tri_type_def)
  ultimately show "solved k2 s"
    using assms(2,6,7) by (auto simp: solved_def Let_def textof_text)
qed

lemma settled_goes: "settled Z k \<Longrightarrow> goes k k' \<Longrightarrow> settled Z k'"
  unfolding settled_def by (rule goes_stab)

lemma finish_ok:
  assumes "A k" "sym_fine s" shows "okr strict (goes k) (calc_finish s old k)"
proof -
  define k1 where "k1 = (if old \<noteq> sy_curr (obj k s) then sym_set_changed k s else k)"
  define k2 where "k2 = (if modules_sym k1 = Some s then k1\<lparr>modules_val := v_tri (sy_curr (obj k1 s))\<rparr> else k1)"
  let ?m = "sy_flags (obj k2 s) AND (SYMBOL_CHANGED OR SYMBOL_WRITE)"
  have b: "benign k k2" by (auto simp: k1_def k2_def benign_menu)
  have "?m AND soft_flags = ?m"
    by (metis and.assoc and.idem or.commute soft_flags_def)
  then have "benign k (fold (mark_choice_value ?m) vs k2)" for vs
    using benign_trans [OF b benign_marks] by simp
  then have g: "goes k k2" "goes k (fold (mark_choice_value ?m) vs k2)" for vs
    using goes_benign [OF assms(1)] b by blast+
  have fin: "calc_finish s old k = (if sym_is_choice (obj k2 s) then
        rbind (choice_values (obj k2 s)) (\<lambda>vs. Inr (fold (mark_choice_value ?m) vs k2)) else Inr k2)"
    by (simp add: calc_finish_def k1_def k2_def Let_def)
  show ?thesis
  proof (cases "sym_is_choice (obj k2 s)")
    case False then show ?thesis using fin g by simp
  next
    case True
    show ?thesis
    proof (cases "choice_values (obj k2 s)")
      case (Inl e)
      then have "\<not> strict"
        using choice_values_err [OF Inl] True assms(2) A_fields(6,9) [OF goes_A [OF g(1)], of s]
        by (auto simp: sym_fine_def sym_ok_def)
      then show ?thesis using fin True Inl choice_values_err [OF Inl] by simp
    next
      case (Inr vs) then show ?thesis using fin True g(2) by simp
    qed
  qed
qed

lemma set_curr_calm: "A k \<Longrightarrow> calm k (set_curr s v k)"
  unfolding set_curr_def by (rule calm_curr [where g = "\<lambda>_. v"]) simp_all

lemma curr_set_curr [simp]: "sy_curr (obj (set_curr s v k) s) = v"
  by (simp add: set_curr_def obj_upd)

text \<open>The second half of an activation, after the visibility.\<close>

definition half_post :: "sym set \<Rightarrow> kconf \<Rightarrow> kconf \<Rightarrow> bool" where
  "half_post Z k k' \<longleftrightarrow> calm k k' \<and> (C \<longrightarrow> settled Z k')"

lemma end_ok:
  assumes "calm k k5" "C \<Longrightarrow> settled Z k5" "sym_fine s"
  shows "okr strict (half_post Z k) (calc_finish s old k5)"
  using finish_ok [OF calm_A [OF assms(1)] assms(3), of old]
  by (rule okr_mono) (auto simp: half_post_def intro: calm_trans [OF assms(1)] goes_calm settled_goes [OF assms(2)])

lemma value_half_tri:
  assumes "A k" "val_fine Y" "C \<Longrightarrow> ready k" "C \<Longrightarrow> s \<notin> Y" "tri_type (sy_type (obj k0 s))"
    "sym_is_choice (obj k0 s) \<Longrightarrow> choice_fine W s" "Y \<subseteq> Z" "W \<subseteq> insert s Z"
  shows "okr strict (half_post Z k) (value_half calc s old k)"
proof -
  have ty: "sym_get_type (obj k s) = S_BOOLEAN \<or> sym_get_type (obj k s) = S_TRISTATE"
    using assms(5) A_fields(1) [OF assms(1), of s] by (auto simp: sym_get_type_def tri_type_def)
  have fine: "sym_fine s" using val_fine_deps(8) [OF assms(2)] .
  have "okr strict (half_post Z k) (rbind (calc_tristate calc s k) (\<lambda>(k4, t).
      rbind (calc_choice_value calc s (set_curr s (symbol_no_curr\<lparr>v_tri := t\<rparr>) k4)) (\<lambda>k5.
      rbind (sym_validate_range calc s k5) (\<lambda>k6. calc_finish s old k6))))"
  proof (rule okr_bind [OF calc_tristate_ok [OF assms(1-3)]], assumption, clarsimp simp only: ceval_def prod.case)
    fix k4 t assume g: "goes k k4" and st: "C \<longrightarrow> stab Y k4 (\<lambda>k. spec_tri k s = t)"
    let ?k = "set_curr s (symbol_no_curr\<lparr>v_tri := t\<rparr>) k4"
    have c4: "calm k4 ?k" by (rule set_curr_calm [OF goes_A [OF g]])
    have ck: "calm k ?k" by (rule calm_trans [OF goes_calm [OF g] c4])
    have st4: "stab Y ?k (\<lambda>k. spec_tri k s = t)" if C using stab_calm [OF _ c4 assms(4) [OF that]] st that by simp
    have nr: "sym_validate_range calc s k5 = Inr k5" if "A k5" for k5
      using assms(5) A_fields(1) [OF that, of s] by (auto simp: sym_validate_range_def tri_type_def)
    have ch: "sym_is_choice (obj ?k s) = sym_is_choice (obj k0 s)" by (rule A_fields(6) [OF calm_A [OF ck]])
    have "okr strict (half_post Z k) (calc_choice_value calc s ?k)"
    proof (cases "sym_is_choice (obj k0 s) \<and> t = Tyes")
      case False
      have "calc_choice_value calc s ?k = Inr ?k" using False ch by (auto simp: calc_choice_value_def)
      moreover have "settled Z ?k" if C
        by (rule settled_tri [OF calm_A [OF ck] assms(5,7) st4 [OF that] False]) simp
      ultimately show ?thesis using ck by (simp add: half_post_def)
    next
      case True
      then have cf: "choice_fine W s" using assms(6) by simp
      define put where "put = (\<lambda>r k1. upd s (\<lambda>y. y\<lparr>sy_curr := (sy_curr y)\<lparr>v_val := choice_result r\<rparr>\<rparr>)
              (if r \<noteq> None then k1 else upd s (\<lambda>y. y\<lparr>sy_curr := (sy_curr y)\<lparr>v_tri := Tno\<rparr>\<rparr>) k1))"
      have e: "calc_choice_value calc s ?k = rbind (choice_pick calc s ?k) (\<lambda>(k1, r). Inr (put r k1))"
        using True ch by (cases "choice_pick calc s ?k") (auto simp: calc_choice_value_def sym_calc_choice_def put_def)
      show ?thesis
        unfolding e
      proof (rule okr_bind [OF choice_pick_ok [OF calm_A [OF ck] cf]], clarsimp simp only: evaluates_def prod.case)
        fix k1 r assume g1: "goes ?k k1" and sc: "stab W k1 (\<lambda>k. spec_choose k s = r)"
        have A1: "A k1" by (rule goes_A [OF g1])
        define k2 where "k2 = (if r \<noteq> None then k1 else upd s (\<lambda>y. y\<lparr>sy_curr := (sy_curr y)\<lparr>v_tri := Tno\<rparr>\<rparr>) k1)"
        have k3: "put r k1 = upd s (\<lambda>y. y\<lparr>sy_curr := (sy_curr y)\<lparr>v_val := choice_result r\<rparr>\<rparr>) k2"
          by (simp add: put_def k2_def)
        have c1: "sy_curr (obj k1 s) = symbol_no_curr\<lparr>v_tri := Tyes\<rparr>"
          using goes_curr [OF g1 calm_A [OF ck]] True by simp
        have c12: "calm k1 k2" using calm_refl [OF A1] calm_curr [OF A1] by (auto simp: k2_def)
        have c13: "calm k1 (put r k1)" unfolding k3 by (rule calm_trans [OF c12 calm_curr [OF calm_A [OF c12]]]) rule
        have cur: "sy_curr (obj (put r k1) s) = \<lparr>v_val = choice_result r, v_tri = if r = None then Tno else Tyes\<rparr>"
          by (simp add: k3 obj_upd k2_def c1 symbol_no_curr_def)
        have st3: "stab Y (put r k1) (\<lambda>k. spec_tri k s = Tyes)" if C
          using stab_calm [OF goes_stab [OF g1 st4 [OF that]] c13 assms(4) [OF that]] True by simp
        have "settled Z (put r k1)" if C
          by (rule settled_choice [OF calm_A [OF c13] assms(5) conjunct1 [OF True] assms(7) st3 [OF that] sc assms(8) c13 c1 cur])
        then show "okr strict (half_post Z k) (Inr (put r k1))"
          using calm_trans [OF ck calm_trans [OF goes_calm [OF g1] c13]] by (simp add: half_post_def)
      qed
    qed
    then show "okr strict (half_post Z k) (rbind (calc_choice_value calc s ?k) (\<lambda>k5. rbind (sym_validate_range calc s k5) (\<lambda>k6. calc_finish s old k6)))"
    proof (rule okr_bind)
      fix k5 assume "half_post Z k k5"
      then have "calm k k5" "C \<Longrightarrow> settled Z k5" by (simp_all add: half_post_def)
      then show "okr strict (half_post Z k) (rbind (sym_validate_range calc s k5) (\<lambda>k6. calc_finish s old k6))"
        using end_ok [OF _ _ fine] nr [OF calm_A] by simp
    qed
  qed
  moreover have "value_half calc s old k = rbind (calc_tristate calc s k) (\<lambda>(k4, t).
      rbind (calc_choice_value calc s (set_curr s (symbol_no_curr\<lparr>v_tri := t\<rparr>) k4)) (\<lambda>k5.
      rbind (sym_validate_range calc s k5) (\<lambda>k6. calc_finish s old k6)))"
    using ty by (cases "calc_tristate calc s k") (auto simp: value_half_def calc_newval_def)
  ultimately show ?thesis by simp
qed

lemma value_half_text:
  assumes "A k" "val_fine Y" "C \<Longrightarrow> ready k" "C \<Longrightarrow> s \<notin> Y" "text_type (sy_type (obj k0 s))" "Y \<subseteq> Z"
  shows "okr strict (half_post Z k) (value_half calc s old k)"
proof -
  have ty: "\<not> (sym_get_type (obj k s) = S_BOOLEAN \<or> sym_get_type (obj k s) = S_TRISTATE)"
    using assms(5) A_fields(1) [OF assms(1), of s] by (auto simp: sym_get_type_def text_type_def)
  have fine: "sym_fine s" using val_fine_deps(8) [OF assms(2)] .
  have "okr strict (half_post Z k) (rbind (calc_string calc s k) (\<lambda>(k4, v).
      rbind (calc_choice_value calc s (set_curr s (symbol_empty_curr\<lparr>v_val := v\<rparr>) k4)) (\<lambda>k5.
      rbind (sym_validate_range calc s k5) (\<lambda>k6. calc_finish s old k6))))"
  proof (rule okr_bind [OF calc_string_ok [OF assms(1-3,5)]], assumption, clarsimp simp only: text_eval_def prod.case)
    fix k4 v assume g: "goes k k4" and it: "strict \<longrightarrow> is_text v" and st: "C \<longrightarrow> stab Y k4 (\<lambda>k. spec_text k s = textof v)"
    let ?k = "set_curr s (symbol_empty_curr\<lparr>v_val := v\<rparr>) k4"
    have c4: "calm k4 ?k" by (rule set_curr_calm [OF goes_A [OF g]])
    have ck: "calm k ?k" by (rule calm_trans [OF goes_calm [OF g] c4])
    have st4: "stab Y ?k (\<lambda>k. spec_text k s = textof v)" if C using stab_calm [OF _ c4 assms(4) [OF that]] st that by simp
    have cv: "calc_choice_value calc s ?k = Inr ?k" by (simp add: calc_choice_value_def symbol_empty_curr_def)
    have it4: "strict \<longrightarrow> is_text (v_val (sy_curr (obj ?k s)))" using it by (simp add: symbol_empty_curr_def)
    have "okr strict (half_post Z k) (rbind (sym_validate_range calc s ?k) (\<lambda>k6. calc_finish s old k6))"
    proof (rule okr_bind [OF validate_range_ok [OF calm_A [OF ck] assms(2,4) it4]], assumption)
      fix k6 assume cl: "clamped Y ?k k6"
      then have c6: "calm ?k k6" by (simp add: clamped_def)
      have "settled Z k6" if C
      proof (rule settled_text [OF calm_A [OF c6] assms(5,6) stab_calm [OF st4 [OF that] c6 assms(4) [OF that]]])
        show "stab Y k6 (\<lambda>k1. clamp_text k1 s (textof v) = textof (v_val (sy_curr (obj k6 s))))"
          using cl that by (simp add: clamped_def symbol_empty_curr_def)
        show "is_text (v_val (sy_curr (obj k6 s)))" using cl that by (simp add: clamped_def C_def)
        show "v_tri (sy_curr (obj k6 s)) = Tno" using cl by (simp add: clamped_def symbol_empty_curr_def)
      qed
      then show "okr strict (half_post Z k) (calc_finish s old k6)"
        using end_ok [OF calm_trans [OF ck c6] _ fine] by blast
    qed
    then show "okr strict (half_post Z k) (rbind (calc_choice_value calc s ?k) (\<lambda>k5. rbind (sym_validate_range calc s k5) (\<lambda>k6. calc_finish s old k6)))"
      by (simp add: cv)
  qed
  moreover have "value_half calc s old k = rbind (calc_string calc s k) (\<lambda>(k4, v).
      rbind (calc_choice_value calc s (set_curr s (symbol_empty_curr\<lparr>v_val := v\<rparr>) k4)) (\<lambda>k5.
      rbind (sym_validate_range calc s k5) (\<lambda>k6. calc_finish s old k6)))"
    using ty by (cases "calc_string calc s k") (auto simp: value_half_def calc_newval_def)
  ultimately show ?thesis by simp
qed

lemma activation_ok:
  assumes "A k0" "val_fine Y" "C \<Longrightarrow> s \<notin> Y" "initial_curr (sy_type (obj k0 s)) = Some newval"
    "sym_is_choice (obj k0 s) \<Longrightarrow> tri_type (sy_type (obj k0 s)) \<Longrightarrow> choice_fine W s" "Y \<subseteq> Z" "W \<subseteq> insert s Z"
    "C \<Longrightarrow> sym_is_choice_value (obj k0 s) \<Longrightarrow> sy_rev_tri (obj k0 s) = Tno"
  shows "okr strict (\<lambda>k'. half_post Z k0 k' \<and> (C \<longrightarrow> ready k'))
    (rbind (sym_calc_visibility calc s (if sym_is_choice_value (obj k0 s) then k0 else upd s (flag_off SYMBOL_WRITE) k0))
      (\<lambda>k3. value_half calc s old (set_curr s newval k3)))"
proof -
  note d = val_fine_deps [OF assms(2)]
  let ?k = "if sym_is_choice_value (obj k0 s) then k0 else upd s (flag_off SYMBOL_WRITE) k0"
  have g: "goes k0 ?k" using goes_refl [OF assms(1)] goes_benign [OF assms(1) benign_flag(2) [OF soft_flag_consts(1)]] by simp
  have ty: "tri_type (sy_type (obj k0 s)) \<or> text_type (sy_type (obj k0 s))"
    using assms(4) by (cases "sy_type (obj k0 s)") (auto simp: tri_type_def text_type_def)
  show ?thesis
  proof (rule okr_bind [OF visibility_ok [OF goes_A [OF g] d(8)]], (use d(1,2,7) in blast)+, elim conjE)
    fix k3 assume g3: "goes ?k k3" and sn: "seen s k3"
    let ?k3 = "set_curr s newval k3"
    have g03: "goes k0 k3" by (rule goes_trans [OF g g3])
    have c3: "calm k3 ?k3" by (rule set_curr_calm [OF goes_A [OF g3]])
    have c03: "calm k0 ?k3" by (rule calm_trans [OF goes_calm [OF g03] c3])
    have "ready k3" if C
      using sn assms(8) [OF that] calm_rev [OF _ assms(1) goes_calm [OF g03]] by (auto simp: ready_def)
    then have r: "ready ?k3" if C using ready_calm [OF _ c3 goes_A [OF g3] that] that by blast
    have "okr strict (half_post Z ?k3) (value_half calc s old ?k3)"
    proof (cases "tri_type (sy_type (obj k0 s))")
      case True
      show ?thesis by (rule value_half_tri [OF calm_A [OF c3] assms(2) r assms(3) True assms(5) [OF _ True] assms(6,7)])
    next
      case False
      then have tx: "text_type (sy_type (obj k0 s))" using ty by simp
      show ?thesis by (rule value_half_text [OF calm_A [OF c3] assms(2) r assms(3) tx assms(6)])
    qed
    then show "okr strict (\<lambda>k'. half_post Z k0 k' \<and> (C \<longrightarrow> ready k')) (value_half calc s old ?k3)"
      by (rule okr_mono) (auto simp: half_post_def intro: calm_trans [OF c03] ready_calm [OF r _ calm_A [OF c3]])
  qed
qed

lemma activation_plain:
  assumes "I k0" "strict \<longrightarrow> sym_ok k0 (obj k0 s)" "set (val_deps (obj k0 s)) \<subseteq> L"
    and cand: "\<And>d. sym_is_choice (obj k0 s) \<Longrightarrow> tri_type (sy_type (obj k0 s)) \<Longrightarrow> d \<in> set (possible (obj k0 s)) \<Longrightarrow>
       set (vis_deps (obj k0 d)) \<subseteq> L \<and> set (rev_deps (obj k0 d)) \<subseteq> L \<and> (strict \<longrightarrow> sym_ok k0 (obj k0 d))"
    and rev: "strict \<Longrightarrow> sym_is_choice_value (obj k0 s) \<Longrightarrow> sy_rev_tri (obj k0 s) = Tno"
    and link: "strict \<Longrightarrow> sym_is_choice_value (obj k0 s) \<Longrightarrow> set (choice_link (obj k0 s)) \<subseteq> set (prompt_deps (obj k0 s))"
    and "initial_curr (sy_type (obj k0 s)) = Some newval"
  shows "okr strict (\<lambda>k'. step {s} k0 k' \<and> valid k' s \<and> I k' \<and>
      (strict \<and> s \<notin> set (val_deps (obj k0 s)) \<longrightarrow> stab (insert s (deps_of k0 s)) k' (\<lambda>k. solved k s) \<and> cached k' s))
    (rbind (sym_calc_visibility calc s (if sym_is_choice_value (obj k0 s) then k0 else upd s (flag_off SYMBOL_WRITE) k0))
      (\<lambda>k3. value_half calc s old (set_curr s newval k3)))"
proof -
  let ?Y = "set (val_deps (obj k0 s))"
  have A0: "A k0" using assms(1) by (simp add: A_def)
  have fine: "sym_fine s" using assms(2) by (simp add: sym_fine_def)
  have vf: "val_fine ?Y" using fine assms(3) by (simp add: val_fine_def)
  have cf: "choice_fine (deps_of k0 s) s" if c: "sym_is_choice (obj k0 s)" "tri_type (sy_type (obj k0 s))"
    using cand [OF c] fine assms(3) val_deps_parts(3) [of "obj k0 s"] c
    by (auto simp: choice_fine_def deps_of_def cand_deps_def cand_fine_def sym_fine_def)
  have C: "C \<longleftrightarrow> strict \<and> s \<notin> ?Y" using link by (auto simp: C_def)
  have r: "cached k' s" if "ready k'" "A k'" for k'
  proof -
    have e: "erase (obj k' s) = erase (obj k0 s)" by (rule A_static [OF that(2)])
    have "stab ?Y k' (\<lambda>k2. spec_rev k2 s = sy_rev_tri (obj k' s))" if "\<not> sym_is_choice_value (obj k0 s)" "\<not> spec_desel k' s"
      by (rule stab_weaken [OF ready_select [OF \<open>ready k'\<close> vf that(2) \<open>A k'\<close>]])
         (simp add: spec_select_def erase_cong(8) [OF frame_A [OF \<open>A k'\<close>]] that(1))
    then show ?thesis
      unfolding cached_def deps_cong(5) [OF e] erase_cong(8) [OF e]
      using ready_vis [OF that(1) vf] ready_desel [OF that(1) vf] by blast
  qed
  have "okr strict (\<lambda>k'. half_post (deps_of k0 s) k0 k' \<and> (C \<longrightarrow> ready k'))
    (rbind (sym_calc_visibility calc s (if sym_is_choice_value (obj k0 s) then k0 else upd s (flag_off SYMBOL_WRITE) k0))
      (\<lambda>k3. value_half calc s old (set_curr s newval k3)))"
    using C rev by (intro activation_ok [OF A0 vf _ assms(7) cf]) (auto simp: deps_of_def)
  then show ?thesis
    by (rule okr_mono) (use r A_valid in \<open>auto simp: half_post_def settled_def calm_def A_def C\<close>)
qed

end

end
