(* ===== verification/Kconfig_Solve.thy ===== *)
theory Kconfig_Solve
  imports Kconfig_Body
begin

text \<open>
  The two results on the evaluation of symbols. It always ends, whatever the dependencies
  (\<open>calc_terminates\<close>). If the dependencies have no cycle, it meets no bad pointer and every
  symbol that is valid afterwards has the value its equation gives (\<open>calc_solves\<close>).
\<close>

section \<open>Starting an activation\<close>

abbreviation mark_valid :: "sym \<Rightarrow> kconf \<Rightarrow> kconf" where
  "mark_valid s k \<equiv> upd s (flag_on SYMBOL_VALID) k"

lemma mark_valid_fields:
  "erase (obj (mark_valid s k) t) = erase (obj k t)" "sy_curr (obj (mark_valid s k) t) = sy_curr (obj k t)"
  "sy_visible (obj (mark_valid s k) t) = sy_visible (obj k t)" "sy_rev_tri (obj (mark_valid s k) t) = sy_rev_tri (obj k t)"
  "valid (mark_valid s k) t = (t = s \<or> valid k t)"
proof -
  have "SYMBOL_VALID AND STATIC = 0" "SYMBOL_VALID AND SYMBOL_VALID \<noteq> 0"
    by (simp_all add: STATIC_def ksymbol_flag_defs)
  then show "erase (obj (mark_valid s k) t) = erase (obj k t)" "valid (mark_valid s k) t = (t = s \<or> valid k t)"
    by (auto simp: obj_upd erase_flag(1) valid_def has_flag_on)
qed (simp_all add: obj_upd)

lemma start_frame:
  assumes "\<not> valid k s" "frame {s} (mark_valid s k) k'" shows "frame {} k k'"
proof -
  have "same_globals k (mark_valid s k)" by simp
  then show ?thesis
    using assms(2) assms(1) by (auto simp: frame_def same_globals_def mark_valid_fields)
qed

lemma start_step:
  assumes "\<not> valid k s" "step {s} (mark_valid s k) k'" shows "step {} k k'"
proof -
  have "moved {} get spec k k' t" if "moved {s} get spec (mark_valid s k) k' t" "get (obj (mark_valid s k) t) = get (obj k t)" for get spec t
    using that start_frame [OF assms(1)] by (auto simp: moved_def)
  moreover have "sym_is_choice_value (obj (mark_valid s k) t) = sym_is_choice_value (obj k t)" for t
    by (rule erase_cong(8)) (rule mark_valid_fields(1))
  ultimately show ?thesis
    using assms start_frame by (auto simp: step_def mark_valid_fields split: if_splits)
qed

lemma syms_frame: "frame X k k' \<Longrightarrow> syms_of k' = syms_of k"
  by (simp add: frame_def same_globals_def syms_of_def)

lemma filter_length_mono: "(\<And>x. x \<in> set xs \<Longrightarrow> P x \<Longrightarrow> Q x) \<Longrightarrow> length (filter P xs) \<le> length (filter Q xs)"
  by (induction xs) (auto intro: le_SucI)

lemma filter_length_less:
  "(\<And>x. x \<in> set xs \<Longrightarrow> P x \<Longrightarrow> Q x) \<Longrightarrow> y \<in> set xs \<Longrightarrow> Q y \<Longrightarrow> \<not> P y \<Longrightarrow> length (filter P xs) < length (filter Q xs)"
proof (induction xs)
  case (Cons x xs)
  have "length (filter P xs) \<le> length (filter Q xs)" using Cons.prems(1) by (intro filter_length_mono) auto
  with Cons show ?case by (auto simp: less_Suc_eq_le)
qed simp

lemma invalid_count_frame: "frame X k k' \<Longrightarrow> invalid_count k' \<le> invalid_count k"
  unfolding invalid_count_def syms_frame [of X k k']
  by (rule filter_length_mono) (auto simp: frame_def valid_def)

lemma invalid_count_start:
  assumes "s \<in> set (syms_of k)" "\<not> valid k s" shows "invalid_count (mark_valid s k) < invalid_count k"
proof -
  have "syms_of (mark_valid s k) = syms_of k" by (simp add: syms_of_def upd_def)
  then show ?thesis
    using assms mark_valid_fields(5) [of s k] unfolding invalid_count_def valid_def [symmetric]
    by (auto intro!: filter_length_less)
qed

text \<open>The last of the three cases of \<open>sym_calc_value\<close>: a symbol of no type.\<close>

lemma untyped_step:
  assumes "\<not> valid k s" shows "step {} k (set_curr s v (mark_valid s k))"
    "valid (set_curr s v (mark_valid s k)) t = (t = s \<or> valid k t)"
proof -
  show "step {} k (set_curr s v (mark_valid s k))"
    unfolding set_curr_def by (rule start_step [OF assms curr_update_step(1)]) rule
  show "valid (set_curr s v (mark_valid s k)) t = (t = s \<or> valid k t)"
    using mark_valid_fields(5) [of s k t] by (auto simp: set_curr_def valid_def has_flag_def obj_upd)
qed

section \<open>Termination\<close>

definition closed_conf :: "kconf \<Rightarrow> bool" where
  "closed_conf k \<longleftrightarrow> (\<forall>t\<in>set (syms_of k).
     set (val_deps (obj k t)) \<subseteq> set (syms_of k) \<and> set (possible (obj k t)) \<subseteq> set (syms_of k))"

lemma closed_frame:
  assumes "closed_conf k" "frame X k k'" shows "closed_conf k'"
  using assms(1) unfolding closed_conf_def syms_frame [OF assms(2)] frame_deps(5,6) [OF assms(2)] .

lemma cand_closed:
  assumes "closed_conf k" "s \<in> set (syms_of k)" "d \<in> set (possible (obj k s))"
  shows "set (vis_deps (obj k d)) \<subseteq> set (syms_of k)" "set (rev_deps (obj k d)) \<subseteq> set (syms_of k)"
proof -
  have "d \<in> set (syms_of k)" using assms by (auto simp: closed_conf_def)
  then have "set (val_deps (obj k d)) \<subseteq> set (syms_of k)" using assms(1) by (simp add: closed_conf_def)
  with val_deps_parts(1,2) [of "obj k d"]
  show "set (vis_deps (obj k d)) \<subseteq> set (syms_of k)" "set (rev_deps (obj k d)) \<subseteq> set (syms_of k)" by blast+
qed

text \<open>One more activation, from the contract of the function it calls back.\<close>

lemma prop_ok_cong:
  assumes "\<And>t. erase (obj k t) = erase (obj k' t)" "erase y = erase z" "p_type p = p_type q" "p_visible p = p_visible q" "p_expr p = p_expr q"
  shows "prop_ok k y p = prop_ok k' z q"
proof -
  have "stringy (obj k t) = stringy (obj k' t)" for t using stringy_cong(1) [OF assms(1)] .
  moreover have "expr_ok k e = expr_ok k' e" "opt_ok k f = opt_ok k' f" for e f
    using expr_ok_cong [OF assms(1)] opt_ok_cong [OF assms(1)] by blast+
  moreover have "prop_get_symbol p = prop_get_symbol q" using assms(5) by (simp add: prop_get_symbol_def)
  ultimately show ?thesis
    using assms(3-5) erase_cong(2,7) [OF assms(2)]
    by (simp add: prop_ok_def split: pexpr.splits option.splits)
qed

lemma sym_ok_frame:
  assumes "frame X k k'" shows "sym_ok k' (obj k' t) = sym_ok k (obj k t)"
proof -
  have e: "erase (obj k' u) = erase (obj k u)" for u by (rule frame_static [OF assms])
  have l: "length (sy_prop (obj k' t)) = length (sy_prop (obj k t))" using erase_cong(6) [OF e] .
  have "prop_ok k' (obj k' t) (sy_prop (obj k' t) ! i) = prop_ok k (obj k t) (sy_prop (obj k t) ! i)"
    if "i < length (sy_prop (obj k t))" for i
    using frame_prop [OF assms that] by (intro prop_ok_cong e) auto
  then have "list_all (prop_ok k' (obj k' t)) (sy_prop (obj k' t)) = list_all (prop_ok k (obj k t)) (sy_prop (obj k t))"
    by (simp add: list_all_length l)
  moreover have "opt_ok k' f = opt_ok k f" for f using opt_ok_cong [OF e] .
  ultimately show ?thesis
    by (simp add: sym_ok_def erase_cong [OF e])
qed

lemma deps_of_frame: "frame X k k' \<Longrightarrow> deps_of k' t = deps_of k t"
  by (simp add: deps_of_def frame_deps(5,7) frame_fields(2,7))

lemma frame_link:
  assumes "frame X k k'"
  shows "prompt_deps (obj k' t) = prompt_deps (obj k t)" "choice_link (obj k' t) = choice_link (obj k t)"
proof -
  have e: "erase (obj k' t) = erase (obj k t)" by (rule frame_static [OF assms])
  show "prompt_deps (obj k' t) = prompt_deps (obj k t)" using deps_erase(3) e by metis
  show "choice_link (obj k' t) = choice_link (obj k t)" by (simp add: choice_link_def erase_cong [OF e])
qed

lemma mark_frame: "frame {} k (mark_valid s k)"
  by (auto simp: frame_def mark_valid_fields)

lemma mark_step: "step {} k (mark_valid s k)"
  using mark_frame by (auto simp: step_def moved_def mark_valid_fields)

lemma activation:
  assumes ctx: "calc_context strict calc s (mark_valid s k) I L" and "I (mark_valid s k)" "\<not> valid k s"
    and "strict \<longrightarrow> sym_ok k (obj k s)" "set (val_deps (obj k s)) \<subseteq> L"
    and cand: "\<And>d. sym_is_choice (obj k s) \<Longrightarrow> tri_type (sy_type (obj k s)) \<Longrightarrow> d \<in> set (possible (obj k s)) \<Longrightarrow>
       set (vis_deps (obj k d)) \<subseteq> L \<and> set (rev_deps (obj k d)) \<subseteq> L \<and> (strict \<longrightarrow> sym_ok k (obj k d))"
    and rev: "strict \<Longrightarrow> sym_is_choice_value (obj k s) \<Longrightarrow> sy_rev_tri (obj k s) = Tno"
    and link: "strict \<Longrightarrow> sym_is_choice_value (obj k s) \<Longrightarrow> set (choice_link (obj k s)) \<subseteq> set (prompt_deps (obj k s))"
    and init: "initial_curr (sy_type (obj k s)) = Some newval"
  shows "okr strict (\<lambda>k'. step {} k k' \<and> valid k' s \<and> I k' \<and>
      (strict \<and> s \<notin> set (val_deps (obj k s)) \<longrightarrow> stab (insert s (deps_of k s)) k' (\<lambda>k. solved k s) \<and> cached k' s))
    (sym_calc_body calc k s)"
proof -
  let ?k = "mark_valid s k"
  note f = mark_frame [of k s]
  note same = frame_fields(2,7,8) [OF f] frame_deps(1,2,5,6) [OF f] frame_link [OF f] sym_ok_frame [OF f] deps_of_frame [OF f]
    mark_valid_fields(4)
  have "okr strict (\<lambda>k'. step {s} ?k k' \<and> valid k' s \<and> I k' \<and>
      (strict \<and> s \<notin> set (val_deps (obj ?k s)) \<longrightarrow> stab (insert s (deps_of ?k s)) k' (\<lambda>k. solved k s) \<and> cached k' s))
    (rbind (sym_calc_visibility calc s (if sym_is_choice_value (obj ?k s) then ?k else upd s (flag_off SYMBOL_WRITE) ?k))
      (\<lambda>k3. value_half calc s (sy_curr (obj k s)) (set_curr s newval k3)))"
    by (rule calc_context.activation_plain [OF ctx assms(2)]; unfold same;
        (rule assms(4,5) init | erule (2) cand | erule (1) rev | erule (1) link))
  moreover have "sym_calc_body calc k s =
    rbind (sym_calc_visibility calc s (if sym_is_choice_value (obj ?k s) then ?k else upd s (flag_off SYMBOL_WRITE) ?k))
      (\<lambda>k3. value_half calc s (sy_curr (obj k s)) (set_curr s newval k3))"
    using assms(3) init by (simp add: sym_calc_body_def valid_def Let_def frame_fields(2) [OF f])
  ultimately show ?thesis
    by (simp only: same) (erule okr_mono, use start_step [OF assms(3)] in blast)
qed

lemma calc_terminates_aux:
  assumes "closed_conf k" "s \<in> set (syms_of k)" "invalid_count k < n"
  shows "okr False (\<lambda>k'. step {} k k' \<and> valid k' s) (sym_calc_value n k s)"
  using assms
proof (induction n arbitrary: k s)
  case (Suc n)
  show ?case
  proof (cases "valid k s")
    case True then show ?thesis by (simp add: sym_calc_body_def valid_def)
  next
    case False
    show ?thesis
    proof (cases "initial_curr (sy_type (obj k s))")
      case None
      then show ?thesis
        using False untyped_step [OF False] by (simp add: sym_calc_body_def valid_def Let_def flag_on_fields obj_upd)
    next
      case (Some newval)
      let ?k = "mark_valid s k"
      define I where "I = (\<lambda>k'. closed_conf k' \<and> syms_of k' = syms_of k \<and> invalid_count k' < n)"
      have keep: "I k2" if "I k1" "frame X k1 k2" for k1 k2 X
        using that closed_frame [OF _ that(2)] syms_frame [OF that(2)] invalid_count_frame [OF that(2)] by (simp add: I_def)
      have ctx: "calc_context False (sym_calc_value n) s ?k I (set (syms_of k))"
      proof
        fix k1 d assume "I k1" "d \<in> set (syms_of k)"
        then have "okr False (\<lambda>k'. step {} k1 k' \<and> valid k' d) (sym_calc_value n k1 d)"
          by (intro Suc.IH) (auto simp: I_def)
        then show "okr False (\<lambda>k'. step {} k1 k' \<and> valid k' d \<and> I k') (sym_calc_value n k1 d)"
          by (rule okr_mono) (use keep [OF \<open>I k1\<close>] step_frame in blast)
      next
        show "I k1 \<Longrightarrow> keeps_others s k1 k2 \<Longrightarrow> I k2" for k1 k2 using keep keeps_frame by blast
        show "valid ?k s" by (simp add: mark_valid_fields)
      qed simp
      have Ik: "I ?k"
        using Suc.prems invalid_count_start [OF Suc.prems(2) False] closed_frame [OF Suc.prems(1) mark_frame]
        by (auto simp: I_def syms_of_def upd_def)
      have deps: "set (val_deps (obj k s)) \<subseteq> set (syms_of k)"
        using Suc.prems(1,2) unfolding closed_conf_def by blast
      have "okr False (\<lambda>k'. step {} k k' \<and> valid k' s \<and> I k' \<and>
          (False \<and> s \<notin> set (val_deps (obj k s)) \<longrightarrow> stab (insert s (deps_of k s)) k' (\<lambda>k. solved k s) \<and> cached k' s))
        (sym_calc_body (sym_calc_value n) k s)"
        by (rule activation [OF ctx Ik False _ deps _ _ _ Some])
           (simp_all, intro conjI cand_closed [OF Suc.prems(1,2)])
      then show ?thesis by (simp, elim okr_mono) blast
    qed
  qed
qed simp

section \<open>Correctness\<close>

definition statics :: "sym set" where
  "statics = {symbol_yes, symbol_mod, symbol_no}"

definition wf_conf :: "kconf \<Rightarrow> bool" where
  "wf_conf k \<longleftrightarrow> closed_conf k \<and>
     (\<forall>t\<in>set (syms_of k). sym_ok k (obj k t) \<and>
        (sym_is_choice_value (obj k t) \<longrightarrow>
           sy_rev_tri (obj k t) = Tno \<and> set (choice_link (obj k t)) \<subseteq> set (prompt_deps (obj k t)))) \<and>
     (\<forall>t\<in>statics. valid k t \<and> is_text (v_val (sy_curr (obj k t))))"

text \<open>No cycle of dependencies: a rank that grows along them. A choice may occur in the prompts of its values.\<close>

definition ranked :: "(sym \<Rightarrow> nat) \<Rightarrow> kconf \<Rightarrow> bool" where
  "ranked rank k \<longleftrightarrow> (\<forall>t\<in>set (syms_of k).
     (\<forall>u\<in>set (val_deps (obj k t)). rank u < rank t) \<and> (\<forall>u\<in>deps_of k t. u = t \<or> rank u < rank t))"

definition good :: "(sym \<Rightarrow> nat) \<Rightarrow> kconf \<Rightarrow> sym \<Rightarrow> bool" where
  "good rank k t \<longleftrightarrow> t \<in> statics \<or>
     (\<forall>k'. frame {u. rank t \<le> rank u \<and> u \<noteq> t} k k' \<longrightarrow> solved k' t) \<and>
     (initial_curr (sy_type (obj k t)) \<noteq> None \<longrightarrow> cached k t)"

definition good_upto :: "(sym \<Rightarrow> nat) \<Rightarrow> nat \<Rightarrow> kconf \<Rightarrow> bool" where
  "good_upto rank r k \<longleftrightarrow> (\<forall>t\<in>set (syms_of k). valid k t \<longrightarrow> rank t < r \<longrightarrow> good rank k t)"

lemma statics_syms: "statics \<subseteq> set (syms_of k)"
  by (auto simp: statics_def syms_of_def)

lemma good_now: "good rank k t \<Longrightarrow> t \<notin> statics \<Longrightarrow> solved k t"
  by (auto simp: good_def)

lemma good_step:
  assumes "good rank k t" "step X k k'" "X \<subseteq> {u. rank t \<le> rank u \<and> u \<noteq> t}" "ranked rank k" "t \<in> set (syms_of k)"
  shows "good rank k' t"
proof -
  have r: "rank u < rank t" if "u \<in> set (val_deps (obj k t))" for u
    using bspec [OF assms(4) [unfolded ranked_def] assms(5)] that by blast
  have False if "u \<in> X" "u \<in> set (val_deps (obj k t))" for u
    using r [OF that(2)] that(1) assms(3) by auto
  then have X: "X \<inter> set (val_deps (obj k t)) = {}" by blast
  have f: "frame X k k'" by (rule step_frame [OF assms(2)])
  show ?thesis
    using assms(1) frame_trans [OF frame_mono [OF f assms(3)]] cached_step [OF _ assms(2) X] frame_fields(2) [OF f, of t]
    by (auto simp: good_def)
qed

lemma solved_is_text:
  assumes "solved k t" "stringy (obj k t)" shows "is_text (v_val (sy_curr (obj k t)))"
  using assms
  by (auto simp: solved_def stringy_def Let_def spec_curr_def symbol_no_curr_def is_text_def name_pointer_def split: if_splits)

lemma wf_frame:
  assumes "wf_conf k" "frame X k k'" "X \<inter> statics = {}"
    "\<And>t. sym_is_choice_value (obj k t) \<Longrightarrow> sy_rev_tri (obj k' t) = sy_rev_tri (obj k t)"
  shows "wf_conf k'"
proof -
  have "valid k' t \<and> sy_curr (obj k' t) = sy_curr (obj k t)" if "t \<in> statics" for t
  proof -
    have v: "valid k t" "t \<notin> X" using assms(1,3) that by (auto simp: wf_conf_def)
    show ?thesis using frame_valid [OF assms(2) v(1)] frame_curr [OF assms(2) v] by simp
  qed
  then show ?thesis
    using assms(1,4) closed_frame [OF _ assms(2)]
    by (simp add: wf_conf_def syms_frame [OF assms(2)] sym_ok_frame [OF assms(2)] frame_fields(8) [OF assms(2)] frame_link [OF assms(2)])
qed

lemma step_rev: "step X k k' \<Longrightarrow> sym_is_choice_value (obj k t) \<Longrightarrow> sy_rev_tri (obj k' t) = sy_rev_tri (obj k t)"
  by (auto simp: step_def split: if_splits)

lemma ranked_frame: "ranked rank k \<Longrightarrow> frame X k k' \<Longrightarrow> ranked rank k'"
  by (simp add: ranked_def syms_frame deps_of_frame frame_deps(5))

lemma solved_good:
  assumes "stab (insert s (deps_of k s)) k' (\<lambda>k. solved k s)" "ranked rank k" "s \<in> set (syms_of k)" "cached k' s"
  shows "good rank k' s"
proof -
  have r: "u = s \<or> rank u < rank s" if "u \<in> deps_of k s" for u
    using bspec [OF assms(2) [unfolded ranked_def] assms(3)] that by blast
  have "False" if "rank s \<le> rank u" "u \<noteq> s" "u \<in> deps_of k s" for u
    using r [OF that(3)] that by simp
  then have X: "{u. rank s \<le> rank u \<and> u \<noteq> s} \<inter> insert s (deps_of k s) = {}" by blast
  show ?thesis
    unfolding good_def by (intro disjI2 conjI allI impI) (rule stab_same_spec [OF assms(1) _ X] assms(4), assumption?)+
qed

lemma untyped_solved:
  assumes "initial_curr (sy_type (obj k s)) = None" "s \<notin> X"
    "frame X (set_curr s \<lparr>v_val = name_pointer s (obj k s), v_tri = Tno\<rparr> (mark_valid s k)) k'"
  shows "solved k' s"
proof -
  let ?k = "set_curr s \<lparr>v_val = name_pointer s (obj k s), v_tri = Tno\<rparr> (mark_valid s k)"
  have v: "valid ?k s" using mark_valid_fields(5) [of s k s] by (simp add: set_curr_def valid_def has_flag_def obj_upd)
  have e: "erase (obj ?k s) = erase (obj k s)" using mark_valid_fields(1) [of s k s] by (simp add: set_curr_def obj_upd erase_def)
  have "sy_curr (obj k' s) = \<lparr>v_val = name_pointer s (obj k s), v_tri = Tno\<rparr>"
    using frame_curr [OF assms(3) v assms(2)] by (simp add: set_curr_def obj_upd)
  moreover have "sy_type (obj k' s) = sy_type (obj k s)" "sy_name (obj k' s) = sy_name (obj k s)"
    using frame_fields(1,2) [OF assms(3), of s] erase_cong(1,2) [OF e] by simp_all
  moreover have "\<not> tri_type (sy_type (obj k s))" "\<not> text_type (sy_type (obj k s))"
    using assms(1) by (auto simp: tri_type_def text_type_def)
  ultimately show ?thesis by (simp add: solved_def Let_def name_pointer_def)
qed

definition solves :: "(sym \<Rightarrow> nat) \<Rightarrow> kconf \<Rightarrow> sym \<Rightarrow> kconf \<Rightarrow> bool" where
  "solves rank k s k' \<longleftrightarrow> step {} k k' \<and> valid k' s \<and> (\<forall>t. valid k' t \<longrightarrow> valid k t \<or> rank t \<le> rank s) \<and>
     good_upto rank (Suc (rank s)) k'"

lemma good_upto_step:
  assumes "good_upto rank r k" "step {} k k'" "ranked rank k" "\<And>t. t \<in> set (syms_of k) \<Longrightarrow> valid k' t \<Longrightarrow> rank t < r \<Longrightarrow> \<not> valid k t \<Longrightarrow> good rank k' t"
  shows "good_upto rank r k'"
  unfolding good_upto_def syms_frame [OF step_frame [OF assms(2)]]
proof (intro ballI impI)
  fix t assume t: "t \<in> set (syms_of k)" "valid k' t" "rank t < r"
  show "good rank k' t"
  proof (cases "valid k t")
    case True
    then have "good rank k t" using assms(1) t by (simp add: good_upto_def)
    then show ?thesis by (rule good_step [OF _ assms(2) _ assms(3) t(1)]) simp
  next
    case False then show ?thesis using assms(4) t by blast
  qed
qed

definition calc_inv :: "(sym \<Rightarrow> nat) \<Rightarrow> nat \<Rightarrow> kconf \<Rightarrow> sym \<Rightarrow> kconf \<Rightarrow> bool" where
  "calc_inv rank n k s k' \<longleftrightarrow> wf_conf k' \<and> syms_of k' = syms_of k \<and> ranked rank k' \<and> invalid_count k' < n \<and>
     (\<forall>t. valid k' t \<longrightarrow> t = s \<or> valid k t \<or> rank t < rank s) \<and> good_upto rank (rank s) k'"

lemma calc_inv_keeps:
  assumes "calc_inv rank n k s k1" "keeps_others s k1 k2" "s \<notin> statics" shows "calc_inv rank n k s k2"
proof -
  have st: "step {s} k1 k2" and f: "frame {s} k1 k2" and v: "\<And>t. valid k2 t = valid k1 t"
    using assms(2) keeps_frame by (auto simp: keeps_others_def)
  have "wf_conf k2"
    by (rule wf_frame [OF _ f]) (use assms step_rev [OF st] in \<open>auto simp: calc_inv_def\<close>)
  moreover have "good_upto rank (rank s) k2"
    unfolding good_upto_def syms_frame [OF f] v
  proof (intro ballI impI)
    fix t assume "t \<in> set (syms_of k1)" "valid k1 t" "rank t < rank s"
    moreover from this have "good rank k1 t" using assms(1) by (simp add: calc_inv_def good_upto_def)
    ultimately show "good rank k2 t" using assms(1) by (intro good_step [OF _ st]) (auto simp: calc_inv_def)
  qed
  ultimately show ?thesis
    using assms(1) ranked_frame [OF _ f] syms_frame [OF f] invalid_count_frame [OF f] v by (auto simp: calc_inv_def)
qed

lemma calc_inv_call:
  assumes "calc_inv rank n k s k1" "solves rank k1 d k2" "rank d < rank s" shows "calc_inv rank n k s k2"
proof -
  have st: "step {} k1 k2" and f: "frame {} k1 k2" using assms(2) by (auto simp: solves_def intro: step_frame)
  have new: "valid k1 t \<or> rank t \<le> rank d" if "valid k2 t" for t using assms(2) that by (simp add: solves_def)
  have "wf_conf k2" by (rule wf_frame [OF _ f]) (use assms(1) step_rev [OF st] in \<open>auto simp: calc_inv_def\<close>)
  moreover have "good_upto rank (rank s) k2"
  proof (rule good_upto_step [OF _ st])
    show "ranked rank k1" using assms(1) by (simp add: calc_inv_def)
    show "good_upto rank (rank s) k1" using assms(1) by (simp add: calc_inv_def)
    fix t assume t: "t \<in> set (syms_of k1)" "valid k2 t" "\<not> valid k1 t"
    then have "rank t < Suc (rank d)" using new [of t] by simp
    then show "good rank k2 t" using assms(2) t(1,2) syms_frame [OF f] by (simp add: solves_def good_upto_def)
  qed
  moreover have "\<forall>t. valid k2 t \<longrightarrow> t = s \<or> valid k t \<or> rank t < rank s"
  proof (intro allI impI)
    fix t assume "valid k2 t"
    then consider "valid k1 t" | "rank t \<le> rank d" using new by blast
    then show "t = s \<or> valid k t \<or> rank t < rank s"
      using assms(1,3) by cases (auto simp: calc_inv_def)
  qed
  ultimately show ?thesis
    using assms(1) ranked_frame [OF _ f] syms_frame [OF f] invalid_count_frame [OF f] by (auto simp: calc_inv_def)
qed

lemma calc_inv_text:
  assumes "calc_inv rank n k s k1" "d \<in> set (syms_of k)" "rank d < rank s" "valid k1 d" "stringy (obj k1 d)"
  shows "is_text (v_val (sy_curr (obj k1 d)))"
proof (cases "d \<in> statics")
  case True then show ?thesis using assms(1) by (auto simp: calc_inv_def wf_conf_def)
next
  case False
  have "good rank k1 d" using assms by (auto simp: calc_inv_def good_upto_def)
  then show ?thesis using good_now [OF _ False] solved_is_text assms(5) by blast
qed

lemma calc_solves_aux:
  assumes "wf_conf k" "ranked rank k" "s \<in> set (syms_of k)" "good_upto rank (Suc (rank s)) k" "invalid_count k < n"
  shows "okr True (solves rank k s) (sym_calc_value n k s)"
  using assms
proof (induction n arbitrary: k s)
  case (Suc n)
  show ?case
  proof (cases "valid k s")
    case True then show ?thesis using Suc.prems by (simp add: sym_calc_body_def valid_def solves_def)
  next
    case False
    have ns: "s \<notin> statics" using Suc.prems(1) False by (auto simp: wf_conf_def)
    show ?thesis
    proof (cases "initial_curr (sy_type (obj k s))")
      case None
      let ?k = "set_curr s \<lparr>v_val = name_pointer s (obj k s), v_tri = Tno\<rparr> (mark_valid s k)"
      note u = untyped_step [OF False, of "\<lparr>v_val = name_pointer s (obj k s), v_tri = Tno\<rparr>"]
      have "good rank ?k s"
        unfolding good_def by (intro disjI2 conjI allI impI, rule untyped_solved [OF None])
          (use None frame_fields(2) [OF step_frame [OF u(1)], of s] in auto)
      then have "good_upto rank (Suc (rank s)) ?k"
        using u by (intro good_upto_step [OF Suc.prems(4) u(1) Suc.prems(2)]) auto
      then have "solves rank k s ?k" using u by (auto simp: solves_def)
      moreover have "name_pointer s (obj (mark_valid s k) s) = name_pointer s (obj k s)"
        using erase_cong(1) [OF mark_valid_fields(1)] by (simp add: name_pointer_def)
      ultimately show ?thesis
        using False None by (simp add: sym_calc_body_def valid_def Let_def obj_upd)
    next
      case (Some newval)
      let ?k = "mark_valid s k" let ?ch = "sym_is_choice (obj k s) \<and> tri_type (sy_type (obj k s))"
      let ?L = "{d \<in> set (syms_of k). rank d < rank s} \<union> (if ?ch then {s} else {})"
      have ctx: "calc_context True (sym_calc_value n) s ?k (calc_inv rank n k s) ?L"
      proof
        fix k1 d assume f: "frame {s} ?k k1" and I: "calc_inv rank n k s k1" and "d \<in> ?L"
        then consider "d = s" | "d \<in> set (syms_of k)" "rank d < rank s" by (auto split: if_splits)
        then show "okr True (\<lambda>k'. step {} k1 k' \<and> valid k' d \<and> calc_inv rank n k s k') (sym_calc_value n k1 d)"
        proof cases
          case 1
          have "valid k1 s" using frame_valid [OF f] by (simp add: mark_valid_fields)
          moreover obtain m where "n = Suc m" using I by (cases n) (auto simp: calc_inv_def)
          ultimately show ?thesis using 1 I by (simp add: sym_calc_body_def valid_def)
        next
          case 2
          have "okr True (solves rank k1 d) (sym_calc_value n k1 d)"
            using I 2 by (intro Suc.IH) (auto simp: calc_inv_def good_upto_def)
          then show ?thesis
            by (rule okr_mono) (use calc_inv_call [OF I _ 2(2)] in \<open>auto simp: solves_def\<close>)
        qed
      next
        show "calc_inv rank n k s k1 \<Longrightarrow> keeps_others s k1 k2 \<Longrightarrow> calc_inv rank n k s k2" for k1 k2
          using calc_inv_keeps ns by blast
        show "valid ?k s" by (simp add: mark_valid_fields)
        fix k1 d assume f: "frame {s} ?k k1" and I: "calc_inv rank n k s k1" and "d \<in> ?L" "valid k1 d" "stringy (obj ?k d)"
        have e: "erase (obj k1 d) = erase (obj k d)" using frame_static [OF f] mark_valid_fields(1) by simp
        have st: "stringy (obj k1 d)" "stringy (obj k d)"
          using stringy_cong(1) [OF e] stringy_cong(1) [OF mark_valid_fields(1)] \<open>stringy (obj ?k d)\<close> by blast+
        then have "d \<in> set (syms_of k)" "rank d < rank s"
          using \<open>d \<in> ?L\<close> by (auto simp: stringy_def split: if_splits)
        then show "is_text (v_val (sy_curr (obj k1 d)))"
          using calc_inv_text [OF I] \<open>valid k1 d\<close> st(1) by blast
      qed
      have rk: "\<And>u. u \<in> set (val_deps (obj k s)) \<Longrightarrow> rank u < rank s" "\<And>u. u \<in> deps_of k s \<Longrightarrow> u = s \<or> rank u < rank s"
        using bspec [OF Suc.prems(2) [unfolded ranked_def] Suc.prems(3)] by blast+
      have cl: "closed_conf k" using Suc.prems(1) by (simp add: wf_conf_def)
      have "good_upto rank (rank s) ?k"
      proof (rule good_upto_step [OF _ mark_step Suc.prems(2)])
        show "good_upto rank (rank s) k" using Suc.prems(4) by (simp add: good_upto_def)
      qed (auto simp: mark_valid_fields)
      then have Ik: "calc_inv rank n k s ?k"
        using Suc.prems invalid_count_start [OF Suc.prems(3) False] wf_frame [OF Suc.prems(1) mark_frame]
          ranked_frame [OF Suc.prems(2) mark_frame] syms_frame [OF mark_frame]
        by (auto simp: calc_inv_def mark_valid_fields)
      have deps: "set (val_deps (obj k s)) \<subseteq> ?L"
        using cl Suc.prems(3) rk(1) unfolding closed_conf_def by blast
      have cand: "set (vis_deps (obj k d)) \<subseteq> ?L \<and> set (rev_deps (obj k d)) \<subseteq> ?L \<and> (True \<longrightarrow> sym_ok k (obj k d))"
        if c: "sym_is_choice (obj k s)" "tri_type (sy_type (obj k s))" "d \<in> set (possible (obj k s))" for d
      proof -
        have "set (vis_deps (obj k d)) \<union> set (rev_deps (obj k d)) \<subseteq> deps_of k s"
          using c by (auto simp: deps_of_def cand_deps_def)
        moreover have "x \<in> ?L" if "x \<in> deps_of k s" "x \<in> set (syms_of k)" for x
          using rk(2) [OF that(1)] that(2) c(1,2) by auto
        ultimately have "set (vis_deps (obj k d)) \<subseteq> ?L" "set (rev_deps (obj k d)) \<subseteq> ?L"
          using cand_closed [OF cl Suc.prems(3) c(3)] by blast+
        moreover have "d \<in> set (syms_of k)" using cl Suc.prems(3) c(3) unfolding closed_conf_def by blast
        ultimately show ?thesis using Suc.prems(1) unfolding wf_conf_def by blast
      qed
      have "okr True (\<lambda>k'. step {} k k' \<and> valid k' s \<and> calc_inv rank n k s k' \<and>
          (True \<and> s \<notin> set (val_deps (obj k s)) \<longrightarrow> stab (insert s (deps_of k s)) k' (\<lambda>k. solved k s) \<and> cached k' s))
        (sym_calc_body (sym_calc_value n) k s)"
        by (rule activation [OF ctx Ik False _ deps cand _ _ Some]) (use Suc.prems in \<open>auto simp: wf_conf_def\<close>)
      then show ?thesis
      proof (simp, elim okr_mono, goal_cases)
        case (1 k')
        then have st: "step {} k k'" and I: "calc_inv rank n k s k'" by auto
        have "s \<notin> set (val_deps (obj k s))" using rk(1) by blast
        then have gs: "good rank k' s" using solved_good [OF _ Suc.prems(2,3)] 1 by blast
        have new: "valid k' t \<Longrightarrow> t = s \<or> valid k t \<or> rank t < rank s" for t using I by (simp add: calc_inv_def)
        have "good_upto rank (Suc (rank s)) k'"
        proof (rule good_upto_step [OF Suc.prems(4) st Suc.prems(2)])
          fix t assume "t \<in> set (syms_of k)" "valid k' t" "\<not> valid k t"
          then show "good rank k' t"
            using new [of t] gs I by (auto simp: calc_inv_def good_upto_def)
        qed
        then show ?case using 1 new by (auto simp: solves_def dest: less_imp_le)
      qed
    qed
  qed
qed simp

end
