(* ===== verification/Kconfig_Number.thy ===== *)
theory Kconfig_Number
  imports Kconfig_Symbol
begin

text \<open>
  Numbers as text: what \<open>sprintf\<close> writes, \<open>strtol\<close> reads back, and the numbers that
  \<open>sym_string_valid\<close> accepts.
\<close>

section \<open>Digits\<close>

lemma digit_char_code: "d < 16 \<Longrightarrow> of_char (digit_char d) = (if d < 10 then 48 + d else 87 + d :: nat)"
  by (simp add: digit_char_def)

lemma digit_char_value [simp]: "d < 16 \<Longrightarrow> digit_value (digit_char d) = d"
  by (simp add: digit_value_def digit_char_code Let_def)

lemma digit_char_ok: "d < base \<Longrightarrow> base \<le> 16 \<Longrightarrow> base = 16 \<or> base \<le> 10 \<Longrightarrow> digit_ok base (digit_char d)"
  by (auto simp: digit_ok_def isxdigit_def isdigit_def digit_char_code)

lemma number_string_ok:
  assumes "base = 10 \<or> base = 16"
  shows "(\<forall>c\<in>set (number_string base n). digit_ok base c) \<and> number_value base (number_string base n) = n \<and> number_string base n \<noteq> []"
  using assms
proof (induction n rule: less_induct)
  case (less n)
  have b: "base \<le> 16" "\<not> base < 2" "base = 16 \<or> base \<le> 10" using less.prems by auto
  show ?case
  proof (cases "n < base")
    case True
    then show ?thesis using b by (auto simp: number_string.simps [of base n] number_value_def digit_char_ok)
  next
    case False
    then have lt: "n div base < n" using b by (intro div_less_dividend) auto
    note IH = less.IH [OF lt less.prems]
    have m: "n mod base < base" using b by simp
    then have "n mod base < 16" using b(1) by simp
    with m show ?thesis
      using IH False b by (auto simp: number_string.simps [of base n] number_value_def digit_char_ok)
  qed
qed

lemma takeWhile_all: "\<forall>c\<in>set s. P c \<Longrightarrow> takeWhile P s = s"
  by (induction s) auto

lemma digit_not_special:
  assumes "digit_ok base c" shows "\<not> isspace c" "c \<noteq> CHR ''-''" "c \<noteq> CHR ''+''" "c \<noteq> CHR ''x''" "c \<noteq> CHR ''X''"
  using assms by (auto simp: digit_ok_def isxdigit_def isdigit_def isspace_def split: if_splits)

lemma number_string_read:
  assumes "base = 10 \<or> base = 16"
  shows "dropWhile isspace (number_string base n) = number_string base n"
    "strip_sign (number_string base n) = (False, number_string base n)"
    "takeWhile (digit_ok base) (number_string base n) = number_string base n"
    "strip_0x (number_string base n) = number_string base n"
proof -
  note ok = number_string_ok [OF assms, of n]
  obtain c t where ct: "number_string base n = c # t" using ok by (cases "number_string base n") auto
  then have c: "digit_ok base c" using ok by auto
  show "dropWhile isspace (number_string base n) = number_string base n" "strip_sign (number_string base n) = (False, number_string base n)"
    using digit_not_special [OF c] by (simp_all add: ct)
  show "takeWhile (digit_ok base) (number_string base n) = number_string base n"
    using ok by (simp add: takeWhile_all)
  show "strip_0x (number_string base n) = number_string base n"
  proof (cases t)
    case Nil then show ?thesis by (simp add: ct)
  next
    case (Cons d u)
    then have "digit_ok base d" using ok ct by auto
    then show ?thesis using digit_not_special(4,5) by (cases u) (auto simp: ct Cons)
  qed
qed

section \<open>Round trips\<close>

definition int32 :: "int \<Rightarrow> bool" where
  "int32 v \<longleftrightarrow> - (2 ^ 31) \<le> v \<and> v < 2 ^ 31"

lemma to_int_int32: "int32 (to_int v)"
  using signed_take_bit_int_greater_eq_minus_exp [of 31 v] signed_take_bit_int_less_exp [of 31 v]
  by (simp add: to_int_def int32_def)

lemma to_int_id: "int32 v \<Longrightarrow> to_int v = v"
  by (simp add: to_int_def int32_def signed_take_bit_int_eq_self)

lemma strtol_print_int:
  assumes "int32 v" shows "to_int (strtol (print_int v) 10) = v"
proof -
  have n: "number_value 10 (number_string 10 n) = n" for n using number_string_ok [of 10] by simp
  have "strtol (print_int v) 10 = v"
  proof (cases "v < 0")
    case True
    then have "strtol (print_int v) 10 = max (- (2 ^ 63)) (min (2 ^ 63 - 1) v)"
      by (simp add: strtol_def print_int_def isspace_def number_string_read n Let_def)
    then show ?thesis using assms by (simp add: int32_def)
  next
    case False
    then have "strtol (print_int v) 10 = max (- (2 ^ 63)) (min (2 ^ 63 - 1) v)"
      by (simp add: strtol_def print_int_def number_string_read n)
    then show ?thesis using assms by (simp add: int32_def)
  qed
  then show ?thesis using to_int_id [OF assms] by simp
qed

lemma strtol_print_hex:
  assumes "int32 v" shows "to_int (strtol (print_hex v) 16) = v"
proof -
  let ?n = "nat (take_bit 32 v)"
  note ok = number_string_ok [of 16 ?n, simplified]
  obtain c t where ct: "number_string 16 ?n = c # t" using ok by (cases "number_string 16 ?n") auto
  have "isxdigit c" using ok ct by (auto simp: digit_ok_def)
  then have "strtol (print_hex v) 16 = min (2 ^ 63 - 1) (take_bit 32 v)"
    using ok by (simp add: strtol_def print_hex_def isspace_def ct Let_def takeWhile_all)
  moreover have "take_bit 32 v < 2 ^ 32" "0 \<le> take_bit 32 v"
    using take_bit_int_less_exp [of 32 v] by simp_all
  ultimately have "strtol (print_hex v) 16 = take_bit 32 v" by simp
  then show ?thesis
    using to_int_id [OF assms] by (simp add: to_int_def signed_take_bit_take_bit)
qed

end
