(* ===== verification/Kconfig_Eval.thy ===== *)
theory Kconfig_Eval
  imports Kconfig_Solve Kconfig_Number
begin

text \<open>
  Evaluation of symbol after symbol, over \<open>sym_calc\<close>, the evaluation with the bound that is
  always enough: what holds of the table in between, and what a reader of an evaluated
  symbol, choice or choice value sees.
\<close>

section \<open>Evaluation of several symbols\<close>

text \<open>The loops that evaluate symbol after symbol (\<open>conf_read\<close>, the front ends).\<close>

primrec sym_calc_all :: "kconf \<Rightarrow> sym list \<Rightarrow> kerr + kconf" where
  "sym_calc_all k [] = Inr k"
| "sym_calc_all k (s # ss) = rbind (sym_calc k s) (\<lambda>k1. sym_calc_all k1 ss)"

definition none_valid :: "kconf \<Rightarrow> bool" where
  "none_valid k \<longleftrightarrow> (\<forall>s\<in>set (syms_of k). valid k s \<longrightarrow> s \<in> statics)"

definition well_solved :: "(sym \<Rightarrow> nat) \<Rightarrow> kconf \<Rightarrow> bool" where
  "well_solved rank k \<longleftrightarrow> wf_conf k \<and> ranked rank k \<and> (\<forall>t\<in>set (syms_of k). valid k t \<longrightarrow> good rank k t)"

lemma none_valid_solved: "wf_conf k \<Longrightarrow> ranked rank k \<Longrightarrow> none_valid k \<Longrightarrow> well_solved rank k"
  by (auto simp: well_solved_def none_valid_def good_def)

lemma sym_calc_step:
  assumes "well_solved rank k" "s \<in> set (syms_of k)"
  obtains k' where "sym_calc k s = Inr k'" "well_solved rank k'" "valid k' s" "step {} k k'"
proof -
  have "okr True (solves rank k s) (sym_calc_value (Suc (invalid_count k)) k s)"
    using assms by (intro calc_solves_aux) (auto simp: well_solved_def good_upto_def)
  then obtain k' where k': "sym_calc k s = Inr k'" "solves rank k s k'"
    by (cases "sym_calc_value (Suc (invalid_count k)) k s") (auto simp: okr_def sym_calc_def)
  have f: "frame {} k k'" and st: "step {} k k'" using k'(2) by (auto simp: solves_def intro: step_frame)
  have "wf_conf k'" using assms(1) step_rev [OF st] by (intro wf_frame [OF _ f]) (auto simp: well_solved_def)
  moreover have "good rank k' t" if t: "t \<in> set (syms_of k)" "valid k' t" for t
  proof (cases "valid k t")
    case True
    then have "good rank k t" using assms(1) t by (simp add: well_solved_def)
    then show ?thesis
      using assms(1) t(1) by (intro good_step [OF _ st]) (auto simp: well_solved_def)
  next
    case False
    then have "rank t \<le> rank s" using k'(2) t by (auto simp: solves_def)
    then show ?thesis using k'(2) t syms_frame [OF f] by (auto simp: solves_def good_upto_def)
  qed
  ultimately have "well_solved rank k'"
    using assms(1) ranked_frame [OF _ f] syms_frame [OF f] by (simp add: well_solved_def)
  with k' st that show thesis by (auto simp: solves_def)
qed

lemma sym_calc_all_step:
  assumes "well_solved rank k" "set ss \<subseteq> set (syms_of k)"
  shows "\<exists>k'. sym_calc_all k ss = Inr k' \<and> well_solved rank k' \<and> (\<forall>s\<in>set ss. valid k' s) \<and> step {} k k'"
  using assms
proof (induction ss arbitrary: k)
  case (Cons s ss)
  obtain k1 where k1: "sym_calc k s = Inr k1" "well_solved rank k1" "valid k1 s" "step {} k k1"
    using sym_calc_step [OF Cons.prems(1), of s] Cons.prems(2) by auto
  have "set ss \<subseteq> set (syms_of k1)" using Cons.prems(2) syms_frame [OF step_frame [OF k1(4)]] by auto
  from Cons.IH [OF k1(2) this] obtain k' where k': "sym_calc_all k1 ss = Inr k'" "well_solved rank k'"
      "\<forall>s\<in>set ss. valid k' s" "step {} k1 k'" by blast
  have "valid k' s" using frame_valid [OF step_frame [OF k'(4)] k1(3)] .
  with k1 k' step_trans [OF k1(4) k'(4)] show ?case by auto
qed auto

lemma well_solved_now: "well_solved rank k \<Longrightarrow> s \<in> set (syms_of k) \<Longrightarrow> valid k s \<Longrightarrow> s \<notin> statics \<Longrightarrow> solved k s"
  using good_now by (auto simp: well_solved_def)

text \<open>What a reader of an evaluated symbol sees.\<close>

lemma well_solved_cache:
  assumes "well_solved rank k" "s \<in> set (syms_of k)" "valid k s" "s \<notin> statics" "initial_curr (sy_type (obj k s)) \<noteq> None"
  shows "spec_vis k s = sy_visible (obj k s)"
    "\<not> spec_desel k s \<Longrightarrow> spec_select k s = sy_rev_tri (obj k s)"
proof -
  have c: "cached k s" using assms by (auto simp: well_solved_def good_def)
  show "spec_vis k s = sy_visible (obj k s)"
    using c stab_now [of _ k "\<lambda>k'. spec_vis k' s = sy_visible (obj k s)"] by (auto simp: cached_def)
  assume d: "\<not> spec_desel k s"
  show "spec_select k s = sy_rev_tri (obj k s)"
  proof (cases "sym_is_choice_value (obj k s)")
    case True then show ?thesis using assms(1,2) by (auto simp: spec_select_def well_solved_def wf_conf_def)
  next
    case False
    then show ?thesis
      using c d stab_now [of _ k "\<lambda>k'. spec_rev k' s = sy_rev_tri (obj k s)"] by (auto simp: cached_def spec_select_def)
  qed
qed

lemma evaluated_tri:
  assumes "well_solved rank k" "s \<in> set (syms_of k)" "valid k s" "s \<notin> statics" "tri_type (sy_type (obj k s))"
  shows "sy_curr (obj k s) = spec_curr k s"
  using well_solved_now [OF assms(1-4)] assms(5) by (simp add: solved_def Let_def)

text \<open>The tristate of an evaluated symbol in terms of its own fields.\<close>

lemma evaluated_free:
  assumes "well_solved rank k" "s \<in> set (syms_of k)" "valid k s" "s \<notin> statics" "tri_type (sy_type (obj k s))"
    and "\<not> sym_is_choice (obj k s)" "\<not> (sym_is_choice_value (obj k s) \<and> sy_visible (obj k s) = Tyes)"
    and "sy_rev_dep_inv (obj k s) = None" "max (sy_visible (obj k s)) (sy_rev_tri (obj k s)) \<noteq> Tno"
  shows "v_tri (sy_curr (obj k s)) = raise (sy_type (obj k s) = S_BOOLEAN)
      (max (min (sym_wish k s) (sy_visible (obj k s))) (sy_rev_tri (obj k s)))"
proof -
  have ini: "initial_curr (sy_type (obj k s)) \<noteq> None" using assms(5) by (auto simp: tri_type_def)
  note c = well_solved_cache [OF assms(1-4) ini]
  have d: "\<not> spec_desel k s" using assms(8) by (simp add: spec_desel_def)
  have "spec_tri k s = raise (sy_type (obj k s) = S_BOOLEAN)
      (max (min (sym_wish k s) (sy_visible (obj k s))) (sy_rev_tri (obj k s)))"
    using assms(7,9) c(1) c(2) [OF d] d
    by (auto simp: spec_tri_def picked_by_choice_def spec_free_def tri_or_max tri_and_min)
  then show ?thesis
    using evaluated_tri [OF assms(1-5)] assms(6) by (simp add: spec_curr_def)
qed

lemma vis_not_mod:
  "spec_vis k s \<noteq> Tmod" if "sy_type (obj k s) = S_BOOLEAN"
  using that by (simp add: spec_vis_def raise_def)

lemma rev_not_mod: "spec_select k s \<noteq> Tmod" if "sy_type (obj k s) = S_BOOLEAN"
  using that by (simp add: spec_select_def spec_rev_def raise_def)

lemma clamp_tri:
  assumes "b \<Longrightarrow> v \<noteq> Tmod \<and> r \<noteq> Tmod"
  shows "r \<le> raise b (max (min w v) r)" "raise b (max (min w v) r) \<le> max v r"
    "r \<le> w \<Longrightarrow> w \<le> v \<Longrightarrow> (b \<Longrightarrow> w \<noteq> Tmod) \<Longrightarrow> raise b (max (min w v) r) = w"
  using assms by (cases v; cases r; cases w; auto simp: raise_def max_def min_def tri_order)+

text \<open>Its bounds, and the value of the user within them.\<close>

lemma bounded_value:
  assumes "well_solved rank k" "s \<in> set (syms_of k)" "valid k s" "s \<notin> statics" "y = obj k s" "tri_type (sy_type y)" "\<not> sym_is_choice y"
    and "\<not> (sym_is_choice_value y \<and> sy_visible y = Tyes)" "sy_rev_dep_inv y = None" "max (sy_visible y) (sy_rev_tri y) \<noteq> Tno"
  shows "sy_rev_tri y \<le> v_tri (sy_curr y) \<and> v_tri (sy_curr y) \<le> max (sy_visible y) (sy_rev_tri y) \<and>
     (sym_has_value y \<and> sym_tristate_within_range y (v_tri (sy_user y)) \<longrightarrow> v_tri (sy_curr y) = v_tri (sy_user y))"
proof -
  have v: "v_tri (sy_curr y) = raise (sy_type y = S_BOOLEAN) (max (min (sym_wish k s) (sy_visible y)) (sy_rev_tri y))"
    using evaluated_free [OF assms(1-4)] assms(5-10) by simp
  have ini: "initial_curr (sy_type (obj k s)) \<noteq> None" using assms(5,6) by (auto simp: tri_type_def)
  have d: "\<not> spec_desel k s" using assms(5,9) by (simp add: spec_desel_def)
  note c = well_solved_cache [OF assms(1-4) ini]
  have nm: "sy_type y = S_BOOLEAN \<Longrightarrow> sy_visible y \<noteq> Tmod \<and> sy_rev_tri y \<noteq> Tmod"
    using vis_not_mod [of k s] rev_not_mod [of k s] c(1) c(2) [OF d] assms(5) by auto
  have ty: "sym_get_type y = sy_type y" using assms(8) by (auto simp: sym_get_type_def)
  show ?thesis
    unfolding v
  proof (intro conjI impI clamp_tri(1) [OF nm] clamp_tri(2) [OF nm])
    assume u: "sym_has_value y \<and> sym_tristate_within_range y (v_tri (sy_user y))"
    then have w: "sym_wish k s = v_tri (sy_user y)" using assms(5) by (simp add: sym_wish_def)
    show "raise (sy_type y = S_BOOLEAN) (max (min (sym_wish k s) (sy_visible y)) (sy_rev_tri y)) = v_tri (sy_user y)"
      unfolding w by (rule clamp_tri(3) [OF nm])
        (use u assms(8) ty in \<open>auto simp: sym_tristate_within_range_def Let_def split: if_splits\<close>)
  qed
qed

lemma run_solved:
  assumes "wf_conf k" "ranked rank k" "none_valid k" "set ss \<subseteq> set (syms_of k)" "sym_calc_all k ss = Inr k'"
  shows "well_solved rank k'" "syms_of k' = syms_of k" "frame {} k k'" "s \<in> set ss \<Longrightarrow> valid k' s"
  using sym_calc_all_step [OF none_valid_solved [OF assms(1-3)] assms(4)] assms(5) syms_frame step_frame by fastforce+

section \<open>Choices\<close>

lemma choice_on_obj:
  "erase (obj (choice_on s k) t) = erase (obj k t)" "t \<noteq> s \<Longrightarrow> obj (choice_on s k) t = obj k t"
  "sy_type (obj (choice_on s k) t) = sy_type (obj k t)" "sy_prop (obj (choice_on s k) t) = sy_prop (obj k t)"
  "sy_rev_dep_inv (obj (choice_on s k) t) = sy_rev_dep_inv (obj k t)"
  by (simp_all add: choice_on_def set_curr_def obj_upd erase_def)

lemma eval_choice_on:
  assumes "v_tri (sy_curr (obj k s)) = Tyes" "tri_type (sy_type (obj k s))"
  shows "eval (choice_on s k) e = eval k e"
proof -
  have "sym_string (obj (choice_on s k) t) = sym_string (obj k t)" for t
    using assms by (cases "t = s") (auto simp: choice_on_obj(2) sym_string_def choice_on_obj(3) tri_type_def,
      auto simp: choice_on_def set_curr_def obj_upd symbol_no_curr_def)
  moreover have "v_tri (sy_curr (obj (choice_on s k) t)) = v_tri (sy_curr (obj k t))" for t
    using assms(1) by (simp add: choice_on_def set_curr_def obj_upd symbol_no_curr_def)
  ultimately show ?thesis by (induction e) simp_all
qed

lemma vis_choice_on:
  assumes "v_tri (sy_curr (obj k s)) = Tyes" "tri_type (sy_type (obj k s))"
  shows "spec_vis (choice_on s k) d = spec_vis k d"
proof -
  note e = eval_choice_on [OF assms]
  have "prop_vis (choice_on s k) d i = prop_vis k d i" "has_prompt (choice_on s k) d i = has_prompt k d i" for i
    by (simp_all add: prop_vis_def eval_opt_def has_prompt_def choice_on_obj e split: option.splits)
  then have "prompts_vis (choice_on s k) d is t = prompts_vis k d is t" for "is" t
    by (induction "is" arbitrary: t) simp_all
  then show ?thesis by (simp add: spec_vis_def spec_desel_def choice_on_obj e split: option.splits)
qed

lemma candidates_possible: "set (candidates k s) \<subseteq> set (possible (obj k s))"
proof -
  have "set (default_candidates k s (prop_indices k s)) \<subseteq>
      set (prop_deps (\<lambda>p. p_type p = P_DEFAULT) (\<lambda>p. case prop_get_symbol p of None \<Rightarrow> [] | Some d \<Rightarrow> [d]) (obj k s))"
    unfolding prop_deps_set default_candidates_def by (auto split: if_splits)
  then show ?thesis
    by (auto simp: candidates_def possible_def user_candidates_def value_candidates_def)
qed

lemma evaluated_choice:
  assumes "well_solved rank k" "cs \<in> set (syms_of k)" "valid k cs" "cs \<notin> statics"
    and "sym_is_choice (obj k cs)" "tri_type (sy_type (obj k cs))" "v_tri (sy_curr (obj k cs)) = Tyes"
  obtains d where "v_val (sy_curr (obj k cs)) = V_sym d" "d \<in> set (possible (obj k cs))" "spec_vis k d \<noteq> Tno"
    "\<And>u. v_val (sy_user (obj k cs)) = V_sym u \<Longrightarrow> spec_vis k u \<noteq> Tno \<Longrightarrow> d = u"
proof -
  have "sy_curr (obj k cs) = spec_curr k cs" using assms(1-6) by (intro evaluated_tri)
  then obtain d where ch: "spec_choose (choice_on cs k) cs = Some d" and cur: "sy_curr (obj k cs) = \<lparr>v_val = V_sym d, v_tri = Tyes\<rparr>"
    using assms(5,7) by (auto simp: spec_curr_def symbol_no_curr_def split: if_splits option.splits)
  have vis: "spec_vis (choice_on cs k) t = spec_vis k t" for t using vis_choice_on [OF assms(7,6)] .
  have poss: "possible (obj (choice_on cs k) cs) = possible (obj k cs)"
    and usr: "sy_user (obj (choice_on cs k) cs) = sy_user (obj k cs)"
    using deps_cong(6) [OF choice_on_obj(1)] erase_cong(3) [OF choice_on_obj(1)] by auto
  have d: "d \<in> set (possible (obj k cs))" "spec_vis k d \<noteq> Tno"
    using ch candidates_possible [of "choice_on cs k" cs] poss
    by (auto simp: spec_choose_def vis find_Some_iff nth_mem)
  have u: "d = u" if "v_val (sy_user (obj k cs)) = V_sym u" "spec_vis k u \<noteq> Tno" for u
    using ch that usr by (simp add: spec_choose_def candidates_def user_candidates_def vis)
  show thesis using that cur d u by simp
qed

lemma evaluated_choice_value:
  assumes "well_solved rank k" "v \<in> set (syms_of k)" "valid k v" "v \<notin> statics" "sym_is_choice_value (obj k v)" "\<not> sym_is_choice (obj k v)"
    and "choice_of (obj k v) = Inr cs" "tri_type (sy_type (obj k v))" "sy_visible (obj k v) = Tyes"
    and "v_val (sy_curr (obj k cs)) = V_sym d"
  shows "v_tri (sy_curr (obj k v)) = Tyes \<longleftrightarrow> v = d"
proof -
  have ini: "initial_curr (sy_type (obj k v)) \<noteq> None" using assms(8) by (auto simp: tri_type_def)
  have "spec_vis k v = Tyes" using well_solved_cache(1) [OF assms(1-4) ini] assms(9) by simp
  moreover have "sy_curr (obj k v) = spec_curr k v" by (rule evaluated_tri [OF assms(1-4,8)])
  ultimately show ?thesis
    using assms(5-7,10) by (auto simp: spec_curr_def spec_tri_def picked_by_choice_def choice_picks_def symbol_no_curr_def)
qed

section \<open>Configurations as examples\<close>

definition demo_prop :: "prop_type \<Rightarrow> string option \<Rightarrow> expr option \<Rightarrow> pexpr \<Rightarrow> property" where
  "demo_prop t txt vis e = \<lparr>p_type = t, p_text = txt, p_visible = vis, p_tri = Tno, p_expr = e, p_menu = None\<rparr>"

definition demo_sym :: "string option \<Rightarrow> symbol_type \<Rightarrow> symval \<Rightarrow> tristate \<Rightarrow> u32 \<Rightarrow> property list \<Rightarrow> expr option \<Rightarrow> ksymbol" where
  "demo_sym n ty uv ut fl ps rd = \<lparr>sy_name = n, sy_type = ty, sy_curr = \<lparr>v_val = V_NULL, v_tri = Tno\<rparr>,
     sy_user = \<lparr>v_val = uv, v_tri = ut\<rparr>, sy_visible = Tno, sy_flags = fl, sy_prop = ps,
     sy_rev_dep = rd, sy_rev_tri = Tno, sy_rev_dep_inv = None\<rparr>"

fun table_of :: "ksymbol list \<Rightarrow> sym \<Rightarrow> ksymbol" where
  "table_of ys (Sym a) = (if a < length ys then ys ! a else new_symbol None False)"
| "table_of ys s = kconf_start_tab s"

fun demo_rank :: "sym \<Rightarrow> nat" where
  "demo_rank (Sym a) = Suc (if a = 5 then 8 else a)"
| "demo_rank s = 0"

text \<open>
  A boolean that the user has set, a tristate that depends on it, a choice of two values of
  which the user has picked the second, and a number out of its range.
\<close>

definition demo_syms :: "ksymbol list" where
  "demo_syms =
    [demo_sym (Some ''NET'') S_BOOLEAN V_NULL Tyes 0 [demo_prop P_PROMPT (Some ''net'') None PE_NULL] None,
     demo_sym (Some ''USB'') S_TRISTATE V_NULL Tno SYMBOL_NEW
       [demo_prop P_PROMPT (Some ''usb'') (Some (E_SYMBOL (Sym 0))) PE_NULL,
        demo_prop P_DEFAULT None None (PE_EXPR (E_SYMBOL symbol_mod))] None,
     demo_sym None S_BOOLEAN (V_sym (Sym 4)) Tno SYMBOL_CHOICE
       [demo_prop P_CHOICE None None (PE_CHOICE [Sym 3, Sym 4]), demo_prop P_PROMPT (Some ''target'') None PE_NULL]
       (Some (E_SYMBOL symbol_mod)),
     demo_sym (Some ''T1'') S_BOOLEAN V_NULL Tno SYMBOL_CHOICEVAL
       [demo_prop P_PROMPT (Some ''t1'') (Some (E_SYMBOL (Sym 2))) PE_NULL, demo_prop P_CHOICE None None (PE_EXPR (E_SYMBOL (Sym 2)))] None,
     demo_sym (Some ''T2'') S_BOOLEAN V_NULL Tyes SYMBOL_CHOICEVAL
       [demo_prop P_PROMPT (Some ''t2'') (Some (E_SYMBOL (Sym 2))) PE_NULL, demo_prop P_CHOICE None None (PE_EXPR (E_SYMBOL (Sym 2)))] None,
     demo_sym (Some ''SIZE'') S_INT (V_heap 0 ''300'') Tno 0
       [demo_prop P_PROMPT (Some ''size'') None PE_NULL, demo_prop P_RANGE None None (PE_RANGE (Sym 6) (Sym 7))] None,
     demo_sym (Some ''10'') S_UNKNOWN V_NULL Tno (SYMBOL_NEW OR SYMBOL_CONST) [] None,
     demo_sym (Some ''200'') S_UNKNOWN V_NULL Tno (SYMBOL_NEW OR SYMBOL_CONST) [] None]"

definition demo :: kconf where
  "demo = kconf_start\<lparr>k_tab := table_of demo_syms, k_count := length demo_syms, k_heap := 1\<rparr>"

lemma demo_wf: "wf_conf demo" "ranked demo_rank demo" "none_valid demo"
  by code_simp+

end
