(* ===== verification/Kconfig_Sym_Props.thy ===== *)
theory Kconfig_Sym_Props
  imports Kconfig_Eval
begin

text \<open>The properties of the evaluation of symbols.\<close>

section \<open>Properties\<close>

text \<open>
  C20. The evaluation of a symbol always ends, for every table whose expressions and choices
  name allocated symbols only, however the symbols depend on each other: with the depth of
  activations bounded by one more than the number of symbols that are not valid, it returns
  with the symbol valid, or stops at a null pointer.
\<close>

theorem sym_calc_terminates:
  assumes "closed_conf k" "s \<in> set (syms_of k)"
  shows "(\<exists>k'. sym_calc k s = Inr k' \<and> has_flag SYMBOL_VALID (obj k' s)) \<or> sym_calc k s = Inl Bad_pointer"
proof -
  have "okr False (\<lambda>k'. step {} k k' \<and> valid k' s) (sym_calc k s)"
    unfolding sym_calc_def by (rule calc_terminates_aux [OF assms]) simp
  then show ?thesis by (cases "sym_calc k s") (auto simp: okr_def valid_def)
qed

definition demo_loop :: kconf where
  "demo_loop = kconf_start\<lparr>k_tab := table_of
     [demo_sym (Some ''A'') S_BOOLEAN V_NULL Tyes 0 [demo_prop P_PROMPT (Some ''a'') (Some (E_SYMBOL (Sym 1))) PE_NULL] None,
      demo_sym (Some ''B'') S_BOOLEAN V_NULL Tyes 0 [demo_prop P_PROMPT (Some ''b'') (Some (E_SYMBOL (Sym 0))) PE_NULL] None],
     k_count := 2\<rparr>"

theorem sym_calc_terminates_witness:
  "(\<exists>k'. sym_calc demo_loop (Sym 0) = Inr k' \<and> has_flag SYMBOL_VALID (obj k' (Sym 0))) \<or> sym_calc demo_loop (Sym 0) = Inl Bad_pointer"
proof -
  have "closed_conf demo_loop" "Sym 0 \<in> set (syms_of demo_loop)" by code_simp+
  then show ?thesis by (rule sym_calc_terminates)
qed

text \<open>
  C1. Evaluation computes the meaning of the configuration. Let the table be well formed and
  free of cyclic dependencies, and let no symbol be valid yet. Then evaluating any
  symbols, in any order, meets no bad pointer, makes all of them valid, and every symbol that is
  valid afterwards, evaluated directly or on the way, has the value of its equation
  (\<open>solved\<close>): the value given by visibility, user value, defaults, select, deselect,
  choice and range as functions of the values of the other symbols.
\<close>

theorem sym_calc_solves:
  assumes "wf_conf k" "ranked rank k" "none_valid k" "set ss \<subseteq> set (syms_of k)"
  shows "\<exists>k'. sym_calc_all k ss = Inr k' \<and> (\<forall>s\<in>set ss. has_flag SYMBOL_VALID (obj k' s)) \<and>
     (\<forall>s\<in>set (syms_of k). has_flag SYMBOL_VALID (obj k' s) \<longrightarrow> s \<in> statics \<or> solved k' s)"
proof -
  obtain k' where k': "sym_calc_all k ss = Inr k'" "well_solved rank k'" "\<forall>s\<in>set ss. valid k' s" "step {} k k'"
    using sym_calc_all_step [OF none_valid_solved [OF assms(1-3)] assms(4)] by blast
  then show ?thesis
    using well_solved_now [OF k'(2)] syms_frame [OF step_frame [OF k'(4)]] by (auto simp: valid_def)
qed

theorem sym_calc_solves_witness:
  "\<exists>k'. sym_calc_all demo (map Sym [5, 1, 4]) = Inr k' \<and> (\<forall>s\<in>set (map Sym [5, 1, 4]). has_flag SYMBOL_VALID (obj k' s)) \<and>
     (\<forall>s\<in>set (syms_of demo). has_flag SYMBOL_VALID (obj k' s) \<longrightarrow> s \<in> statics \<or> solved k' s)"
proof -
  have "set (map Sym [5, 1, 4]) \<subseteq> set (syms_of demo)" by code_simp
  then show ?thesis by (rule sym_calc_solves [OF demo_wf])
qed

text \<open>
  C40. The value of a boolean or tristate symbol lies between what selects it and what its
  prompts allow: once evaluated, a symbol that is neither a choice nor an active choice value,
  cannot be deselected, and is visible or selected, is at least the reverse dependency
  and at most the larger of the visibility and the reverse dependency; and if the user has set a value
  that these bounds allow, it is that value.
\<close>

theorem sym_value_within_bounds:
  assumes "wf_conf k" "ranked rank k" "none_valid k" "set ss \<subseteq> set (syms_of k)" "sym_calc_all k ss = Inr k'"
    and "s \<in> set ss" "s \<notin> statics" "y = obj k' s" "tri_type (sy_type y)" "\<not> sym_is_choice y"
    and "\<not> (sym_is_choice_value y \<and> sy_visible y = Tyes)" "sy_rev_dep_inv y = None" "max (sy_visible y) (sy_rev_tri y) \<noteq> Tno"
  shows "sy_rev_tri y \<le> v_tri (sy_curr y) \<and> v_tri (sy_curr y) \<le> max (sy_visible y) (sy_rev_tri y) \<and>
     (sym_has_value y \<and> sym_tristate_within_range y (v_tri (sy_user y)) \<longrightarrow> v_tri (sy_curr y) = v_tri (sy_user y))"
proof -
  obtain k2 where k2: "sym_calc_all k ss = Inr k2" "well_solved rank k2" "\<forall>s\<in>set ss. valid k2 s" "step {} k k2"
    using sym_calc_all_step [OF none_valid_solved [OF assms(1-3)] assms(4)] by blast
  then have k': "well_solved rank k'" "valid k' s" using assms(5,6) by auto
  have "s \<in> set (syms_of k')" using assms(4-6) syms_frame [OF step_frame [OF k2(4)]] k2(1) by auto
  from bounded_value [OF k'(1) this k'(2) assms(7-13)] show ?thesis .
qed

text \<open>Two symbols for the evaluation by rewriting: a tristate set to \<open>m\<close>, and one that depends on it.\<close>

definition two :: kconf where
  "two = kconf_start\<lparr>k_tab := table_of
     [demo_sym (Some ''A'') S_TRISTATE V_NULL Tmod 0 [demo_prop P_PROMPT (Some ''a'') None PE_NULL] None,
      demo_sym (Some ''B'') S_TRISTATE V_NULL Tmod 0 [demo_prop P_PROMPT (Some ''b'') (Some (E_SYMBOL (Sym 0))) PE_NULL] None],
     k_count := 2\<rparr>"

lemma two_wf: "wf_conf two" "ranked demo_rank two" "none_valid two" "set [Sym 1] \<subseteq> set (syms_of two)"
  by code_simp+

definition two_done :: kconf where
  "two_done = projr (sym_calc_all two [Sym 1])"

lemma two_run: "sym_calc_all two [Sym 1] = Inr two_done"
  using sym_calc_all_step [OF none_valid_solved [OF two_wf(1-3)] two_wf(4)] by (auto simp: two_done_def)

lemma two_fields:
  "(\<lambda>y. (sy_type y, sy_flags y AND (SYMBOL_CHOICE OR SYMBOL_CHOICEVAL OR SYMBOL_NEW), sy_visible y, sy_rev_tri y,
      sy_rev_dep_inv y, v_tri (sy_user y))) (obj two_done (Sym 1)) = (S_TRISTATE, 0, Tmod, Tno, None, Tmod)"
  by code_simp

theorem sym_value_within_bounds_witness:
  "sy_rev_tri (obj two_done (Sym 1)) \<le> v_tri (sy_curr (obj two_done (Sym 1))) \<and>
   v_tri (sy_curr (obj two_done (Sym 1))) \<le> max (sy_visible (obj two_done (Sym 1))) (sy_rev_tri (obj two_done (Sym 1))) \<and>
   v_tri (sy_curr (obj two_done (Sym 1))) = v_tri (sy_user (obj two_done (Sym 1)))"
proof -
  let ?y = "obj two_done (Sym 1)"
  have f: "sy_type ?y = S_TRISTATE" "sy_flags ?y AND (SYMBOL_CHOICE OR SYMBOL_CHOICEVAL OR SYMBOL_NEW) = 0"
    "sy_visible ?y = Tmod" "sy_rev_tri ?y = Tno" "sy_rev_dep_inv ?y = None" "v_tri (sy_user ?y) = Tmod"
    using two_fields by simp_all
  have nf: "\<not> sym_is_choice ?y" "\<not> sym_is_choice_value ?y" "sym_has_value ?y"
    using f(2) by (auto simp: sym_is_choice_def sym_is_choice_value_def sym_has_value_def has_flag_def bit.conj_disj_distrib or_eq_0_iff)
  have "sym_tristate_within_range ?y (v_tri (sy_user ?y))"
    using f nf by (simp add: sym_tristate_within_range_def sym_get_type_def tri_order)
  with nf show ?thesis
    using sym_value_within_bounds [OF two_wf two_run, of "Sym 1" ?y] f
    by (auto simp: statics_def tri_type_def max_def tri_order)
qed

end
