(* ===== verification/Kconfig_Choice_Props.thy ===== *)
theory Kconfig_Choice_Props
  imports Kconfig_Eval
begin

text \<open>Properties of evaluated choices and of numbers with a range.\<close>

section \<open>Choices\<close>

text \<open>
  C19. A choice that is on picks exactly one value. Once evaluated, a choice with the value
  \<open>y\<close> points at one of its candidates, a visible one, and at the one the user picked if
  that is visible; and a value of this choice whose visibility is \<open>y\<close> is on exactly if it is
  the one the choice points at.
\<close>

theorem choice_picks_one:
  assumes "wf_conf k" "ranked rank k" "none_valid k" "set ss \<subseteq> set (syms_of k)" "sym_calc_all k ss = Inr k'"
    and "cs \<in> set (syms_of k)" "cs \<notin> statics" "has_flag SYMBOL_VALID (obj k' cs)"
    and "sym_is_choice (obj k' cs)" "tri_type (sy_type (obj k' cs))" "v_tri (sy_curr (obj k' cs)) = Tyes"
  shows "\<exists>d. v_val (sy_curr (obj k' cs)) = V_sym d \<and> d \<in> set (possible (obj k' cs)) \<and> spec_vis k' d \<noteq> Tno \<and>
     (\<forall>u. v_val (sy_user (obj k' cs)) = V_sym u \<and> spec_vis k' u \<noteq> Tno \<longrightarrow> d = u) \<and>
     (\<forall>v\<in>set ss. v \<notin> statics \<and> sym_is_choice_value (obj k' v) \<and> \<not> sym_is_choice (obj k' v) \<and> choice_of (obj k' v) = Inr cs \<and>
        tri_type (sy_type (obj k' v)) \<and> sy_visible (obj k' v) = Tyes \<longrightarrow> (v_tri (sy_curr (obj k' v)) = Tyes \<longleftrightarrow> v = d))"
proof -
  note run = run_solved [OF assms(1-5)]
  have cs: "cs \<in> set (syms_of k')" "valid k' cs" using assms(6,8) run(2) by (auto simp: valid_def)
  obtain d where d: "v_val (sy_curr (obj k' cs)) = V_sym d" "d \<in> set (possible (obj k' cs))" "spec_vis k' d \<noteq> Tno"
    "\<And>u. v_val (sy_user (obj k' cs)) = V_sym u \<Longrightarrow> spec_vis k' u \<noteq> Tno \<Longrightarrow> d = u"
    using evaluated_choice [OF run(1) cs assms(7,9-11)] by blast
  have "v_tri (sy_curr (obj k' v)) = Tyes \<longleftrightarrow> v = d"
    if "v \<in> set ss" "v \<notin> statics" "sym_is_choice_value (obj k' v)" "\<not> sym_is_choice (obj k' v)" "choice_of (obj k' v) = Inr cs"
      "tri_type (sy_type (obj k' v))" "sy_visible (obj k' v) = Tyes" for v
    using that assms(4) run(2,4) by (intro evaluated_choice_value [OF run(1) _ _ _ _ _ _ _ _ d(1)]) auto
  with d show ?thesis by blast
qed

text \<open>A choice of two values of which the user has picked the second.\<close>

definition pick :: kconf where
  "pick = kconf_start\<lparr>k_tab := table_of
     [demo_sym None S_BOOLEAN (V_sym (Sym 2)) Tyes SYMBOL_CHOICE
       [demo_prop P_CHOICE None None (PE_CHOICE [Sym 1, Sym 2]), demo_prop P_PROMPT (Some ''t'') None PE_NULL] None,
     demo_sym (Some ''T1'') S_BOOLEAN V_NULL Tno SYMBOL_CHOICEVAL
       [demo_prop P_PROMPT (Some ''t1'') (Some (E_SYMBOL (Sym 0))) PE_NULL, demo_prop P_CHOICE None None (PE_EXPR (E_SYMBOL (Sym 0)))] None,
     demo_sym (Some ''T2'') S_BOOLEAN V_NULL Tyes SYMBOL_CHOICEVAL
       [demo_prop P_PROMPT (Some ''t2'') (Some (E_SYMBOL (Sym 0))) PE_NULL, demo_prop P_CHOICE None None (PE_EXPR (E_SYMBOL (Sym 0)))] None],
     k_count := 3\<rparr>"

lemma pick_wf: "wf_conf pick" "ranked demo_rank pick" "none_valid pick" "set [Sym 2] \<subseteq> set (syms_of pick)"
  by code_simp+

definition pick_done :: kconf where
  "pick_done = projr (sym_calc_all pick [Sym 2])"

lemma pick_run: "sym_calc_all pick [Sym 2] = Inr pick_done"
  using sym_calc_all_step [OF none_valid_solved [OF pick_wf(1-3)] pick_wf(4)] by (auto simp: pick_done_def)

lemma pick_eval:
  "(case sym_calc_all pick [Sym 2] of Inl e \<Rightarrow> False | Inr k \<Rightarrow>
     v_tri (sy_curr (obj k (Sym 0))) = Tyes \<and> sy_visible (obj k (Sym 2)) = Tyes \<and> has_flag SYMBOL_VALID (obj k (Sym 0)))"
  by code_simp

lemma pick_fixed:
  "sym_is_choice (obj pick (Sym 0))" "sy_type (obj pick (Sym 0)) = S_BOOLEAN" "Sym 0 \<in> set (syms_of pick)"
  "sym_is_choice_value (obj pick (Sym 2))" "\<not> sym_is_choice (obj pick (Sym 2))"
  "choice_of (obj pick (Sym 2)) = Inr (Sym 0)" "sy_type (obj pick (Sym 2)) = S_BOOLEAN"
  by code_simp+

theorem choice_picks_one_witness:
  "\<exists>d. v_val (sy_curr (obj pick_done (Sym 0))) = V_sym d \<and> spec_vis pick_done d \<noteq> Tno \<and>
     (v_tri (sy_curr (obj pick_done (Sym 2))) = Tyes \<longleftrightarrow> Sym 2 = d)"
proof -
  have e: "erase (obj pick t) = erase (obj pick_done t)" for t
    using run_solved(3) [OF pick_wf pick_run] by (simp add: frame_def)
  note c = pick_fixed [unfolded erase_cong [OF e]] and v = pick_eval [unfolded pick_run, simplified]
  show ?thesis
    using choice_picks_one [OF pick_wf pick_run c(3) _ conjunct2 [OF conjunct2 [OF v]] c(1)] c v
    by (fastforce simp: statics_def tri_type_def)
qed

section \<open>Ranges\<close>

lemma val_number_int32: "int32 (val_number k s base)"
  by (simp add: val_number_def to_int_int32)

text \<open>
  C27. A number stays in its range. Once evaluated, the value of a decimal or hexadecimal symbol that
  has a visible range, whose lower limit is not above its upper limit, is between the
  limits, also if the user entered or a default gave a number outside of them.
\<close>

theorem sym_range_respected:
  assumes "wf_conf k" "ranked rank k" "none_valid k" "set ss \<subseteq> set (syms_of k)" "sym_calc_all k ss = Inr k'"
    and "s \<in> set ss" "s \<notin> statics" "sy_type (obj k' s) = S_INT \<or> sy_type (obj k' s) = S_HEX" "base = type_base (sy_type (obj k' s)) 10"
    and "first_prop P_RANGE k' s (prop_indices k' s) = Some i" "p_expr (sy_prop (obj k' s) ! i) = PE_RANGE l r"
    and "val_number k' l base \<le> val_number k' r base"
  shows "val_number k' l base \<le> val_number k' s base \<and> val_number k' s base \<le> val_number k' r base"
proof -
  note run = run_solved [OF assms(1-5)]
  have "solved k' s"
    using assms(4,6,7) run(2,4) by (intro well_solved_now [OF run(1)]) auto
  then have t: "val_text k' s = clamp_text k' s (spec_text k' s)"
    using assms(8) by (auto simp: solved_def Let_def tri_type_def text_type_def val_text_def textof_def)
  let ?pr = "\<lambda>v. if sy_type (obj k' s) = S_INT then print_int v else print_hex v"
  have rt: "to_int (strtol (?pr v) base) = v" if "int32 v" for v
    using assms(8,9) strtol_print_int [OF that] strtol_print_hex [OF that] by (auto simp: type_base_def)
  have base: "type_base (sy_type (obj k' s)) base = base" using assms(8,9) by (auto simp: type_base_def)
  have "clamp_text k' s (spec_text k' s) =
    (let val = to_int (strtol (spec_text k' s) base) in
     if val < val_number k' l base then ?pr (val_number k' l base)
     else if val_number k' r base < val then ?pr (val_number k' r base) else spec_text k' s)"
    using assms(8,10,11) by (auto simp: clamp_text_def Let_def assms(9))
  then show ?thesis
    using assms(12) rt [OF val_number_int32 [of k' l base]] rt [OF val_number_int32 [of k' r base]] base t
    unfolding val_number_def [of k' s] by (auto simp: Let_def split: if_splits)
qed

text \<open>A number that the user has set above its upper limit.\<close>

definition lim :: kconf where
  "lim = kconf_start\<lparr>k_tab := table_of
     [demo_sym (Some ''N'') S_INT (V_heap 0 ''12'') Tno 0
       [demo_prop P_PROMPT (Some ''n'') None PE_NULL, demo_prop P_RANGE None None (PE_RANGE (Sym 1) (Sym 2))] None,
     demo_sym (Some ''1'') S_UNKNOWN V_NULL Tno (SYMBOL_NEW OR SYMBOL_CONST) [] None,
     demo_sym (Some ''9'') S_UNKNOWN V_NULL Tno (SYMBOL_NEW OR SYMBOL_CONST) [] None],
     k_count := 3, k_heap := 1\<rparr>"

fun lim_rank :: "sym \<Rightarrow> nat" where
  "lim_rank (Sym a) = 9 - a"
| "lim_rank s = 0"

lemma lim_wf: "wf_conf lim" "ranked lim_rank lim" "none_valid lim" "set [Sym 0] \<subseteq> set (syms_of lim)"
  by code_simp+

definition lim_done :: kconf where
  "lim_done = projr (sym_calc_all lim [Sym 0])"

lemma lim_run: "sym_calc_all lim [Sym 0] = Inr lim_done"
  using sym_calc_all_step [OF none_valid_solved [OF lim_wf(1-3)] lim_wf(4)] by (auto simp: lim_done_def)

lemma lim_fields:
  "(sy_type (obj lim_done (Sym 0)), first_prop P_RANGE lim_done (Sym 0) (prop_indices lim_done (Sym 0)),
    p_expr (sy_prop (obj lim_done (Sym 0)) ! 1), val_number lim_done (Sym 1) 10, val_number lim_done (Sym 2) 10) =
   (S_INT, Some 1, PE_RANGE (Sym 1) (Sym 2), 1, 9)"
  by code_simp

theorem sym_range_respected_witness:
  "1 \<le> val_number lim_done (Sym 0) 10 \<and> val_number lim_done (Sym 0) 10 \<le> 9"
  using sym_range_respected [OF lim_wf lim_run, of "Sym 0" 10 1 "Sym 1" "Sym 2"] lim_fields
  by (simp add: statics_def type_base_def)

end
