(* ===== verification/Kconfig_Unique.thy ===== *)
theory Kconfig_Unique
  imports Kconfig_Eval
begin

text \<open>
  The value of a symbol is a function of the values of the symbols it depends on, so without
  cyclic dependencies it does not depend on the order of evaluation.
\<close>

section \<open>Values that readers cannot tell apart\<close>

text \<open>The addresses of strings on the heap do not matter.\<close>

definition alike :: "symbol_value \<Rightarrow> symbol_value \<Rightarrow> bool" where
  "alike v w \<longleftrightarrow> v_tri v = v_tri w \<and> symval_string (v_val v) = symval_string (v_val w) \<and>
     (\<forall>s. v_val v = V_sym s \<longleftrightarrow> v_val w = V_sym s)"

lemma alike_refl [simp]: "alike v v"
  by (simp add: alike_def)

text \<open>The part of a symbol that decides its visibility: all but the user's value.\<close>

definition bare :: "ksymbol \<Rightarrow> ksymbol" where
  "bare y = (erase y)\<lparr>sy_user := symbol_empty_curr, sy_flags := sy_flags (erase y) AND NOT SYMBOL_NEW\<rparr>"

lemma bare_flags:
  "has_flag SYMBOL_CHOICE (bare y) = has_flag SYMBOL_CHOICE y" "has_flag SYMBOL_CHOICEVAL (bare y) = has_flag SYMBOL_CHOICEVAL y"
  by (simp_all add: bare_def has_flag_def erase_def and.assoc, simp_all add: STATIC_def ksymbol_flag_defs)

lemma bare_fields:
  "sy_name (bare y) = sy_name y" "sy_type (bare y) = sy_type y" "sy_rev_dep (bare y) = sy_rev_dep y" "sy_rev_dep_inv (bare y) = sy_rev_dep_inv y"
  "sy_prop (bare y) = map (p_tri_update (\<lambda>_. Tno)) (sy_prop y)"
  "sym_is_choice (bare y) = sym_is_choice y" "sym_is_choice_value (bare y) = sym_is_choice_value y"
  by (simp_all add: sym_is_choice_def sym_is_choice_value_def bare_flags) (simp_all add: bare_def erase_def)

lemma bare_erase: "erase y = erase z \<Longrightarrow> bare y = bare z"
  by (simp add: bare_def)

lemma bare_cong:
  assumes "bare y = bare z"
  shows "sy_type y = sy_type z" "sy_rev_dep y = sy_rev_dep z" "sy_rev_dep_inv y = sy_rev_dep_inv z"
    "map (p_tri_update (\<lambda>_. Tno)) (sy_prop y) = map (p_tri_update (\<lambda>_. Tno)) (sy_prop z)"
    "sym_is_choice y = sym_is_choice z" "sym_is_choice_value y = sym_is_choice_value z"
  using assms bare_fields by metis+

lemma bare_prop:
  assumes "bare y = bare z" "i < length (sy_prop y)"
  shows "p_type (sy_prop y ! i) = p_type (sy_prop z ! i)" "p_text (sy_prop y ! i) = p_text (sy_prop z ! i)"
    "p_visible (sy_prop y ! i) = p_visible (sy_prop z ! i)" "p_expr (sy_prop y ! i) = p_expr (sy_prop z ! i)"
proof -
  have l: "length (sy_prop y) = length (sy_prop z)" using bare_cong(4) [OF assms(1)] by (metis length_map)
  have "p_tri_update (\<lambda>_. Tno) (sy_prop y ! i) = p_tri_update (\<lambda>_. Tno) (sy_prop z ! i)"
    using bare_cong(4) [OF assms(1)] assms(2) l by (metis nth_map)
  then show "p_type (sy_prop y ! i) = p_type (sy_prop z ! i)" "p_text (sy_prop y ! i) = p_text (sy_prop z ! i)"
    "p_visible (sy_prop y ! i) = p_visible (sy_prop z ! i)" "p_expr (sy_prop y ! i) = p_expr (sy_prop z ! i)"
    by (metis property.select_convs property.surjective property.update_convs(4))+
qed

section \<open>Congruences\<close>

definition agree :: "kconf \<Rightarrow> kconf \<Rightarrow> sym set \<Rightarrow> bool" where
  "agree k k' X \<longleftrightarrow> (\<forall>d\<in>X. alike (sy_curr (obj k d)) (sy_curr (obj k' d)) \<and> sy_type (obj k d) = sy_type (obj k' d))"

lemma agree_mono: "agree k k' X \<Longrightarrow> Y \<subseteq> X \<Longrightarrow> agree k k' Y"
  by (auto simp: agree_def)

lemma agree_Un [simp]: "agree k k' (X \<union> Y) \<longleftrightarrow> agree k k' X \<and> agree k k' Y"
  by (auto simp: agree_def)

lemma eval_agree: "agree k k' (set (expr_syms e)) \<Longrightarrow> eval k e = eval k' e"
proof (induction e)
  case (E_EQUAL a b) then show ?case by (simp add: agree_def alike_def sym_string_def split: symbol_type.split)
next
  case (E_UNEQUAL a b) then show ?case by (simp add: agree_def alike_def sym_string_def split: symbol_type.split)
qed (simp_all add: agree_def [of _ _ "{_}"] alike_def)

lemma eval_opt_agree: "agree k k' (set (opt_syms e)) \<Longrightarrow> eval_opt k e = eval_opt k' e"
  by (cases e) (simp_all add: opt_syms_def eval_opt_def eval_agree)

lemma eval_pexpr_agree: "agree k k' (set (pexpr_syms e)) \<Longrightarrow> eval_pexpr k e = eval_pexpr k' e"
  by (cases e) (simp_all add: eval_pexpr_def eval_agree)

lemma val_text_agree: "agree k k' {d} \<Longrightarrow> val_text k d = val_text k' d"
  by (simp add: agree_def alike_def val_text_def textof_def)

lemma val_number_agree: "agree k k' {d} \<Longrightarrow> val_number k d b = val_number k' d b"
  using val_text_agree [of k k' d] by (simp add: val_number_def agree_def)

lemma prop_part:
  assumes "i < length (sy_prop (obj k t))"
  shows "p_text (sy_prop (obj k t) ! i) \<noteq> None \<Longrightarrow> set (opt_syms (p_visible (sy_prop (obj k t) ! i))) \<subseteq> set (prompt_deps (obj k t))"
    "p_type (sy_prop (obj k t) ! i) = ty \<Longrightarrow> set (opt_syms (p_visible (sy_prop (obj k t) ! i))) \<subseteq> set (list_deps ty (obj k t))"
    "p_type (sy_prop (obj k t) ! i) = ty \<Longrightarrow> set (pexpr_syms (p_expr (sy_prop (obj k t) ! i))) \<subseteq> set (arg_deps ty (obj k t))"
  unfolding prompt_deps_def list_deps_def arg_deps_def using prop_deps_nth [OF assms] by simp_all

lemma prop_vis_agree:
  assumes "bare (obj k t) = bare (obj k' t)" "i < length (sy_prop (obj k t))" "agree k k' (set (opt_syms (p_visible (sy_prop (obj k t) ! i))))"
  shows "prop_vis k t i = prop_vis k' t i"
  using assms eval_opt_agree [OF assms(3)] bare_prop(3) [OF assms(1,2)] by (simp add: prop_vis_def)

lemma indices_agree: "bare (obj k t) = bare (obj k' t) \<Longrightarrow> prop_indices k t = prop_indices k' t"
  using bare_cong(4) by (metis length_map)

lemma vis_agree:
  assumes b: "bare (obj k t) = bare (obj k' t)" and a: "agree k k' (set (vis_deps (obj k t)))"
  shows "spec_vis k t = spec_vis k' t" "spec_desel k t = spec_desel k' t"
proof -
  have p: "agree k k' (set (prompt_deps (obj k t)))" "agree k k' (set (opt_syms (sy_rev_dep_inv (obj k t))))"
    using a by (simp_all add: vis_deps_def)
  show d: "spec_desel k t = spec_desel k' t"
    using p(2) bare_cong(3) [OF b] by (auto simp: spec_desel_def opt_syms_def eval_agree split: option.splits)
  have "prompts_vis k t is tri = prompts_vis k' t is tri" if "set is \<subseteq> set (prop_indices k t)" for "is" tri
    using that
  proof (induction "is" arbitrary: tri)
    case (Cons i js)
    then have i: "i < length (sy_prop (obj k t))" by simp
    have "has_prompt k t i = has_prompt k' t i" using bare_prop(2) [OF b i] by (simp add: has_prompt_def)
    moreover have "has_prompt k t i \<Longrightarrow> prop_vis k t i = prop_vis k' t i"
      using agree_mono [OF p(1) prop_part(1) [OF i]] prop_vis_agree [OF b i] by (auto simp: has_prompt_def)
    ultimately show ?case using Cons by auto
  qed simp
  from this [of "prop_indices k t"] show "spec_vis k t = spec_vis k' t"
    using d indices_agree [OF b] bare_cong(1) [OF b] by (simp add: spec_vis_def)
qed

lemma select_agree:
  assumes b: "bare (obj k t) = bare (obj k' t)" and a: "agree k k' (set (rev_deps (obj k t)))"
  shows "spec_select k t = spec_select k' t"
  using a bare_cong(1,2,6) [OF b]
  by (auto simp: spec_select_def spec_rev_def rev_deps_def opt_syms_def eval_agree split: option.splits if_splits)

lemma first_prop_agree:
  assumes b: "bare (obj k t) = bare (obj k' t)" and a: "agree k k' (set (list_deps ty (obj k t)))"
  shows "first_prop ty k t (prop_indices k t) = first_prop ty k' t (prop_indices k' t)"
  unfolding first_prop_def indices_agree [OF b, symmetric]
proof (rule find_cong [OF refl])
  fix i assume "i \<in> set (prop_indices k t)"
  then have i: "i < length (sy_prop (obj k t))" by simp
  show "(p_type (sy_prop (obj k t) ! i) = ty \<and> prop_vis k t i \<noteq> Tno) = (p_type (sy_prop (obj k' t) ! i) = ty \<and> prop_vis k' t i \<noteq> Tno)"
    using bare_prop(1) [OF b i] prop_vis_agree [OF b i] agree_mono [OF a prop_part(2) [OF i]] by auto
qed

lemma first_prop_some:
  assumes "first_prop ty k t (prop_indices k t) = Some i"
  shows "i < length (sy_prop (obj k t))" "p_type (sy_prop (obj k t) ! i) = ty"
  using assms by (auto simp: first_prop_def find_Some_iff)

lemma default_agree:
  assumes b: "bare (obj k t) = bare (obj k' t)" and "agree k k' (set (list_deps P_DEFAULT (obj k t)))" "agree k k' (set (arg_deps P_DEFAULT (obj k t)))"
  shows "spec_default k t = spec_default k' t"
proof (cases "first_prop P_DEFAULT k t (prop_indices k t)")
  case None then show ?thesis using first_prop_agree [OF b assms(2)] by (simp add: spec_default_def)
next
  case (Some i)
  note i = first_prop_some [OF Some]
  have "agree k k' (set (pexpr_syms (p_expr (sy_prop (obj k t) ! i))))" using agree_mono [OF assms(3) prop_part(3) [OF i]] .
  then show ?thesis
    using Some first_prop_agree [OF b assms(2)] bare_prop(4) [OF b i(1)] eval_pexpr_agree by (simp add: spec_default_def)
qed

lemma prop_symbol_eq: "p_expr p = p_expr q \<Longrightarrow> prop_get_symbol p = prop_get_symbol q"
  by (simp add: prop_get_symbol_def)

lemma val_deps_agree:
  assumes "agree k k' (set (val_deps y))"
  shows "agree k k' (set (vis_deps y))" "agree k k' (set (rev_deps y))" "agree k k' (set (list_deps P_DEFAULT y))"
    "agree k k' (set (list_deps P_RANGE y))" "agree k k' (set (arg_deps P_RANGE y))" "agree k k' (set (choice_link y))"
    "\<not> (sym_is_choice y \<and> tri_type (sy_type y)) \<Longrightarrow> agree k k' (set (arg_deps P_DEFAULT y))"
  using assms by (auto simp: val_deps_def)

lemma tri_agree:
  assumes e: "erase (obj k t) = erase (obj k' t)" and a: "agree k k' (set (val_deps (obj k t)))" and ty: "tri_type (sy_type (obj k t))"
  shows "spec_tri k t = spec_tri k' t"
proof -
  note b = bare_erase [OF e] and d = val_deps_agree [OF a] and c = erase_cong [OF e]
  have "choice_picks k t = choice_picks k' t" if "sym_is_choice_value (obj k t)"
    using d(6) that c(11) by (auto simp: choice_picks_def choice_link_def agree_def alike_def split: sum.splits)
  moreover have "spec_default k t = spec_default k' t" if "\<not> sym_is_choice (obj k t)"
    using default_agree [OF b d(3)] d(7) that by simp
  ultimately show ?thesis
    using vis_agree [OF b d(1)] select_agree [OF b d(2)] c
    by (simp add: spec_tri_def picked_by_choice_def spec_free_def sym_wish_def)
qed

lemma choice_on_agree:
  assumes "agree k k' (X - {s})" "sy_type (obj k s) = sy_type (obj k' s)" shows "agree (choice_on s k) (choice_on s k') X"
  using assms by (auto simp: agree_def choice_on_def set_curr_def obj_upd)

lemma bare_choice_on: "bare (obj (choice_on s k) t) = bare (obj k t)"
  by (rule bare_erase) (simp add: choice_on_obj)

lemma choose_agree:
  assumes e: "erase (obj k s) = erase (obj k' s)" and b: "\<And>d. d \<in> set (possible (obj k s)) \<Longrightarrow> bare (obj k d) = bare (obj k' d)"
    and a: "agree k k' (set (list_deps P_DEFAULT (obj k s)) \<union> set (cand_deps k (obj k s)) - {s})"
  shows "spec_choose (choice_on s k) s = spec_choose (choice_on s k') s"
proof -
  let ?k = "choice_on s k" and ?k' = "choice_on s k'"
  have a': "agree ?k ?k' (set (list_deps P_DEFAULT (obj k s)) \<union> set (cand_deps k (obj k s)))"
    using choice_on_agree [OF a] erase_cong(2) [OF e] by simp
  have e': "erase (obj ?k s) = erase (obj ?k' s)" using e by (simp add: choice_on_obj)
  have be: "bare (obj ?k s) = bare (obj ?k' s)" using bare_erase [OF e'] .
  have ps: "sy_prop (obj ?k s) = sy_prop (obj k s)" by (simp add: choice_on_obj)
  have "(if p_type (sy_prop (obj ?k s) ! i) = P_DEFAULT \<and> prop_vis ?k s i \<noteq> Tno
       then (case prop_get_symbol (sy_prop (obj ?k s) ! i) of None \<Rightarrow> [] | Some d \<Rightarrow> [d]) else []) =
      (if p_type (sy_prop (obj ?k' s) ! i) = P_DEFAULT \<and> prop_vis ?k' s i \<noteq> Tno
       then (case prop_get_symbol (sy_prop (obj ?k' s) ! i) of None \<Rightarrow> [] | Some d \<Rightarrow> [d]) else [])"
    if "i \<in> set (prop_indices ?k s)" for i
  proof -
    have i: "i < length (sy_prop (obj ?k s))" using that by simp
    have "p_type (sy_prop (obj ?k s) ! i) = P_DEFAULT \<Longrightarrow> prop_vis ?k s i = prop_vis ?k' s i"
      using agree_mono [OF a', of "set (opt_syms (p_visible (sy_prop (obj ?k s) ! i)))"] prop_part(2) [of i k s P_DEFAULT] i
      by (intro prop_vis_agree [OF be i]) (auto simp: ps)
    then show ?thesis using bare_prop(1) [OF be i] prop_symbol_eq [OF bare_prop(4) [OF be i]]
      by (cases "p_type (sy_prop (obj ?k s) ! i) = P_DEFAULT") simp_all
  qed
  then have "default_candidates ?k s (prop_indices ?k s) = default_candidates ?k' s (prop_indices ?k' s)"
    unfolding default_candidates_def indices_agree [OF be, symmetric] by (intro arg_cong [of _ _ concat] map_cong) auto
  then have c: "candidates ?k s = candidates ?k' s"
    using erase_cong(3,10) [OF e'] by (simp add: candidates_def user_candidates_def value_candidates_def)
  have "spec_vis ?k d = spec_vis ?k' d" if "d \<in> set (candidates ?k s)" for d
  proof (rule vis_agree(1))
    have d: "d \<in> set (possible (obj k s))"
      using that candidates_possible [of ?k s] deps_cong(6) [OF choice_on_obj(1), of s k s] by auto
    show "bare (obj ?k d) = bare (obj ?k' d)" using b [OF d] by (simp add: bare_choice_on)
    have "set (vis_deps (obj ?k d)) \<subseteq> set (cand_deps k (obj k s))"
      using d deps_cong(1) [OF choice_on_obj(1), of s k d] by (auto simp: cand_deps_def)
    then show "agree ?k ?k' (set (vis_deps (obj ?k d)))" using a' by (meson agree_Un agree_mono)
  qed
  then show ?thesis unfolding spec_choose_def c [symmetric] by (intro find_cong [OF refl]) simp
qed

lemma text_agree:
  assumes e: "erase (obj k t) = erase (obj k' t)" and a: "agree k k' (set (val_deps (obj k t)))" and ty: "\<not> tri_type (sy_type (obj k t))"
  shows "spec_text k t = spec_text k' t"
proof -
  note b = bare_erase [OF e] and d = val_deps_agree [OF a] and c = erase_cong [OF e]
  have "val_text k u = val_text k' u" if i: "first_prop P_DEFAULT k t (prop_indices k t) = Some i" and u: "prop_get_symbol (sy_prop (obj k t) ! i) = Some u" for i u
  proof -
    have "u \<in> set (pexpr_syms (p_expr (sy_prop (obj k t) ! i)))"
      using u by (auto simp: prop_get_symbol_def split: pexpr.splits expr.splits)
    then have "u \<in> set (arg_deps P_DEFAULT (obj k t))" using prop_part(3) [OF first_prop_some [OF i]] by blast
    then show ?thesis using agree_mono [OF d(7), of "{u}"] ty by (intro val_text_agree) auto
  qed
  moreover have "prop_get_symbol (sy_prop (obj k t) ! i) = prop_get_symbol (sy_prop (obj k' t) ! i)"
    if "first_prop P_DEFAULT k t (prop_indices k t) = Some i" for i
    using bare_prop(4) [OF b first_prop_some(1) [OF that]] by (rule prop_symbol_eq)
  ultimately show ?thesis
    using vis_agree(1) [OF b d(1)] first_prop_agree [OF b d(3)] c(3,9) by (auto simp: spec_text_def split: option.split)
qed

lemma clamp_agree:
  assumes b: "bare (obj k t) = bare (obj k' t)" and a: "agree k k' (set (val_deps (obj k t)))"
  shows "clamp_text k t str = clamp_text k' t str"
proof -
  note d = val_deps_agree [OF a] and c = bare_cong [OF b]
  have "val_number k l x = val_number k' l x \<and> val_number k r x = val_number k' r x"
    if i: "first_prop P_RANGE k t (prop_indices k t) = Some i" and u: "p_expr (sy_prop (obj k t) ! i) = PE_RANGE l r" for i l r x
    using prop_part(3) [OF first_prop_some [OF i]] u agree_mono [OF d(5), of "{l}"] agree_mono [OF d(5), of "{r}"]
    by (auto intro: val_number_agree)
  moreover have "p_expr (sy_prop (obj k t) ! i) = p_expr (sy_prop (obj k' t) ! i)"
    if "first_prop P_RANGE k t (prop_indices k t) = Some i" for i
    using bare_prop(4) [OF b first_prop_some(1) [OF that]] .
  ultimately show ?thesis
    using first_prop_agree [OF b d(4)] c(1) by (auto simp: clamp_text_def Let_def split: option.split pexpr.split)
qed

text \<open>The equation determines the value.\<close>

lemma solved_agree:
  assumes "solved k t" "solved k' t" and e: "erase (obj k t) = erase (obj k' t)"
    and b: "\<And>d. d \<in> set (possible (obj k t)) \<Longrightarrow> bare (obj k d) = bare (obj k' d)"
    and a: "agree k k' (set (val_deps (obj k t)))" "agree k k' (deps_of k t - {t})"
  shows "alike (sy_curr (obj k t)) (sy_curr (obj k' t))"
proof -
  note c = erase_cong [OF e]
  consider (tri) "tri_type (sy_type (obj k t))" | (words) "\<not> tri_type (sy_type (obj k t))" "text_type (sy_type (obj k t))"
    | (rest) "\<not> tri_type (sy_type (obj k t))" "\<not> text_type (sy_type (obj k t))" by blast
  then show ?thesis
  proof cases
    case tri
    have "spec_choose (choice_on t k) t = spec_choose (choice_on t k') t" if "sym_is_choice (obj k t)"
    proof (rule choose_agree [OF e b])
      have "agree k k' (set (cand_deps k (obj k t)) - {t})" using a(2) that tri by (intro agree_mono [OF a(2)]) (auto simp: deps_of_def)
      moreover have "agree k k' (set (list_deps P_DEFAULT (obj k t)) - {t})" using val_deps_agree(3) [OF a(1)] by (rule agree_mono) blast
      ultimately show "agree k k' (set (list_deps P_DEFAULT (obj k t)) \<union> set (cand_deps k (obj k t)) - {t})" by (simp add: Un_Diff)
    qed
    then have "spec_curr k t = spec_curr k' t" using tri_agree [OF e a(1) tri] c(7) by (simp add: spec_curr_def)
    then show ?thesis using assms(1,2) tri c(2) by (simp add: solved_def Let_def)
  next
    case words
    then show ?thesis
      using assms(1,2) c(2) text_agree [OF e a(1) words(1)] clamp_agree [OF bare_erase [OF e] a(1)]
      by (auto simp: solved_def Let_def alike_def)
  next
    case rest
    then show ?thesis using assms(1,2) c(1,2) by (auto simp: solved_def Let_def name_pointer_def)
  qed
qed

section \<open>Order of evaluation\<close>

lemma deps_of_closed:
  assumes "closed_conf k" "s \<in> set (syms_of k)" shows "deps_of k s \<subseteq> set (syms_of k)"
proof -
  have "set (cand_deps k (obj k s)) \<subseteq> set (syms_of k)"
    unfolding cand_deps_def set_concat set_map UN_subset_iff set_append Un_subset_iff
    using cand_closed [OF assms] by simp
  moreover have "set (val_deps (obj k s)) \<subseteq> set (syms_of k)" using assms by (simp add: closed_conf_def)
  ultimately show ?thesis by (simp add: deps_of_def)
qed

text \<open>Two evaluated tables agree on the symbols below a rank if the user has set the same there.\<close>

lemma agree_below:
  assumes "well_solved rank ka" "well_solved rank kb" "syms_of kb = syms_of ka"
    and v: "\<And>t. t \<in> set (syms_of ka) \<Longrightarrow> valid ka t \<and> valid kb t"
    and b: "\<And>t. bare (obj ka t) = bare (obj kb t)"
    and e: "\<And>t. t \<in> set (syms_of ka) \<Longrightarrow> rank t < r \<Longrightarrow> erase (obj ka t) = erase (obj kb t)"
    and st: "\<And>t. t \<in> statics \<Longrightarrow> alike (sy_curr (obj ka t)) (sy_curr (obj kb t))"
    and t: "t \<in> set (syms_of ka)" "rank t < r"
  shows "alike (sy_curr (obj ka t)) (sy_curr (obj kb t))"
  using t
proof (induction "rank t" arbitrary: t rule: less_induct)
  case less
  show ?case
  proof (cases "t \<in> statics")
    case False
    have cl: "closed_conf ka" and rk: "ranked rank ka" using assms(1) by (auto simp: well_solved_def wf_conf_def)
    have low: "agree ka kb X" if "X \<subseteq> set (syms_of ka)" "\<And>u. u \<in> X \<Longrightarrow> rank u < rank t" for X
      unfolding agree_def
    proof (intro ballI conjI)
      fix u assume u: "u \<in> X"
      show "alike (sy_curr (obj ka u)) (sy_curr (obj kb u))"
        using less.hyps [OF that(2) [OF u]] that u less.prems(2) by force
    qed (rule bare_cong(1) [OF b])
    have "agree ka kb (set (val_deps (obj ka t)))"
      using cl rk less.prems(1) by (intro low) (auto simp: closed_conf_def ranked_def)
    moreover have "agree ka kb (deps_of ka t - {t})"
      using deps_of_closed [OF cl less.prems(1)] rk less.prems(1) by (intro low) (auto simp: ranked_def)
    ultimately show ?thesis
      using False less.prems v b e assms(1-3) by (intro solved_agree) (auto intro: well_solved_now)
  qed (use st in auto)
qed

text \<open>Every evaluated table can be evaluated to the end.\<close>

lemma completed:
  assumes "well_solved rank k"
  obtains ka where "well_solved rank ka" "syms_of ka = syms_of k" "\<And>t. t \<in> set (syms_of k) \<Longrightarrow> valid ka t" "step {} k ka"
  using sym_calc_all_step [OF assms subset_refl] syms_frame step_frame by metis

text \<open>
  C5. The order of evaluation does not matter. Let the table be well formed and free of cyclic
  dependencies, and let no symbol be valid yet. If two sequences of evaluations both evaluate a symbol,
  directly or on the way, then it has the same tristate, the same string and, if it is a
  choice, the same pick after both.
\<close>

theorem value_order_independent:
  assumes "wf_conf k" "ranked rank k" "none_valid k" "set ss \<subseteq> set (syms_of k)" "set ss' \<subseteq> set (syms_of k)"
    and "sym_calc_all k ss = Inr k1" "sym_calc_all k ss' = Inr k2"
    and "s \<in> set (syms_of k)" "has_flag SYMBOL_VALID (obj k1 s)" "has_flag SYMBOL_VALID (obj k2 s)"
  shows "v_tri (sy_curr (obj k1 s)) = v_tri (sy_curr (obj k2 s)) \<and> sym_string (obj k1 s) = sym_string (obj k2 s) \<and>
     (\<forall>d. v_val (sy_curr (obj k1 s)) = V_sym d \<longleftrightarrow> v_val (sy_curr (obj k2 s)) = V_sym d)"
proof -
  note run1 = run_solved [OF assms(1-4,6)] and run2 = run_solved [OF assms(1-3,5,7)]
  obtain ka where ka: "well_solved rank ka" "syms_of ka = syms_of k1" "\<And>t. t \<in> set (syms_of k1) \<Longrightarrow> valid ka t" "step {} k1 ka"
    using completed [OF run1(1)] by blast
  obtain kb where kb: "well_solved rank kb" "syms_of kb = syms_of k2" "\<And>t. t \<in> set (syms_of k2) \<Longrightarrow> valid kb t" "step {} k2 kb"
    using completed [OF run2(1)] by blast
  have fa: "frame {} k ka" using frame_trans [OF run1(3) step_frame [OF ka(4)]] .
  have fb: "frame {} k kb" using frame_trans [OF run2(3) step_frame [OF kb(4)]] .
  have e: "erase (obj ka t) = erase (obj kb t)" for t using frame_static [OF fa] frame_static [OF fb] by simp
  have st: "sy_curr (obj ka t) = sy_curr (obj kb t)" if "t \<in> statics" for t
    using that assms(1) frame_curr [OF fa, of t] frame_curr [OF fb, of t] by (simp add: wf_conf_def)
  have "alike (sy_curr (obj ka s)) (sy_curr (obj kb s))"
  proof (rule agree_below [OF ka(1) kb(1)])
    have eq: "syms_of ka = syms_of k" "syms_of kb = syms_of k" using ka(2) kb(2) run1(2) run2(2) by simp_all
    show "syms_of kb = syms_of ka" "s \<in> set (syms_of ka)" using eq assms(8) by simp_all
    show "valid ka t \<and> valid kb t" if "t \<in> set (syms_of ka)" for t
      using ka(3) [of t] kb(3) [of t] that eq run1(2) run2(2) by simp
    show "bare (obj ka t) = bare (obj kb t)" for t by (rule bare_erase [OF e])
    show "rank s < Suc (rank s)" by simp
  qed (simp_all add: e st)
  moreover have "sy_curr (obj ka s) = sy_curr (obj k1 s)" "sy_curr (obj kb s) = sy_curr (obj k2 s)"
    using frame_curr [OF step_frame [OF ka(4)]] frame_curr [OF step_frame [OF kb(4)]] assms(9,10) by (simp_all add: valid_def)
  moreover have "sy_type (obj k1 s) = sy_type (obj k2 s)"
    using erase_cong(2) frame_static [OF run1(3)] frame_static [OF run2(3)] by metis
  ultimately show ?thesis by (auto simp: alike_def sym_string_def split: symbol_type.split)
qed

theorem value_order_independent_witness:
  "\<exists>k1 k2. sym_calc_all demo (map Sym [5, 4]) = Inr k1 \<and> sym_calc_all demo (map Sym [1, 3, 4]) = Inr k2 \<and>
     v_tri (sy_curr (obj k1 (Sym 4))) = v_tri (sy_curr (obj k2 (Sym 4))) \<and> sym_string (obj k1 (Sym 4)) = sym_string (obj k2 (Sym 4))"
proof -
  have sub: "set (map Sym [5, 4]) \<subseteq> set (syms_of demo)" "set (map Sym [1, 3, 4]) \<subseteq> set (syms_of demo)" by code_simp+
  have s: "Sym 4 \<in> set (syms_of demo)" by code_simp
  note ok = none_valid_solved [OF demo_wf]
  obtain k1 where k1: "sym_calc_all demo (map Sym [5, 4]) = Inr k1" "\<forall>s\<in>set (map Sym [5, 4]). valid k1 s"
    using sym_calc_all_step [OF ok sub(1)] by blast
  obtain k2 where k2: "sym_calc_all demo (map Sym [1, 3, 4]) = Inr k2" "\<forall>s\<in>set (map Sym [1, 3, 4]). valid k2 s"
    using sym_calc_all_step [OF ok sub(2)] by blast
  have "has_flag SYMBOL_VALID (obj k1 (Sym 4))" "has_flag SYMBOL_VALID (obj k2 (Sym 4))"
    using k1(2) k2(2) by (simp_all add: valid_def)
  from value_order_independent [OF demo_wf sub k1(1) k2(1) s this] k1(1) k2(1) show ?thesis by blast
qed

end
