(* ===== verification/Kconfig_Set.thy ===== *)
theory Kconfig_Set
  imports Kconfig_Unique
begin

text \<open>
  Setting the value of a symbol: what the operations of the front ends leave of the table, and
  that the next evaluation finds the value that was set.
\<close>

section \<open>Tables that differ in what the user has set\<close>

definition kept :: "kconf \<Rightarrow> kconf \<Rightarrow> bool" where
  "kept k k' \<longleftrightarrow> same_globals k k' \<and> (\<forall>t. bare (obj k' t) = bare (obj k t) \<and> sy_prop (obj k' t) = sy_prop (obj k t) \<and>
     sy_curr (obj k' t) = sy_curr (obj k t) \<and> sy_visible (obj k' t) = sy_visible (obj k t) \<and> sy_rev_tri (obj k' t) = sy_rev_tri (obj k t))"

definition user_ok :: "ksymbol \<Rightarrow> bool" where
  "user_ok y \<longleftrightarrow>
     (sym_is_choice y \<and> tri_type (sy_type y) \<longrightarrow> (case v_val (sy_user y) of V_NULL \<Rightarrow> True | V_sym _ \<Rightarrow> True | _ \<Rightarrow> False)) \<and>
     (text_type (sy_type y) \<and> sym_has_value y \<longrightarrow> is_text (v_val (sy_user y)))"

lemma kept_refl [simp]: "kept k k"
  by (simp add: kept_def same_globals_def)

lemma kept_trans: "kept k k1 \<Longrightarrow> kept k1 k2 \<Longrightarrow> kept k k2"
  by (simp add: kept_def same_globals_def)

lemma kept_fields:
  assumes "kept k k'"
  shows "syms_of k' = syms_of k" "all_symbols k' = all_symbols k" "modules_sym k' = modules_sym k"
    "sy_type (obj k' t) = sy_type (obj k t)" "sy_prop (obj k' t) = sy_prop (obj k t)" "sy_name (obj k' t) = sy_name (obj k t)"
    "sy_rev_dep (obj k' t) = sy_rev_dep (obj k t)" "sy_rev_dep_inv (obj k' t) = sy_rev_dep_inv (obj k t)"
    "sym_is_choice (obj k' t) = sym_is_choice (obj k t)" "sym_is_choice_value (obj k' t) = sym_is_choice_value (obj k t)"
proof -
  have b: "bare (obj k' t) = bare (obj k t)" for t using assms by (simp add: kept_def)
  show "sy_type (obj k' t) = sy_type (obj k t)" "sy_rev_dep (obj k' t) = sy_rev_dep (obj k t)" "sy_rev_dep_inv (obj k' t) = sy_rev_dep_inv (obj k t)"
    "sym_is_choice (obj k' t) = sym_is_choice (obj k t)" "sym_is_choice_value (obj k' t) = sym_is_choice_value (obj k t)"
    using bare_cong [OF b] by auto
  show "sy_name (obj k' t) = sy_name (obj k t)" using b bare_fields(1) by metis
  have ty: "sy_type (obj k' t) = sy_type (obj k t)" for t using bare_cong(1) [OF b] .
  show "syms_of k' = syms_of k" "all_symbols k' = all_symbols k" "modules_sym k' = modules_sym k" "sy_prop (obj k' t) = sy_prop (obj k t)"
    using assms by (simp_all add: kept_def same_globals_def syms_of_def all_symbols_def ty)
qed

lemma kept_deps:
  assumes "kept k k'"
  shows "val_deps (obj k' t) = val_deps (obj k t)" "vis_deps (obj k' t) = vis_deps (obj k t)" "rev_deps (obj k' t) = rev_deps (obj k t)"
    "choice_link (obj k' t) = choice_link (obj k t)" "prompt_deps (obj k' t) = prompt_deps (obj k t)"
    "choice_values (obj k' t) = choice_values (obj k t)" "choice_of (obj k' t) = choice_of (obj k t)"
    "stringy (obj k' t) = stringy (obj k t)" "printable (obj k' t) = printable (obj k t)"
  by (simp_all add: val_deps_def vis_deps_def rev_deps_def list_deps_def arg_deps_def prompt_deps_def prop_deps_def choice_link_def
    choice_values_def choice_of_def sym_get_choice_prop_def stringy_def printable_def kept_fields [OF assms])

lemma kept_sym_ok:
  assumes "kept k k'" "sym_ok k (obj k t)" "user_ok (obj k' t)" shows "sym_ok k' (obj k' t)"
proof -
  have e: "expr_ok k' e = expr_ok k e" for e by (induction e) (simp_all add: kept_deps [OF assms(1)])
  have o: "opt_ok k' x = opt_ok k x" for x by (cases x) (simp_all add: opt_ok_def e)
  have "prop_ok k' (obj k' t) = prop_ok k (obj k t)"
    by (rule ext) (simp add: prop_ok_def e o kept_fields [OF assms(1)] kept_deps [OF assms(1)] split: option.split pexpr.split)
  then show ?thesis
    using assms(2,3) by (auto simp: sym_ok_def user_ok_def o kept_fields [OF assms(1)] kept_deps [OF assms(1)])
qed

lemma kept_wf:
  assumes "wf_conf k" "kept k k'" "\<And>t. t \<in> set (syms_of k) \<Longrightarrow> user_ok (obj k' t)" "\<And>t. set (possible (obj k' t)) \<subseteq> set (possible (obj k t))"
    and "\<And>t. t \<in> statics \<Longrightarrow> valid k' t"
  shows "wf_conf k'" "ranked rank k \<Longrightarrow> ranked rank k'"
proof -
  note f = kept_fields [OF assms(2)] and d = kept_deps [OF assms(2)]
  have "set (possible (obj k' t)) \<subseteq> set (syms_of k)" if "t \<in> set (syms_of k)" for t
    using assms(1) assms(4) [of t] that by (auto simp: wf_conf_def closed_conf_def)
  then have "closed_conf k'" using assms(1) by (simp add: closed_conf_def wf_conf_def f d)
  moreover have "sym_ok k' (obj k' t)" if "t \<in> set (syms_of k)" for t
    using assms(1) that by (intro kept_sym_ok [OF assms(2) _ assms(3)]) (auto simp: wf_conf_def)
  moreover have "sy_rev_tri (obj k' t) = sy_rev_tri (obj k t)" "sy_curr (obj k' t) = sy_curr (obj k t)" for t
    using assms(2) by (simp_all add: kept_def)
  ultimately show "wf_conf k'" using assms(1,5) by (simp add: wf_conf_def f d)
  assume r: "ranked rank k"
  have "set (cand_deps k' (obj k' t)) \<subseteq> set (cand_deps k (obj k t))" for t
    using assms(4) [of t] by (auto simp: cand_deps_def d)
  then have "deps_of k' t \<subseteq> deps_of k t" for t by (auto simp: deps_of_def d f)
  then show "ranked rank k'" using r by (fastforce simp: ranked_def d f)
qed

section \<open>Marks and flags\<close>

lemma kept_upd:
  assumes "bare (f (obj k s)) = bare (obj k s)" "sy_prop (f (obj k s)) = sy_prop (obj k s)" "sy_curr (f (obj k s)) = sy_curr (obj k s)"
    "sy_visible (f (obj k s)) = sy_visible (obj k s)" "sy_rev_tri (f (obj k s)) = sy_rev_tri (obj k s)"
  shows "kept k (upd s f k)"
  using assms by (simp add: kept_def obj_upd)

lemma bare_flag:
  assumes "m AND STATIC AND NOT SYMBOL_NEW = 0" shows "bare (flag_on m y) = bare y" "bare (flag_off m y) = bare y"
proof -
  have "(x OR m) AND STATIC AND NOT SYMBOL_NEW = x AND STATIC AND NOT SYMBOL_NEW"
    "(x AND NOT m) AND STATIC AND NOT SYMBOL_NEW = x AND STATIC AND NOT SYMBOL_NEW" for x
    using assms by (simp_all add: bit_eq_iff bit_simps) blast+
  then show "bare (flag_on m y) = bare y" "bare (flag_off m y) = bare y"
    by (simp_all add: bare_def erase_def flag_on_def flag_off_def and.assoc)
qed

lemma bare_user: "bare (y\<lparr>sy_user := u\<rparr>) = bare y"
  by (simp add: bare_def erase_def)

lemma obj_mark_menus: "obj (fold mark_menu ps k) t = obj k t"
  by (induction ps arbitrary: k) (auto simp: mark_menu_def split: option.splits)

lemma globals_mark_menus: "same_globals k (fold mark_menu ps k)"
  using benign_mark_menus [of k ps] by (simp add: benign_def)

text \<open>The symbol with its first value set by the user.\<close>

definition set_new :: "ksymbol \<Rightarrow> ksymbol" where
  "set_new y = (if has_flag SYMBOL_NEW y then flag_on SYMBOL_CHANGED (flag_off SYMBOL_NEW y) else y)"

lemma obj_clear_new: "obj (clear_new s k) t = (if t = s then set_new (obj k s) else obj k t)"
  by (simp add: clear_new_def set_new_def sym_set_changed_def Let_def obj_mark_menus obj_upd)

lemma globals_clear_new: "same_globals k (clear_new s k)"
  using globals_mark_menus [of "upd s (flag_on SYMBOL_CHANGED) (upd s (flag_off SYMBOL_NEW) k)"]
  by (simp add: clear_new_def sym_set_changed_def Let_def same_globals_def upd_def)

lemma set_new_fields:
  "bare (set_new y) = bare y" "sy_prop (set_new y) = sy_prop y" "sy_curr (set_new y) = sy_curr y" "sy_visible (set_new y) = sy_visible y"
  "sy_rev_tri (set_new y) = sy_rev_tri y" "sy_user (set_new y) = sy_user y" "sym_has_value (set_new y)"
  "has_flag SYMBOL_VALID (set_new y) = has_flag SYMBOL_VALID y"
proof -
  have m: "SYMBOL_CHANGED AND STATIC AND NOT SYMBOL_NEW = 0" "SYMBOL_NEW AND STATIC AND NOT SYMBOL_NEW = 0"
    by (simp_all add: STATIC_def ksymbol_flag_defs)
  show "bare (set_new y) = bare y" by (simp add: set_new_def bare_flag [OF m(1)] bare_flag [OF m(2)])
  have "\<not> has_flag SYMBOL_NEW (flag_off SYMBOL_NEW y)" by (simp add: has_flag_def flag_off_def and.assoc)
  then show "sym_has_value (set_new y)"
    by (auto simp: sym_has_value_def set_new_def has_flag_on) (simp_all add: ksymbol_flag_defs)
  show "has_flag SYMBOL_VALID (set_new y) = has_flag SYMBOL_VALID y"
    by (simp add: set_new_def has_flag_on has_flag_off ksymbol_flag_defs)
  show "sy_prop (set_new y) = sy_prop y" "sy_curr (set_new y) = sy_curr y" "sy_visible (set_new y) = sy_visible y"
    "sy_rev_tri (set_new y) = sy_rev_tri y" "sy_user (set_new y) = sy_user y"
    by (simp_all add: set_new_def flag_on_def flag_off_def)
qed

lemma kept_clear_new: "kept k (clear_new s k)"
  using globals_clear_new [of k s] by (simp add: kept_def obj_clear_new set_new_fields)

section \<open>Clearing the valid marks\<close>

definition listed :: "kconf \<Rightarrow> bool" where
  "listed k \<longleftrightarrow> set (syms_of k) \<subseteq> set (all_symbols k) \<union> statics \<and> set (all_symbols k) \<inter> statics = {} \<and>
     (case modules_sym k of None \<Rightarrow> True | Some m \<Rightarrow> m \<in> set (syms_of k))"

definition cleared :: "kconf \<Rightarrow> kconf" where
  "cleared k = (fold (\<lambda>s. upd s (flag_off SYMBOL_VALID)) (all_symbols k) k)\<lparr>sym_change_count := sym_change_count k + 1\<rparr>"

lemma flag_off_twice: "flag_off m (flag_off m y) = flag_off m y"
  by (simp add: flag_off_def and.assoc)

lemma clear_fold:
  "obj (fold (\<lambda>s. upd s (flag_off m)) xs k) t = (if t \<in> set xs then flag_off m (obj k t) else obj k t)"
  "same_globals k (fold (\<lambda>s. upd s (flag_off m)) xs k)" "sym_change_count (fold (\<lambda>s. upd s (flag_off m)) xs k) = sym_change_count k"
  by (induction xs arbitrary: k) (auto simp: obj_upd flag_off_twice same_globals_def upd_def)

lemma obj_cleared: "obj (cleared k) t = (if t \<in> set (all_symbols k) then flag_off SYMBOL_VALID (obj k t) else obj k t)"
  by (simp add: cleared_def clear_fold)

lemma clear_all_valid_cases:
  "sym_clear_all_valid k = (case modules_sym k of None \<Rightarrow> Inr (cleared k) | Some m \<Rightarrow> sym_calc (cleared k) m)"
  using clear_fold(2) [of k SYMBOL_VALID "all_symbols k"] clear_fold(3) [of SYMBOL_VALID "all_symbols k" k]
  by (simp add: sym_clear_all_valid_def Let_def cleared_def same_globals_def split: option.split)

lemma erase_valid: "erase (flag_off SYMBOL_VALID y) = erase y"
  by (rule erase_flag) (simp add: STATIC_def ksymbol_flag_defs)

lemma cleared_erase: "erase (obj (cleared k) t) = erase (obj k t)"
  by (simp add: obj_cleared erase_valid)

lemma cleared_kept: "kept k (cleared k)"
proof -
  have "bare (obj (cleared k) t) = bare (obj k t)" for t by (rule bare_erase [OF cleared_erase])
  moreover have "same_globals k (cleared k)"
    using clear_fold(2) [of k SYMBOL_VALID "all_symbols k"] by (simp add: cleared_def same_globals_def)
  ultimately show ?thesis by (auto simp: kept_def obj_cleared flag_off_def)
qed

lemma sym_ok_user: "sym_ok k y \<Longrightarrow> user_ok y"
  by (simp add: sym_ok_def user_ok_def)

lemma user_ok_erase: "erase y = erase z \<Longrightarrow> user_ok y = user_ok z"
  using erase_cong(2,3,7,9) [of y z] by (simp add: user_ok_def)

lemma cleared_solved:
  assumes "wf_conf k" "ranked rank k" "listed k"
  shows "well_solved rank (cleared k)"
proof -
  have st: "valid (cleared k) t" if "t \<in> statics" for t
    using that assms(1,3) by (auto simp: valid_def obj_cleared listed_def wf_conf_def)
  have "user_ok (obj (cleared k) t)" if "t \<in> set (syms_of k)" for t
    using assms(1) that user_ok_erase [OF cleared_erase] by (auto simp: wf_conf_def intro: sym_ok_user)
  moreover have "possible (obj (cleared k) t) = possible (obj k t)" for t using deps_cong(6) [OF cleared_erase] .
  ultimately have "wf_conf (cleared k)" "ranked rank (cleared k)"
    using kept_wf [OF assms(1) cleared_kept] st assms(2) by simp_all
  moreover have "none_valid (cleared k)"
    using assms(3) kept_fields(1) [OF cleared_kept]
    by (auto simp: none_valid_def listed_def valid_def obj_cleared has_flag_def flag_off_def and.assoc)
  ultimately show ?thesis by (rule none_valid_solved)
qed

lemma clear_all_valid_ok:
  assumes "wf_conf k" "ranked rank k" "listed k"
  obtains k4 where "sym_clear_all_valid k = Inr k4" "well_solved rank k4" "step {} (cleared k) k4"
proof (cases "modules_sym k")
  case None
  then show thesis using that clear_all_valid_cases cleared_solved [OF assms] by simp
next
  case (Some m)
  then have "m \<in> set (syms_of (cleared k))" using assms(3) kept_fields(1) [OF cleared_kept] by (simp add: listed_def)
  from sym_calc_step [OF cleared_solved [OF assms] this] obtain k4
    where "sym_calc (cleared k) m = Inr k4" "well_solved rank k4" "step {} (cleared k) k4" by metis
  then show thesis using that Some clear_all_valid_cases by simp
qed

lemma well_solved_benign:
  assumes "well_solved rank k" "benign k k'" shows "well_solved rank k'"
proof -
  have st: "step {} k k'" and f: "frame {} k k'" using benign_step [OF assms(2)] by (auto intro: step_frame)
  have "good rank k' t" if "t \<in> set (syms_of k)" "valid k' t" for t
  proof -
    have "valid k t" using that(2) assms(2) by (simp add: benign_def)
    then show ?thesis using assms(1) that(1) by (intro good_step [OF _ st]) (auto simp: well_solved_def)
  qed
  moreover have "wf_conf k'" using assms(1) step_rev [OF st] by (intro wf_frame [OF _ f]) (auto simp: well_solved_def)
  ultimately show ?thesis using assms(1) ranked_frame [OF _ f] syms_frame [OF f] by (simp add: well_solved_def)
qed

lemma benign_all_changed: "benign k (sym_set_all_changed k)"
proof -
  have "benign k (fold (\<lambda>s k. sym_set_changed k s) xs k)" for xs
    by (induction xs arbitrary: k) (auto intro: benign_trans [OF benign_changed])
  then show ?thesis by (simp add: sym_set_all_changed_def)
qed

lemma listed_frame: "listed k \<Longrightarrow> frame X k k' \<Longrightarrow> listed k'"
proof -
  assume l: "listed k" and f: "frame X k k'"
  have "all_symbols k' = all_symbols k" using f erase_cong(2) [OF frame_static [OF f]] by (simp add: all_symbols_def frame_def same_globals_def)
  then show "listed k'" using l syms_frame [OF f] f by (auto simp: listed_def frame_def same_globals_def split: option.splits)
qed

section \<open>Setting a tristate\<close>

definition user_tri :: "tristate \<Rightarrow> ksymbol \<Rightarrow> ksymbol" where
  "user_tri val y = y\<lparr>sy_user := (sy_user y)\<lparr>v_tri := val\<rparr>\<rparr>"

definition told :: "sym \<Rightarrow> tristate \<Rightarrow> kconf \<Rightarrow> kconf" where
  "told s val k = upd s (user_tri val) (clear_new s k)"

lemma obj_told: "obj (told s val k) t = (if t = s then user_tri val (set_new (obj k s)) else obj k t)"
  by (simp add: told_def obj_upd obj_clear_new)

lemma told_kept: "kept k (told s val k)"
  unfolding told_def
  by (rule kept_trans [OF kept_clear_new]) (rule kept_upd, simp_all add: user_tri_def bare_user)

lemma told_wf:
  assumes "wf_conf k" "tri_type (sy_type (obj k s))" "s \<notin> statics"
  shows "wf_conf (told s val k)" "ranked rank k \<Longrightarrow> ranked rank (told s val k)" "listed k \<Longrightarrow> listed (told s val k)"
proof -
  note f = kept_fields [OF told_kept]
  have p: "possible (obj (told s val k) t) = possible (obj k t)" for t
    using f(5) [of s val k t] kept_deps(6) [OF told_kept, of s val k t]
    by (simp add: possible_def prop_deps_def obj_told user_tri_def set_new_fields)
  have u: "user_ok (obj (told s val k) t)" if "t \<in> set (syms_of k)" for t
  proof (cases "t = s")
    case True
    have "sy_type (obj (told s val k) s) = sy_type (obj k s)" "sym_is_choice (obj (told s val k) s) = sym_is_choice (obj k s)" using f(4,9) by auto
    moreover have "v_val (sy_user (obj (told s val k) s)) = v_val (sy_user (obj k s))" by (simp add: obj_told user_tri_def set_new_fields)
    moreover have "user_ok (obj k s)" using assms(1) that True by (auto simp: wf_conf_def intro: sym_ok_user)
    ultimately show ?thesis using assms(2) True by (auto simp: user_ok_def tri_type_def text_type_def)
  next
    case False
    then show ?thesis using assms(1) that by (auto simp: obj_told wf_conf_def intro: sym_ok_user)
  qed
  have st: "valid (told s val k) t" if "t \<in> statics" for t
    using assms(1,3) that by (auto simp: valid_def obj_told wf_conf_def)
  show "wf_conf (told s val k)" "ranked rank k \<Longrightarrow> ranked rank (told s val k)"
    using kept_wf [OF assms(1) told_kept u] p st by simp_all
  show "listed (told s val k)" if "listed k" using that f(1-3) by (auto simp: listed_def split: option.splits)
qed

text \<open>What a symbol has stored of its visibility still holds in a later table.\<close>

lemma cache_later:
  assumes "well_solved rank k" "s \<in> set (syms_of k)" "valid k s" "s \<notin> statics" "initial_curr (sy_type (obj k s)) \<noteq> None" "frame {} k k'"
  shows "spec_vis k' s = sy_visible (obj k s)" "sy_rev_dep_inv (obj k s) = None \<Longrightarrow> spec_select k' s = sy_rev_tri (obj k s)"
proof -
  have c: "cached k s" using assms(1-5) by (auto simp: well_solved_def good_def)
  show "spec_vis k' s = sy_visible (obj k s)"
    using c assms(6) by (auto simp: cached_def stab_def)
  assume "sy_rev_dep_inv (obj k s) = None"
  then have d: "\<not> spec_desel k s" by (simp add: spec_desel_def)
  have cv: "sym_is_choice_value (obj k' s) = sym_is_choice_value (obj k s)" using erase_cong(8) [OF frame_static [OF assms(6)]] .
  show "spec_select k' s = sy_rev_tri (obj k s)"
  proof (cases "sym_is_choice_value (obj k s)")
    case True then show ?thesis using assms(1,2) cv by (auto simp: spec_select_def well_solved_def wf_conf_def)
  next
    case False
    then show ?thesis using c d assms(6) cv by (auto simp: cached_def spec_select_def stab_def)
  qed
qed

text \<open>The visibility of a symbol does not change with the user's value of it.\<close>

lemma surroundings_agree:
  assumes k: "well_solved rank k" and k2: "well_solved rank k2" "syms_of k2 = syms_of k"
    and b: "\<And>t. bare (obj k t) = bare (obj k2 t)"
    and e: "\<And>t. t \<in> set (syms_of k) \<Longrightarrow> rank t < rank s \<Longrightarrow> erase (obj k t) = erase (obj k2 t)"
    and st: "\<And>t. t \<in> statics \<Longrightarrow> sy_curr (obj k t) = sy_curr (obj k2 t)"
    and s: "s \<in> set (syms_of k)"
  obtains ka kb where "frame {} k ka" "frame {} k2 kb" "bare (obj ka s) = bare (obj kb s)" "agree ka kb (set (val_deps (obj ka s)))"
proof -
  obtain ka where ka: "well_solved rank ka" "syms_of ka = syms_of k" "\<And>t. t \<in> set (syms_of k) \<Longrightarrow> valid ka t" "step {} k ka"
    using completed [OF k] by blast
  obtain kb where kb: "well_solved rank kb" "syms_of kb = syms_of k2" "\<And>t. t \<in> set (syms_of k2) \<Longrightarrow> valid kb t" "step {} k2 kb"
    using completed [OF k2(1)] by blast
  note fa = step_frame [OF ka(4)] and fb = step_frame [OF kb(4)]
  have bb: "bare (obj ka t) = bare (obj kb t)" for t
    using bare_erase [OF frame_static [OF fa]] bare_erase [OF frame_static [OF fb]] b by simp
  have st': "sy_curr (obj ka t) = sy_curr (obj kb t)" if "t \<in> statics" for t
    using that k k2(1) st frame_curr [OF fa, of t] frame_curr [OF fb, of t] by (simp add: well_solved_def wf_conf_def)
  have low: "alike (sy_curr (obj ka t)) (sy_curr (obj kb t))" if "t \<in> set (syms_of k)" "rank t < rank s" for t
  proof (rule agree_below [OF ka(1) kb(1)])
    show "syms_of kb = syms_of ka" "t \<in> set (syms_of ka)" using ka(2) kb(2) k2(2) that(1) by simp_all
    show "valid ka u \<and> valid kb u" if "u \<in> set (syms_of ka)" for u using ka(2,3) kb(3) k2(2) that by simp
    show "bare (obj ka u) = bare (obj kb u)" for u by (rule bb)
    show "erase (obj ka u) = erase (obj kb u)" if "u \<in> set (syms_of ka)" "rank u < rank s" for u
      using e [of u] that ka(2) frame_static [OF fa] frame_static [OF fb] by simp
  qed (use that(2) st' in simp_all)
  have ag: "agree ka kb (set (val_deps (obj ka s)))"
    unfolding agree_def
  proof (intro ballI conjI)
    fix u assume "u \<in> set (val_deps (obj ka s))"
    then have "u \<in> set (val_deps (obj k s))" using deps_cong(5) [OF frame_static [OF fa]] by simp
    then show "alike (sy_curr (obj ka u)) (sy_curr (obj kb u))"
      using k s by (intro low) (auto simp: well_solved_def wf_conf_def closed_conf_def ranked_def)
  qed (rule bare_cong(1) [OF bb])
  show thesis using that [OF fa fb bb ag] .
qed

lemma surroundings_same:
  assumes k: "well_solved rank k" "valid k s" and k2: "well_solved rank k2" "valid k2 s" "syms_of k2 = syms_of k"
    and b: "\<And>t. bare (obj k t) = bare (obj k2 t)"
    and e: "\<And>t. t \<in> set (syms_of k) \<Longrightarrow> rank t < rank s \<Longrightarrow> erase (obj k t) = erase (obj k2 t)"
    and st: "\<And>t. t \<in> statics \<Longrightarrow> sy_curr (obj k t) = sy_curr (obj k2 t)"
    and s: "s \<in> set (syms_of k)" "s \<notin> statics" "initial_curr (sy_type (obj k s)) \<noteq> None"
  shows "sy_visible (obj k2 s) = sy_visible (obj k s)" "sy_rev_dep_inv (obj k s) = None \<Longrightarrow> sy_rev_tri (obj k2 s) = sy_rev_tri (obj k s)"
proof -
  obtain ka kb where fa: "frame {} k ka" and fb: "frame {} k2 kb" and bb: "bare (obj ka s) = bare (obj kb s)"
    and ag: "agree ka kb (set (val_deps (obj ka s)))"
    using surroundings_agree [OF k(1) k2(1,3) b e st s(1)] by blast
  have s2: "s \<in> set (syms_of k2)" "initial_curr (sy_type (obj k2 s)) \<noteq> None"
    using s k2(3) bare_cong(1) [OF b, of s] by simp_all
  note va = cache_later [OF k(1) s(1) k(2) s(2,3) fa] and vb = cache_later [OF k2(1) s2(1) k2(2) s(2) s2(2) fb]
  show "sy_visible (obj k2 s) = sy_visible (obj k s)"
    using va(1) vb(1) vis_agree(1) [OF bb val_deps_agree(1) [OF ag]] by simp
  assume inv: "sy_rev_dep_inv (obj k s) = None"
  then have "sy_rev_dep_inv (obj k2 s) = None" using bare_cong(3) [OF b, of s] by simp
  then show "sy_rev_tri (obj k2 s) = sy_rev_tri (obj k s)"
    using va(2) [OF inv] vb(2) select_agree [OF bb val_deps_agree(2) [OF ag]] by simp
qed

text \<open>The operation as a whole, for a symbol that is no value of a choice.\<close>

lemma set_tristate_cases:
  assumes "\<not> sym_is_choice_value (obj k s)" "v_tri (sy_curr (obj k s)) = val \<or> sym_tristate_within_range (obj k s) val"
  shows "sym_set_tristate_value s val k =
    (if v_tri (sy_curr (obj k s)) = val then Inr (told s val k, True)
     else rbind (sym_clear_all_valid (told s val k)) (\<lambda>k4.
       Inr (if modules_sym k4 = Some s then sym_set_all_changed k4 else k4, True)))"
proof -
  have "\<not> sym_is_choice_value (obj (clear_new s k) s)" using assms(1) kept_fields(10) [OF kept_clear_new] by simp
  then show ?thesis using assms(2) by (auto simp: sym_set_tristate_value_def Let_def told_def user_tri_def [abs_def])
qed

end
