(* ===== verification/Kconfig_Set_Props.thy ===== *)
theory Kconfig_Set_Props
  imports Kconfig_Set
begin

text \<open>The properties of setting a value.\<close>

section \<open>A value that was set is found\<close>

lemma told_step:
  assumes k: "well_solved rank k" "valid k s" "listed k"
    and s: "s \<in> set (syms_of k)" "s \<notin> statics" "tri_type (sy_type (obj k s))" "\<not> sym_is_choice_value (obj k s)"
      "v_tri (sy_curr (obj k s)) = val \<or> sym_tristate_within_range (obj k s) val" "v_tri (sy_curr (obj k s)) \<noteq> val"
  obtains k1 where "sym_set_tristate_value s val k = Inr (k1, True)" "well_solved rank k1" "syms_of k1 = syms_of k"
    "\<And>t. erase (obj k1 t) = erase (obj (told s val k) t)" "\<And>t. t \<in> statics \<Longrightarrow> sy_curr (obj k1 t) = sy_curr (obj k t)"
proof -
  let ?k = "told s val k"
  have wf: "wf_conf k" "ranked rank k" using k(1) by (auto simp: well_solved_def)
  note t = told_wf [OF wf(1) s(3,2)]
  obtain k4 where k4: "sym_clear_all_valid ?k = Inr k4" "well_solved rank k4" "step {} (cleared ?k) k4"
    using clear_all_valid_ok [OF t(1) t(2) [OF wf(2)] t(3) [OF k(3)]] by blast
  let ?k1 = "if modules_sym k4 = Some s then sym_set_all_changed k4 else k4"
  have b: "benign k4 ?k1" using benign_all_changed by simp
  have f: "frame {} (cleared ?k) ?k1" using frame_trans [OF step_frame [OF k4(3)] step_frame [OF benign_step [OF b]]] .
  show thesis
  proof (rule that)
    show "sym_set_tristate_value s val k = Inr (?k1, True)" using set_tristate_cases [OF s(4,5)] s(6) k4(1) by simp
    show "well_solved rank ?k1" using well_solved_benign [OF k4(2) b] .
    show "syms_of ?k1 = syms_of k" using syms_frame [OF f] kept_fields(1) [OF cleared_kept] kept_fields(1) [OF told_kept] by simp
    show "erase (obj ?k1 u) = erase (obj ?k u)" for u using frame_static [OF f] cleared_erase by simp
    show "sy_curr (obj ?k1 u) = sy_curr (obj k u)" if "u \<in> statics" for u
    proof -
      have c: "well_solved rank (cleared ?k)" using cleared_solved [OF t(1) t(2) [OF wf(2)] t(3) [OF k(3)]] .
      have "valid (cleared ?k) u" using c that by (simp add: well_solved_def wf_conf_def)
      then have "sy_curr (obj ?k1 u) = sy_curr (obj (cleared ?k) u)" using frame_curr [OF f] by simp
      also have "\<dots> = sy_curr (obj k u)" using cleared_kept [of ?k] told_kept [of k s val] by (simp add: kept_def)
      finally show ?thesis .
    qed
  qed
qed

lemma set_effective:
  assumes k: "well_solved rank k" "s \<in> set (syms_of k)" "valid k s" "listed k"
    and o: "s \<notin> statics" "tri_type (sy_type (obj k s))" "\<not> sym_is_choice (obj k s)" "\<not> sym_is_choice_value (obj k s)"
      "sy_rev_dep_inv (obj k s) = None" "v_tri (sy_curr (obj k s)) = val \<or> sym_tristate_within_range (obj k s) val"
  shows "\<exists>k1 k2. sym_set_tristate_value s val k = Inr (k1, True) \<and> sym_calc k1 s = Inr k2 \<and> v_tri (sy_curr (obj k2 s)) = val"
proof -
  show ?thesis
  proof (cases "v_tri (sy_curr (obj k s)) = val")
    case True
    have "obj (told s val k) s = user_tri val (set_new (obj k s))" by (simp add: obj_told)
    then have "has_flag SYMBOL_VALID (obj (told s val k) s)" "v_tri (sy_curr (obj (told s val k) s)) = val"
      using k(3) True by (simp_all add: valid_def user_tri_def set_new_fields has_flag_def [of _ "_\<lparr>sy_user := _\<rparr>"])
        (simp add: has_flag_def [symmetric] set_new_fields)
    then show ?thesis
      using True set_tristate_cases [OF o(4,6)] by (auto simp: sym_calc_def sym_calc_body_def)
  next
    case False
    then have wr: "sym_tristate_within_range (obj k s) val" using o(6) by simp
    obtain k1 where k1: "sym_set_tristate_value s val k = Inr (k1, True)" "well_solved rank k1" "syms_of k1 = syms_of k"
      "\<And>t. erase (obj k1 t) = erase (obj (told s val k) t)" "\<And>t. t \<in> statics \<Longrightarrow> sy_curr (obj k1 t) = sy_curr (obj k t)"
      using told_step [OF k(1,3,4) k(2) o(1,2,4,6) False] by blast
    have "s \<in> set (syms_of k1)" using k(2) k1(3) by simp
    from sym_calc_step [OF k1(2) this] obtain k2
      where k2: "sym_calc k1 s = Inr k2" "well_solved rank k2" "valid k2 s" "step {} k1 k2" by metis
    note f = step_frame [OF k2(4)]
    have e: "erase (obj k2 t) = erase (obj (told s val k) t)" for t using frame_static [OF f] k1(4) by simp
    have b: "bare (obj k t) = bare (obj k2 t)" for t
      using bare_erase [OF e, of t] told_kept [of k s val] by (simp add: kept_def)
    have sy: "syms_of k2 = syms_of k" using syms_frame [OF f] k1(3) by simp
    have ini: "initial_curr (sy_type (obj k s)) \<noteq> None" using o(2) by (auto simp: tri_type_def)
    have "sy_visible (obj k2 s) = sy_visible (obj k s)" "sy_rev_tri (obj k2 s) = sy_rev_tri (obj k s)"
    proof -
      have low: "erase (obj k t) = erase (obj k2 t)" if "rank t < rank s" for t using e [of t] that by (auto simp: obj_told)
      have st: "sy_curr (obj k t) = sy_curr (obj k2 t)" if "t \<in> statics" for t
        using k1(2,5) that frame_curr [OF f, of t] by (simp add: well_solved_def wf_conf_def)
      show "sy_visible (obj k2 s) = sy_visible (obj k s)" "sy_rev_tri (obj k2 s) = sy_rev_tri (obj k s)"
        using surroundings_same [OF k(1,3) k2(2,3) sy b _ st k(2) o(1) ini] o(5) low by auto
    qed
    moreover have "sy_type (obj k2 s) = sy_type (obj k s)" "sym_is_choice (obj k2 s) = sym_is_choice (obj k s)"
      "sym_is_choice_value (obj k2 s) = sym_is_choice_value (obj k s)" "sy_rev_dep_inv (obj k2 s) = sy_rev_dep_inv (obj k s)"
      using bare_cong [OF b, of s] by auto
    moreover have "sym_has_value (obj k2 s)" "v_tri (sy_user (obj k2 s)) = val"
      using erase_cong(3,9) [OF e, of s] by (simp_all add: obj_told user_tri_def sym_has_value_def has_flag_def)
        (use set_new_fields(7) [of "obj k s"] in \<open>simp add: sym_has_value_def has_flag_def\<close>)
    ultimately have "v_tri (sy_curr (obj k2 s)) = val"
      using bounded_value [OF k2(2) _ k2(3) o(1) refl] k(2) sy o(2-5) wr
      by (auto simp: sym_tristate_within_range_def sym_get_type_def Let_def max_def split: if_splits)
    then show ?thesis using k1(1) k2(1) by blast
  qed
qed

text \<open>
  C6. Setting takes effect. Let a symbol that is neither a choice nor a value of one, and that cannot be
  deselected, have been evaluated in a well-formed table without cyclic dependencies. If
  \<open>sym_tristate_within_range\<close> allows a value, then \<open>sym_set_tristate_value\<close> succeeds,
  and the next evaluation of the symbol gives it exactly that value, although all values
  have been discarded in between.
\<close>

theorem set_tristate_takes_effect:
  assumes "wf_conf k0" "ranked rank k0" "none_valid k0" "set ss \<subseteq> set (syms_of k0)" "sym_calc_all k0 ss = Inr k"
    and "listed k0" "s \<in> set ss" "s \<notin> statics" "tri_type (sy_type (obj k s))" "\<not> sym_is_choice (obj k s)" "\<not> sym_is_choice_value (obj k s)"
    and "sy_rev_dep_inv (obj k s) = None" "sym_tristate_within_range (obj k s) val"
  shows "\<exists>k1 k2. sym_set_tristate_value s val k = Inr (k1, True) \<and> sym_calc k1 s = Inr k2 \<and> v_tri (sy_curr (obj k2 s)) = val"
proof -
  note run = run_solved [OF assms(1-5)]
  have "s \<in> set (syms_of k)" "valid k s" using assms(4,7) run(2,4) by auto
  from set_effective [OF run(1) this listed_frame [OF assms(6) run(3)] assms(8-12)] assms(13) show ?thesis by blast
qed

text \<open>A tristate without a condition.\<close>

definition one :: kconf where
  "one = kconf_start\<lparr>k_tab := table_of
     [demo_sym (Some ''A'') S_TRISTATE V_NULL Tyes 0 [demo_prop P_PROMPT (Some ''a'') None PE_NULL] None],
     k_count := 1, k_hash := (\<lambda>h. if h = 65 then [Sym 0] else [])\<rparr>"

lemma one_wf: "wf_conf one" "ranked demo_rank one" "none_valid one" "set [Sym 0] \<subseteq> set (syms_of one)"
  by code_simp+

lemma one_listed: "listed one"
  by code_simp

definition one_done :: kconf where
  "one_done = projr (sym_calc_all one [Sym 0])"

lemma one_run: "sym_calc_all one [Sym 0] = Inr one_done"
  using sym_calc_all_step [OF none_valid_solved [OF one_wf(1-3)] one_wf(4)] by (auto simp: one_done_def)

lemma one_range: "sym_tristate_within_range (obj one_done (Sym 0)) Tmod" "v_tri (sy_curr (obj one_done (Sym 0))) = Tyes"
  "sym_tristate_within_range (obj one_done (Sym 0)) Tno"
  by code_simp+

lemma one_fixed:
  "tri_type (sy_type (obj one_done (Sym 0)))" "\<not> sym_is_choice (obj one_done (Sym 0))" "\<not> sym_is_choice_value (obj one_done (Sym 0))"
  "sy_rev_dep_inv (obj one_done (Sym 0)) = None" "Sym 0 \<notin> statics"
proof -
  have e: "erase (obj one_done (Sym 0)) = erase (obj one (Sym 0))" using frame_static [OF run_solved(3) [OF one_wf one_run]] .
  show "tri_type (sy_type (obj one_done (Sym 0)))" "\<not> sym_is_choice (obj one_done (Sym 0))" "\<not> sym_is_choice_value (obj one_done (Sym 0))"
    "sy_rev_dep_inv (obj one_done (Sym 0)) = None" "Sym 0 \<notin> statics"
    unfolding erase_cong [OF e] by code_simp+
qed

theorem set_tristate_takes_effect_witness:
  "\<exists>k1 k2. sym_set_tristate_value (Sym 0) Tmod one_done = Inr (k1, True) \<and> sym_calc k1 (Sym 0) = Inr k2 \<and> v_tri (sy_curr (obj k2 (Sym 0))) = Tmod"
  by (rule set_tristate_takes_effect [OF one_wf one_run one_listed _ one_fixed(5,1-4) one_range(1)]) simp

section \<open>Toggling\<close>

definition next_allowed :: "ksymbol \<Rightarrow> tristate" where
  "next_allowed y =
     (let old = v_tri (sy_curr y) in
      if sym_tristate_within_range y (next_tristate old) then next_tristate old
      else if sym_tristate_within_range y (next_tristate (next_tristate old)) then next_tristate (next_tristate old)
      else old)"

lemma set_refused:
  "v_tri (sy_curr (obj k s)) \<noteq> val \<Longrightarrow> \<not> sym_tristate_within_range (obj k s) val \<Longrightarrow> sym_set_tristate_value s val k = Inr (k, False)"
  by (simp add: sym_set_tristate_value_def Let_def)

lemma next_tristate_facts: "next_tristate t \<noteq> t" "t \<noteq> next_tristate t" "t \<noteq> next_tristate (next_tristate t)" "next_tristate (next_tristate t) \<noteq> t" "next_tristate (next_tristate (next_tristate t)) = t"
  by (cases t; simp)+

lemma toggle_sets:
  assumes "sym_set_tristate_value s (next_allowed (obj k s)) k = Inr (k1, True)"
  shows "sym_toggle_tristate_value s k = Inr (k1, next_allowed (obj k s))"
proof -
  let ?y = "obj k s" and ?o = "v_tri (sy_curr (obj k s))"
  consider (first) "sym_tristate_within_range ?y (next_tristate ?o)"
    | (second) "\<not> sym_tristate_within_range ?y (next_tristate ?o)" "sym_tristate_within_range ?y (next_tristate (next_tristate ?o))"
    | (none) "\<not> sym_tristate_within_range ?y (next_tristate ?o)" "\<not> sym_tristate_within_range ?y (next_tristate (next_tristate ?o))"
    by blast
  then show ?thesis
  proof cases
    case first
    then show ?thesis using assms by (simp add: sym_toggle_tristate_value_def numeral_3_eq_3 next_allowed_def Let_def)
  next
    case second
    then show ?thesis
      using assms set_refused [of k s "next_tristate ?o"] next_tristate_facts [of ?o]
      by (simp add: sym_toggle_tristate_value_def numeral_3_eq_3 next_allowed_def Let_def)
  next
    case none
    then show ?thesis
      using assms set_refused [of k s "next_tristate ?o"] set_refused [of k s "next_tristate (next_tristate ?o)"] next_tristate_facts [of ?o]
      by (simp add: sym_toggle_tristate_value_def numeral_3_eq_3 next_allowed_def Let_def)
  qed
qed

text \<open>
  C39. Toggling an evaluated symbol moves it to the next value in the order \<open>n\<close>, \<open>m\<close>, \<open>y\<close>, \<open>n\<close>
  that is allowed, and the loop always ends: the value it started from is accepted at the
  latest. The next evaluation gives the symbol the value that was returned.
\<close>

theorem toggle_moves_on:
  assumes "wf_conf k0" "ranked rank k0" "none_valid k0" "set ss \<subseteq> set (syms_of k0)" "sym_calc_all k0 ss = Inr k"
    and "listed k0" "s \<in> set ss" "s \<notin> statics" "tri_type (sy_type (obj k s))" "\<not> sym_is_choice (obj k s)" "\<not> sym_is_choice_value (obj k s)"
    and "sy_rev_dep_inv (obj k s) = None"
  shows "\<exists>k1 k2. sym_toggle_tristate_value s k = Inr (k1, next_allowed (obj k s)) \<and> sym_calc k1 s = Inr k2 \<and>
    v_tri (sy_curr (obj k2 s)) = next_allowed (obj k s)"
proof -
  note run = run_solved [OF assms(1-5)]
  have s: "s \<in> set (syms_of k)" "valid k s" using assms(4,7) run(2,4) by auto
  have "v_tri (sy_curr (obj k s)) = next_allowed (obj k s) \<or> sym_tristate_within_range (obj k s) (next_allowed (obj k s))"
    by (auto simp: next_allowed_def Let_def)
  from set_effective [OF run(1) s listed_frame [OF assms(6) run(3)] assms(8-12) this] toggle_sets [of s k]
  show ?thesis by blast
qed

theorem toggle_moves_on_witness:
  "\<exists>k1 k2. sym_toggle_tristate_value (Sym 0) one_done = Inr (k1, Tno) \<and> sym_calc k1 (Sym 0) = Inr k2 \<and> v_tri (sy_curr (obj k2 (Sym 0))) = Tno"
proof -
  have "next_allowed (obj one_done (Sym 0)) = Tno" using one_range by (simp add: next_allowed_def)
  then show ?thesis using toggle_moves_on [OF one_wf one_run one_listed _ one_fixed(5,1-4)] by simp
qed

end
