(* ===== verification/Kconfig_Set_String.thy ===== *)
theory Kconfig_Set_String
  imports Kconfig_Set
begin

text \<open>
  Setting a string or a number: the test against the range of the symbol, which evaluates the symbols
  that limit it, and the value that the next evaluation finds.
\<close>

section \<open>Evaluation of what a symbol depends on\<close>

text \<open>The operations of an activation, at \<open>sym_calc\<close>, for the symbols of a smaller rank.\<close>

definition calc_now :: "(sym \<Rightarrow> nat) \<Rightarrow> kconf \<Rightarrow> sym \<Rightarrow> kconf \<Rightarrow> bool" where
  "calc_now rank k s k' \<longleftrightarrow> s \<notin> statics \<and> calc_inv rank (Suc (invalid_count k)) k s k'"

interpretation sc: calc_context True sym_calc s "mark_valid s k" "calc_now rank k s" "{d \<in> set (syms_of k). rank d < rank s}"
proof
  fix k1 d assume I: "calc_now rank k s k1" and d: "d \<in> {d \<in> set (syms_of k). rank d < rank s}"
  have "okr True (solves rank k1 d) (sym_calc k1 d)"
    unfolding sym_calc_def using I d by (intro calc_solves_aux) (auto simp: calc_now_def calc_inv_def good_upto_def)
  then show "okr True (\<lambda>k'. step {} k1 k' \<and> valid k' d \<and> calc_now rank k s k') (sym_calc k1 d)"
    by (rule okr_mono) (use I d calc_inv_call in \<open>auto simp: calc_now_def solves_def\<close>)
next
  show "calc_now rank k s k1 \<Longrightarrow> keeps_others s k1 k2 \<Longrightarrow> calc_now rank k s k2" for k1 k2
    using calc_inv_keeps by (auto simp: calc_now_def)
  show "valid (mark_valid s k) s" by (simp add: mark_valid_fields)
  fix k1 d assume f: "frame {s} (mark_valid s k) k1" and I: "calc_now rank k s k1" and d: "d \<in> {d \<in> set (syms_of k). rank d < rank s}"
    and v: "valid k1 d" "stringy (obj (mark_valid s k) d)"
  have "stringy (obj k1 d)" using stringy_cong(1) [OF frame_static [OF f]] v(2) by blast
  then show "is_text (v_val (sy_curr (obj k1 d)))" using calc_inv_text [of rank _ k s k1 d] I d v(1) by (auto simp: calc_now_def)
qed

lemma now_start:
  assumes "well_solved rank k" "valid k s" "s \<notin> statics" shows "sc.A s k rank k"
proof -
  have "frame {s} (mark_valid s k) k"
    using assms(2) mark_valid_fields by (auto simp: frame_def valid_def same_globals_def upd_def erase_flag)
  then show ?thesis
    using assms by (auto simp: sc.A_def calc_now_def calc_inv_def well_solved_def good_upto_def)
qed

text \<open>What a symbol depends on has a smaller rank.\<close>

lemma now_fine:
  assumes "well_solved rank k" "s \<in> set (syms_of k)" shows "sc.val_fine s k rank (set (val_deps (obj k s)))"
proof -
  have e: "erase (obj (mark_valid s k) t) = erase (obj k t)" for t by (rule mark_valid_fields)
  have "sym_ok (mark_valid s k) (obj (mark_valid s k) s)"
    using assms sym_ok_frame [OF mark_frame, of s k s] by (simp add: well_solved_def wf_conf_def)
  moreover have "set (val_deps (obj k s)) \<subseteq> {d \<in> set (syms_of k). rank d < rank s}"
    using assms by (auto simp: well_solved_def wf_conf_def closed_conf_def ranked_def)
  ultimately show ?thesis using deps_cong(5) [OF e] by (simp add: sc.val_fine_def sc.sym_fine_def)
qed

definition in_limits :: "kconf \<Rightarrow> sym \<Rightarrow> nat \<Rightarrow> int \<Rightarrow> bool" where
  "in_limits k s base val =
     (case first_prop P_RANGE k s (prop_indices k s) of
        None \<Rightarrow> True
      | Some i \<Rightarrow> (case p_expr (sy_prop (obj k s) ! i) of
          PE_RANGE l r \<Rightarrow> val_number k l base \<le> val \<and> val \<le> val_number k r base
        | _ \<Rightarrow> False))"

lemma in_limits_clamp:
  assumes "sy_type (obj k s) = S_INT \<or> sy_type (obj k s) = S_HEX" "in_limits k s (type_base (sy_type (obj k s)) 10) (to_int (strtol str (type_base (sy_type (obj k s)) 10)))"
  shows "clamp_text k s str = str"
  using assms by (auto simp: clamp_text_def in_limits_def Let_def split: option.splits pexpr.splits)

lemma within_limits_ok:
  assumes "well_solved rank k" "valid k s" "s \<in> set (syms_of k)" "s \<notin> statics"
  shows "okr True (\<lambda>(k1, ok). sc.goes s k rank k k1 \<and>
     (ok \<longrightarrow> sym_string_valid (obj k s) str \<and> stab (set (val_deps (obj k s))) k1 (\<lambda>k. in_limits k s base (to_int (strtol str base)))))
   (sym_within_limits s str base k)" (is "okr True ?P _")
proof (cases "sym_string_valid (obj k s) str")
  case False then show ?thesis using sc.goes_refl [OF now_start [OF assms(1,2,4)]] by (simp add: sym_within_limits_def)
next
  case True
  let ?Y = "set (val_deps (obj k s))" and ?val = "to_int (strtol str base)"
  note A = now_start [OF assms(1,2,4)] and fine = now_fine [OF assms(1,3)]
  have YL: "?Y \<subseteq> {d \<in> set (syms_of k). rank d < rank s}" using fine by (simp add: sc.val_fine_def)
  have e: "erase (obj (mark_valid s k) t) = erase (obj k t)" for t by (rule mark_valid_fields)
  show ?thesis
    unfolding sym_within_limits_def sym_get_range_prop_def if_not_P [OF not_not [THEN iffD2, OF True]]
  proof (rule okr_bind [OF sc.first_prop_ok [OF A fine]], simp, clarsimp simp only: sc.evaluates_def prod.case)
    fix k1 pr assume g: "sc.goes s k rank k k1" and pr: "stab ?Y k1 (\<lambda>k. first_prop P_RANGE k s (prop_indices k s) = pr)"
    show "okr True ?P (case pr of None \<Rightarrow> Inr (k1, True) | Some i \<Rightarrow>
        rbind (range_of (sy_prop (obj k1 s) ! i)) (\<lambda>(l, r). let val = ?val in
        rbind (sym_get_range_val sym_calc l base k1) (\<lambda>(k2, lo).
        if lo \<le> val then rbind (sym_get_range_val sym_calc r base k2) (\<lambda>(k3, hi). Inr (k3, val \<le> hi)) else Inr (k2, False))))"
    proof (cases pr)
      case None
      have "stab ?Y k1 (\<lambda>k. in_limits k s base ?val)" by (rule stab_weaken [OF pr]) (simp add: in_limits_def None)
      then show ?thesis using None g True by simp
    next
      case (Some i)
      have A1: "sc.A s k rank k1" by (rule sc.goes_A [OF g])
      have i: "i < length (sy_prop (obj (mark_valid s k) s))" "p_type (sy_prop (obj (mark_valid s k) s) ! i) = P_RANGE"
        using sc.first_prop_bound [OF pr [unfolded Some] A1] by auto
      have ex: "p_expr (sy_prop (obj k' s) ! i) = p_expr (sy_prop (obj (mark_valid s k) s) ! i)" if "frame UNIV k1 k'" for k'
        by (rule sc.prop_vis_static(4) [OF A1 that i(1)])
      have "sym_ok (mark_valid s k) (obj (mark_valid s k) s)" using fine by (simp add: sc.val_fine_def sc.sym_fine_def)
      then have "prop_ok (mark_valid s k) (obj (mark_valid s k) s) (sy_prop (obj (mark_valid s k) s) ! i)"
        using i(1) by (simp add: sym_ok_def list_all_length)
      then obtain l r where lr: "p_expr (sy_prop (obj (mark_valid s k) s) ! i) = PE_RANGE l r"
        and st: "stringy (obj (mark_valid s k) l)" "stringy (obj (mark_valid s k) r)"
        using i(2) by (cases "p_expr (sy_prop (obj (mark_valid s k) s) ! i)") (simp_all add: prop_ok_def)
      have "{l, r} \<subseteq> set (arg_deps P_RANGE (obj (mark_valid s k) s))"
        unfolding arg_deps_def using prop_deps_nth [OF i(1), of "\<lambda>p. p_type p = P_RANGE" "\<lambda>p. pexpr_syms (p_expr p)"] i(2) lr by simp
      then have mem: "l \<in> ?Y" "r \<in> ?Y" 
        using val_deps_parts(5) [of "obj (mark_valid s k) s"] deps_cong(5) [OF e [of s]] by auto
      have rg: "range_of (sy_prop (obj k1 s) ! i) = Inr (l, r)" using ex [OF frame_refl] lr by (simp add: range_of_def)
      have "okr True ?P (rbind (sym_get_range_val sym_calc l base k1) (\<lambda>(k2, lo).
          if lo \<le> ?val then rbind (sym_get_range_val sym_calc r base k2) (\<lambda>(k3, hi). Inr (k3, ?val \<le> hi)) else Inr (k2, False)))"
      proof (rule okr_bind [OF sc.range_val_ok [OF A1 mem(1) YL]], simp add: st, clarsimp simp only: sc.evaluates_def prod.case)
        fix k2 lo assume g2: "sc.goes s k rank k1 k2" and lo: "stab ?Y k2 (\<lambda>k. val_number k l base = lo)"
        have A2: "sc.A s k rank k2" by (rule sc.goes_A [OF g2])
        have g02: "sc.goes s k rank k k2" by (rule sc.goes_trans [OF g g2])
        show "okr True ?P (if lo \<le> ?val then rbind (sym_get_range_val sym_calc r base k2) (\<lambda>(k3, hi). Inr (k3, ?val \<le> hi)) else Inr (k2, False))"
        proof (cases "lo \<le> ?val")
          case True
          show ?thesis
            unfolding if_P [OF True]
          proof (rule okr_bind [OF sc.range_val_ok [OF A2 mem(2) YL]], simp add: st, clarsimp simp only: sc.evaluates_def prod.case)
            fix k3 hi assume g3: "sc.goes s k rank k2 k3" and hi: "stab ?Y k3 (\<lambda>k. val_number k r base = hi)"
            have pr3: "stab ?Y k3 (\<lambda>k. first_prop P_RANGE k s (prop_indices k s) = Some i)"
              using sc.goes_stab [OF sc.goes_trans [OF g2 g3] pr] Some by simp
            have ex3: "p_expr (sy_prop (obj k' s) ! i) = PE_RANGE l r" if "frame UNIV k3 k'" for k'
              using lr sc.prop_vis_static(4) [OF sc.goes_A [OF g3] that i(1)] by simp
            have "stab (?Y \<union> (?Y \<union> ?Y)) k3 (\<lambda>k. in_limits k s base ?val)" if "?val \<le> hi"
              by (rule stab_combine [OF pr3 stab_combine [OF sc.goes_stab [OF g3 lo] hi, of "\<lambda>k. val_number k l base = lo \<and> val_number k r base = hi"]])
                (use that True ex3 in \<open>auto simp: in_limits_def\<close>)
            then show "okr True ?P (Inr (k3, ?val \<le> hi))"
              using sc.goes_trans [OF g02 g3] \<open>sym_string_valid (obj k s) str\<close> by simp
          qed
        qed (use g02 in simp)
      qed
      then show ?thesis by (simp add: Some rg Let_def)
    qed
  qed
qed

text \<open>The table after the test is as well evaluated as before.\<close>

lemma now_solved:
  assumes "well_solved rank k" "valid k s" "sc.goes s k rank k k1"
  shows "well_solved rank k1" "frame {} k k1" "valid k1 s"
proof -
  have st: "step {} k k1" and I: "calc_inv rank (Suc (invalid_count k)) k s k1"
    using assms(3) by (auto simp: sc.goes_def sc.A_def calc_now_def)
  show f: "frame {} k k1" by (rule step_frame [OF st])
  show "valid k1 s" using frame_valid [OF f assms(2)] .
  have "good rank k1 t" if t: "t \<in> set (syms_of k1)" "valid k1 t" for t
  proof (cases "valid k t")
    case True
    then show ?thesis using assms(1) t(1) syms_frame [OF f] by (intro good_step [OF _ st]) (auto simp: well_solved_def)
  next
    case False
    then have "rank t < rank s" using I t(2) assms(2) by (auto simp: calc_inv_def)
    then show ?thesis using I t by (auto simp: calc_inv_def good_upto_def)
  qed
  then show "well_solved rank k1" using I by (auto simp: calc_inv_def well_solved_def)
qed

section \<open>Setting a string\<close>

definition user_string :: "nat \<Rightarrow> string \<Rightarrow> ksymbol \<Rightarrow> ksymbol" where
  "user_string a str y = y\<lparr>sy_user := (sy_user y)\<lparr>v_val := V_heap a str\<rparr>\<rparr>"

definition entered :: "sym \<Rightarrow> string \<Rightarrow> kconf \<Rightarrow> kconf" where
  "entered s str k = set_user_string s str (clear_new s k)"

lemma obj_entered: "obj (entered s str k) t = (if t = s then user_string (k_heap (clear_new s k)) str (set_new (obj k s)) else obj k t)"
  by (simp add: entered_def set_user_string_def user_string_def obj_upd obj_clear_new)

lemma entered_kept: "kept k (entered s str k)"
proof -
  have "kept (clear_new s k) (entered s str k)"
    unfolding entered_def set_user_string_def
    by (simp add: kept_def same_globals_def obj_upd bare_user) (simp add: upd_def)
  then show ?thesis by (rule kept_trans [OF kept_clear_new])
qed

lemma entered_wf:
  assumes "wf_conf k" "text_type (sy_type (obj k s))" "s \<notin> statics"
  shows "wf_conf (entered s str k)" "ranked rank k \<Longrightarrow> ranked rank (entered s str k)" "listed k \<Longrightarrow> listed (entered s str k)"
proof -
  note f = kept_fields [OF entered_kept]
  have p: "set (possible (obj (entered s str k) t)) \<subseteq> set (possible (obj k t))" for t
  proof (cases "t = s")
    case True
    have "sy_prop (obj (entered s str k) t) = sy_prop (obj k t)" "choice_values (obj (entered s str k) t) = choice_values (obj k t)"
      by (rule f(5), rule kept_deps(6) [OF entered_kept])
    moreover have "v_val (sy_user (obj (entered s str k) t)) = V_heap (k_heap (clear_new s k)) str" using True by (simp add: obj_entered user_string_def)
    ultimately show ?thesis by (auto simp: possible_def prop_deps_def)
  qed (simp add: obj_entered)
  have u: "user_ok (obj (entered s str k) t)" if "t \<in> set (syms_of k)" for t
  proof (cases "t = s")
    case True
    have "is_text (v_val (sy_user (obj (entered s str k) s)))" by (simp add: obj_entered user_string_def is_text_def)
    then show ?thesis using assms(2) True f(4) by (auto simp: user_ok_def tri_type_def text_type_def)
  qed (use assms(1) that in \<open>auto simp: obj_entered wf_conf_def intro: sym_ok_user\<close>)
  have st: "valid (entered s str k) t" if "t \<in> statics" for t
    using assms(1,3) that by (auto simp: valid_def obj_entered wf_conf_def)
  show "wf_conf (entered s str k)" "ranked rank k \<Longrightarrow> ranked rank (entered s str k)"
    using kept_wf [OF assms(1) entered_kept u p] st by simp_all
  show "listed (entered s str k)" if "listed k" using that f(1-3) by (auto simp: listed_def split: option.splits)
qed

text \<open>The symbol is evaluated again after its string was entered.\<close>

lemma entered_effective:
  assumes k: "well_solved rank k" "valid k s" "listed k"
    and s: "s \<in> set (syms_of k)" "s \<notin> statics" "text_type (sy_type (obj k s))" "sy_visible (obj k s) \<noteq> Tno"
    and c: "\<And>k'. frame {} k k' \<Longrightarrow> clamp_text k' s w = w"
  obtains k4 k2 where "sym_clear_all_valid (entered s w k) = Inr k4" "sym_calc k4 s = Inr k2"
    "symval_string (v_val (sy_curr (obj k2 s))) = Inr w"
proof -
  let ?k = "entered s w k"
  have wf: "wf_conf k" "ranked rank k" using k(1) by (auto simp: well_solved_def)
  note t = entered_wf [OF wf(1) s(3,2)]
  note t3 = t(1) t(2) [OF wf(2)] t(3) [OF k(3)]
  obtain k4 where k4: "sym_clear_all_valid ?k = Inr k4" "well_solved rank k4" "step {} (cleared ?k) k4"
    using clear_all_valid_ok [OF t3] by blast
  have sy4: "syms_of k4 = syms_of k"
    using syms_frame [OF step_frame [OF k4(3)]] kept_fields(1) [OF cleared_kept] kept_fields(1) [OF entered_kept] by simp
  then have "s \<in> set (syms_of k4)" using s(1) by simp
  from sym_calc_step [OF k4(2) this] obtain k2
    where k2: "sym_calc k4 s = Inr k2" "well_solved rank k2" "valid k2 s" "step {} k4 k2" by metis
  have f: "frame {} (cleared ?k) k2" using frame_trans [OF step_frame [OF k4(3)] step_frame [OF k2(4)]] .
  have e: "erase (obj k2 u) = erase (obj ?k u)" for u using frame_static [OF f] cleared_erase by simp
  have b: "bare (obj k u) = bare (obj k2 u)" for u
    using bare_erase [OF e, of u] entered_kept [of k s w] by (simp add: kept_def)
  have sy: "syms_of k2 = syms_of k" using syms_frame [OF step_frame [OF k2(4)]] sy4 by simp
  have ini: "initial_curr (sy_type (obj k s)) \<noteq> None" using s(3) by (auto simp: text_type_def)
  have low: "erase (obj k u) = erase (obj k2 u)" if "rank u < rank s" for u using e [of u] that by (auto simp: obj_entered)
  have st: "sy_curr (obj k u) = sy_curr (obj k2 u)" if "u \<in> statics" for u
  proof -
    have "valid (cleared ?k) u" using cleared_solved [OF t3] that by (simp add: well_solved_def wf_conf_def)
    then have "sy_curr (obj k2 u) = sy_curr (obj (cleared ?k) u)" using frame_curr [OF f] by simp
    then show ?thesis using cleared_kept [of ?k] entered_kept [of k s w] by (simp add: kept_def)
  qed
  obtain ka kb where fa: "frame {} k ka" and fb: "frame {} k2 kb" and bb: "bare (obj ka s) = bare (obj kb s)"
    and ag: "agree ka kb (set (val_deps (obj ka s)))"
    using surroundings_agree [OF k(1) k2(2) sy b low st s(1)] by blast
  have cl: "clamp_text kb s w = w" using c [OF fa] clamp_agree [OF bb ag] by simp
  have ty: "sy_type (obj k2 s) = sy_type (obj k s)" "sy_type (obj kb s) = sy_type (obj k s)"
    using bare_cong(1) [OF b, of s] erase_cong(2) [OF frame_static [OF fb], of s] by auto
  have vis: "spec_vis kb s \<noteq> Tno"
    using cache_later(1) [OF k2(2) _ k2(3) s(2) _ fb] surroundings_same(1) [OF k(1,2) k2(2,3) sy b low st s(1,2) ini] s(1,4) sy ini ty by simp
  have usr: "sym_has_value (obj kb s)" "textof (v_val (sy_user (obj kb s))) = w"
    using erase_cong(3,9) [OF frame_static [OF fb], of s] erase_cong(3,9) [OF e, of s] set_new_fields(7) [of "obj k s"]
    by (simp_all add: obj_entered user_string_def sym_has_value_def has_flag_def textof_def)
  have "solved kb s"
  proof -
    have "good rank k2 s" using k2(2,3) s(1) sy by (simp add: well_solved_def)
    then show ?thesis using s(2) frame_empty [OF fb] by (auto simp: good_def)
  qed
  then have "symval_string (v_val (sy_curr (obj kb s))) = Inr w"
    using s(3) ty(2) vis usr cl by (auto simp: solved_def Let_def spec_text_def tri_type_def text_type_def)
  moreover have "sy_curr (obj kb s) = sy_curr (obj k2 s)" using frame_curr [OF fb k2(3)] by simp
  ultimately show thesis using that k4(1) k2(1) by simp
qed

section \<open>The string that is stored\<close>

definition stored :: "ksymbol \<Rightarrow> string \<Rightarrow> string" where
  "stored y str = (if needs_0x y str then ''0x'' @ str else str)"

lemma xdigit_plain: "isxdigit c \<Longrightarrow> \<not> isspace c \<and> c \<noteq> CHR ''-'' \<and> c \<noteq> CHR ''+''"
  by (auto simp: isxdigit_def isdigit_def isspace_def)

lemma strtol_0x:
  assumes "hex_prefix str \<noteq> []" "list_all isxdigit (hex_prefix str)" "\<not> has_0x str"
  shows "strtol (''0x'' @ str) 16 = strtol str 16"
proof -
  have h: "hex_prefix str = str" using assms(3) by (cases str rule: hex_prefix.cases) auto
  then obtain d r where str: "str = d # r" and d: "isxdigit d" using assms(1,2) by (cases str) auto
  have z: "\<not> isspace (CHR ''0'')" by (simp add: isspace_def)
  have "strip_0x str = str"
    using assms(3) by (cases str rule: strip_0x.cases) auto
  then show ?thesis
    using xdigit_plain [OF d] z d by (simp add: strtol_def str)
qed

lemma string_range_ok:
  assumes k: "well_solved rank k" "valid k s" "s \<in> set (syms_of k)" "s \<notin> statics" and ty: "text_type (sy_type (obj k s))"
  obtains k1 ok where "sym_string_within_range s str k = Inr (k1, ok)" "well_solved rank k1" "frame {} k k1" "valid k1 s"
    "\<And>k'. ok \<Longrightarrow> frame {} k1 k' \<Longrightarrow> clamp_text k' s (stored (obj k s) str) = stored (obj k s) str"
    "sy_type (obj k s) = S_STRING \<Longrightarrow> ok"
proof (cases "sy_type (obj k s) = S_STRING")
  case True
  have "clamp_text k' s w = w" if "frame {} k k'" for k' w
    using True erase_cong(2) [OF frame_static [OF that], of s] by (simp add: clamp_text_def)
  then show thesis
    using that [of k True] True k(1,2) by (simp add: sym_string_within_range_def sym_string_valid_def)
next
  case False
  let ?b = "type_base (sy_type (obj k s)) 10"
  have num: "sy_type (obj k s) = S_INT \<or> sy_type (obj k s) = S_HEX" using ty False by (auto simp: text_type_def)
  then have eq: "sym_string_within_range s str k = sym_within_limits s str ?b k" by (auto simp: sym_string_within_range_def type_base_def)
  obtain k1 ok where r: "sym_within_limits s str ?b k = Inr (k1, ok)" and g: "sc.goes s k rank k k1"
    and ok: "ok \<longrightarrow> sym_string_valid (obj k s) str \<and> stab (set (val_deps (obj k s))) k1 (\<lambda>k. in_limits k s ?b (to_int (strtol str ?b)))"
    using within_limits_ok [OF k, of str ?b] by (auto simp: okr_def split: sum.splits)
  note n = now_solved [OF k(1,2) g]
  have "clamp_text k' s (stored (obj k s) str) = stored (obj k s) str" if "ok" "frame {} k1 k'" for k'
  proof -
    have ty': "sy_type (obj k' s) = sy_type (obj k s)"
      using erase_cong(2) [OF frame_static [OF that(2)], of s] erase_cong(2) [OF frame_static [OF n(2)], of s] by simp
    have "in_limits k' s ?b (to_int (strtol str ?b))" using ok that by (auto simp: stab_def)
    moreover have "strtol (stored (obj k s) str) ?b = strtol str ?b"
      using ok that(1) num by (auto simp: stored_def needs_0x_def type_base_def sym_string_valid_def strtol_0x [simplified])
    ultimately show ?thesis using num ty' by (intro in_limits_clamp) simp_all
  qed
  then show thesis using that [of k1 ok] r eq n False by auto
qed

end
