(* ===== verification/Kconfig_String_Props.thy ===== *)
theory Kconfig_String_Props
  imports Kconfig_Set_String
begin

text \<open>The properties of setting a string or a number.\<close>

lemma same_string_value:
  assumes k: "well_solved rank k" "valid k s" "s \<in> set (syms_of k)" "s \<notin> statics" "text_type (sy_type (obj k s))" "sy_visible (obj k s) \<noteq> Tno"
    and u: "sym_has_value (obj k s)" "symval_string (v_val (sy_user (obj k s))) = Inr w" and c: "clamp_text k s w = w"
  shows "symval_string (v_val (sy_curr (obj k s))) = Inr w"
proof -
  have ini: "initial_curr (sy_type (obj k s)) \<noteq> None" using k(5) by (auto simp: text_type_def)
  have "spec_vis k s \<noteq> Tno" using well_solved_cache(1) [OF k(1,3,2,4) ini] k(6) by simp
  moreover have "solved k s" using well_solved_now [OF k(1,3,2,4)] .
  ultimately show ?thesis
    using k(5) u c by (auto simp: solved_def Let_def spec_text_def textof_def tri_type_def text_type_def)
qed

text \<open>
  C18. A string or number that is accepted is found. Let a string, decimal or hexadecimal symbol be
  evaluated and visible, in a well-formed table without cyclic dependencies, and let it not hold an
  earlier string that is marked as not set. Then \<open>sym_set_string_value\<close> returns, and every
  string is accepted for a string symbol; if it accepts the string, within the limits of the range,
  then the next evaluation gives exactly this string, with a hexadecimal number prefixed by
  \<open>0x\<close>, which the check against the range does not change again.
\<close>

theorem set_string_takes_effect:
  assumes "wf_conf k0" "ranked rank k0" "none_valid k0" "set ss \<subseteq> set (syms_of k0)" "sym_calc_all k0 ss = Inr k"
    and "listed k0" "s \<in> set ss" "s \<notin> statics" "text_type (sy_type (obj k s))" "sy_visible (obj k s) \<noteq> Tno"
    and "sym_has_value (obj k s) \<or> v_val (sy_user (obj k s)) = V_NULL"
  shows "\<exists>k1 ok. sym_set_string_value s str k = Inr (k1, ok) \<and> (sy_type (obj k s) = S_STRING \<longrightarrow> ok) \<and>
    (ok \<longrightarrow> (\<exists>k2. sym_calc k1 s = Inr k2 \<and> symval_string (v_val (sy_curr (obj k2 s))) = Inr (stored (obj k s) str)))"
proof -
  note run = run_solved [OF assms(1-5)]
  have s: "s \<in> set (syms_of k)" "valid k s" using assms(4,7) run(2,4) by auto
  let ?w = "stored (obj k s) str"
  obtain k1 ok where k1: "sym_string_within_range s str k = Inr (k1, ok)" "well_solved rank k1" "frame {} k k1" "valid k1 s"
    and cl: "\<And>k'. ok \<Longrightarrow> frame {} k1 k' \<Longrightarrow> clamp_text k' s ?w = ?w" and str: "sy_type (obj k s) = S_STRING \<Longrightarrow> ok"
    using string_range_ok [OF run(1) s(2,1) assms(8,9), of str] by blast
  note e = erase_cong [OF frame_static [OF k1(3)]]
  have ini: "initial_curr (sy_type (obj k s)) \<noteq> None" using assms(9) by (auto simp: text_type_def)
  have s1: "s \<in> set (syms_of k1)" "text_type (sy_type (obj k1 s))" using s(1) syms_frame [OF k1(3)] e(2) [of s] assms(9) by auto
  have ini1: "initial_curr (sy_type (obj k1 s)) \<noteq> None" using s1(2) by (auto simp: text_type_def)
  have v1: "sy_visible (obj k1 s) \<noteq> Tno"
    using cache_later(1) [OF run(1) s(1,2) assms(8) ini k1(3)] well_solved_cache(1) [OF k1(2) s1(1) k1(4) assms(8) ini1] assms(10) by simp
  have l1: "listed k1" using listed_frame [OF listed_frame [OF assms(6) run(3)] k1(3)] .
  have nt: "\<not> (sy_type (obj k s) = S_BOOLEAN \<or> sy_type (obj k s) = S_TRISTATE)" using assms(9) by (auto simp: text_type_def)
  let ?k2 = "clear_new s k1"
  have o2: "obj ?k2 s = set_new (obj k1 s)" by (simp add: obj_clear_new)
  have n0: "needs_0x (obj ?k2 s) str = needs_0x (obj k s) str"
    using e(2) [of s] kept_fields(4) [OF kept_clear_new, of s k1 s] by (simp add: needs_0x_def)
  have u2: "v_val (sy_user (obj ?k2 s)) = v_val (sy_user (obj k s))" using o2 e(3) [of s] by (simp add: set_new_fields)
  show ?thesis
  proof (cases ok)
    case False
    then show ?thesis using k1(1) nt str by (auto simp: sym_set_string_value_def)
  next
    case True
    obtain k4 k5 where k4: "sym_clear_all_valid (entered s ?w k1) = Inr k4" "sym_calc k4 s = Inr k5"
      "symval_string (v_val (sy_curr (obj k5 s))) = Inr ?w"
      using entered_effective [OF k1(2,4) l1 s1(1) assms(8) s1(2) v1 cl [OF True]] by blast
    consider (entered) "sym_set_string_value s str k = rbind (sym_clear_all_valid (entered s ?w k1)) (\<lambda>k3. Inr (k3, True))"
      | (same) "sym_set_string_value s str k = Inr (?k2, True)" "v_val (sy_user (obj k s)) \<noteq> V_NULL" "\<not> needs_0x (obj k s) str"
          "symval_string (v_val (sy_user (obj k s))) = Inr str"
    proof (cases "needs_0x (obj k s) str \<or> v_val (sy_user (obj k s)) = V_NULL")
      case True
      then show thesis
        using entered k1(1) nt \<open>ok\<close> n0 u2 by (auto simp: sym_set_string_value_def Let_def stored_def entered_def)
    next
      case False
      have "is_text (v_val (sy_user (obj k s)))"
        using False assms(9,11) s(1) run(1) by (auto simp: well_solved_def wf_conf_def sym_ok_def)
      then obtain old where old: "symval_string (v_val (sy_user (obj k s))) = Inr old" by (auto simp: is_text_def split: sum.splits)
      show thesis
        using entered same k1(1) nt \<open>ok\<close> n0 u2 False old
        by (cases "old = str") (auto simp: sym_set_string_value_def Let_def stored_def entered_def)
    qed
    then show ?thesis
    proof cases
      case entered then show ?thesis using k4 by (intro exI [of _ k4] exI [of _ True]) auto
    next
      case same
      have w: "?w = str" using same(3) by (simp add: stored_def)
      have "symval_string (v_val (sy_curr (obj k1 s))) = Inr str"
        using same(2,4) assms(11) e(3,9) [of s] cl [OF True frame_refl] w
        by (intro same_string_value [OF k1(2,4) s1(1) assms(8) s1(2) v1]) auto
      then have "symval_string (v_val (sy_curr (obj ?k2 s))) = Inr ?w" using o2 w by (simp add: set_new_fields)
      moreover have "sym_calc ?k2 s = Inr ?k2"
        using k1(4) o2 by (simp add: sym_calc_def sym_calc_body_def valid_def set_new_fields)
      ultimately show ?thesis using same(1) by blast
    qed
  qed
qed

text \<open>A hexadecimal number with a prompt.\<close>

definition word :: kconf where
  "word = kconf_start\<lparr>k_tab := table_of
     [demo_sym (Some ''H'') S_HEX V_NULL Tno SYMBOL_NEW [demo_prop P_PROMPT (Some ''h'') None PE_NULL] None],
     k_count := 1, k_hash := (\<lambda>h. if h = 72 then [Sym 0] else [])\<rparr>"

lemma word_wf: "wf_conf word" "ranked demo_rank word" "none_valid word" "set [Sym 0] \<subseteq> set (syms_of word)"
  by code_simp+

lemma word_listed: "listed word"
  by code_simp

definition word_done :: kconf where
  "word_done = projr (sym_calc_all word [Sym 0])"

lemma word_run: "sym_calc_all word [Sym 0] = Inr word_done"
  using sym_calc_all_step [OF none_valid_solved [OF word_wf(1-3)] word_wf(4)] by (auto simp: word_done_def)

lemma word_fixed:
  "text_type (sy_type (obj word_done (Sym 0)))" "v_val (sy_user (obj word_done (Sym 0))) = V_NULL" "sy_type (obj word_done (Sym 0)) = S_HEX"
  "Sym 0 \<notin> statics"
proof -
  have e: "erase (obj word_done (Sym 0)) = erase (obj word (Sym 0))" using frame_static [OF run_solved(3) [OF word_wf word_run]] .
  show "text_type (sy_type (obj word_done (Sym 0)))" "v_val (sy_user (obj word_done (Sym 0))) = V_NULL" "sy_type (obj word_done (Sym 0)) = S_HEX"
    "Sym 0 \<notin> statics" unfolding erase_cong [OF e] by code_simp+
qed

lemma word_visible: "sy_visible (obj word_done (Sym 0)) \<noteq> Tno"
  by code_simp

theorem set_string_takes_effect_witness:
  "\<exists>k1 ok. sym_set_string_value (Sym 0) ''1f'' word_done = Inr (k1, ok) \<and>
    (ok \<longrightarrow> (\<exists>k2. sym_calc k1 (Sym 0) = Inr k2 \<and> symval_string (v_val (sy_curr (obj k2 (Sym 0)))) = Inr ''0x1f''))"
proof -
  have "stored (obj word_done (Sym 0)) ''1f'' = ''0x1f''" using word_fixed(3) by (simp add: stored_def needs_0x_def)
  then show ?thesis
    using set_string_takes_effect [OF word_wf word_run word_listed _ word_fixed(4,1) word_visible, of "''1f''"] word_fixed(2) by auto
qed

text \<open>A string with a default, and with a string of the user that is marked as not set.\<close>

definition stale :: kconf where
  "stale = kconf_start\<lparr>k_tab := table_of
     [demo_sym (Some ''S'') S_STRING (V_heap 0 ''x'') Tno SYMBOL_NEW
        [demo_prop P_PROMPT (Some ''s'') None PE_NULL, demo_prop P_DEFAULT None None (PE_EXPR (E_SYMBOL (Sym 1)))] None,
      demo_sym (Some ''d'') S_UNKNOWN V_NULL Tno (SYMBOL_NEW OR SYMBOL_CONST) [] None],
     k_count := 2, k_heap := 1, k_hash := (\<lambda>h. if h = 83 then [Sym 0] else if h = 100 then [Sym 1] else [])\<rparr>"

text \<open>
  Setting a string compares it with the stored string, also if the symbol is marked as not
  set: a symbol with the default \<open>d\<close> that still holds an earlier string \<open>x\<close> accepts \<open>x\<close>, and
  keeps the value \<open>d\<close> nevertheless.
\<close>

theorem set_string_stale:
  "(case sym_calc stale (Sym 0) of Inl e \<Rightarrow> False | Inr k \<Rightarrow>
     case sym_set_string_value (Sym 0) ''x'' k of Inl e \<Rightarrow> False | Inr (k1, ok) \<Rightarrow>
     ok \<and> sym_has_value (obj k1 (Sym 0)) \<and>
     (case sym_calc k1 (Sym 0) of Inl e \<Rightarrow> False | Inr k2 \<Rightarrow> symval_string (v_val (sy_curr (obj k2 (Sym 0)))) = Inr ''d''))"
  by code_simp

end
