(* ===== verification/Kconfig_Deps.thy ===== *)
theory Kconfig_Deps
  imports Kconfig_Total
begin

text \<open>
  The check for recursive dependencies that \<open>conf_parse\<close> makes once the configuration files are
  read: \<open>sym_check_deps\<close> and \<open>sym_check_expr_deps\<close> of \<open>symbol.c\<close>, a depth-first search that
  marks the symbols on its path with \<open>SYMBOL_CHECK\<close> and those it has seen with
  \<open>SYMBOL_CHECKED\<close>. The state is the table and what has been printed. The result is the symbol at
  which a cycle was found, or \<open>NULL\<close>.
\<close>

section \<open>The search\<close>

datatype report = Found_recursive "string option" | Passing "string option" | Newline | How_to_check

type_synonym check_state = "kconf \<times> report list"

type_synonym check_fun = "check_state \<Rightarrow> sym \<Rightarrow> kerr + (check_state \<times> sym option)"

definition say :: "report \<Rightarrow> check_state \<Rightarrow> check_state" where
  "say r st = (fst st, snd st @ [r])"

definition mark :: "sym \<Rightarrow> (ksymbol \<Rightarrow> ksymbol) \<Rightarrow> check_state \<Rightarrow> check_state" where
  "mark s f st = (upd s f (fst st), snd st)"

text \<open>\<open>sym2 = ...; if (sym2) return sym2;\<close>, and on to what follows.\<close>

definition first_found ::
  "kerr + (check_state \<times> sym option) \<Rightarrow> (check_state \<Rightarrow> kerr + (check_state \<times> sym option)) \<Rightarrow> kerr + (check_state \<times> sym option)" where
  "first_found r f = rbind r (\<lambda>(st, found). case found of Some s \<Rightarrow> Inr (st, Some s) | None \<Rightarrow> f st)"

primrec sym_check_expr_deps :: "check_fun \<Rightarrow> expr \<Rightarrow> check_state \<Rightarrow> kerr + (check_state \<times> sym option)" where
  "sym_check_expr_deps check (E_SYMBOL s) st = check st s"
| "sym_check_expr_deps check (E_NOT e) st = sym_check_expr_deps check e st"
| "sym_check_expr_deps check (E_AND a b) st =
     first_found (sym_check_expr_deps check a st) (sym_check_expr_deps check b)"
| "sym_check_expr_deps check (E_OR a b) st =
     first_found (sym_check_expr_deps check a st) (sym_check_expr_deps check b)"
| "sym_check_expr_deps check (E_EQUAL a b) st = first_found (check st a) (\<lambda>st1. check st1 b)"
| "sym_check_expr_deps check (E_UNEQUAL a b) st = first_found (check st a) (\<lambda>st1. check st1 b)"

definition check_opt_deps :: "check_fun \<Rightarrow> expr option \<Rightarrow> check_state \<Rightarrow> kerr + (check_state \<times> sym option)" where
  "check_opt_deps check e st = (case e of None \<Rightarrow> Inr (st, None) | Some e \<Rightarrow> sym_check_expr_deps check e st)"

definition check_pexpr_deps :: "check_fun \<Rightarrow> pexpr \<Rightarrow> check_state \<Rightarrow> kerr + (check_state \<times> sym option)" where
  "check_pexpr_deps check e st =
     (case e of PE_NULL \<Rightarrow> Inr (st, None) | PE_EXPR e \<Rightarrow> sym_check_expr_deps check e st
      | _ \<Rightarrow> Inr (say How_to_check st, None))"

primrec check_props :: "check_fun \<Rightarrow> sym \<Rightarrow> property list \<Rightarrow> check_state \<Rightarrow> kerr + (check_state \<times> sym option)" where
  "check_props check s [] st = Inr (st, None)"
| "check_props check s (p # ps) st =
     (if p_type p = P_CHOICE \<or> p_type p = P_SELECT \<or> p_type p = P_DESELECT then check_props check s ps st
      else first_found (check_opt_deps check (p_visible p) st) (\<lambda>st1.
        if p_type p \<noteq> P_DEFAULT \<or> sym_is_choice (obj (fst st1) s) then check_props check s ps st1
        else first_found (check_pexpr_deps check (p_expr p) st1) (check_props check s ps)))"

definition check_report :: "sym \<Rightarrow> check_state \<times> sym option \<Rightarrow> check_state \<times> sym option" where
  "check_report s = (\<lambda>(st, found). case found of
     None \<Rightarrow> (st, None)
   | Some s2 \<Rightarrow>
       let st1 = say (Passing (sy_name (obj (fst st) s))) st
       in if s2 = s then (say Newline st1, None) else (st1, Some s2))"

definition sym_check_body :: "check_fun \<Rightarrow> check_fun" where
  "sym_check_body check st s =
     (let y = obj (fst st) s in
      if has_flag SYMBOL_CHECK y then Inr (say (Found_recursive (sy_name y)) st, Some s)
      else if has_flag SYMBOL_CHECKED y then Inr (st, None)
      else let st1 = mark s (flag_on (SYMBOL_CHECK OR SYMBOL_CHECKED)) st in
        rbind (first_found (check_opt_deps check (sy_rev_dep y) st1) (check_props check s (sy_prop y))) (\<lambda>res.
        let (st2, found) = check_report s res
        in Inr (mark s (flag_off SYMBOL_CHECK) st2, found)))"

primrec sym_check_deps :: "nat \<Rightarrow> check_fun" where
  "sym_check_deps 0 st s = Inl Out_of_fuel"
| "sym_check_deps (Suc n) st s = sym_check_body (sym_check_deps n) st s"

text \<open>The loop of \<open>conf_parse\<close>, which drops the result of each search.\<close>

primrec check_all :: "nat \<Rightarrow> sym list \<Rightarrow> check_state \<Rightarrow> kerr + check_state" where
  "check_all n [] st = Inr st"
| "check_all n (s # ss) st = rbind (sym_check_deps n st s) (\<lambda>(st1, found). check_all n ss st1)"

definition conf_check_deps :: "kconf \<Rightarrow> kerr + check_state" where
  "conf_check_deps k = check_all (Suc (length (syms_of k))) (all_symbols k) (k, [])"

text \<open>A cycle has been reported.\<close>

definition warned :: "check_state \<Rightarrow> bool" where
  "warned st \<longleftrightarrow> (\<exists>r\<in>set (snd st). case r of Found_recursive n \<Rightarrow> True | _ \<Rightarrow> False)"

section \<open>The dependencies it follows\<close>

definition checked_prop_deps :: "ksymbol \<Rightarrow> property \<Rightarrow> sym list" where
  "checked_prop_deps y p =
     (if p_type p = P_CHOICE \<or> p_type p = P_SELECT \<or> p_type p = P_DESELECT then []
      else opt_syms (p_visible p) @
        (if p_type p \<noteq> P_DEFAULT \<or> sym_is_choice y then []
         else case p_expr p of PE_EXPR e \<Rightarrow> expr_syms e | _ \<Rightarrow> []))"

definition checked_deps :: "ksymbol \<Rightarrow> sym list" where
  "checked_deps y = opt_syms (sy_rev_dep y) @ concat (map (checked_prop_deps y) (sy_prop y))"

definition dep_rel :: "kconf \<Rightarrow> (sym \<times> sym) set" where
  "dep_rel k = {(s, d). s \<in> set (syms_of k) \<and> d \<in> set (checked_deps (obj k s))}"

end
