(* ===== verification/Kconfig_Deps_Inv.thy ===== *)
theory Kconfig_Deps_Inv
  imports Kconfig_Deps
begin

text \<open>
  The search for recursive dependencies: what a visit keeps, and what a search that
  reports nothing has established.
\<close>

section \<open>Marks\<close>

definition MARKS :: u32 where
  "MARKS = SYMBOL_CHECK OR SYMBOL_CHECKED"

definition unmark :: "ksymbol \<Rightarrow> ksymbol" where
  "unmark y = y\<lparr>sy_flags := sy_flags y AND NOT MARKS\<rparr>"

definition gray :: "check_state \<Rightarrow> sym set" where
  "gray st = {s. has_flag SYMBOL_CHECK (obj (fst st) s)}"

definition seen :: "check_state \<Rightarrow> sym set" where
  "seen st = {s. has_flag SYMBOL_CHECKED (obj (fst st) s)}"

definition black :: "check_state \<Rightarrow> sym set" where
  "black st = seen st - gray st"

definition like :: "kconf \<Rightarrow> check_state \<Rightarrow> bool" where
  "like k st \<longleftrightarrow> k_count (fst st) = k_count k \<and> (\<forall>t. unmark (obj (fst st) t) = unmark (obj k t))"

lemma unmark_choice: "sym_is_choice (unmark y) = sym_is_choice y"
proof -
  have "(x AND NOT MARKS) AND SYMBOL_CHOICE = x AND SYMBOL_CHOICE" for x :: u32
    by (simp add: MARKS_def ksymbol_flag_defs and.assoc)
  then show ?thesis by (simp add: sym_is_choice_def has_flag_def unmark_def)
qed

lemma unmark_fields:
  "sy_rev_dep (unmark y) = sy_rev_dep y" "sy_prop (unmark y) = sy_prop y" "sy_name (unmark y) = sy_name y"
  by (simp_all add: unmark_def)

lemma unmark_deps: "checked_deps (unmark y) = checked_deps y"
proof -
  have "checked_prop_deps (unmark y) = checked_prop_deps y"
    by (rule ext) (simp add: checked_prop_deps_def unmark_choice)
  then show ?thesis by (simp add: checked_deps_def unmark_fields)
qed

lemma like_cong:
  assumes "like k st"
  shows "checked_deps (obj (fst st) t) = checked_deps (obj k t)" "sy_rev_dep (obj (fst st) t) = sy_rev_dep (obj k t)"
    "sy_prop (obj (fst st) t) = sy_prop (obj k t)" "sym_is_choice (obj (fst st) t) = sym_is_choice (obj k t)"
  using assms unmark_deps unmark_fields unmark_choice unfolding like_def by metis+

lemma unmark_flags: "unmark (flag_on (SYMBOL_CHECK OR SYMBOL_CHECKED) y) = unmark y" "unmark (flag_off SYMBOL_CHECK y) = unmark y"
proof -
  have "(x OR MARKS) AND NOT MARKS = x AND NOT MARKS" for x by (simp add: bit_eq_iff bit_simps) blast
  then show "unmark (flag_on (SYMBOL_CHECK OR SYMBOL_CHECKED) y) = unmark y" by (simp add: unmark_def flag_on_def MARKS_def)
  have "(x AND NOT SYMBOL_CHECK) AND NOT MARKS = x AND NOT MARKS" for x :: u32
    by (simp add: MARKS_def ksymbol_flag_defs and.assoc)
  then show "unmark (flag_off SYMBOL_CHECK y) = unmark y" by (simp add: unmark_def flag_off_def)
qed

lemma flags_on_off:
  "has_flag SYMBOL_CHECK (flag_on (SYMBOL_CHECK OR SYMBOL_CHECKED) y)" "has_flag SYMBOL_CHECKED (flag_on (SYMBOL_CHECK OR SYMBOL_CHECKED) y)"
  "\<not> has_flag SYMBOL_CHECK (flag_off SYMBOL_CHECK y)" "has_flag SYMBOL_CHECKED (flag_off SYMBOL_CHECK y) = has_flag SYMBOL_CHECKED y"
proof -
  have b: "(x OR (SYMBOL_CHECK OR SYMBOL_CHECKED)) AND SYMBOL_CHECK = SYMBOL_CHECK"
    "(x OR (SYMBOL_CHECK OR SYMBOL_CHECKED)) AND SYMBOL_CHECKED = SYMBOL_CHECKED"
    "(x AND NOT SYMBOL_CHECK) AND SYMBOL_CHECK = 0" for x :: u32
    by (simp_all add: bit_eq_iff bit_simps) blast+
  have "(x AND NOT SYMBOL_CHECK) AND SYMBOL_CHECKED = x AND SYMBOL_CHECKED" for x :: u32
    by (simp add: ksymbol_flag_defs and.assoc)
  then show "has_flag SYMBOL_CHECKED (flag_off SYMBOL_CHECK y) = has_flag SYMBOL_CHECKED y"
    by (simp add: has_flag_def flag_off_def)
  show "has_flag SYMBOL_CHECK (flag_on (SYMBOL_CHECK OR SYMBOL_CHECKED) y)" "has_flag SYMBOL_CHECKED (flag_on (SYMBOL_CHECK OR SYMBOL_CHECKED) y)"
    "\<not> has_flag SYMBOL_CHECK (flag_off SYMBOL_CHECK y)"
    using b by (simp_all add: has_flag_def flag_on_def flag_off_def, simp_all add: ksymbol_flag_defs)
qed

lemma say_simps [simp]:
  "fst (say r st) = fst st" "gray (say r st) = gray st" "seen (say r st) = seen st" "black (say r st) = black st"
  "like k (say r st) = like k st"
  "warned (say r st) \<longleftrightarrow> warned st \<or> (case r of Found_recursive n \<Rightarrow> True | _ \<Rightarrow> False)"
  by (auto simp: say_def gray_def seen_def black_def like_def warned_def)

lemma mark_enter [simp]:
  "gray (mark s (flag_on (SYMBOL_CHECK OR SYMBOL_CHECKED)) st) = insert s (gray st)"
  "seen (mark s (flag_on (SYMBOL_CHECK OR SYMBOL_CHECKED)) st) = insert s (seen st)"
  "like k (mark s (flag_on (SYMBOL_CHECK OR SYMBOL_CHECKED)) st) = like k st"
  by (auto simp: gray_def seen_def mark_def like_def upd_def flags_on_off unmark_flags)

lemma mark_leave [simp]:
  "gray (mark s (flag_off SYMBOL_CHECK) st) = gray st - {s}"
  "seen (mark s (flag_off SYMBOL_CHECK) st) = seen st"
  "like k (mark s (flag_off SYMBOL_CHECK) st) = like k st"
  by (auto simp: gray_def seen_def mark_def like_def upd_def flags_on_off unmark_flags)

lemma warned_mark [simp]: "warned (mark s f st) = warned st"
  by (simp add: warned_def mark_def)

section \<open>What a visit keeps\<close>

definition clean :: "kconf \<Rightarrow> check_state \<Rightarrow> bool" where
  "clean k st \<longleftrightarrow> warned st \<or>
     (\<exists>rank :: sym \<Rightarrow> nat. \<forall>t\<in>black st. \<forall>d\<in>set (checked_deps (obj k t)). d \<in> black st \<and> rank d < rank t)"

definition proceeds :: "kconf \<Rightarrow> check_state \<Rightarrow> check_state \<Rightarrow> bool" where
  "proceeds k st st' \<longleftrightarrow> (like k st \<longrightarrow> like k st') \<and> gray st' = gray st \<and> seen st \<subseteq> seen st' \<and>
     (warned st \<longrightarrow> warned st') \<and> (clean k st \<longrightarrow> clean k st') \<and> (acyclic (dep_rel k) \<longrightarrow> warned st' = warned st)"

lemma proceeds_refl [simp]: "proceeds k st st"
  by (simp add: proceeds_def)

lemma proceeds_trans: "proceeds k st st1 \<Longrightarrow> proceeds k st1 st2 \<Longrightarrow> proceeds k st st2"
  by (auto simp: proceeds_def)

definition visits :: "kconf \<Rightarrow> sym set \<Rightarrow> check_state \<Rightarrow> kerr + (check_state \<times> sym option) \<Rightarrow> bool" where
  "visits k X st res \<longleftrightarrow> (\<exists>st' found. res = Inr (st', found) \<and> proceeds k st st' \<and>
     (found \<noteq> None \<longrightarrow> warned st') \<and> (\<not> warned st' \<longrightarrow> X \<subseteq> black st'))"

lemma visits_none [simp]: "visits k {} st (Inr (st, None))"
  by (simp add: visits_def)

lemma black_mono: "proceeds k st st' \<Longrightarrow> black st \<subseteq> black st'"
  by (auto simp: proceeds_def black_def)

lemma visits_first:
  assumes "visits k X st res" "\<And>st'. proceeds k st st' \<Longrightarrow> visits k Y st' (f st')"
  shows "visits k (X \<union> Y) st (first_found res f)"
proof -
  obtain st1 found where r: "res = Inr (st1, found)" "proceeds k st st1" "found \<noteq> None \<longrightarrow> warned st1"
      "\<not> warned st1 \<longrightarrow> X \<subseteq> black st1" using assms(1) by (auto simp: visits_def)
  show ?thesis
  proof (cases found)
    case None
    from assms(2) [OF r(2)] obtain st2 found2 where s: "f st1 = Inr (st2, found2)" "proceeds k st1 st2"
      "found2 \<noteq> None \<longrightarrow> warned st2" "\<not> warned st2 \<longrightarrow> Y \<subseteq> black st2" by (auto simp: visits_def)
    have "\<not> warned st2 \<longrightarrow> \<not> warned st1" using s(2) by (auto simp: proceeds_def)
    then show ?thesis
      using r s None black_mono [OF s(2)] proceeds_trans [OF r(2) s(2)] by (auto simp: visits_def first_found_def)
  qed (use r in \<open>auto simp: visits_def first_found_def\<close>)
qed

text \<open>The search can visit the symbols of \<open>X\<close> from here on.\<close>

definition able :: "kconf \<Rightarrow> check_fun \<Rightarrow> check_state \<Rightarrow> sym set \<Rightarrow> bool" where
  "able k check st X \<longleftrightarrow> (\<forall>st' d. proceeds k st st' \<longrightarrow> d \<in> X \<longrightarrow> visits k {d} st' (check st' d))"

lemma able_later: "able k check st X \<Longrightarrow> proceeds k st st' \<Longrightarrow> Y \<subseteq> X \<Longrightarrow> able k check st' Y"
  unfolding able_def using proceeds_trans by blast

lemma able_now: "able k check st X \<Longrightarrow> d \<in> X \<Longrightarrow> visits k {d} st (check st d)"
  unfolding able_def using proceeds_refl by blast

lemma visits_both:
  assumes "\<And>st. able k check st X \<Longrightarrow> visits k X st (f st)" "\<And>st. able k check st Y \<Longrightarrow> visits k Y st (g st)"
    and "able k check st (X \<union> Y)"
  shows "visits k (X \<union> Y) st (first_found (f st) g)"
  using able_later [OF assms(3)] by (intro visits_first assms(1,2)) auto

lemma visits_two:
  assumes "able k check st {a, b}"
  shows "visits k {a, b} st (first_found (check st a) (\<lambda>st1. check st1 b))"
  using visits_both [of k check "{a}" "\<lambda>st. check st a" "{b}" "\<lambda>st. check st b" st] assms able_now
  by (simp add: insert_commute)

lemma visits_expr: "able k check st (set (expr_syms e)) \<Longrightarrow> visits k (set (expr_syms e)) st (sym_check_expr_deps check e st)"
proof (induction e arbitrary: st)
  case (E_AND a b)
  then show ?case using visits_both [OF E_AND.IH] by simp
next
  case (E_OR a b)
  then show ?case using visits_both [OF E_OR.IH] by simp
qed (simp_all add: able_now visits_two)

lemma visits_opt: "able k check st (set (opt_syms e)) \<Longrightarrow> visits k (set (opt_syms e)) st (check_opt_deps check e st)"
  by (cases e) (simp_all add: opt_syms_def check_opt_deps_def visits_expr)

definition default_syms :: "pexpr \<Rightarrow> sym list" where
  "default_syms e = (case e of PE_EXPR e \<Rightarrow> expr_syms e | _ \<Rightarrow> [])"

lemma proceeds_say: "proceeds k st (say How_to_check st)"
  by (auto simp: proceeds_def clean_def)

lemma visits_pexpr:
  "able k check st (set (default_syms e)) \<Longrightarrow> visits k (set (default_syms e)) st (check_pexpr_deps check e st)"
  by (cases e) (simp_all add: check_pexpr_deps_def default_syms_def visits_expr visits_def [of _ "{}"] proceeds_say)

lemma visits_props:
  assumes "able k check st (set (concat (map (checked_prop_deps (obj k s)) ps)))" "like k st"
  shows "visits k (set (concat (map (checked_prop_deps (obj k s)) ps))) st (check_props check s ps st)"
  using assms
proof (induction ps arbitrary: st)
  case (Cons p ps)
  let ?rest = "set (concat (map (checked_prop_deps (obj k s)) ps))"
  have rest: "visits k ?rest st' (check_props check s ps st')" if "proceeds k st st'" for st'
    using able_later [OF Cons.prems(1) that, of ?rest] Cons.prems(2) that by (intro Cons.IH) (auto simp: proceeds_def)
  have ch: "sym_is_choice (obj (fst st') s) = sym_is_choice (obj k s)" if "proceeds k st st'" for st'
    using Cons.prems(2) that like_cong(4) by (auto simp: proceeds_def)
  show ?case
  proof (cases "p_type p = P_CHOICE \<or> p_type p = P_SELECT \<or> p_type p = P_DESELECT")
    case True then show ?thesis using rest [of st] by (auto simp: checked_prop_deps_def)
  next
    case False
    let ?dft = "if p_type p \<noteq> P_DEFAULT \<or> sym_is_choice (obj k s) then {} else set (default_syms (p_expr p))"
    have deps: "set (checked_prop_deps (obj k s) p) = set (opt_syms (p_visible p)) \<union> ?dft"
      using False by (simp add: checked_prop_deps_def default_syms_def)
    have vis: "visits k (set (opt_syms (p_visible p))) st (check_opt_deps check (p_visible p) st)"
      using able_later [OF Cons.prems(1) proceeds_refl] deps by (intro visits_opt) auto
    have dft: "visits k (set (default_syms (p_expr p))) st' (check_pexpr_deps check (p_expr p) st')"
      if "proceeds k st st'" "\<not> (p_type p \<noteq> P_DEFAULT \<or> sym_is_choice (obj k s))" for st'
      using able_later [OF Cons.prems(1) that(1)] that(2) deps by (intro visits_pexpr) auto
    have "visits k (?dft \<union> ?rest) st'
        (if p_type p \<noteq> P_DEFAULT \<or> sym_is_choice (obj (fst st') s) then check_props check s ps st'
         else first_found (check_pexpr_deps check (p_expr p) st') (check_props check s ps))" if p: "proceeds k st st'" for st'
      using rest [OF p] ch [OF p] dft [OF p] visits_first [OF dft [OF p] rest [OF proceeds_trans [OF p]]] by auto
    from visits_first [OF vis this] show ?thesis using False deps by (simp add: Un_assoc)
  qed
qed simp

section \<open>A visit\<close>

lemma visits_step:
  assumes "like k st" "u \<notin> seen st" "u \<notin> gray st"
    and "able k check (mark u (flag_on (SYMBOL_CHECK OR SYMBOL_CHECKED)) st) (set (checked_deps (obj k u)))"
  shows "visits k {u} st (sym_check_body check st u)"
proof -
  let ?st1 = "mark u (flag_on (SYMBOL_CHECK OR SYMBOL_CHECKED)) st"
  let ?run = "first_found (check_opt_deps check (sy_rev_dep (obj k u)) ?st1) (check_props check u (sy_prop (obj k u)))"
  have "visits k (set (checked_deps (obj k u))) ?st1 ?run"
    unfolding checked_deps_def set_append
  proof (rule visits_first)
    show "visits k (set (opt_syms (sy_rev_dep (obj k u)))) ?st1 (check_opt_deps check (sy_rev_dep (obj k u)) ?st1)"
      using able_later [OF assms(4) proceeds_refl] by (intro visits_opt) (simp add: checked_deps_def)
    show "visits k (set (concat (map (checked_prop_deps (obj k u)) (sy_prop (obj k u))))) st' (check_props check u (sy_prop (obj k u)) st')"
      if "proceeds k ?st1 st'" for st'
      using able_later [OF assms(4) that] assms(1) that by (intro visits_props) (auto simp: checked_deps_def proceeds_def)
  qed
  then obtain st2 found where r: "?run = Inr (st2, found)" "proceeds k ?st1 st2" "found \<noteq> None \<longrightarrow> warned st2"
      "\<not> warned st2 \<longrightarrow> set (checked_deps (obj k u)) \<subseteq> black st2" by (auto simp: visits_def)
  obtain st3 found3 where c: "check_report u (st2, found) = (st3, found3)" by (cases "check_report u (st2, found)")
  have st3: "gray st3 = gray st2" "seen st3 = seen st2" "warned st3 = warned st2" "like k st3 = like k st2"
      "found3 \<noteq> None \<longrightarrow> found \<noteq> None"
    using c by (auto simp: check_report_def Let_def split: option.splits if_splits)
  let ?st4 = "mark u (flag_off SYMBOL_CHECK) st3"
  have b1: "black ?st1 = black st" using assms(2,3) by (auto simp: black_def)
  have u: "u \<in> seen st2" "u \<in> gray st2" using r(2) by (auto simp: proceeds_def)
  have b4: "black ?st4 = insert u (black st2)" using u by (auto simp: black_def st3)
  have "clean k ?st4" if "clean k st"
  proof (cases "warned st2")
    case False
    have "clean k ?st1" using that by (simp add: clean_def b1)
    then have "clean k st2" using r(2) by (simp add: proceeds_def)
    then obtain rank :: "sym \<Rightarrow> nat"
      where rank: "\<forall>t\<in>black st2. \<forall>d\<in>set (checked_deps (obj k t)). d \<in> black st2 \<and> rank d < rank t"
      using False by (auto simp: clean_def)
    let ?rank = "rank(u := Suc (sum_list (map rank (checked_deps (obj k u)))))"
    have "rank d < ?rank u" if "d \<in> set (checked_deps (obj k u))" for d
      using member_le_sum_list [of "rank d" "map rank (checked_deps (obj k u))"] that by simp
    moreover have "u \<notin> black st2" using u by (simp add: black_def)
    ultimately have "\<forall>t\<in>black ?st4. \<forall>d\<in>set (checked_deps (obj k t)). d \<in> black ?st4 \<and> ?rank d < ?rank t"
      using rank r(4) False unfolding b4 by auto
    then show ?thesis unfolding clean_def by blast
  qed (simp add: clean_def st3)
  then have "proceeds k st ?st4"
    using r(2) assms(1,3) by (auto simp: proceeds_def st3)
  moreover have "sym_check_body check st u = Inr (?st4, found3)"
    using assms(2,3) r(1) c like_cong(2,3) [OF assms(1)] by (simp add: sym_check_body_def seen_def gray_def Let_def)
  ultimately show ?thesis
    using r(3) st3(3,5) unfolding visits_def by (auto simp: b4)
qed

lemma visits_sym:
  assumes "like k st" "u \<in> U" "finite U" "\<forall>t\<in>U. set (checked_deps (obj k t)) \<subseteq> U" "U \<subseteq> set (syms_of k)"
    "card (U - seen st) < n" "\<forall>g\<in>gray st. (g, u) \<in> (dep_rel k)\<^sup>+"
  shows "visits k {u} st (sym_check_deps n st u)"
  using assms
proof (induction n arbitrary: st u)
  case (Suc n)
  consider (gray) "u \<in> gray st" | (black) "u \<in> black st" | (white) "u \<notin> gray st" "u \<notin> seen st"
    by (auto simp: black_def)
  then show ?case
  proof cases
    case gray
    then have "(u, u) \<in> (dep_rel k)\<^sup>+" using Suc.prems(7) by blast
    then have "\<not> acyclic (dep_rel k)" by (auto simp: acyclic_def)
    then show ?thesis using gray by (auto simp: visits_def sym_check_body_def gray_def proceeds_def clean_def)
  next
    case black
    then show ?thesis by (auto simp: visits_def sym_check_body_def black_def gray_def seen_def)
  next
    case white
    let ?st1 = "mark u (flag_on (SYMBOL_CHECK OR SYMBOL_CHECKED)) st"
    have "able k (sym_check_deps n) ?st1 (set (checked_deps (obj k u)))"
      unfolding able_def
    proof (intro allI impI)
      fix st' d assume p: "proceeds k ?st1 st'" and d: "d \<in> set (checked_deps (obj k u))"
      have e: "(u, d) \<in> dep_rel k" using d Suc.prems(2,5) by (auto simp: dep_rel_def)
      have "U - seen st' \<subset> U - seen st" using p white(2) Suc.prems(2) by (auto simp: proceeds_def)
      then have "card (U - seen st') < card (U - seen st)" using Suc.prems(3) by (intro psubset_card_mono) auto
      moreover have "\<forall>g\<in>gray st'. (g, d) \<in> (dep_rel k)\<^sup>+"
        using p Suc.prems(7) e by (auto simp: proceeds_def intro: trancl_into_trancl)
      ultimately show "visits k {d} st' (sym_check_deps n st' d)"
        using p d Suc.prems by (intro Suc.IH) (auto simp: proceeds_def)
    qed
    then show ?thesis using visits_step [OF Suc.prems(1) white(2,1)] by simp
  qed
qed simp

end
