(* ===== verification/Kconfig_Deps_Props.thy ===== *)
theory Kconfig_Deps_Props
  imports Kconfig_Deps_Inv Kconfig_Eval
begin

text \<open>
  What the check for recursive dependencies decides, and what it guarantees for the evaluation
  that follows.
\<close>

section \<open>The loop over all symbols\<close>

definition check_ready :: "kconf \<Rightarrow> bool" where
  "check_ready k \<longleftrightarrow> (\<forall>t\<in>set (syms_of k). set (checked_deps (obj k t)) \<subseteq> set (syms_of k)) \<and>
     set (all_symbols k) \<subseteq> set (syms_of k) \<and> set (syms_of k) \<subseteq> set (all_symbols k) \<union> statics \<and>
     (\<forall>t\<in>statics. checked_deps (obj k t) = [])"

definition no_marks :: "kconf \<Rightarrow> bool" where
  "no_marks k \<longleftrightarrow> (\<forall>t. sy_flags (obj k t) AND MARKS = 0)"

lemma no_marks_start:
  assumes "no_marks k" shows "gray (k, []) = {}" "seen (k, []) = {}" "black (k, []) = {}" "like k (k, [])" "clean k (k, [])" "\<not> warned (k, [])"
proof -
  have "sy_flags (obj k t) AND SYMBOL_CHECK = 0 \<and> sy_flags (obj k t) AND SYMBOL_CHECKED = 0" for t
    using assms by (auto simp: no_marks_def MARKS_def bit.conj_disj_distrib or_eq_0_iff)
  then show "gray (k, []) = {}" "seen (k, []) = {}" by (simp_all add: gray_def seen_def has_flag_def)
  then show "black (k, []) = {}" by (simp add: black_def)
  then show "like k (k, [])" "clean k (k, [])" "\<not> warned (k, [])" by (simp_all add: like_def clean_def warned_def)
qed

lemma check_all_visits:
  assumes "\<forall>t\<in>set (syms_of k). set (checked_deps (obj k t)) \<subseteq> set (syms_of k)" "set ss \<subseteq> set (syms_of k)" "like k st" "gray st = {}"
  shows "\<exists>st'. check_all (Suc (length (syms_of k))) ss st = Inr st' \<and> proceeds k st st' \<and> (\<not> warned st' \<longrightarrow> set ss \<subseteq> black st')"
  using assms(2-4)
proof (induction ss arbitrary: st)
  case (Cons s ss)
  let ?U = "set (syms_of k)"
  have "card (?U - seen st) \<le> card ?U" by (intro card_mono) auto
  then have "card (?U - seen st) < Suc (length (syms_of k))" using card_length [of "syms_of k"] by linarith
  then have "visits k {s} st (sym_check_deps (Suc (length (syms_of k))) st s)"
    using Cons.prems assms(1) by (intro visits_sym [of k st s ?U]) auto
  then obtain st1 found where s1: "sym_check_deps (Suc (length (syms_of k))) st s = Inr (st1, found)" "proceeds k st st1"
      "\<not> warned st1 \<longrightarrow> s \<in> black st1" by (auto simp: visits_def)
  have "\<exists>st'. check_all (Suc (length (syms_of k))) ss st1 = Inr st' \<and> proceeds k st1 st' \<and> (\<not> warned st' \<longrightarrow> set ss \<subseteq> black st')"
    using Cons.prems s1(2) by (intro Cons.IH) (auto simp: proceeds_def)
  then obtain st' where s2: "check_all (Suc (length (syms_of k))) ss st1 = Inr st'" "proceeds k st1 st'"
      "\<not> warned st' \<longrightarrow> set ss \<subseteq> black st'" by blast
  have "\<not> warned st' \<longrightarrow> s \<in> black st'"
    using s1(3) s2(2) black_mono [OF s2(2)] by (auto simp: proceeds_def)
  then show ?case using s1 s2 proceeds_trans [OF s1(2) s2(2)] by (auto simp del: sym_check_deps.simps)
qed simp

lemma conf_check_cases:
  assumes "check_ready k" "no_marks k"
  obtains st where "conf_check_deps k = Inr st" "like k st" "acyclic (dep_rel k) \<longrightarrow> \<not> warned st"
    "\<not> warned st \<longrightarrow> (\<exists>rank :: sym \<Rightarrow> nat. \<forall>t\<in>set (syms_of k). \<forall>d\<in>set (checked_deps (obj k t)). rank d < rank t)"
proof -
  note start = no_marks_start [OF assms(2)]
  obtain st where st: "conf_check_deps k = Inr st" "proceeds k (k, []) st" "\<not> warned st \<longrightarrow> set (all_symbols k) \<subseteq> black st"
    using check_all_visits [of k "all_symbols k" "(k, [])"] assms(1) start by (auto simp: conf_check_deps_def check_ready_def)
  have "\<exists>rank :: sym \<Rightarrow> nat. \<forall>t\<in>set (syms_of k). \<forall>d\<in>set (checked_deps (obj k t)). rank d < rank t" if nw: "\<not> warned st"
  proof -
    have "clean k st" using st(2) start(5) by (simp add: proceeds_def)
    then obtain rank :: "sym \<Rightarrow> nat" where "\<forall>t\<in>black st. \<forall>d\<in>set (checked_deps (obj k t)). rank d < rank t"
      using nw by (auto simp: clean_def)
    moreover have "t \<in> black st \<or> checked_deps (obj k t) = []" if "t \<in> set (syms_of k)" for t
      using that nw st(3) assms(1) by (auto simp: check_ready_def)
    ultimately show ?thesis by (metis empty_iff list.set(1))
  qed
  then show thesis using st(1,2) start by (intro that [of st]) (auto simp: proceeds_def)
qed

lemma ranked_acyclic: "(\<And>s d. (s, d) \<in> r \<Longrightarrow> rank d < (rank s :: nat)) \<Longrightarrow> acyclic r"
  by (rule acyclic_subset [of "(measure rank)\<inverse>"]) (auto simp: acyclic_converse wf_acyclic)

text \<open>
  C7. The check for recursive dependencies is exact: for a table whose expressions name allocated
  symbols, and which carries no marks of an earlier search, the search over all symbols ends, and it
  reports a recursive dependency exactly if the dependencies it follows (the reverse
  dependency, the conditions of the properties, and the defaults of a symbol that is no choice)
  have a cycle.
\<close>

theorem check_deps_exact:
  assumes "check_ready k" "no_marks k"
  shows "\<exists>st. conf_check_deps k = Inr st \<and> (warned st \<longleftrightarrow> \<not> acyclic (dep_rel k))"
proof -
  obtain st where st: "conf_check_deps k = Inr st" "acyclic (dep_rel k) \<longrightarrow> \<not> warned st"
    "\<not> warned st \<longrightarrow> (\<exists>rank :: sym \<Rightarrow> nat. \<forall>t\<in>set (syms_of k). \<forall>d\<in>set (checked_deps (obj k t)). rank d < rank t)"
    using conf_check_cases [OF assms] by metis
  have "acyclic (dep_rel k)" if "\<not> warned st"
    using st(3) that by (auto simp: dep_rel_def intro: ranked_acyclic)
  then show ?thesis using st(1,2) by auto
qed

text \<open>Two symbols that depend on each other, and a symbol beside them.\<close>

definition ring :: kconf where
  "ring = kconf_start\<lparr>k_tab := table_of
     [demo_sym (Some ''A'') S_BOOLEAN V_NULL Tno 0 [demo_prop P_PROMPT (Some ''a'') (Some (E_NOT (E_SYMBOL (Sym 1)))) PE_NULL] None,
      demo_sym (Some ''B'') S_BOOLEAN V_NULL Tno 0 [demo_prop P_DEFAULT None None (PE_EXPR (E_SYMBOL (Sym 0)))] None,
      demo_sym (Some ''C'') S_BOOLEAN V_NULL Tno 0 [demo_prop P_PROMPT (Some ''c'') (Some (E_SYMBOL (Sym 0))) PE_NULL] None],
     k_count := 3, k_hash := (\<lambda>h. if h = 65 then [Sym 0] else if h = 66 then [Sym 1] else if h = 67 then [Sym 2] else [])\<rparr>"

lemma table_no_marks:
  assumes "\<forall>y\<in>set ys. sy_flags y AND MARKS = 0" "k_tab k = table_of ys" shows "no_marks k"
proof -
  have "sy_flags (table_of ys t) AND MARKS = 0" for t
    using assms(1) by (cases t) (simp_all add: static_symbol_def new_symbol_def MARKS_def ksymbol_flag_defs)
  then show ?thesis using assms(2) by (simp add: no_marks_def)
qed

theorem check_deps_exact_witness:
  "\<exists>st. conf_check_deps ring = Inr st \<and> (warned st \<longleftrightarrow> \<not> acyclic (dep_rel ring)) \<and> \<not> acyclic (dep_rel ring)"
proof -
  have "check_ready ring" by code_simp
  moreover have "no_marks ring"
    by (rule table_no_marks [of _ ring]) (auto simp: ring_def demo_sym_def)
  moreover have "(Sym 0, Sym 1) \<in> dep_rel ring" "(Sym 1, Sym 0) \<in> dep_rel ring"
    by (simp_all add: dep_rel_def, code_simp+)
  then have "(Sym 0, Sym 0) \<in> (dep_rel ring)\<^sup>+" by (rule trancl_trans [OF r_into_trancl r_into_trancl])
  then have "\<not> acyclic (dep_rel ring)" by (auto simp: acyclic_def)
  ultimately show ?thesis using check_deps_exact [of ring] by blast
qed

section \<open>Evaluation after the check\<close>

text \<open>The evaluation does not see the marks of the search.\<close>

lemma unmark_flag:
  assumes "m AND MARKS = 0" shows "has_flag m (unmark y) = has_flag m y"
proof -
  have "m AND NOT MARKS = m" using assms by (auto simp: bit_eq_iff bit_simps)
  then have "(x AND NOT MARKS) AND m = x AND m" for x by (metis and.assoc and.commute)
  then show ?thesis by (simp add: has_flag_def unmark_def)
qed

lemma unmark_flags4 [simp]:
  "has_flag SYMBOL_VALID (unmark y) = has_flag SYMBOL_VALID y" "has_flag SYMBOL_NEW (unmark y) = has_flag SYMBOL_NEW y"
  "has_flag SYMBOL_CHOICE (unmark y) = has_flag SYMBOL_CHOICE y" "has_flag SYMBOL_CHOICEVAL (unmark y) = has_flag SYMBOL_CHOICEVAL y"
  by (rule unmark_flag, simp add: MARKS_def ksymbol_flag_defs)+

lemma unmark_record [simp]:
  "sy_name (unmark y) = sy_name y" "sy_type (unmark y) = sy_type y" "sy_curr (unmark y) = sy_curr y" "sy_user (unmark y) = sy_user y"
  "sy_prop (unmark y) = sy_prop y" "sy_rev_dep (unmark y) = sy_rev_dep y" "sy_rev_tri (unmark y) = sy_rev_tri y"
  "sy_rev_dep_inv (unmark y) = sy_rev_dep_inv y"
  by (simp_all add: unmark_def)

lemma unmark_preds [simp]:
  "sym_is_choice (unmark y) = sym_is_choice y" "sym_is_choice_value (unmark y) = sym_is_choice_value y" "sym_has_value (unmark y) = sym_has_value y"
  "choice_values (unmark y) = choice_values y" "choice_of (unmark y) = choice_of y"
  by (simp_all add: sym_is_choice_def sym_is_choice_value_def sym_has_value_def choice_values_def choice_of_def sym_get_choice_prop_def)

lemma unmark_dep_lists [simp]:
  "val_deps (unmark y) = val_deps y" "possible (unmark y) = possible y" "choice_link (unmark y) = choice_link y"
  "prompt_deps (unmark y) = prompt_deps y"
  by (simp_all add: val_deps_def vis_deps_def prompt_deps_def rev_deps_def list_deps_def arg_deps_def prop_deps_def possible_def choice_link_def)

lemma unmark_ok [simp]: "printable (unmark y) = printable y" "stringy (unmark y) = stringy y"
  by (simp_all add: printable_def stringy_def)

lemma unmark_sym_ok [simp]: "sym_ok k (unmark y) = sym_ok k y"
proof -
  have "prop_ok k (unmark y) = prop_ok k y" by (rule ext) (simp add: prop_ok_def split: option.split)
  then show ?thesis by (simp add: sym_ok_def)
qed

lemma marks_only:
  assumes same: "\<And>t. unmark (obj k' t) = unmark (obj k t)"
  shows "val_deps (obj k' t) = val_deps (obj k t)" "possible (obj k' t) = possible (obj k t)" "choice_link (obj k' t) = choice_link (obj k t)"
    "prompt_deps (obj k' t) = prompt_deps (obj k t)" "valid k' t = valid k t" "sy_curr (obj k' t) = sy_curr (obj k t)"
    "sym_is_choice_value (obj k' t) = sym_is_choice_value (obj k t)" "sy_rev_tri (obj k' t) = sy_rev_tri (obj k t)"
    "sym_ok k' (obj k' t) = sym_ok k (obj k t)"
proof -
  show "val_deps (obj k' t) = val_deps (obj k t)" "possible (obj k' t) = possible (obj k t)" "choice_link (obj k' t) = choice_link (obj k t)"
    "prompt_deps (obj k' t) = prompt_deps (obj k t)" "sy_curr (obj k' t) = sy_curr (obj k t)"
    "sym_is_choice_value (obj k' t) = sym_is_choice_value (obj k t)" "sy_rev_tri (obj k' t) = sy_rev_tri (obj k t)"
    using same [of t] unmark_dep_lists unmark_record(3,7) unmark_preds(2) by metis+
  show "valid k' t = valid k t" unfolding valid_def using same [of t] unmark_flags4(1) by metis
  have p: "printable (obj k' u) = printable (obj k u)" "stringy (obj k' u) = stringy (obj k u)" for u
    using same [of u] unmark_ok by metis+
  have e: "expr_ok k' e = expr_ok k e" for e by (induction e) (simp_all add: p)
  then have "opt_ok k' x = opt_ok k x" for x by (simp add: opt_ok_def split: option.split)
  then have "prop_ok k' y = prop_ok k y" for y
    by (intro ext) (simp add: prop_ok_def e p split: option.split pexpr.split)
  then have "sym_ok k' y = sym_ok k y" for y
    using \<open>\<And>x. opt_ok k' x = opt_ok k x\<close> by (simp add: sym_ok_def)
  then show "sym_ok k' (obj k' t) = sym_ok k (obj k t)" using same [of t] unmark_sym_ok by metis
qed

lemma like_wf:
  assumes "like k st"
  shows "syms_of (fst st) = syms_of k" "wf_conf (fst st) = wf_conf k" "none_valid (fst st) = none_valid k"
    "val_deps (obj (fst st) t) = val_deps (obj k t)" "sym_is_choice (obj (fst st) t) = sym_is_choice (obj k t)"
proof -
  have same: "unmark (obj (fst st) t) = unmark (obj k t)" for t using assms by (simp add: like_def)
  note m = marks_only [OF same]
  show sy: "syms_of (fst st) = syms_of k" using assms by (simp add: syms_of_def like_def)
  show "wf_conf (fst st) = wf_conf k" "none_valid (fst st) = none_valid k"
    by (simp_all add: wf_conf_def closed_conf_def none_valid_def sy m)
  show "val_deps (obj (fst st) t) = val_deps (obj k t)" "sym_is_choice (obj (fst st) t) = sym_is_choice (obj k t)"
    by (fact m, fact like_cong(4) [OF assms])
qed

text \<open>
  The dependencies of a symbol that the check follows, up to constants: no choice, no
  \<open>deselect\<close>, and constants as the limits of a range.
\<close>

definition plain_prop :: "kconf \<Rightarrow> property \<Rightarrow> bool" where
  "plain_prop k p \<longleftrightarrow>
     (p_text p \<noteq> None \<longrightarrow> p_type p \<noteq> P_CHOICE \<and> p_type p \<noteq> P_SELECT \<and> p_type p \<noteq> P_DESELECT) \<and>
     (p_type p = P_RANGE \<longrightarrow> (\<forall>d\<in>set (pexpr_syms (p_expr p)). val_deps (obj k d) = [])) \<and>
     (p_type p = P_DEFAULT \<longrightarrow> pexpr_syms (p_expr p) = default_syms (p_expr p))"

definition plain_conf :: "kconf \<Rightarrow> bool" where
  "plain_conf k \<longleftrightarrow> (\<forall>t\<in>set (syms_of k). \<not> sym_is_choice (obj k t) \<and> \<not> sym_is_choice_value (obj k t) \<and>
     sy_rev_dep_inv (obj k t) = None \<and> list_all (plain_prop k) (sy_prop (obj k t)))"

lemma plain_deps:
  assumes "plain_conf k" "t \<in> set (syms_of k)" "u \<in> set (val_deps (obj k t))"
  shows "u \<in> set (checked_deps (obj k t)) \<or> val_deps (obj k u) = []"
proof -
  let ?y = "obj k t"
  have c: "\<not> sym_is_choice ?y" "\<not> sym_is_choice_value ?y" "sy_rev_dep_inv ?y = None" "\<And>p. p \<in> set (sy_prop ?y) \<Longrightarrow> plain_prop k p"
    using assms(1,2) by (auto simp: plain_conf_def list_all_iff)
  consider (rev) "u \<in> set (opt_syms (sy_rev_dep ?y))"
    | (cond) p where "p \<in> set (sy_prop ?y)" "p_text p \<noteq> None \<or> p_type p = P_DEFAULT \<or> p_type p = P_RANGE" "u \<in> set (opt_syms (p_visible p))"
    | (dft) p where "p \<in> set (sy_prop ?y)" "p_type p = P_DEFAULT" "u \<in> set (pexpr_syms (p_expr p))"
    | (range) p where "p \<in> set (sy_prop ?y)" "p_type p = P_RANGE" "u \<in> set (pexpr_syms (p_expr p))"
    using assms(3) c(2,3)
    by (auto simp: val_deps_def vis_deps_def prompt_deps_def rev_deps_def list_deps_def arg_deps_def prop_deps_def
      choice_link_def opt_syms_def [of None] split: if_splits)
  then show ?thesis
  proof cases
    case rev then show ?thesis by (simp add: checked_deps_def)
  next
    case cond
    then have "u \<in> set (checked_prop_deps ?y p)" using c(4) [of p] by (auto simp: plain_prop_def checked_prop_deps_def)
    then show ?thesis using cond(1) by (auto simp: checked_deps_def)
  next
    case dft
    then have "u \<in> set (checked_prop_deps ?y p)"
      using c(1) c(4) [of p] by (auto simp: plain_prop_def checked_prop_deps_def default_syms_def)
    then show ?thesis using dft(1) by (auto simp: checked_deps_def)
  next
    case range then show ?thesis using c(4) [of p] by (auto simp: plain_prop_def)
  qed
qed

text \<open>
  C4. A configuration that passes the check is evaluated as it is meant. Let the table be well formed
  and consist of symbols without choices and \<open>deselect\<close>, with constants as the limits of
  ranges, and let no symbol be valid yet. If \<open>conf_parse\<close> reports no recursive dependency, then
  evaluating any symbols after it, in any order, meets no bad pointer, and every symbol that is valid
  afterwards has the value of its equation.
\<close>

theorem checked_conf_solved:
  assumes "wf_conf k" "none_valid k" "plain_conf k" "check_ready k" "no_marks k"
    and "conf_check_deps k = Inr (k1, out)" "\<not> warned (k1, out)" "set ss \<subseteq> set (syms_of k)"
  shows "\<exists>k'. sym_calc_all k1 ss = Inr k' \<and> (\<forall>s\<in>set ss. has_flag SYMBOL_VALID (obj k' s)) \<and>
     (\<forall>s\<in>set (syms_of k'). has_flag SYMBOL_VALID (obj k' s) \<longrightarrow> s \<in> statics \<or> solved k' s)"
proof -
  obtain st rank where st: "conf_check_deps k = Inr st" "like k st"
    and rank: "\<forall>t\<in>set (syms_of k). \<forall>d\<in>set (checked_deps (obj k t)). rank d < (rank t :: nat)"
    using conf_check_cases [OF assms(4,5)] assms(6,7) by (metis Inr_inject)
  have k1: "st = (k1, out)" using st(1) assms(6) by simp
  note same = like_wf [OF st(2), unfolded k1, simplified]
  define level where "level t = (if val_deps (obj k t) = [] then 0 else Suc (rank t))" for t
  have "ranked level k1"
    unfolding ranked_def deps_of_def same
  proof (intro ballI conjI)
    fix t u assume t: "t \<in> set (syms_of k)"
    have *: "level u < level t" if "u \<in> set (val_deps (obj k t))" for u
      using plain_deps [OF assms(3) t that] rank t that by (auto simp: level_def)
    then show "u \<in> set (val_deps (obj k t)) \<Longrightarrow> level u < level t" by simp
    have "\<not> sym_is_choice (obj k t)" using assms(3) t by (simp add: plain_conf_def)
    then show "u \<in> set (val_deps (obj k t)) \<union> (if sym_is_choice (obj k t) \<and> tri_type (sy_type (obj k1 t)) then set (cand_deps k1 (obj k1 t)) else {}) \<Longrightarrow>
      u = t \<or> level u < level t" using * by simp
  qed
  then have ws: "well_solved level k1" using assms(1,2) same by (intro none_valid_solved) simp_all
  have "set ss \<subseteq> set (syms_of k1)" using assms(8) same(1) by simp
  then obtain k' where k': "sym_calc_all k1 ss = Inr k'" "well_solved level k'" "\<forall>s\<in>set ss. valid k' s"
    using sym_calc_all_step [OF ws] by blast
  then show ?thesis using well_solved_now [OF k'(2)] by (auto simp: valid_def)
qed

text \<open>A boolean, one that depends on it, and a number in the range of two constants.\<close>

definition chain :: kconf where
  "chain = kconf_start\<lparr>k_tab := table_of
     [demo_sym (Some ''A'') S_BOOLEAN V_NULL Tyes 0 [demo_prop P_PROMPT (Some ''a'') None PE_NULL] None,
      demo_sym (Some ''B'') S_TRISTATE V_NULL Tno SYMBOL_NEW
        [demo_prop P_PROMPT (Some ''b'') (Some (E_SYMBOL (Sym 0))) PE_NULL, demo_prop P_DEFAULT None None (PE_EXPR (E_SYMBOL symbol_mod))] None,
      demo_sym (Some ''C'') S_INT (V_heap 0 ''12'') Tno 0
        [demo_prop P_PROMPT (Some ''c'') (Some (E_SYMBOL (Sym 1))) PE_NULL, demo_prop P_RANGE None None (PE_RANGE (Sym 3) (Sym 4))] None,
      demo_sym (Some ''1'') S_UNKNOWN V_NULL Tno (SYMBOL_NEW OR SYMBOL_CONST) [] None,
      demo_sym (Some ''9'') S_UNKNOWN V_NULL Tno (SYMBOL_NEW OR SYMBOL_CONST) [] None],
     k_count := 5, k_heap := 1, k_hash := (\<lambda>h. if h = 49 then [Sym 3] else if h = 57 then [Sym 4] else if h = 65 then [Sym 0]
       else if h = 66 then [Sym 1] else if h = 67 then [Sym 2] else [])\<rparr>"

lemma chain_wf: "wf_conf chain" "none_valid chain" "plain_conf chain" "check_ready chain"
  by code_simp+

lemma chain_marks: "no_marks chain"
  by (rule table_no_marks [of _ chain]) (auto simp: chain_def demo_sym_def MARKS_def ksymbol_flag_defs)

lemma chain_silent: "(case conf_check_deps chain of Inl e \<Rightarrow> False | Inr st \<Rightarrow> \<not> warned st)"
  by code_simp

theorem checked_conf_solved_witness:
  "\<exists>k1 out k'. conf_check_deps chain = Inr (k1, out) \<and> sym_calc_all k1 [Sym 2, Sym 1] = Inr k' \<and>
     (\<forall>s\<in>set [Sym 2, Sym 1]. has_flag SYMBOL_VALID (obj k' s)) \<and>
     (\<forall>s\<in>set (syms_of k'). has_flag SYMBOL_VALID (obj k' s) \<longrightarrow> s \<in> statics \<or> solved k' s)"
proof -
  obtain k1 out where k1: "conf_check_deps chain = Inr (k1, out)" "\<not> warned (k1, out)"
    using chain_silent by (cases "conf_check_deps chain") auto
  have "set [Sym 2, Sym 1] \<subseteq> set (syms_of chain)" by code_simp
  from checked_conf_solved [OF chain_wf chain_marks k1 this] k1(1) show ?thesis by blast
qed

text \<open>Two booleans that both are set by the user, and of which each deselects the other.\<close>

definition duel :: kconf where
  "duel = kconf_start\<lparr>k_tab := table_of
     [(demo_sym (Some ''A'') S_BOOLEAN V_NULL Tyes 0 [demo_prop P_PROMPT (Some ''a'') None PE_NULL] None)\<lparr>sy_rev_dep_inv := Some (E_SYMBOL (Sym 1))\<rparr>,
      (demo_sym (Some ''B'') S_BOOLEAN V_NULL Tyes 0 [demo_prop P_PROMPT (Some ''b'') None PE_NULL] None)\<lparr>sy_rev_dep_inv := Some (E_SYMBOL (Sym 0))\<rparr>],
     k_count := 2, k_hash := (\<lambda>h. if h = 65 then [Sym 0] else if h = 66 then [Sym 1] else [])\<rparr>"

definition both_values :: "kerr + kconf \<Rightarrow> (tristate \<times> tristate) option" where
  "both_values r = (case r of Inl e \<Rightarrow> None | Inr k \<Rightarrow> Some (v_tri (sy_curr (obj k (Sym 0))), v_tri (sy_curr (obj k (Sym 1)))))"

text \<open>
  The check does not follow \<open>deselect\<close>: two symbols that deselect each other pass it without a
  report, and then the values depend on which of them is evaluated first.
\<close>

theorem deselect_cycle_unnoticed:
  "(case conf_check_deps duel of Inl e \<Rightarrow> False | Inr st \<Rightarrow> \<not> warned st) \<and>
   both_values (sym_calc_all duel [Sym 0, Sym 1]) = Some (Tno, Tyes) \<and>
   both_values (sym_calc_all duel [Sym 1, Sym 0]) = Some (Tyes, Tno)"
  by (intro conjI; code_simp)

text \<open>A string with a prompt that depends on the string itself.\<close>

definition self_compare :: kconf where
  "self_compare = kconf_start\<lparr>k_tab := table_of
     [demo_sym (Some ''S'') S_STRING V_NULL Tno SYMBOL_NEW
        [demo_prop P_PROMPT (Some ''s'') (Some (E_UNEQUAL (Sym 0) (Sym 1))) PE_NULL] None,
      demo_sym (Some ''x'') S_UNKNOWN V_NULL Tno (SYMBOL_NEW OR SYMBOL_CONST) [] None],
     k_count := 2, k_hash := (\<lambda>h. if h = 83 then [Sym 0] else if h = 120 then [Sym 1] else [])\<rparr>"

text \<open>
  A recursive dependency is reported but not refused, and the value that a symbol shows
  while it is being evaluated is set only after its visibility is known: a string whose
  prompt compares the string itself is reported by the check, and its evaluation then reads
  through a null pointer.
\<close>

theorem recursive_string_bad_pointer:
  "(case conf_check_deps self_compare of Inl e \<Rightarrow> False | Inr (k, out) \<Rightarrow>
     out = [Found_recursive (Some ''S''), Passing (Some ''S''), Newline] \<and> (case sym_calc k (Sym 0) of Inl e \<Rightarrow> e = Bad_pointer | Inr k' \<Rightarrow> False))"
  by code_simp

end
