(* ===== verification/Kconfig_Table.thy ===== *)
theory Kconfig_Table
  imports Kconfig_Calc
begin

text \<open>
  The symbol table as a client sees it: a map from names to symbols that grows by lookups. The
  interface is a locale; the hash table of \<open>symbol.c\<close> is shown to satisfy it.
\<close>

section \<open>Tables that intern keys\<close>

locale intern_table =
  fixes ok :: "'s \<Rightarrow> bool" and tab :: "'s \<Rightarrow> 'key \<Rightarrow> 'v option" and intern :: "'s \<Rightarrow> 'key \<Rightarrow> 's \<times> 'v"
  assumes intern_ok: "ok st \<Longrightarrow> ok (fst (intern st key))"
    and intern_tab: "ok st \<Longrightarrow> tab (fst (intern st key)) key = Some (snd (intern st key))"
    and intern_keeps: "ok st \<Longrightarrow> tab st key' = Some v \<Longrightarrow> tab (fst (intern st key)) key' = Some v"
    and intern_others: "ok st \<Longrightarrow> tab (fst (intern st key)) key' \<noteq> tab st key' \<Longrightarrow> tab (fst (intern st key)) key' = Some (snd (intern st key))"
    and intern_hit: "ok st \<Longrightarrow> tab st key = Some v \<Longrightarrow> intern st key = (st, v)"
begin

definition intern_all :: "'key list \<Rightarrow> 's \<Rightarrow> 's" where
  "intern_all keys st = fold (\<lambda>key st. fst (intern st key)) keys st"

lemma intern_all_ok: "ok st \<Longrightarrow> ok (intern_all keys st)"
  unfolding intern_all_def by (induction keys arbitrary: st) (auto simp: intern_ok)

lemma intern_all_keeps: "ok st \<Longrightarrow> tab st key = Some v \<Longrightarrow> tab (intern_all keys st) key = Some v"
  unfolding intern_all_def
proof (induction keys arbitrary: st)
  case (Cons key' keys)
  then show ?case using Cons.IH [OF intern_ok [OF Cons.prems(1)] intern_keeps [OF Cons.prems]] by simp
qed simp

lemma intern_again:
  assumes "ok st"
  shows "intern (intern_all keys (fst (intern st key))) key = (intern_all keys (fst (intern st key)), snd (intern st key))"
  using assms by (intro intern_hit intern_all_ok intern_ok intern_all_keeps intern_tab)

end

section \<open>The hash table\<close>

definition bucket :: "string option \<Rightarrow> nat" where
  "bucket n = (case n of None \<Rightarrow> 256 | Some name \<Rightarrow> sym_hash name)"

definition table_ok :: "kconf \<Rightarrow> bool" where
  "table_ok k \<longleftrightarrow>
     (\<forall>h. \<forall>s\<in>set (k_hash k h). s \<in> set (map Sym [0..<k_count k]) \<and> bucket (sy_name (obj k s)) = h) \<and>
     (\<forall>s\<in>set (map Sym [0..<k_count k]). s \<in> set (k_hash k (bucket (sy_name (obj k s))))) \<and>
     (\<forall>s\<in>set (map Sym [0..<k_count k]). \<forall>t\<in>set (map Sym [0..<k_count k]).
        sy_name (obj k s) = sy_name (obj k t) \<and> sy_name (obj k s) \<noteq> None \<and>
        has_flag SYMBOL_CONST (obj k s) = has_flag SYMBOL_CONST (obj k t) \<longrightarrow> s = t)"

text \<open>The reference: a search through all symbols.\<close>

definition table :: "kconf \<Rightarrow> string \<times> bool \<Rightarrow> sym option" where
  "table k = (\<lambda>(name, isconst). case sym_lookup_const name of
     Some s \<Rightarrow> Some s | None \<Rightarrow> find (sym_matches k name isconst) (map Sym [0..<k_count k]))"

definition lookup :: "kconf \<Rightarrow> string \<times> bool \<Rightarrow> kconf \<times> sym" where
  "lookup k = (\<lambda>(name, isconst). sym_lookup k (Some name) isconst)"

lemma sym_hash_bound: "sym_hash name < 256"
proof -
  have "take_bit 8 i < 2 ^ 8" for i :: int by (rule take_bit_int_less_exp)
  then show ?thesis by (simp add: sym_hash_def nat_less_iff)
qed

lemma find_same:
  assumes "\<And>s. s \<in> set xs \<and> P s \<longleftrightarrow> s \<in> set ys \<and> P s" "\<And>s t. s \<in> set xs \<Longrightarrow> t \<in> set xs \<Longrightarrow> P s \<Longrightarrow> P t \<Longrightarrow> s = t"
  shows "find P xs = find P ys"
proof (cases "find P xs")
  case None
  then show ?thesis using assms(1) by (metis find_None_iff)
next
  case (Some s)
  then have s: "s \<in> set xs" "P s" by (auto simp: find_Some_iff nth_mem)
  then obtain t where t: "find P ys = Some t" using assms(1) by (metis find_None_iff not_Some_eq)
  then have "t \<in> set ys" "P t" by (auto simp: find_Some_iff nth_mem)
  then have "t \<in> set xs" "P t" using assms(1) [of t] by blast+
  then show ?thesis using assms(2) [OF s(1) _ s(2)] Some t by auto
qed

lemma bucket_search:
  assumes "table_ok k"
  shows "find (sym_matches k name isconst) (k_hash k (sym_hash name)) = find (sym_matches k name isconst) (map Sym [0..<k_count k])"
proof (rule find_same)
  have h: "sym_hash name = bucket (Some name)" by (simp add: bucket_def)
  show "s \<in> set (k_hash k (sym_hash name)) \<and> sym_matches k name isconst s \<longleftrightarrow> s \<in> set (map Sym [0..<k_count k]) \<and> sym_matches k name isconst s" for s
    using assms unfolding table_ok_def sym_matches_def h by metis
  show "s = t" if "s \<in> set (k_hash k (sym_hash name))" "t \<in> set (k_hash k (sym_hash name))" "sym_matches k name isconst s" "sym_matches k name isconst t" for s t
    using assms that unfolding table_ok_def sym_matches_def by (metis option.distinct(1))
qed

lemma lookup_cases:
  assumes "table_ok k"
  shows "lookup k (name, c) = (case table k (name, c) of Some s \<Rightarrow> (k, s) | None \<Rightarrow> sym_alloc k (Some name) c (sym_hash name))"
  by (auto simp: lookup_def table_def bucket_search [OF assms] split: option.split)

lemma alloc_fields:
  assumes "sym_alloc k n c h = (k', s)"
  shows "s = Sym (k_count k)" "k_count k' = Suc (k_count k)" "k_hash k' = (k_hash k)(h := s # k_hash k h)"
    "obj k' t = (if t = s then new_symbol n c else obj k t)"
  using assms by (auto simp: sym_alloc_def Let_def)

lemma new_symbol_const [simp]: "sy_name (new_symbol n c) = n" "has_flag SYMBOL_CONST (new_symbol n c) = c"
  by (simp_all add: new_symbol_def has_flag_def ksymbol_flag_defs)

lemma alloc_ok:
  assumes "table_ok k" "sym_alloc k n c (bucket n) = (k', s)"
    and "\<And>name. n = Some name \<Longrightarrow> find (sym_matches k name c) (map Sym [0..<k_count k]) = None"
  shows "table_ok k'"
proof -
  note f = alloc_fields [OF assms(2)]
  have dom: "set (map Sym [0..<k_count k']) = insert s (set (map Sym [0..<k_count k]))" using f(1,2) by auto
  have fresh: "s \<notin> set (map Sym [0..<k_count k])" using f(1) by auto
  have new: "\<not> (sy_name (obj k t) = n \<and> n \<noteq> None \<and> has_flag SYMBOL_CONST (obj k t) = c)" if "t \<in> set (map Sym [0..<k_count k])" for t
    using assms(3) that by (auto simp: find_None_iff sym_matches_def)
  have old: "t \<noteq> s" "obj k' t = obj k t" if "t \<in> set (map Sym [0..<k_count k])" for t
    using that fresh f(4) by auto
  have ok1: "t \<in> set (map Sym [0..<k_count k]) \<and> bucket (sy_name (obj k t)) = h" if "t \<in> set (k_hash k h)" for t h
    using assms(1) that unfolding table_ok_def by blast
  have ok2: "t \<in> set (k_hash k (bucket (sy_name (obj k t))))" if "t \<in> set (map Sym [0..<k_count k])" for t
    using assms(1) that unfolding table_ok_def by blast
  show ?thesis
    unfolding table_ok_def dom
  proof (intro conjI allI ballI impI)
    fix h t assume t: "t \<in> set (k_hash k' h)"
    have *: "t = s \<and> h = bucket n \<or> t \<in> set (k_hash k h)" using t f(3) by (auto split: if_splits)
    then show "t \<in> insert s (set (map Sym [0..<k_count k]))" "bucket (sy_name (obj k' t)) = h"
      using ok1 [of t h] old [of t] f(4) [of s] by (auto simp del: set_map)
  next
    fix t assume "t \<in> insert s (set (map Sym [0..<k_count k]))"
    then show "t \<in> set (k_hash k' (bucket (sy_name (obj k' t))))"
      using ok2 [of t] old [of t] f(3) f(4) [of s] by (auto simp del: set_map)
  next
    fix t u assume "t \<in> insert s (set (map Sym [0..<k_count k]))" "u \<in> insert s (set (map Sym [0..<k_count k]))"
      and e: "sy_name (obj k' t) = sy_name (obj k' u) \<and> sy_name (obj k' t) \<noteq> None \<and> has_flag SYMBOL_CONST (obj k' t) = has_flag SYMBOL_CONST (obj k' u)"
    then consider "t = s" "u = s" | "t = s" "u \<in> set (map Sym [0..<k_count k])" | "u = s" "t \<in> set (map Sym [0..<k_count k])"
      | "t \<in> set (map Sym [0..<k_count k])" "u \<in> set (map Sym [0..<k_count k])" by auto
    then show "t = u"
    proof cases
      case 2 then show ?thesis using e new [of u] old [of u] f(4) [of s] by auto
    next
      case 3 then show ?thesis using e new [of t] old [of t] f(4) [of s] by auto
    next
      case 4 then show ?thesis using e old assms(1) unfolding table_ok_def by (metis (no_types, lifting))
    qed simp
  qed
qed

lemma alloc_table:
  assumes "table_ok k" "sym_alloc k (Some name) c (sym_hash name) = (k', s)" "table k (name, c) = None"
  shows "table k' key = (if key = (name, c) then Some s else table k key)"
proof -
  note f = alloc_fields [OF assms(2)]
  obtain m d where key: "key = (m, d)" by (cases key)
  have old: "sym_matches k' m d t = sym_matches k m d t" if "t \<in> set (map Sym [0..<k_count k])" for t
    using that f(1,4) by (auto simp: sym_matches_def)
  have "map Sym [0..<k_count k'] = map Sym [0..<k_count k] @ [s]" using f(1,2) by simp
  moreover have "find (sym_matches k' m d) (map Sym [0..<k_count k]) = find (sym_matches k m d) (map Sym [0..<k_count k])"
    using old by (intro find_cong) simp_all
  moreover have "sym_matches k' m d s \<longleftrightarrow> m = name \<and> d = c" using f(4) by (auto simp: sym_matches_def)
  ultimately show ?thesis
    using assms(3) by (auto simp: table_def key find_append split: option.splits)
qed

lemma lookup_split:
  assumes "table_ok k"
  obtains (hit) s where "table k key = Some s" "lookup k key = (k, s)"
  | (miss) k' s where "table k key = None" "lookup k key = (k', s)" "table_ok k'"
      "\<And>key'. table k' key' = (if key' = key then Some s else table k key')"
proof (cases "table k key")
  case (Some s)
  then show thesis using hit lookup_cases [OF assms] by (cases key) simp
next
  case None
  obtain name c where key: "key = (name, c)" by (cases key)
  obtain k' s where a: "sym_alloc k (Some name) c (sym_hash name) = (k', s)" by (cases "sym_alloc k (Some name) c (sym_hash name)")
  have n: "find (sym_matches k name c) (map Sym [0..<k_count k]) = None"
    using None key by (auto simp: table_def split: option.splits)
  have "table_ok k'" using alloc_ok [OF assms, of "Some name" c k' s] a n by (simp add: bucket_def)
  moreover have "table k' key' = (if key' = key then Some s else table k key')" for key'
    using alloc_table [OF assms a] None key by simp
  moreover have "lookup k key = (k', s)" using None key lookup_cases [OF assms, of name c] a by simp
  ultimately show thesis using miss [OF None] by blast
qed

interpretation kt: intern_table table_ok table lookup
proof
  fix st key key' v assume ok: "table_ok st"
  show "table_ok (fst (lookup st key))" using ok by (cases rule: lookup_split [of st key]) (simp_all add: ok)
  show "table (fst (lookup st key)) key = Some (snd (lookup st key))" using ok by (cases rule: lookup_split [of st key]) simp_all
  show "table st key' = Some v \<Longrightarrow> table (fst (lookup st key)) key' = Some v" using ok by (cases rule: lookup_split [of st key]) auto
  show "table (fst (lookup st key)) key' \<noteq> table st key' \<Longrightarrow> table (fst (lookup st key)) key' = Some (snd (lookup st key))"
    using ok by (cases rule: lookup_split [of st key]) (simp_all split: if_splits)
  show "table st key = Some v \<Longrightarrow> lookup st key = (st, v)" using ok by (cases rule: lookup_split [of st key]) simp_all
qed

lemma find_table: "table_ok k \<Longrightarrow> sym_find k name = table k (name, False)"
  by (simp add: sym_find_def table_def bucket_search)

declare sym_lookup.simps [simp del]

lemma lookup_pair: "sym_lookup k (Some n) c = lookup k (n, c)"
  by (simp add: lookup_def)

text \<open>The loop over all symbols visits exactly the symbols of the table.\<close>

lemma table_all_symbols:
  assumes "table_ok k" shows "set (all_symbols k) = {s \<in> set (map Sym [0..<k_count k]). sy_type (obj k s) \<noteq> S_OTHER}"
proof -
  have "s \<in> (\<Union>h\<in>{0..<257}. set (k_hash k h)) \<longleftrightarrow> s \<in> set (map Sym [0..<k_count k])" for s
  proof
    assume "s \<in> set (map Sym [0..<k_count k])"
    then have "s \<in> set (k_hash k (bucket (sy_name (obj k s))))" using assms unfolding table_ok_def by blast
    moreover have "bucket (sy_name (obj k s)) < 257" using sym_hash_bound by (auto simp: bucket_def less_Suc_eq split: option.split intro: less_trans)
    ultimately show "s \<in> (\<Union>h\<in>{0..<257}. set (k_hash k h))" by force
  qed (use assms in \<open>auto simp: table_ok_def simp del: set_map\<close>)
  then show ?thesis by (auto simp: all_symbols_def simp del: upt_Suc)
qed

lemma start_ok: "table_ok kconf_start"
  by (simp add: table_ok_def kconf_start_def)

text \<open>
  C26. The hash table of the symbols is a map. Looking up a name, as a constant or not, enters it into the
  table if it is missing, and otherwise changes nothing; in terms of the map that a search
  through all symbols gives, it is the update of that one key. \<open>sym_find\<close> reads this map at
  the names that are no constants; and however many names are looked up in between, the same
  lookup gives the same symbol again.
\<close>

theorem symbol_table_refines:
  assumes "table_ok k" "sym_lookup k (Some name) isconst = (k', s)"
  shows "table_ok k' \<and> table k' = (table k)((name, isconst) \<mapsto> s) \<and> (table k (name, isconst) \<noteq> None \<longrightarrow> k' = k) \<and>
    (\<forall>n. sym_find k' n = table k' (n, False)) \<and>
    (\<forall>keys. let k'' = fold (\<lambda>(n, c) k. fst (sym_lookup k (Some n) c)) keys k' in sym_lookup k'' (Some name) isconst = (k'', s))"
proof -
  have l: "lookup k (name, isconst) = (k', s)" using assms(2) by (simp add: lookup_pair)
  have ok: "table_ok k'" using kt.intern_ok [OF assms(1), of "(name, isconst)"] l by simp
  have f: "fold (\<lambda>(n, c) k. fst (sym_lookup k (Some n) c)) keys k' = kt.intern_all keys k'" for keys
    unfolding kt.intern_all_def by (rule fold_cong) (auto simp: lookup_pair)
  have "sym_lookup (kt.intern_all keys k') (Some name) isconst = (kt.intern_all keys k', s)" for keys
    using kt.intern_again [OF assms(1), of keys "(name, isconst)"] l by (simp add: lookup_pair)
  moreover have "table k' = (table k)((name, isconst) \<mapsto> s) \<and> (table k (name, isconst) \<noteq> None \<longrightarrow> k' = k)"
    using assms(1) l by (cases rule: lookup_split [of k "(name, isconst)"]) (auto simp: fun_eq_iff)
  ultimately show ?thesis using ok find_table [OF ok] by (simp add: Let_def f)
qed

theorem symbol_table_refines_witness:
  "\<exists>k' s. sym_lookup kconf_start (Some ''NET'') False = (k', s) \<and> sym_find k' ''NET'' = Some s \<and> sym_find k' ''y'' = Some symbol_yes"
proof -
  obtain k' s where l: "sym_lookup kconf_start (Some ''NET'') False = (k', s)" by (cases "sym_lookup kconf_start (Some ''NET'') False")
  have "table kconf_start (''y'', False) = Some symbol_yes" by (simp add: table_def)
  then have "sym_find k' ''NET'' = Some s" "sym_find k' ''y'' = Some symbol_yes"
    using symbol_table_refines [OF start_ok l] by auto
  with l show ?thesis by blast
qed

end
