(* ===== verification/Crc.thy ===== *)
theory Crc
  imports NB_Prelude
begin

text \<open>
  Cyclic redundancy checks that work on bytes, the least significant bit first: what a client needs
  of one, and the division by a polynomial that the tables in the sources stand for.
\<close>

section \<open>Checksums over bytes\<close>

locale byte_crc =
  fixes step :: "'c \<Rightarrow> u8 \<Rightarrow> 'c"
  assumes step_state: "step c b = step c' b \<Longrightarrow> c = c'"
    and step_byte: "step c b = step c b' \<Longrightarrow> b = b'"
begin

lemma run_state: "foldl step c bs = foldl step c' bs \<Longrightarrow> c = c'"
  by (induction bs arbitrary: c c') (auto dest: step_state)

lemma detects_byte:
  assumes "length xs = length ys" "i < length xs" "xs ! i \<noteq> ys ! i"
    and "\<And>j. j < length xs \<Longrightarrow> j \<noteq> i \<Longrightarrow> xs ! j = ys ! j"
  shows "foldl step c xs \<noteq> foldl step c ys"
proof
  assume eq: "foldl step c xs = foldl step c ys"
  have pre: "take i xs = take i ys" using assms by (intro nth_equalityI) auto
  have post: "drop (Suc i) xs = drop (Suc i) ys" using assms by (intro nth_equalityI) auto
  have "xs = take i xs @ xs ! i # drop (Suc i) xs" "ys = take i ys @ ys ! i # drop (Suc i) ys"
    using assms(1,2) by (simp_all add: id_take_nth_drop)
  then have "foldl step (step (foldl step c (take i xs)) (xs ! i)) (drop (Suc i) xs)
      = foldl step (step (foldl step c (take i xs)) (ys ! i)) (drop (Suc i) xs)"
    using eq pre post by (metis foldl_append foldl_Cons)
  then have "xs ! i = ys ! i" using run_state step_byte by blast
  with assms(3) show False by simp
qed

end

section \<open>Division by a polynomial\<close>

text \<open>One bit of the division; the bits of \<open>poly\<close> are the coefficients in reverse order.\<close>

definition crc_shift :: "'a :: len word \<Rightarrow> 'a word \<Rightarrow> 'a word" where
  "crc_shift poly c = (if bit c 0 then drop_bit 1 c XOR poly else drop_bit 1 c)"

lemma xor_cancel:
  "a XOR c = b XOR (c :: 'a :: len word) \<Longrightarrow> a = b" "c XOR a = c XOR (b :: 'a word) \<Longrightarrow> a = b"
  by (metis xor.assoc xor_self_eq xor.right_neutral) (metis xor.assoc xor_self_eq xor.left_neutral)

lemma crc_shift_inj:
  fixes poly a b :: "'a :: len word"
  assumes "bit poly (LENGTH('a) - 1)" "crc_shift poly a = crc_shift poly b"
  shows "a = b"
proof (rule bit_word_eqI)
  fix n assume n: "n < LENGTH('a)"
  have "\<not> bit (c :: 'a word) (Suc (LENGTH('a) - 1))" for c using bit_imp_le_length [of c "LENGTH('a)"] by auto
  then have "bit (crc_shift poly c) (LENGTH('a) - 1) = bit c 0" for c
    using assms(1) by (simp add: crc_shift_def bit_simps)
  then have 0: "bit a 0 = bit b 0" using assms(2) by metis
  then have "drop_bit 1 a = drop_bit 1 b"
    using assms(2) by (auto simp: crc_shift_def split: if_splits dest: xor_cancel)
  then have "bit (drop_bit 1 a) m = bit (drop_bit 1 b) m" for m by simp
  with 0 show "bit a n = bit b n" by (cases n) (auto simp: bit_simps)
qed

lemma crc_shift_numeral:
  fixes poly :: "'a :: len word"
  shows "crc_shift poly 0 = 0" "crc_shift poly 1 = poly"
  "(numeral n :: nat) < 2 ^ (LENGTH('a) - 1) \<Longrightarrow> crc_shift poly (numeral (Num.Bit0 n)) = numeral n"
  "(numeral n :: nat) < 2 ^ (LENGTH('a) - 1) \<Longrightarrow> crc_shift poly (numeral (Num.Bit1 n)) = numeral n XOR poly"
proof -
  have half: "drop_bit 1 (word_of_nat k :: 'a word) = word_of_nat (k div 2)" if "k < 2 ^ LENGTH('a)" for k
  proof -
    from that have "k div 2 < 2 ^ LENGTH('a)" by linarith
    with that show ?thesis
      by (intro word_unat_eq_iff [THEN iffD2])
        (auto simp: unat_drop_bit_eq unat_div_distrib unat_of_nat take_bit_nat_eq_self drop_bit_eq_div)
  qed
  have two: "2 ^ LENGTH('a) = 2 * (2 :: nat) ^ (LENGTH('a) - 1)" by (metis len_gt_0 power_Suc Suc_diff_1)
  have par: "bit (word_of_nat k :: 'a word) 0 \<longleftrightarrow> odd k" for k by (simp add: bit_0)
  show "crc_shift poly (numeral (Num.Bit0 n)) = numeral n" if "(numeral n :: nat) < 2 ^ (LENGTH('a) - 1)"
  proof -
    have lt: "(numeral (Num.Bit0 n) :: nat) < 2 ^ LENGTH('a)" 
      using that two numeral_Bit0 [of n, where 'a = nat] by linarith
    have "(numeral (Num.Bit0 n) :: nat) div 2 = numeral n" by simp
    with half [OF lt] par [of "numeral (Num.Bit0 n)"] show ?thesis by (simp add: crc_shift_def)
  qed
  show "crc_shift poly (numeral (Num.Bit1 n)) = numeral n XOR poly" if "(numeral n :: nat) < 2 ^ (LENGTH('a) - 1)"
  proof -
    have lt: "(numeral (Num.Bit1 n) :: nat) < 2 ^ LENGTH('a)" 
      using that two numeral_Bit1 [of n, where 'a = nat] by linarith
    have "(numeral (Num.Bit1 n) :: nat) div 2 = numeral n" by simp
    with half [OF lt] par [of "numeral (Num.Bit1 n)"] show ?thesis by (simp add: crc_shift_def)
  qed
qed (simp_all add: crc_shift_def)

text \<open>The division is linear, and a word without low bits is shifted only.\<close>

lemma crc_shift_xor: "crc_shift poly (a XOR b) = crc_shift poly a XOR crc_shift poly b"
  by (auto simp: crc_shift_def drop_bit_xor bit_xor_iff ac_simps xor.left_commute)

lemma crc_shifts_xor: "(crc_shift poly ^^ n) (a XOR b) = (crc_shift poly ^^ n) a XOR (crc_shift poly ^^ n) b"
  by (induction n arbitrary: a b) (simp_all add: crc_shift_xor)

lemma crc_shifts_drop:
  assumes "\<And>m. m < n \<Longrightarrow> \<not> bit (a :: 'a :: len word) m"
  shows "(crc_shift poly ^^ n) a = drop_bit n a"
  using assms
proof (induction n arbitrary: a)
  case (Suc n)
  then have "\<not> bit a 0" "\<And>m. m < n \<Longrightarrow> \<not> bit (drop_bit 1 a) m"
    by (auto simp: bit_simps)
  then have "crc_shift poly a = drop_bit 1 a" "(crc_shift poly ^^ n) (drop_bit 1 a) = drop_bit n (drop_bit 1 a)"
    using Suc.IH [of "drop_bit 1 a"] by (simp_all add: crc_shift_def [of poly a])
  then show ?case by (simp add: funpow_swap1)
qed simp

lemma crc_shifts_table:
  "(crc_shift poly ^^ n) a = drop_bit n a XOR (crc_shift poly ^^ n) (take_bit n (a :: 'a :: len word))"
proof -
  have split: "a = push_bit n (drop_bit n a) XOR take_bit n a"
    by (rule bit_word_eqI) (auto simp: bit_simps)
  have "(crc_shift poly ^^ n) (push_bit n (drop_bit n a)) = drop_bit n (push_bit n (drop_bit n a))"
    by (rule crc_shifts_drop) (simp add: bit_simps)
  moreover have "drop_bit n (push_bit n (drop_bit n a)) = drop_bit n a"
    by (rule bit_word_eqI) (auto simp: bit_simps dest: bit_imp_le_length)
  ultimately show ?thesis using crc_shifts_xor [of n poly "push_bit n (drop_bit n a)" "take_bit n a"] split by metis
qed

end
