(* ===== verification/Nvram_Store.thy ===== *)
theory Nvram_Store
  imports Nvram_Crc
begin

text \<open>
  The variable store of \<open>openwrt/package/nvram/src/nvram.c\<close>: a hash table of 257 chains of
  tuples, and a list of tuples taken out of use. Names and values are C strings, that is
  lists of non-zero bytes. Memory allocation is taken to succeed. What the rest of the
  library relies on is the interface \<open>kv_store\<close>, a finite map with an update that may
  be refused; the hash table implements it.
\<close>

section \<open>Key-value stores\<close>

locale kv_store =
  fixes lookup :: "'s \<Rightarrow> 'k \<Rightarrow> 'v option"
    and update :: "'k \<Rightarrow> 'v \<Rightarrow> 's \<Rightarrow> 's"
    and remove :: "'k \<Rightarrow> 's \<Rightarrow> 's"
    and inv :: "'s \<Rightarrow> bool"
    and fits :: "'v \<Rightarrow> bool"
  assumes lookup_update: "inv s \<Longrightarrow> fits v \<Longrightarrow> lookup (update k v s) = (lookup s)(k \<mapsto> v)"
    and update_refused: "\<not> fits v \<Longrightarrow> update k v s = s"
    and lookup_remove: "inv s \<Longrightarrow> lookup (remove k s) = (lookup s)(k := None)"
    and update_inv: "inv s \<Longrightarrow> inv (update k v s)"
    and remove_inv: "inv s \<Longrightarrow> inv (remove k s)"
begin

definition update_all :: "('k \<times> 'v) list \<Rightarrow> 's \<Rightarrow> 's" where
  "update_all kvs s = foldl (\<lambda>s (k, v). update k v s) s kvs"

lemma update_all_Nil [simp]: "update_all [] s = s"
  by (simp add: update_all_def)

lemma update_all_Cons [simp]: "update_all ((k, v) # kvs) s = update_all kvs (update k v s)"
  by (simp add: update_all_def)

lemma update_all_inv: "inv s \<Longrightarrow> inv (update_all kvs s)"
  by (induction kvs arbitrary: s) (auto simp: update_inv)

lemma lookup_update_all:
  "inv s \<Longrightarrow> \<forall>kv\<in>set kvs. fits (snd kv) \<Longrightarrow> lookup (update_all kvs s) = lookup s ++ map_of (rev kvs)"
proof (induction kvs arbitrary: s)
  case (Cons kv kvs)
  then show ?case by (cases kv) (auto simp: lookup_update update_inv map_add_def fun_eq_iff split: option.splits)
qed simp

lemma lookup_update_all_distinct:
  "inv s \<Longrightarrow> \<forall>kv\<in>set kvs. fits (snd kv) \<Longrightarrow> distinct (map fst kvs) \<Longrightarrow> lookup s = Map.empty \<Longrightarrow>
   lookup (update_all kvs s) = map_of kvs"
  using map_of_inject_set[of "rev kvs" kvs] by (simp add: lookup_update_all flip: rev_map)

end

section \<open>The hash table\<close>

type_synonym tuple = "bytes \<times> bytes"

record nvram_handle =
  h_mmap :: bytes
  nvram_hash :: "tuple list list"
  nvram_dead :: "tuple list"

definition NVRAM_SPACE :: nat where "NVRAM_SPACE = 0x8000"
definition NVRAM_BUCKETS :: nat where "NVRAM_BUCKETS = 257"

text \<open>Characters are signed: \<open>*s\<close> is sign extended before it is added.\<close>

definition nv_hash :: "bytes \<Rightarrow> u32" where
  "nv_hash s = foldl (\<lambda>h c. 31 * h + scast c) 0 s"

text \<open>
  \<open>NVRAM_ARRAYSIZE(a)\<close> expands to \<open>sizeof(a)/sizeof(a[0])\<close> without parentheses, so that
  \<open>hash(name) % NVRAM_ARRAYSIZE(h->nvram_hash)\<close> is the remainder by the size in bytes,
  divided by the size of a pointer (four bytes on the 32 bit target).
\<close>

definition nv_index :: "bytes \<Rightarrow> nat" where
  "nv_index name = (unat (nv_hash name) mod (NVRAM_BUCKETS * 4)) div 4"

lemma nv_index_bound [simp]: "nv_index name < NVRAM_BUCKETS"
  by (simp add: nv_index_def NVRAM_BUCKETS_def less_mult_imp_div_less)

definition nv_free :: "nvram_handle \<Rightarrow> nvram_handle" where
  "nv_free h = h\<lparr>nvram_hash := replicate NVRAM_BUCKETS [], nvram_dead := []\<rparr>"

fun chain_find :: "tuple list \<Rightarrow> bytes \<Rightarrow> bytes option" where
  "chain_find [] name = None"
| "chain_find (t # ts) name = (if fst t = name then Some (snd t) else chain_find ts name)"

definition nvram_get :: "nvram_handle \<Rightarrow> bytes \<Rightarrow> bytes option" where
  "nvram_get h name = chain_find (nvram_hash h ! nv_index name) name"

text \<open>
  \<open>_nvram_realloc\<close> on the tuple found, if any: the tuple with the new value, or \<open>None\<close> when the
  value does not fit. A tuple that exists is changed where it is.
\<close>

definition nvram_realloc :: "tuple option \<Rightarrow> bytes \<Rightarrow> bytes \<Rightarrow> tuple option" where
  "nvram_realloc t name value =
     (if length value + 1 > NVRAM_SPACE then None
      else Some (case t of None \<Rightarrow> (name, value) | Some u \<Rightarrow> (fst u, value)))"

fun chain_replace :: "tuple list \<Rightarrow> bytes \<Rightarrow> tuple \<Rightarrow> tuple list" where
  "chain_replace [] name u = []"
| "chain_replace (t # ts) name u = (if fst t = name then u # ts else t # chain_replace ts name u)"

definition nvram_set :: "nvram_handle \<Rightarrow> bytes \<Rightarrow> bytes \<Rightarrow> int \<times> nvram_handle" where
  "nvram_set h name value =
     (let i = nv_index name; ts = nvram_hash h ! i;
          t = map_option (\<lambda>v. (name, v)) (chain_find ts name)
      in case nvram_realloc t name value of
           None \<Rightarrow> (-12, h)
         | Some u \<Rightarrow>
             if t \<noteq> None then (0, h\<lparr>nvram_hash := (nvram_hash h)[i := chain_replace ts name u]\<rparr>)
             else (0, h\<lparr>nvram_hash := (nvram_hash h)[i := u # ts]\<rparr>))"

fun chain_remove :: "tuple list \<Rightarrow> bytes \<Rightarrow> tuple list" where
  "chain_remove [] name = []"
| "chain_remove (t # ts) name = (if fst t = name then ts else t # chain_remove ts name)"

definition nvram_unset :: "nvram_handle \<Rightarrow> bytes \<Rightarrow> int \<times> nvram_handle" where
  "nvram_unset h name =
     (let i = nv_index name; ts = nvram_hash h ! i in
      case chain_find ts name of
        None \<Rightarrow> (0, h)
      | Some v \<Rightarrow> (0, h\<lparr>nvram_hash := (nvram_hash h)[i := chain_remove ts name],
                       nvram_dead := (name, v) # nvram_dead h\<rparr>))"

definition nvram_getall :: "nvram_handle \<Rightarrow> tuple list" where
  "nvram_getall h = foldl (\<lambda>l ts. foldl (\<lambda>l t. t # l) l ts) [] (nvram_hash h)"

section \<open>The invariant of the table\<close>

definition nv_inv :: "nvram_handle \<Rightarrow> bool" where
  "nv_inv h \<longleftrightarrow> length (nvram_hash h) = NVRAM_BUCKETS \<and>
     (\<forall>i < NVRAM_BUCKETS. distinct (map fst (nvram_hash h ! i)) \<and>
        (\<forall>t \<in> set (nvram_hash h ! i). nv_index (fst t) = i))"

lemma chain_find_map_of: "chain_find ts = map_of ts"
proof
  fix name show "chain_find ts name = map_of ts name" by (induction ts) auto
qed

lemma chain_replace_map_of:
  "map_of ts name \<noteq> None \<Longrightarrow> map_of (chain_replace ts name (name, v)) = (map_of ts)(name \<mapsto> v)"
  by (induction ts) (auto simp: fun_eq_iff)

lemma chain_replace_keys [simp]: "map fst (chain_replace ts name (name, v)) = map fst ts"
  by (induction ts) auto

lemma chain_remove_map_of:
  "distinct (map fst ts) \<Longrightarrow> map_of (chain_remove ts name) = (map_of ts)(name := None)"
proof (induction ts)
  case (Cons t ts)
  moreover have "map_of ts name = None" if "fst t = name" "fst t \<notin> fst ` set ts" for t
    using that by (auto simp: map_of_eq_None_iff)
  ultimately show ?case by (cases t) (auto simp: fun_eq_iff)
qed simp

lemma chain_remove_subset: "set (chain_remove ts name) \<subseteq> set ts"
  by (induction ts) auto

lemma chain_remove_distinct: "distinct (map fst ts) \<Longrightarrow> distinct (map fst (chain_remove ts name))"
proof (induction ts)
  case (Cons t ts)
  then show ?case using chain_remove_subset[of ts name] by auto
qed simp

lemma nv_inv_update:
  assumes "nv_inv h" "distinct (map fst ts)" "\<forall>t\<in>set ts. nv_index (fst t) = i"
  shows "nv_inv (h\<lparr>nvram_hash := (nvram_hash h)[i := ts]\<rparr>)"
proof -
  have "distinct (map fst ((nvram_hash h)[i := ts] ! j)) \<and>
      (\<forall>t\<in>set ((nvram_hash h)[i := ts] ! j). nv_index (fst t) = j)" if "j < NVRAM_BUCKETS" for j
    using that assms by (cases "i = j") (auto simp: nv_inv_def)
  then show ?thesis using assms(1) by (simp add: nv_inv_def)
qed

lemma nv_inv_dead [simp]: "nv_inv (h\<lparr>nvram_dead := d\<rparr>) = nv_inv h" "nv_inv (h\<lparr>h_mmap := m\<rparr>) = nv_inv h"
  by (simp_all add: nv_inv_def)

lemma chain_replace_index:
  "nv_index name = i \<Longrightarrow> \<forall>t\<in>set ts. nv_index (fst t) = i \<Longrightarrow> \<forall>t\<in>set (chain_replace ts name (name, v)). nv_index (fst t) = i"
  by (induction ts) auto

lemma nv_inv_chain:
  "nv_inv h \<Longrightarrow> length (nvram_hash h) = NVRAM_BUCKETS \<and> distinct (map fst (nvram_hash h ! nv_index n)) \<and>
   (\<forall>t\<in>set (nvram_hash h ! nv_index n). nv_index (fst t) = nv_index n)"
  by (simp add: nv_inv_def)

lemma nvram_set_inv:
  assumes h: "nv_inv h" shows "nv_inv (snd (nvram_set h name v))"
proof -
  let ?ts = "nvram_hash h ! nv_index name"
  note c = nv_inv_chain[OF h, of name]
  have "nv_inv (h\<lparr>nvram_hash := (nvram_hash h)[nv_index name := chain_replace ?ts name (name, v)]\<rparr>)"
    using c chain_replace_index[of name "nv_index name" ?ts v] by (intro nv_inv_update[OF h]) auto
  moreover have "nv_inv (h\<lparr>nvram_hash := (nvram_hash h)[nv_index name := (name, v) # ?ts]\<rparr>)"
    if "chain_find ?ts name = None"
    using c that by (intro nv_inv_update[OF h]) (auto simp: chain_find_map_of map_of_eq_None_iff)
  ultimately show ?thesis using h
    by (cases "chain_find ?ts name") (simp_all add: nvram_set_def nvram_realloc_def Let_def)
qed

lemma nvram_set_get:
  assumes "nv_inv h" "length v < NVRAM_SPACE"
  shows "nvram_get (snd (nvram_set h name v)) = (nvram_get h)(name \<mapsto> v)"
proof
  fix m
  have "length (nvram_hash h) = NVRAM_BUCKETS" using assms(1) by (simp add: nv_inv_def)
  then show "nvram_get (snd (nvram_set h name v)) m = ((nvram_get h)(name \<mapsto> v)) m"
    using assms(2) by (cases "nv_index m = nv_index name")
       (auto simp: nvram_set_def nvram_realloc_def Let_def chain_find_map_of
        chain_replace_map_of nvram_get_def split: option.splits)
qed

lemma nvram_unset_inv: "nv_inv h \<Longrightarrow> nv_inv (snd (nvram_unset h name))"
proof -
  assume h: "nv_inv h"
  have "nv_inv (h\<lparr>nvram_hash := (nvram_hash h)[nv_index name := chain_remove (nvram_hash h ! nv_index name) name]\<rparr>)"
    using nv_inv_chain[OF h, of name] chain_remove_subset[of "nvram_hash h ! nv_index name" name]
    by (intro nv_inv_update[OF h] chain_remove_distinct) blast+
  then show ?thesis using h
    by (simp add: nvram_unset_def Let_def nv_inv_def split: option.splits)
qed

lemma nvram_unset_get:
  assumes "nv_inv h"
  shows "nvram_get (snd (nvram_unset h name)) = (nvram_get h)(name := None)"
proof
  fix m
  have dead: "nvram_get (h\<lparr>nvram_hash := x, nvram_dead := d\<rparr>) = nvram_get (h\<lparr>nvram_hash := x\<rparr>)" for x d
    by (simp add: nvram_get_def fun_eq_iff)
  show "nvram_get (snd (nvram_unset h name)) m = ((nvram_get h)(name := None)) m"
    using assms nv_inv_chain[OF assms, of name]
    by (cases "nv_index m = nv_index name")
       (auto simp: nvram_unset_def Let_def dead chain_find_map_of
        chain_remove_map_of nvram_get_def split: option.splits)
qed

interpretation nv: kv_store nvram_get "\<lambda>n v h. snd (nvram_set h n v)" "\<lambda>n h. snd (nvram_unset h n)"
    nv_inv "\<lambda>v. length v < NVRAM_SPACE"
  by unfold_locales
    (auto simp: nvram_set_get nvram_unset_get nvram_set_inv nvram_unset_inv,
     simp add: nvram_set_def nvram_realloc_def Let_def)

end
