(* ===== verification/Nvram_Image.thy ===== *)
theory Nvram_Image
  imports Nvram_Store
begin

text \<open>
  The flash image of the NVRAM (\<open>nvram_commit\<close>, \<open>_nvram_rehash\<close>, \<open>nvram_open\<close> of
  \<open>openwrt/package/nvram/src/nvram.c\<close>): a header of twenty bytes followed by the strings
  \<open>name=value\<close>, each with its \<open>NUL\<close>, and an empty string. The header is little-endian, as on
  the targets of the package, and its address is a multiple of four below \<open>2^31\<close>, so that
  \<open>(int) ptr % 4\<close> is the offset from the header modulo four. A parse that would run past the
  end of the mapping returns \<open>None\<close>.
\<close>

section \<open>Library functions on numbers\<close>

definition isspace :: "u8 \<Rightarrow> bool" where
  "isspace c \<longleftrightarrow> c = 32 \<or> 9 \<le> c \<and> c \<le> 13"

definition digit_val :: "u8 \<Rightarrow> nat option" where
  "digit_val c = (if 48 \<le> c \<and> c \<le> 57 then Some (unat c - 48)
     else if 65 \<le> c \<and> c \<le> 70 then Some (unat c - 55)
     else if 97 \<le> c \<and> c \<le> 102 then Some (unat c - 87) else None)"

fun digits :: "nat \<Rightarrow> bytes \<Rightarrow> nat \<Rightarrow> nat" where
  "digits base [] acc = acc"
| "digits base (c # cs) acc =
     (case digit_val c of
        Some d \<Rightarrow> if d < base then digits base cs (base * acc + d) else acc
      | None \<Rightarrow> acc)"

fun strtoul_magnitude :: "bytes \<Rightarrow> nat" where
  "strtoul_magnitude (z # x # c # cs) =
     (if z = 48 \<and> (x = 120 \<or> x = 88) \<and> digit_val c \<noteq> None then digits 16 (c # cs) 0
      else if z = 48 then digits 8 (z # x # c # cs) 0 else digits 10 (z # x # c # cs) 0)"
| "strtoul_magnitude (z # cs) = (if z = 48 then digits 8 (z # cs) 0 else digits 10 (z # cs) 0)"
| "strtoul_magnitude [] = 0"

text \<open>\<open>strtoul(s, NULL, 0)\<close> with a 32 bit \<open>unsigned long\<close>.\<close>

definition strtoul :: "bytes \<Rightarrow> u32" where
  "strtoul s =
     (let s' = dropWhile isspace s;
          neg = (s' \<noteq> [] \<and> hd s' = 45);
          n = strtoul_magnitude (if s' \<noteq> [] \<and> (hd s' = 45 \<or> hd s' = 43) then tl s' else s')
      in if n > 0xffffffff then 0xffffffff else if neg then - word_of_nat n else word_of_nat n)"

definition hex_digit :: "nat \<Rightarrow> u8" where
  "hex_digit d = (if d < 10 then word_of_nat (48 + d) else word_of_nat (55 + d))"

text \<open>\<open>sprintf(buf, "0x%0kX", w)\<close> for a number of at most \<open>k\<close> hexadecimal digits.\<close>

fun hex :: "nat \<Rightarrow> nat \<Rightarrow> bytes" where
  "hex 0 n = []"
| "hex (Suc k) n = hex k (n div 16) @ [hex_digit (n mod 16)]"

definition sprintf_hex :: "nat \<Rightarrow> nat \<Rightarrow> bytes" where
  "sprintf_hex k n = lit ''0x'' @ hex k n"

section \<open>The header\<close>

record nvram_header =
  magic :: u32
  len :: u32
  crc_ver_init :: u32
  config_refresh :: u32
  config_ncdl :: u32

definition NVRAM_MAGIC :: u32 where "NVRAM_MAGIC = 0x48534C46"
definition NVRAM_VERSION :: u32 where "NVRAM_VERSION = 1"
definition SDRAM_INIT :: u32 where "SDRAM_INIT = 0x419"
definition SDRAM_CONFIG :: u32 where "SDRAM_CONFIG = 0"
definition SDRAM_REFRESH :: u32 where "SDRAM_REFRESH = (0x40 AND 0xff) OR 0x8000"
definition HEADER_SIZE :: nat where "HEADER_SIZE = 20"
definition NVRAM_CRC_START_POSITION :: nat where "NVRAM_CRC_START_POSITION = 9"

definition header_bytes :: "nvram_header \<Rightarrow> bytes" where
  "header_bytes hdr = le32 (magic hdr) @ le32 (len hdr) @ le32 (crc_ver_init hdr) @
     le32 (config_refresh hdr) @ le32 (config_ncdl hdr)"

definition read_header :: "bytes \<Rightarrow> nvram_header" where
  "read_header a = \<lparr>magic = of_le32 (mem_read a 0 4), len = of_le32 (mem_read a 4 4),
     crc_ver_init = of_le32 (mem_read a 8 4), config_refresh = of_le32 (mem_read a 12 4),
     config_ncdl = of_le32 (mem_read a 16 4)\<rparr>"

lemma length_header_bytes [simp]: "length (header_bytes hdr) = HEADER_SIZE"
  by (simp add: header_bytes_def HEADER_SIZE_def)

lemma read_header_bytes [simp]: "read_header (header_bytes hdr @ rest) = hdr"
  by (simp add: read_header_def header_bytes_def mem_read_def)

text \<open>The part of the mapping at \<open>nvram_header(h)\<close>.\<close>

definition nvram_area :: "nvram_handle \<Rightarrow> bytes" where
  "nvram_area h = drop (length (h_mmap h) - NVRAM_SPACE) (h_mmap h)"

section \<open>Reading the image\<close>

function nv_parse :: "bytes \<Rightarrow> tuple list option" where
  "nv_parse bs =
     (case bs of
        [] \<Rightarrow> None
      | b # _ \<Rightarrow>
          if b = 0 then Some []
          else
            let s = takeWhile (\<lambda>b. b \<noteq> 0) bs; rest = dropWhile (\<lambda>b. b \<noteq> 0) bs in
            if rest = [] then None
            else if 61 \<notin> set s then Some []
            else map_option (Cons (takeWhile (\<lambda>b. b \<noteq> 61) s, tl (dropWhile (\<lambda>b. b \<noteq> 61) s)))
                   (nv_parse (tl rest)))"
  by pat_completeness auto
termination
proof (relation "measure length", goal_cases)
  case (2 bs b cs s rest)
  have "length (dropWhile (\<lambda>b. b \<noteq> 0) bs) \<le> length bs" by (rule length_dropWhile_le)
  with 2 show ?case by (cases "dropWhile (\<lambda>b. b \<noteq> 0) bs") auto
qed simp

declare nv_parse.simps [simp del]

definition set_default :: "bytes \<Rightarrow> bytes \<Rightarrow> nvram_handle \<Rightarrow> nvram_handle" where
  "set_default name v h = (if nvram_get h name = None then snd (nvram_set h name v) else h)"

definition set_sdram :: "nvram_header \<Rightarrow> nvram_handle \<Rightarrow> nvram_handle" where
  "set_sdram hdr h =
     set_default (lit ''sdram_ncdl'') (sprintf_hex 8 (unat (config_ncdl hdr)))
      (set_default (lit ''sdram_refresh'') (sprintf_hex 4 (unat (drop_bit 16 (config_refresh hdr) AND 0xffff)))
        (set_default (lit ''sdram_config'') (sprintf_hex 4 (unat (config_refresh hdr AND 0xffff)))
          (set_default (lit ''sdram_init'') (sprintf_hex 4 (unat (drop_bit 16 (crc_ver_init hdr)))) h)))"

definition nvram_rehash :: "nvram_handle \<Rightarrow> nvram_handle option" where
  "nvram_rehash h =
     (case nv_parse (drop HEADER_SIZE (nvram_area h)) of
        None \<Rightarrow> None
      | Some kvs \<Rightarrow> Some (set_sdram (read_header (nvram_area h))
           (foldl (\<lambda>h (n, v). snd (nvram_set h n v)) (nv_free h) kvs)))"

text \<open>
  \<open>nvram_open\<close> on a file of the erase size. All before the header is overwritten with \<open>0xFF\<close> before the
  magic number is looked at. An erase size below \<open>NVRAM_SPACE\<close> would put the header before
  the mapping.
\<close>

datatype nv_error = BadMagic | Overrun

definition nvram_open :: "bytes \<Rightarrow> nv_error + nvram_handle" where
  "nvram_open file =
     (let start = length file - NVRAM_SPACE;
          h = \<lparr>h_mmap = replicate start 0xff @ drop start file,
               nvram_hash = replicate NVRAM_BUCKETS [], nvram_dead = []\<rparr>
      in if length file < NVRAM_SPACE then Inl Overrun
         else if magic (read_header (nvram_area h)) = NVRAM_MAGIC
         then (case nvram_rehash h of None \<Rightarrow> Inl Overrun | Some h' \<Rightarrow> Inr h') else Inl BadMagic)"

section \<open>Writing the image\<close>

definition commit_header :: "nvram_handle \<Rightarrow> nvram_header" where
  "commit_header h =
     (case (nvram_get h (lit ''sdram_init''), nvram_get h (lit ''sdram_config''),
            nvram_get h (lit ''sdram_refresh''), nvram_get h (lit ''sdram_ncdl'')) of
        (Some init, Some config, Some refresh, Some ncdl) \<Rightarrow>
          \<lparr>magic = NVRAM_MAGIC, len = 0,
           crc_ver_init = push_bit 8 NVRAM_VERSION OR push_bit 16 (strtoul init AND 0xffff),
           config_refresh = (strtoul config AND 0xffff) OR push_bit 16 (strtoul refresh AND 0xffff),
           config_ncdl = strtoul ncdl\<rparr>
      | _ \<Rightarrow>
          \<lparr>magic = NVRAM_MAGIC, len = 0,
           crc_ver_init = push_bit 8 NVRAM_VERSION OR push_bit 16 SDRAM_INIT,
           config_refresh = SDRAM_CONFIG OR push_bit 16 SDRAM_REFRESH, config_ncdl = 0\<rparr>)"

definition entry :: "tuple \<Rightarrow> bytes" where
  "entry t = fst t @ 61 # snd t @ [0]"

text \<open>
  One chain: the \<open>break\<close> at the first tuple that does not fit leaves the inner loop only.
\<close>

fun write_chain :: "nat \<times> bytes \<Rightarrow> tuple list \<Rightarrow> nat \<times> bytes" where
  "write_chain (ptr, a) [] = (ptr, a)"
| "write_chain (ptr, a) (t # ts) =
     (if ptr + length (fst t) + 1 + length (snd t) + 1 > NVRAM_SPACE - 2 then (ptr, a)
      else write_chain (ptr + length (entry t), mem_write a ptr (entry t)) ts)"

definition roundup4 :: "nat \<Rightarrow> nat" where
  "roundup4 x = (x + 3) div 4 * 4"

definition finish_data :: "nat \<Rightarrow> bytes \<Rightarrow> nat \<times> bytes" where
  "finish_data ptr a =
     (let a1 = mem_write a ptr [0]; p1 = ptr + 1;
          a2 = (if p1 mod 4 \<noteq> 0 then mem_write a1 p1 (replicate (4 - p1 mod 4) 0) else a1)
      in (roundup4 (p1 + 1), a2))"

definition commit_area :: "nvram_handle \<Rightarrow> bytes" where
  "commit_area h =
     (let hdr = commit_header h;
          a0 = header_bytes hdr @ replicate (NVRAM_SPACE - HEADER_SIZE) 0xff;
          (ptr, a1) = foldl write_chain (HEADER_SIZE, a0) (nvram_hash h);
          (n, a2) = finish_data ptr a1;
          hdr' = hdr\<lparr>len := word_of_nat n\<rparr>;
          tmp = header_bytes (hdr\<lparr>magic := 0, len := 0\<rparr>);
          crc = hndcrc8 (drop NVRAM_CRC_START_POSITION tmp) 0xff;
          crc' = hndcrc8 (mem_read a2 HEADER_SIZE (n - HEADER_SIZE)) crc
      in mem_write a2 0 (header_bytes (hdr'\<lparr>crc_ver_init := crc_ver_init hdr' OR ucast crc'\<rparr>)))"

text \<open>As in \<open>nvram_open\<close>, a mapping that is shorter than the image is written outside.\<close>

definition nvram_commit :: "nvram_handle \<Rightarrow> nvram_handle option" where
  "nvram_commit h =
     (if length (h_mmap h) < NVRAM_SPACE then None
      else nvram_rehash (h\<lparr>h_mmap := take (length (h_mmap h) - NVRAM_SPACE) (h_mmap h) @ commit_area h\<rparr>))"

end
