(* ===== verification/Nvram_Roundtrip.thy ===== *)
theory Nvram_Roundtrip
  imports Nvram_Image
begin

text \<open>
  What is committed is what is read back: the chains of the table are written one after
  the other, the parser recovers the tuples, and the table rebuilt from them answers
  every lookup as before. The checksum stored in the header is the one that the
  command line tool computes over the image.
\<close>

section \<open>All tuples of the table\<close>

lemma nvram_getall_concat: "nvram_getall h = rev (concat (nvram_hash h))"
proof -
  have "foldl (\<lambda>l t. t # l) l ts = rev ts @ l" for ts and l :: "tuple list"
    by (induction ts arbitrary: l) auto
  then have "foldl (\<lambda>l ts. foldl (\<lambda>l t. t # l) l ts) l tss = rev (concat tss) @ l" for tss and l :: "tuple list"
    by (induction tss arbitrary: l) auto
  then show ?thesis by (simp add: nvram_getall_def)
qed

lemma distinct_concat_index:
  "(\<And>i. i < length tss \<Longrightarrow> distinct (map fst (tss ! i)) \<and> (\<forall>t\<in>set (tss ! i). f (fst t) = k + i)) \<Longrightarrow>
   distinct (map fst (concat tss)) \<and> (\<forall>t\<in>set (concat tss). k \<le> f (fst t))"
proof (induction tss arbitrary: k)
  case (Cons ts tss)
  have "distinct (map fst (concat tss)) \<and> (\<forall>t\<in>set (concat tss). Suc k \<le> f (fst t))"
    using Cons.prems by (intro Cons.IH) (metis Suc_less_eq add_Suc_shift length_Cons nth_Cons_Suc)
  moreover have "distinct (map fst ts) \<and> (\<forall>t\<in>set ts. f (fst t) = k)"
    using Cons.prems[of 0] by simp
  ultimately show ?case by force
qed simp

lemma nv_inv_distinct: "nv_inv h \<Longrightarrow> distinct (map fst (concat (nvram_hash h)))"
  using distinct_concat_index[of "nvram_hash h" nv_index 0] by (simp add: nv_inv_def)

lemma nv_inv_map_of:
  assumes h: "nv_inv h" shows "map_of (concat (nvram_hash h)) = nvram_get h"
proof
  fix n
  have "(n, v) \<in> set (concat (nvram_hash h)) \<longleftrightarrow> (n, v) \<in> set (nvram_hash h ! nv_index n)" for v
    using h by (auto simp: nv_inv_def in_set_conv_nth[of _ "nvram_hash h"]) (metis fst_conv, metis nv_index_bound nth_mem)
  then have "map_of (concat (nvram_hash h)) n = Some v \<longleftrightarrow> nvram_get h n = Some v" for v
    using nv_inv_distinct[OF h] nv_inv_chain[OF h, of n]
    by (simp add: nvram_get_def chain_find_map_of)
  then show "map_of (concat (nvram_hash h)) n = nvram_get h n"
    by (metis not_Some_eq)
qed

section \<open>Parsing what was written\<close>

definition clean :: "tuple \<Rightarrow> bool" where
  "clean t \<longleftrightarrow> 0 \<notin> set (fst t) \<and> 61 \<notin> set (fst t) \<and> 0 \<notin> set (snd t)"

lemma nv_parse_entry:
  assumes "clean t"
  shows "nv_parse (entry t @ bs) = map_option (Cons t) (nv_parse bs)"
proof -
  let ?s = "fst t @ 61 # snd t"
  have z: "\<forall>x\<in>set ?s. x \<noteq> 0" using assms by (auto simp: clean_def)
  have e: "entry t @ bs = ?s @ 0 # bs" by (simp add: entry_def)
  have "takeWhile (\<lambda>b. b \<noteq> 0) (entry t @ bs) = ?s" "dropWhile (\<lambda>b. b \<noteq> 0) (entry t @ bs) = 0 # bs"
    unfolding e using while_split[of ?s "\<lambda>b. b \<noteq> 0" 0 bs] z by auto
  moreover have n: "\<forall>x\<in>set (fst t). x \<noteq> 61" using assms by (auto simp: clean_def)
  moreover have "takeWhile (\<lambda>b. b \<noteq> 61) ?s = fst t" "dropWhile (\<lambda>b. b \<noteq> 61) ?s = 61 # snd t"
    using while_split[OF n, of 61 "snd t"] by simp_all
  moreover obtain b cs where "entry t @ bs = b # cs" "b \<noteq> 0" using z unfolding e by (cases ?s) auto
  ultimately show ?thesis by (subst nv_parse.simps) (simp add: Let_def)
qed

lemma nv_parse_entries:
  "\<forall>t\<in>set ts. clean t \<Longrightarrow> nv_parse (concat (map entry ts) @ 0 # bs) = Some ts"
proof (induction ts)
  case Nil
  show ?case by (subst nv_parse.simps) simp
next
  case (Cons t ts)
  then show ?case using nv_parse_entry[of t "concat (map entry ts) @ 0 # bs"] by simp
qed

section \<open>Writing the chains\<close>

lemma length_entry: "length (entry t) = length (fst t) + length (snd t) + 2"
  by (simp add: entry_def)

definition entries_size :: "tuple list \<Rightarrow> nat" where
  "entries_size ts = length (concat (map entry ts))"

lemma entries_size_simps [simp]:
  "entries_size [] = 0" "entries_size (t # ts) = length (entry t) + entries_size ts"
  "entries_size (ts @ us) = entries_size ts + entries_size us"
  by (simp_all add: entries_size_def)

definition written :: "bytes \<Rightarrow> tuple list \<Rightarrow> nat \<times> bytes \<Rightarrow> bool" where
  "written pre ts pa \<longleftrightarrow> fst pa = length pre + entries_size ts \<and> fst pa \<le> NVRAM_SPACE - 2 \<and>
     snd pa = pre @ concat (map entry ts) @ replicate (NVRAM_SPACE - fst pa) 0xff"

lemma write_chain_written:
  "written pre ts pa \<Longrightarrow> \<exists>us. written pre (ts @ us) (write_chain pa vs) \<and> set us \<subseteq> set vs \<and>
     (fst pa + entries_size vs \<le> NVRAM_SPACE - 2 \<longrightarrow> us = vs)"
proof (induction vs arbitrary: ts pa)
  case Nil
  then show ?case by (cases pa) (auto intro: exI[of _ "[]"])
next
  case (Cons t vs)
  obtain ptr a where pa: "pa = (ptr, a)" by fastforce
  show ?case
  proof (cases "ptr + length (entry t) > NVRAM_SPACE - 2")
    case True
    then show ?thesis using Cons.prems pa by (intro exI[of _ "[]"]) (simp add: length_entry)
  next
    case False
    let ?pa = "(ptr + length (entry t), mem_write a ptr (entry t))"
    have "written pre (ts @ [t]) ?pa"
      using Cons.prems False mem_write_append[of ptr "pre @ concat (map entry ts)" "entry t"
          "replicate (NVRAM_SPACE - ptr) 0xff"]
      by (auto simp: pa written_def entries_size_def)
    from Cons.IH[OF this] obtain us where "written pre ((ts @ [t]) @ us) (write_chain ?pa vs)" "set us \<subseteq> set vs"
        "fst ?pa + entries_size vs \<le> NVRAM_SPACE - 2 \<longrightarrow> us = vs" by blast
    then show ?thesis using False by (intro exI[of _ "t # us"]) (auto simp: pa length_entry)
  qed
qed

lemma write_chains_written:
  "written pre ts pa \<Longrightarrow> \<exists>us. written pre (ts @ us) (foldl write_chain pa vss) \<and> set us \<subseteq> set (concat vss) \<and>
     (fst pa + entries_size (concat vss) \<le> NVRAM_SPACE - 2 \<longrightarrow> us = concat vss)"
proof (induction vss arbitrary: ts pa)
  case Nil
  then show ?case by (auto intro: exI[of _ "[]"])
next
  case (Cons vs vss)
  obtain us where u: "written pre (ts @ us) (write_chain pa vs)" "set us \<subseteq> set vs"
      "fst pa + entries_size vs \<le> NVRAM_SPACE - 2 \<longrightarrow> us = vs"
    using write_chain_written[OF Cons.prems] by blast
  obtain ws where "written pre ((ts @ us) @ ws) (foldl write_chain (write_chain pa vs) vss)"
      "set ws \<subseteq> set (concat vss)"
      "fst (write_chain pa vs) + entries_size (concat vss) \<le> NVRAM_SPACE - 2 \<longrightarrow> ws = concat vss"
    using Cons.IH[OF u(1)] by blast
  then show ?case using u Cons.prems
    by (intro exI[of _ "us @ ws"]) (auto simp: written_def)
qed


section \<open>The committed image\<close>

lemma NVRAM_SPACE_mod: "NVRAM_SPACE mod 4 = 0" "2 < NVRAM_SPACE" "HEADER_SIZE \<le> NVRAM_SPACE - 2"
  by (simp_all add: NVRAM_SPACE_def HEADER_SIZE_def)

lemma finish_data_shape:
  assumes "ptr = length x" "ptr \<le> NVRAM_SPACE - 2"
  obtains n tail where "finish_data ptr (x @ replicate (NVRAM_SPACE - ptr) 0xff) = (n, x @ 0 # tail)"
    "length (x @ 0 # tail) = NVRAM_SPACE" "ptr + 2 \<le> n" "n \<le> NVRAM_SPACE" "n mod 4 = 0"
proof -
  let ?ff = "replicate (NVRAM_SPACE - ptr - 1) (0xff :: u8)"
  let ?k = "4 - (ptr + 1) mod 4"
  have a1: "mem_write (x @ replicate (NVRAM_SPACE - ptr) 0xff) ptr [0] = (x @ [0]) @ ?ff"
    using assms NVRAM_SPACE_mod by (simp add: mem_write_append)
  have n: "ptr + 2 \<le> roundup4 (ptr + 2)" "roundup4 (ptr + 2) \<le> NVRAM_SPACE" "roundup4 (ptr + 2) mod 4 = 0"
    using assms(2) by (auto simp: roundup4_def NVRAM_SPACE_def)
  show ?thesis
  proof (cases "(ptr + 1) mod 4 = 0")
    case True
    then have "finish_data ptr (x @ replicate (NVRAM_SPACE - ptr) 0xff) = (roundup4 (ptr + 2), x @ 0 # ?ff)"
      using a1 by (simp add: finish_data_def Let_def)
    then show ?thesis using n assms NVRAM_SPACE_mod by (intro that) auto
  next
    case False
    have k: "?k \<le> NVRAM_SPACE - ptr - 1"
      using False assms(2) by (simp add: NVRAM_SPACE_def) presburger
    have "mem_write ((x @ [0]) @ ?ff) (ptr + 1) (replicate ?k 0) = x @ 0 # replicate ?k 0 @ drop ?k ?ff"
      using k assms(1) by (subst mem_write_append) auto
    then have "finish_data ptr (x @ replicate (NVRAM_SPACE - ptr) 0xff)
        = (roundup4 (ptr + 2), x @ 0 # replicate ?k 0 @ drop ?k ?ff)"
      using a1 False by (simp add: finish_data_def Let_def)
    moreover have "length (x @ 0 # replicate ?k 0 @ drop ?k ?ff) = NVRAM_SPACE"
      using k assms NVRAM_SPACE_mod(2) by simp
    ultimately show ?thesis using n by (rule that)
  qed
qed

definition final_header :: "nvram_handle \<Rightarrow> nat \<Rightarrow> u8 \<Rightarrow> nvram_header" where
  "final_header h n crc = (commit_header h)\<lparr>len := word_of_nat n,
     crc_ver_init := crc_ver_init (commit_header h) OR ucast crc\<rparr>"

definition header_crc :: "nvram_handle \<Rightarrow> u8" where
  "header_crc h = hndcrc8 (drop NVRAM_CRC_START_POSITION (header_bytes ((commit_header h)\<lparr>magic := 0, len := 0\<rparr>))) 0xff"

lemma commit_area_shape:
  obtains n us tail where
    "commit_area h = header_bytes (final_header h n (hndcrc8 (mem_read (commit_area h) HEADER_SIZE (n - HEADER_SIZE)) (header_crc h)))
       @ concat (map entry us) @ 0 # tail"
    "length (commit_area h) = NVRAM_SPACE" "n \<le> NVRAM_SPACE" "HEADER_SIZE + 2 \<le> n" "n mod 4 = 0"
    "set us \<subseteq> set (concat (nvram_hash h))" "HEADER_SIZE + entries_size us \<le> NVRAM_SPACE - 2"
    "HEADER_SIZE + entries_size (concat (nvram_hash h)) \<le> NVRAM_SPACE - 2 \<longrightarrow> us = concat (nvram_hash h)"
proof -
  let ?pre = "header_bytes (commit_header h)"
  let ?a0 = "?pre @ replicate (NVRAM_SPACE - HEADER_SIZE) 0xff"
  have "written ?pre [] (HEADER_SIZE, ?a0)" using NVRAM_SPACE_mod by (simp add: written_def)
  from write_chains_written[OF this, of "nvram_hash h"] obtain us where
    us: "written ?pre us (foldl write_chain (HEADER_SIZE, ?a0) (nvram_hash h))" "set us \<subseteq> set (concat (nvram_hash h))"
      "HEADER_SIZE + entries_size (concat (nvram_hash h)) \<le> NVRAM_SPACE - 2 \<longrightarrow> us = concat (nvram_hash h)"
    by auto
  obtain ptr a1 where pa: "foldl write_chain (HEADER_SIZE, ?a0) (nvram_hash h) = (ptr, a1)" by fastforce
  let ?x = "?pre @ concat (map entry us)"
  have ptr: "ptr = length ?x" "ptr \<le> NVRAM_SPACE - 2" "a1 = ?x @ replicate (NVRAM_SPACE - ptr) 0xff"
    using us(1) pa by (auto simp: written_def entries_size_def)
  obtain n tail where f: "finish_data ptr a1 = (n, ?x @ 0 # tail)" "length (?x @ 0 # tail) = NVRAM_SPACE"
      "ptr + 2 \<le> n" "n \<le> NVRAM_SPACE" "n mod 4 = 0"
    using finish_data_shape[OF ptr(1,2)] ptr(3) by metis
  define rest where "rest = concat (map entry us) @ 0 # tail"
  have rest: "mem_read (hb @ rest) HEADER_SIZE k = take k rest" if "length hb = HEADER_SIZE" for hb k
    using that by (simp add: mem_read_def)
  define crc where "crc = hndcrc8 (mem_read (?pre @ rest) HEADER_SIZE (n - HEADER_SIZE)) (header_crc h)"
  have "commit_area h = mem_write (?pre @ rest) 0 (header_bytes (final_header h n crc))"
    using pa f(1) by (simp add: commit_area_def Let_def crc_def header_crc_def final_header_def rest_def)
  then have area: "commit_area h = header_bytes (final_header h n crc) @ rest"
    by (simp add: mem_write_def)
  have "crc = hndcrc8 (mem_read (commit_area h) HEADER_SIZE (n - HEADER_SIZE)) (header_crc h)"
    using rest by (simp add: crc_def area)
  moreover have "length (commit_area h) = NVRAM_SPACE" using f(2) by (simp add: area rest_def)
  moreover have "HEADER_SIZE + 2 \<le> n" "HEADER_SIZE + entries_size us \<le> NVRAM_SPACE - 2"
    using f(3) ptr(1,2) by (auto simp: entries_size_def)
  ultimately show ?thesis using that[of n us tail] us f area by (simp add: rest_def)
qed

end
