(* ===== verification/Nvram_Props.thy ===== *)
theory Nvram_Props
  imports Nvram_Roundtrip
begin

text \<open>
  The properties of the NVRAM library: the table behaves as a finite map, a commit followed
  by the reading of the image gives the same map back, and the checksum of a committed
  image is the one the command line tool computes.
\<close>

section \<open>Commit and rehash\<close>

lemma nv_free_inv [simp]: "nv_inv (nv_free h)"
  by (simp add: nv_inv_def nv_free_def)

lemma nv_free_get [simp]: "nvram_get (nv_free h) = Map.empty"
  by (simp add: nvram_get_def nv_free_def fun_eq_iff)

lemma set_default_get:
  assumes "nv_inv h" "length v < NVRAM_SPACE"
  shows "m \<noteq> n \<Longrightarrow> nvram_get (set_default n v h) m = nvram_get h m"
    and "nvram_get h m = Some w \<Longrightarrow> nvram_get (set_default n v h) m = Some w"
    and "nvram_get (set_default n v h) n \<noteq> None"
  using assms by (auto simp: set_default_def nvram_set_get)

lemma set_default_inv: "nv_inv h \<Longrightarrow> nv_inv (set_default n v h)"
  by (simp add: set_default_def nvram_set_inv)

lemma length_hex [simp]: "length (hex k n) = k"
  by (induction k arbitrary: n) auto

lemma length_sprintf_hex: "k \<le> 8 \<Longrightarrow> length (sprintf_hex k n) < NVRAM_SPACE"
  by (simp add: sprintf_hex_def lit_def NVRAM_SPACE_def)

lemma set_sdram_inv: "nv_inv h \<Longrightarrow> nv_inv (set_sdram hdr h)"
  by (simp add: set_sdram_def set_default_inv)

definition sdram_names :: "bytes set" where
  "sdram_names = {lit ''sdram_init'', lit ''sdram_config'', lit ''sdram_refresh'', lit ''sdram_ncdl''}"

lemma set_sdram_get:
  assumes "nv_inv h"
  shows "n \<notin> sdram_names \<Longrightarrow> nvram_get (set_sdram hdr h) n = nvram_get h n"
    and "nvram_get h n = Some v \<Longrightarrow> nvram_get (set_sdram hdr h) n = Some v"
    and "n \<in> sdram_names \<Longrightarrow> nvram_get (set_sdram hdr h) n \<noteq> None"
proof -
  note facts = set_default_get[OF _ length_sprintf_hex] set_default_inv assms
  show "n \<notin> sdram_names \<Longrightarrow> nvram_get (set_sdram hdr h) n = nvram_get h n"
    by (simp add: set_sdram_def sdram_names_def facts(1,4,5))
  show "nvram_get h n = Some v \<Longrightarrow> nvram_get (set_sdram hdr h) n = Some v"
    unfolding set_sdram_def by (intro facts) simp_all
  have keep: "nvram_get g n \<noteq> None \<Longrightarrow> nv_inv g \<Longrightarrow> k \<le> 8 \<Longrightarrow> nvram_get (set_default m (sprintf_hex k x) g) n \<noteq> None"
    for g n k m x using facts(2) by fastforce
  show "n \<in> sdram_names \<Longrightarrow> nvram_get (set_sdram hdr h) n \<noteq> None"
    unfolding set_sdram_def sdram_names_def
    by (elim insertE emptyE; hypsubst) (intro facts(3,4,5) keep; simp)+
qed

lemma nvram_area_commit:
  "length a = NVRAM_SPACE \<Longrightarrow> nvram_area (h\<lparr>h_mmap := pre @ a\<rparr>) = a"
  by (simp add: nvram_area_def)

definition nv_clean :: "nvram_handle \<Rightarrow> bool" where
  "nv_clean h \<longleftrightarrow> nv_inv h \<and> (\<forall>t \<in> set (concat (nvram_hash h)). clean t)"

definition nv_fits :: "nvram_handle \<Rightarrow> bool" where
  "nv_fits h \<longleftrightarrow> HEADER_SIZE + entries_size (concat (nvram_hash h)) \<le> NVRAM_SPACE - 2"

lemma entries_size_mem: "t \<in> set ts \<Longrightarrow> length (entry t) \<le> entries_size ts"
  by (induction ts) auto

lemma map_of_subset_distinct:
  "set us \<subseteq> set vs \<Longrightarrow> distinct (map fst vs) \<Longrightarrow> map_of (rev us) k = Some v \<Longrightarrow> map_of vs k = Some v"
  by (metis in_mono map_of_SomeD map_of_is_SomeI set_rev)

text \<open>
  The table after a commit: built from the tuples \<open>us\<close> that were written, and from the
  header for the four SDRAM parameters.
\<close>

lemma nvram_commit_rehash:
  assumes "nv_clean h" and map: "NVRAM_SPACE \<le> length (h_mmap h)"
  obtains us h' where "nvram_commit h = Some h'" "nv_inv h'"
    "set us \<subseteq> set (concat (nvram_hash h))" "HEADER_SIZE + entries_size us \<le> NVRAM_SPACE - 2"
    "nv_fits h \<longrightarrow> us = concat (nvram_hash h)"
    "\<And>n. n \<notin> sdram_names \<Longrightarrow> nvram_get h' n = map_of (rev us) n"
    "\<And>n v. map_of (rev us) n = Some v \<Longrightarrow> nvram_get h' n = Some v"
    "\<And>n. n \<in> sdram_names \<Longrightarrow> nvram_get h' n \<noteq> None"
proof -
  let ?h = "h\<lparr>h_mmap := take (length (h_mmap h) - NVRAM_SPACE) (h_mmap h) @ commit_area h\<rparr>"
  obtain hb us tail where s: "commit_area h = header_bytes hb @ concat (map entry us) @ 0 # tail"
      "length (commit_area h) = NVRAM_SPACE" "set us \<subseteq> set (concat (nvram_hash h))"
      "HEADER_SIZE + entries_size us \<le> NVRAM_SPACE - 2" "nv_fits h \<longrightarrow> us = concat (nvram_hash h)"
    by (rule commit_area_shape[of h], rule that, assumption+) (simp add: nv_fits_def)
  have c: "\<forall>t\<in>set us. clean t" using assms s(3) by (auto simp: nv_clean_def)
  have v: "\<forall>kv\<in>set us. length (snd kv) < NVRAM_SPACE"
    using s(4) entries_size_mem[of _ us] NVRAM_SPACE_mod(2) by (fastforce simp: length_entry)
  let ?g = "nv.update_all us (nv_free ?h)"
  have g: "nv_inv ?g" "nvram_get ?g = map_of (rev us)"
    using nv.update_all_inv[of "nv_free ?h" us] nv.lookup_update_all[of "nv_free ?h" us] v by auto
  have "nv_parse (drop HEADER_SIZE (nvram_area ?h)) = Some us"
    using nv_parse_entries[OF c, of tail] s(1,2) by (simp add: nvram_area_commit)
  then have "nvram_commit h = Some (set_sdram (read_header (nvram_area ?h)) ?g)"
    using map by (simp add: nvram_commit_def nvram_rehash_def nv.update_all_def)
  then show ?thesis
    using that[of "set_sdram (read_header (nvram_area ?h)) ?g" us] s set_sdram_inv[OF g(1)] set_sdram_get[OF g(1)] g(2)
    by simp
qed

lemma nvram_commit_get:
  assumes "nv_clean h" "nv_fits h" "NVRAM_SPACE \<le> length (h_mmap h)"
  obtains h' where "nvram_commit h = Some h'" "nv_inv h'"
    "\<And>n. nvram_get h n \<noteq> None \<or> n \<notin> sdram_names \<Longrightarrow> nvram_get h' n = nvram_get h n"
    "\<And>n. n \<in> sdram_names \<Longrightarrow> nvram_get h' n \<noteq> None"
proof -
  obtain us h' where c: "nvram_commit h = Some h'" "nv_inv h'" "us = concat (nvram_hash h)"
    "\<And>n. n \<notin> sdram_names \<Longrightarrow> nvram_get h' n = map_of (rev us) n"
    "\<And>n v. map_of (rev us) n = Some v \<Longrightarrow> nvram_get h' n = Some v"
    "\<And>n. n \<in> sdram_names \<Longrightarrow> nvram_get h' n \<noteq> None"
    by (rule nvram_commit_rehash[OF assms(1,3)], rule that) (use assms(2) in blast)+
  have inv: "nv_inv h" using assms(1) by (simp add: nv_clean_def)
  have m: "map_of (rev us) = nvram_get h"
    using nv_inv_map_of[OF inv] nv_inv_distinct[OF inv] map_of_inject_set[of "rev us" us] c(3)
    by (simp flip: rev_map)
  show ?thesis using c(4,5)[unfolded m] by (intro that[OF c(1,2) _ c(6)]) auto
qed

section \<open>Opening a committed image\<close>

lemma nvram_set_mmap: "snd (nvram_set (h\<lparr>h_mmap := m\<rparr>) n v) = (snd (nvram_set h n v))\<lparr>h_mmap := m\<rparr>"
  by (auto simp: nvram_set_def Let_def split: option.splits)

lemma nvram_get_mmap [simp]: "nvram_get (h\<lparr>h_mmap := m\<rparr>) = nvram_get h"
  by (simp add: nvram_get_def fun_eq_iff)

lemma set_sdram_mmap: "set_sdram hdr (h\<lparr>h_mmap := m\<rparr>) = (set_sdram hdr h)\<lparr>h_mmap := m\<rparr>"
proof -
  have "set_default n v (g\<lparr>h_mmap := m\<rparr>) = (set_default n v g)\<lparr>h_mmap := m\<rparr>" for n v g
    by (simp add: set_default_def nvram_set_mmap)
  then show ?thesis by (simp add: set_sdram_def)
qed

lemma update_all_mmap: "nv.update_all kvs (h\<lparr>h_mmap := m\<rparr>) = (nv.update_all kvs h)\<lparr>h_mmap := m\<rparr>"
  by (induction kvs arbitrary: h) (auto simp: nvram_set_mmap)

lemma nvram_rehash_area:
  assumes "nvram_area g = nvram_area h"
  shows "nvram_rehash g = map_option (\<lambda>r. r\<lparr>h_mmap := h_mmap g\<rparr>) (nvram_rehash h)"
proof -
  have "nv_free g = (nv_free h)\<lparr>h_mmap := h_mmap g\<rparr>" by (simp add: nv_free_def)
  then show ?thesis using assms update_all_mmap[where h = "nv_free h" and m = "h_mmap g"]
    by (simp add: nvram_rehash_def set_sdram_mmap nv.update_all_def split: option.split)
qed

lemma nvram_rehash_mmap: "nvram_rehash h = Some r \<Longrightarrow> h_mmap r = h_mmap h"
proof -
  assume r: "nvram_rehash h = Some r"
  then have "r = r\<lparr>h_mmap := h_mmap h\<rparr>" using nvram_rehash_area[of h h] by simp
  then have "h_mmap r = h_mmap (r\<lparr>h_mmap := h_mmap h\<rparr>)" by (rule arg_cong)
  then show ?thesis by simp
qed

lemma nvram_commit_mmap:
  "nvram_commit h = Some h' \<Longrightarrow>
   h_mmap h' = take (length (h_mmap h) - NVRAM_SPACE) (h_mmap h) @ commit_area h"
  by (auto simp: nvram_commit_def dest: nvram_rehash_mmap split: if_splits)

lemma commit_area_magic: "length (commit_area h) = NVRAM_SPACE" "magic (read_header (commit_area h)) = NVRAM_MAGIC"
proof -
  obtain n crc rest where s: "commit_area h = header_bytes (final_header h n crc) @ rest"
      and l: "length (commit_area h) = NVRAM_SPACE"
    by (rule commit_area_shape[of h]) (rule that)
  show "length (commit_area h) = NVRAM_SPACE" by (rule l)
  show "magic (read_header (commit_area h)) = NVRAM_MAGIC"
    by (subst s) (auto simp: final_header_def commit_header_def split: option.splits)
qed

lemma nvram_open_committed:
  assumes c: "nvram_commit h = Some h'"
  shows "\<exists>g. nvram_open (h_mmap h') = Inr g \<and> nvram_get g = nvram_get h'"
proof -
  define f where "f = h_mmap h'"
  let ?start = "length f - NVRAM_SPACE"
  let ?g = "\<lparr>h_mmap = replicate ?start 0xff @ drop ?start f,
      nvram_hash = replicate NVRAM_BUCKETS [], nvram_dead = []\<rparr>"
  let ?h = "h\<lparr>h_mmap := take (length (h_mmap h) - NVRAM_SPACE) (h_mmap h) @ commit_area h\<rparr>"
  have d: "drop ?start f = commit_area h" using nvram_commit_mmap[OF c] commit_area_magic(1)[of h] by (simp add: f_def)
  have len: "(length f < NVRAM_SPACE) = False" using nvram_commit_mmap[OF c] commit_area_magic(1)[of h] by (simp add: f_def)
  have area: "nvram_area ?g = commit_area h" "nvram_area ?h = commit_area h"
    using commit_area_magic(1)[of h] by (simp_all add: nvram_area_def d)
  have "nvram_rehash ?h = Some h'" using c by (simp add: nvram_commit_def split: if_splits)
  then have "nvram_rehash ?g = Some (h'\<lparr>h_mmap := h_mmap ?g\<rparr>)"
    using nvram_rehash_area[of ?g ?h] area by simp
  then have "nvram_open f = Inr (h'\<lparr>h_mmap := h_mmap ?g\<rparr>)"
    using area(1) commit_area_magic(2)[of h] len by (simp only: nvram_open_def Let_def if_True if_False option.case refl)
  then show ?thesis by (simp add: f_def)
qed

section \<open>The checksum\<close>

text \<open>\<open>do_info\<close> of \<open>cli.c\<close>: the checksum it computes over the image.\<close>

definition info_crc :: "bytes \<Rightarrow> u8" where
  "info_crc a = hndcrc8 (mem_read a NVRAM_CRC_START_POSITION (unat (len (read_header a)) - NVRAM_CRC_START_POSITION)) 0xff"

lemma le32_or_crc:
  "tl (le32 (w OR ucast (c :: u8))) = tl (le32 w)"
proof -
  have "ucast (drop_bit k (w OR ucast c)) = (ucast (drop_bit k w) :: u8)" if "8 \<le> k" for k
    using that by (intro bit_word_eqI) (auto simp: bit_simps dest: bit_imp_le_length)
  then show ?thesis by (simp add: le32_def)
qed

lemma crc_low_byte:
  "ucast (crc_ver_init (final_header h n crc)) = crc"
proof (rule bit_word_eqI)
  fix i assume i: "i < LENGTH(8)"
  then have "\<not> bit (crc_ver_init (commit_header h)) i"
    by (auto simp: commit_header_def bit_simps split: option.splits)
  then show "bit (ucast (crc_ver_init (final_header h n crc)) :: u8) i = bit crc i"
    using i by (auto simp: final_header_def bit_simps)
qed

lemma drop_header_crc:
  "drop NVRAM_CRC_START_POSITION (header_bytes (final_header h n crc)) =
   drop NVRAM_CRC_START_POSITION (header_bytes ((commit_header h)\<lparr>magic := 0, len := 0\<rparr>))"
proof -
  have "drop 9 (header_bytes x) = tl (le32 (crc_ver_init x)) @ le32 (config_refresh x) @ le32 (config_ncdl x)" for x
    by (simp add: header_bytes_def le32_def)
  then show ?thesis by (simp add: NVRAM_CRC_START_POSITION_def final_header_def le32_or_crc)
qed

lemma commit_area_crc: "ucast (crc_ver_init (read_header (commit_area h))) = info_crc (commit_area h)"
proof -
  obtain n us tail where s: "commit_area h = header_bytes (final_header h n
        (hndcrc8 (mem_read (commit_area h) HEADER_SIZE (n - HEADER_SIZE)) (header_crc h)))
       @ concat (map entry us) @ 0 # tail" (is "_ = header_bytes (final_header h n ?crc) @ ?rest")
    and n: "length (commit_area h) = NVRAM_SPACE" "n \<le> NVRAM_SPACE" "HEADER_SIZE + 2 \<le> n"
    by (rule commit_area_shape[of h])
  have hd: "read_header (commit_area h) = final_header h n ?crc"
    by (subst s) simp
  have "unat (word_of_nat n :: u32) = n"
    using n(2) by (simp add: NVRAM_SPACE_def unat_of_nat take_bit_nat_eq_self)
  then have "info_crc (commit_area h) = hndcrc8 (take (n - 9) (drop 9 (commit_area h))) 0xff"
    by (simp add: info_crc_def hd final_header_def mem_read_def NVRAM_CRC_START_POSITION_def)
  also have "take (n - 9) (drop 9 (commit_area h)) =
      drop 9 (header_bytes (final_header h n ?crc)) @ take (n - HEADER_SIZE) ?rest"
    using n(3) by (subst s) (simp add: HEADER_SIZE_def)
  also have "take (n - HEADER_SIZE) ?rest = mem_read (commit_area h) HEADER_SIZE (n - HEADER_SIZE)"
    by (subst s) (simp add: mem_read_def)
  finally show ?thesis
    using drop_header_crc[of h n ?crc] by (simp add: hd crc_low_byte header_crc_def NVRAM_CRC_START_POSITION_def)
qed


section \<open>Numbers in the variables\<close>

lemma digit_val_hex: "d < 16 \<Longrightarrow> digit_val (hex_digit d) = Some d"
proof -
  assume "d < 16"
  then have "d \<in> set [0..<16]" by simp
  moreover have "\<forall>d\<in>set [0..<16]. digit_val (hex_digit d) = Some d" by code_simp
  ultimately show ?thesis by blast
qed

lemma digits_hex: "digits 16 (hex k n @ cs) acc = digits 16 cs (acc * 16 ^ k + n mod 16 ^ k)"
proof (induction k arbitrary: n cs acc)
  case (Suc k)
  have e: "16 * (acc * 16 ^ k + n div 16 mod 16 ^ k) + n mod 16 = acc * 16 ^ Suc k + n mod 16 ^ Suc k"
    by (simp add: mod_mult2_eq algebra_simps)
  have "digits 16 (hex (Suc k) n @ cs) acc
      = digits 16 cs (16 * (acc * 16 ^ k + n div 16 mod 16 ^ k) + n mod 16)"
    by (simp add: Suc.IH digit_val_hex)
  then show ?case unfolding e .
qed simp

lemma strtoul_sprintf_hex:
  assumes "0 < k" "k \<le> 8" "n < 16 ^ k"
  shows "strtoul (sprintf_hex k n) = word_of_nat n"
proof -
  obtain j where k: "k = Suc j" using assms(1) by (cases k) auto
  obtain c cs where h: "hex k n = c # cs" using length_hex[of k n] k by (cases "hex k n") auto
  have s: "sprintf_hex k n = 48 # 120 # c # cs" by (simp add: sprintf_hex_def lit_def h)
  have c: "digit_val c \<noteq> None"
  proof -
    have "set (hex k n) \<subseteq> hex_digit ` {..<16}" by (induction k arbitrary: n) auto
    then have "c \<in> hex_digit ` {..<16}" using h by simp
    then show ?thesis using digit_val_hex by force
  qed
  have "(16 :: nat) ^ k \<le> 16 ^ 8" using assms(2) by (intro power_increasing) auto
  then have "n \<le> 0xffffffff" using assms(3) by simp
  moreover have "strtoul_magnitude (sprintf_hex k n) = n"
    using digits_hex[of k n "[]" 0] h c assms(3) by (simp add: s)
  ultimately show ?thesis by (simp add: strtoul_def s isspace_def)
qed

section \<open>Properties\<close>

text \<open>A table with one variable, in an erase block of 64 kilobytes.\<close>

definition erased_block :: bytes where
  "erased_block = replicate (2 ^ 16) 0xff"

definition one_var :: "bytes \<Rightarrow> bytes \<Rightarrow> nvram_handle" where
  "one_var n v = snd (nvram_set (nv_free \<lparr>h_mmap = erased_block, nvram_hash = [], nvram_dead = []\<rparr>) n v)"

lemma one_var_tuples:
  assumes "length v < NVRAM_SPACE" shows "concat (nvram_hash (one_var n v)) = [(n, v)]"
proof -
  have "concat ((replicate k [])[i := [x]]) = [x]" if "i < k" for k i and x :: tuple
    using that by (induction k arbitrary: i) (auto split: nat.split)
  then show ?thesis using assms
    by (simp add: one_var_def nvram_set_def nv_free_def nvram_realloc_def Let_def)
qed

lemma one_var_inv [simp]: "nv_inv (one_var n v)"
  by (simp add: one_var_def nvram_set_inv)

lemma one_var_mmap: "NVRAM_SPACE \<le> length (h_mmap (one_var n v))"
proof -
  have "h_mmap (one_var n v) = erased_block"
    by (auto simp: one_var_def nvram_set_def nv_free_def Let_def split: option.splits)
  then show ?thesis by (simp add: erased_block_def NVRAM_SPACE_def)
qed

lemma one_var_get: "length v < NVRAM_SPACE \<Longrightarrow> nvram_get (one_var n v) = [n \<mapsto> v]"
  by (simp add: one_var_def nvram_set_get)

text \<open>
  C12. What is committed is what the next process reads: when all variables fit into the
  image, and the mapping is large enough for the image, \<open>nvram_commit\<close> succeeds, and opening the image it wrote gives a table with the
  value of every variable that was set. Of the others only the four SDRAM parameters are
  filled in, from the header.
\<close>

theorem nvram_commit_open_roundtrip:
  assumes "nv_clean h" "nv_fits h" "NVRAM_SPACE \<le> length (h_mmap h)"
  shows "\<exists>h' g. nvram_commit h = Some h' \<and> nvram_open (h_mmap h') = Inr g \<and>
    nvram_get h' = nvram_get g \<and>
    (\<forall>n. nvram_get h n \<noteq> None \<or> n \<notin> sdram_names \<longrightarrow> nvram_get g n = nvram_get h n)"
proof -
  obtain h' where c: "nvram_commit h = Some h'"
      "\<And>n. nvram_get h n \<noteq> None \<or> n \<notin> sdram_names \<Longrightarrow> nvram_get h' n = nvram_get h n"
    by (rule nvram_commit_get[OF assms], rule that) blast+
  obtain g where "nvram_open (h_mmap h') = Inr g" "nvram_get g = nvram_get h'"
    using nvram_open_committed[OF c(1)] by blast
  with c show ?thesis by (intro exI[of _ h'] exI[of _ g]) auto
qed

theorem nvram_commit_open_roundtrip_witness:
  "\<exists>h' g. nvram_commit (one_var [65] [66]) = Some h' \<and> nvram_open (h_mmap h') = Inr g \<and> nvram_get g [65] = Some [66]"
proof -
  have "nv_clean (one_var [65] [66])" "nv_fits (one_var [65] [66])"
    by (simp_all add: nv_clean_def nv_fits_def one_var_tuples clean_def entry_def NVRAM_SPACE_def HEADER_SIZE_def)
  from nvram_commit_open_roundtrip[OF this one_var_mmap] show ?thesis
    by (metis (no_types, lifting) NVRAM_SPACE_mod(2) fun_upd_same length_Cons list.size(3) not_None_eq
        one_var_get One_nat_def Suc_1 Suc_lessD)
qed

text \<open>
  C25. The table is a finite map: a variable that is set is found with its new value, one
  that is unset is gone, every other variable is untouched, and the invariant of the
  table (257 chains, every name once and in the chain of its hash) is kept.
\<close>

theorem nvram_table_is_map:
  assumes "nv_inv h" "length v < NVRAM_SPACE"
  shows "fst (nvram_set h n v) = 0 \<and> nvram_get (snd (nvram_set h n v)) = (nvram_get h)(n \<mapsto> v) \<and>
    nvram_get (snd (nvram_unset h n)) = (nvram_get h)(n := None) \<and>
    nv_inv (snd (nvram_set h n v)) \<and> nv_inv (snd (nvram_unset h n))"
proof -
  have "fst (nvram_set h n v) = 0" using assms(2) by (simp add: nvram_set_def nvram_realloc_def Let_def)
  then show ?thesis using nv.lookup_update[OF assms] nv.lookup_remove[OF assms(1)]
      nv.update_inv[OF assms(1)] nv.remove_inv[OF assms(1)] by simp
qed

theorem nvram_table_is_map_witness:
  "nvram_get (snd (nvram_set (one_var [65] [66]) [67] [68])) = [[65] \<mapsto> [66], [67] \<mapsto> [68]]"
proof -
  have "length [68 :: u8] < NVRAM_SPACE" "length [66 :: u8] < NVRAM_SPACE" by (simp_all add: NVRAM_SPACE_def)
  then show ?thesis using nvram_table_is_map[OF one_var_inv, of "[68]" "[65]" "[66]" "[67]"] by (simp add: one_var_get)
qed

text \<open>
  A value that could not fit into the image on its own is refused with \<open>-ENOMEM\<close> and
  nothing changes.
\<close>

theorem nvram_set_refused:
  "NVRAM_SPACE \<le> length v \<Longrightarrow> nvram_set h n v = (-12, h)"
  by (simp add: nvram_set_def nvram_realloc_def Let_def)

theorem nvram_set_refused_witness:
  "nvram_set (one_var [65] [66]) [67] (replicate NVRAM_SPACE 68) = (-12, one_var [65] [66])"
  by (rule nvram_set_refused) simp

text \<open>
  \<open>nvram_getall\<close> lists every variable exactly once, with its value.
\<close>

theorem nvram_getall_complete:
  assumes "nv_inv h"
  shows "distinct (map fst (nvram_getall h)) \<and> map_of (nvram_getall h) = nvram_get h"
  using nv_inv_distinct[OF assms] nv_inv_map_of[OF assms]
    map_of_inject_set[of "rev (concat (nvram_hash h))" "concat (nvram_hash h)"]
  by (simp add: nvram_getall_concat flip: rev_map)

theorem nvram_getall_complete_witness:
  "map_of (nvram_getall (one_var [65] [66])) = [[65] \<mapsto> [66]]"
  using nvram_getall_complete[OF one_var_inv, of "[65]" "[66]"] by (simp add: one_var_get NVRAM_SPACE_def)

text \<open>
  C35. The image \<open>nvram_commit\<close> writes is exactly as large as the NVRAM area, the length in its
  header is a multiple of four within it, and the checksum in its header is the one
  \<open>nvram info\<close> computes over the image.
\<close>

theorem nvram_image_checks:
  "length (commit_area h) = NVRAM_SPACE \<and> unat (len (read_header (commit_area h))) \<le> NVRAM_SPACE \<and>
   unat (len (read_header (commit_area h))) mod 4 = 0 \<and>
   ucast (crc_ver_init (read_header (commit_area h))) = info_crc (commit_area h)"
proof -
  obtain n crc rest where s: "commit_area h = header_bytes (final_header h n crc) @ rest"
    and l: "length (commit_area h) = NVRAM_SPACE" and n: "n \<le> NVRAM_SPACE" "n mod 4 = 0"
    by (rule commit_area_shape[of h]) (rule that)
  have "len (read_header (commit_area h)) = word_of_nat n" by (subst s) (simp add: final_header_def)
  moreover have "unat (word_of_nat n :: u32) = n"
    using n(1) by (simp add: NVRAM_SPACE_def unat_of_nat take_bit_nat_eq_self)
  ultimately show ?thesis using l n commit_area_crc[of h] by simp
qed

text \<open>
  C34. The checksum detects every corruption confined to one byte, whatever its initial
  value.
\<close>

theorem crc8_detects_one_byte:
  assumes "length xs = length ys" "i < length xs" "xs ! i \<noteq> ys ! i"
    and "\<And>j. j < length xs \<Longrightarrow> j \<noteq> i \<Longrightarrow> xs ! j = ys ! j"
  shows "hndcrc8 xs crc \<noteq> hndcrc8 ys crc"
  unfolding hndcrc8_foldl by (rule crc8.detects_byte[OF assms])

theorem crc8_detects_one_byte_witness: "hndcrc8 [1, 2, 3] 0xff \<noteq> hndcrc8 [1, 7, 3] 0xff"
  by (rule crc8_detects_one_byte[where i = 1]) (auto simp: less_Suc_eq)

text \<open>
  The table of the source is the one of the polynomial named in its comment: each step
  of \<open>hndcrc8\<close> is eight steps of bitwise division.
\<close>

theorem crc8_table_is_polynomial: "crc8_step crc b = crc8_bitwise (crc XOR b)"
  by (simp add: crc8_step_def crc8_table_bitwise)

lemma set_default_new:
  "nv_inv h \<Longrightarrow> length v < NVRAM_SPACE \<Longrightarrow> nvram_get h n = None \<Longrightarrow>
   nvram_get (set_default n v h) = (nvram_get h)(n \<mapsto> v)"
  by (simp add: set_default_def nvram_set_get)

lemma set_sdram_new:
  assumes "nv_inv h" "\<forall>n\<in>sdram_names. nvram_get h n = None"
  shows "nvram_get (set_sdram hdr h) = (nvram_get h)(
     lit ''sdram_init'' \<mapsto> sprintf_hex 4 (unat (drop_bit 16 (crc_ver_init hdr))),
     lit ''sdram_config'' \<mapsto> sprintf_hex 4 (unat (config_refresh hdr AND 0xffff)),
     lit ''sdram_refresh'' \<mapsto> sprintf_hex 4 (unat (drop_bit 16 (config_refresh hdr) AND 0xffff)),
     lit ''sdram_ncdl'' \<mapsto> sprintf_hex 8 (unat (config_ncdl hdr)))"
proof -
  have ne: "lit ''sdram_init'' \<noteq> lit ''sdram_config''" "lit ''sdram_init'' \<noteq> lit ''sdram_refresh''"
    "lit ''sdram_init'' \<noteq> lit ''sdram_ncdl''" "lit ''sdram_config'' \<noteq> lit ''sdram_refresh''"
    "lit ''sdram_config'' \<noteq> lit ''sdram_ncdl''" "lit ''sdram_refresh'' \<noteq> lit ''sdram_ncdl''"
    by (simp_all add: lit_def)
  show ?thesis using assms ne unfolding set_sdram_def sdram_names_def
    by (simp add: set_default_new set_default_inv length_sprintf_hex)
qed

lemma word_halves:
  fixes w :: u32
  shows "unat (drop_bit 16 w) < 16 ^ 4" "unat (w AND 0xffff) < 16 ^ 4" "unat (drop_bit 16 w AND 0xffff) < 16 ^ 4"
    "(w AND 0xffff) OR push_bit 16 (drop_bit 16 w AND 0xffff) = w"
proof -
  have m: "(0xffff :: u32) = mask 16" by (simp add: mask_eq_exp_minus_1)
  have b: "unat (x AND mask 16 :: u32) < 16 ^ 4" for x
    using take_bit_nat_less_exp[of 16 "unat x"] by (simp add: unsigned_take_bit_eq flip: take_bit_eq_mask)
  show "unat (w AND 0xffff) < 16 ^ 4" "unat (drop_bit 16 w AND 0xffff) < 16 ^ 4"
    using b unfolding m by simp_all
  show "unat (drop_bit 16 w) < 16 ^ 4"
    unfolding unat_drop_bit_eq drop_bit_eq_div
    using unsigned_less[of w, where 'a = nat] by (simp add: unat_div_distrib less_mult_imp_div_less)
  show "(w AND 0xffff) OR push_bit 16 (drop_bit 16 w AND 0xffff) = w"
    unfolding m by (rule bit_word_eqI) (auto simp: bit_simps)
qed

text \<open>
  The SDRAM parameters survive the trip through the variables: when the table has none
  of them, \<open>_nvram_rehash\<close> fills them in from the header, and the next commit writes the
  same parameters into the header again.
\<close>

theorem sdram_header_roundtrip:
  assumes "nv_inv h" "\<forall>n\<in>sdram_names. nvram_get h n = None"
  shows "drop_bit 16 (crc_ver_init (commit_header (set_sdram hdr h))) = drop_bit 16 (crc_ver_init hdr) \<and>
    config_refresh (commit_header (set_sdram hdr h)) = config_refresh hdr \<and>
    config_ncdl (commit_header (set_sdram hdr h)) = config_ncdl hdr"
proof -
  let ?g = "nvram_get (set_sdram hdr h)"
  have g: "?g (lit ''sdram_init'') = Some (sprintf_hex 4 (unat (drop_bit 16 (crc_ver_init hdr))))"
    "?g (lit ''sdram_config'') = Some (sprintf_hex 4 (unat (config_refresh hdr AND 0xffff)))"
    "?g (lit ''sdram_refresh'') = Some (sprintf_hex 4 (unat (drop_bit 16 (config_refresh hdr) AND 0xffff)))"
    "?g (lit ''sdram_ncdl'') = Some (sprintf_hex 8 (unat (config_ncdl hdr)))"
    unfolding set_sdram_new[OF assms] by (simp_all add: lit_def)
  have n: "unat (config_ncdl hdr) < 16 ^ 8" using unsigned_less[of "config_ncdl hdr"] by simp
  have s: "strtoul (sprintf_hex 4 (unat w)) = w" if "unat w < 16 ^ 4" for w
    using strtoul_sprintf_hex[of 4 "unat w"] that by simp
  have h: "drop_bit 16 (push_bit 8 NVRAM_VERSION OR push_bit 16 (drop_bit 16 w AND 0xffff)) = drop_bit 16 w" for w
  proof -
    have m: "(0xffff :: u32) = mask 16" by (simp add: mask_eq_exp_minus_1)
    show ?thesis unfolding m NVRAM_VERSION_def
      by (rule bit_word_eqI) (auto simp: bit_simps dest: bit_imp_le_length)
  qed
  have i: "(x AND 0xffff) AND 0xffff = x AND (0xffff :: u32)" for x by (simp add: and.assoc)
  show ?thesis
    using strtoul_sprintf_hex[of 8 "unat (config_ncdl hdr)"] n
    by (simp only: commit_header_def g prod.case option.case s word_halves i h nvram_header.simps) simp
qed

theorem sdram_header_roundtrip_witness:
  "config_refresh (commit_header (set_sdram (\<lparr>magic = 0, len = 0, crc_ver_init = 0x04190100,
      config_refresh = 0x80400007, config_ncdl = 5\<rparr>) (one_var [65] [66]))) = 0x80400007"
proof -
  have "\<forall>n\<in>sdram_names. nvram_get (one_var [65] [66]) n = None"
    by (simp add: one_var_get NVRAM_SPACE_def sdram_names_def lit_def)
  from sdram_header_roundtrip[OF one_var_inv this] show ?thesis by simp
qed

text \<open>
  C38. A variable that \<open>nvram_set\<close> accepted is lost, without an error, when the image has no room
  for it even on its own: in a mapping large enough for the image the commit succeeds and the variable is gone.
\<close>

theorem nvram_commit_drops_silently:
  assumes "nv_clean h" "NVRAM_SPACE \<le> length (h_mmap h)" "nvram_get h n = Some v" "n \<notin> sdram_names"
    and "HEADER_SIZE + length (entry (n, v)) > NVRAM_SPACE - 2"
  shows "\<exists>h'. nvram_commit h = Some h' \<and> nvram_get h' n = None"
proof -
  obtain us h' where c: "nvram_commit h = Some h'" "set us \<subseteq> set (concat (nvram_hash h))"
      "HEADER_SIZE + entries_size us \<le> NVRAM_SPACE - 2" "nvram_get h' n = map_of (rev us) n"
    by (rule nvram_commit_rehash[OF assms(1,2)], rule that) (use assms(4) in blast)+
  have inv: "nv_inv h" using assms(1) by (simp add: nv_clean_def)
  have "map_of (rev us) n = None"
  proof (rule ccontr)
    assume "map_of (rev us) n \<noteq> None"
    then obtain w where w: "map_of (rev us) n = Some w" by blast
    then have "w = v" using map_of_subset_distinct[OF c(2) nv_inv_distinct[OF inv] w] nv_inv_map_of[OF inv] assms(3) by simp
    with w have "(n, v) \<in> set us" by (auto dest: map_of_SomeD)
    then show False using entries_size_mem[of "(n, v)" us] c(3) assms(5) by simp
  qed
  with c show ?thesis by auto
qed

definition long_value :: bytes where
  "long_value = replicate (NVRAM_SPACE - 1) 65"

theorem nvram_commit_drops_silently_witness:
  "fst (nvram_set (one_var [65] [66]) [67] long_value) = 0 \<and>
   (\<exists>h'. nvram_commit (one_var [67] long_value) = Some h' \<and> nvram_get h' [67] = None)"
proof
  have l: "length long_value < NVRAM_SPACE" by (simp add: long_value_def NVRAM_SPACE_def)
  then show "fst (nvram_set (one_var [65] [66]) [67] long_value) = 0"
    by (simp add: nvram_set_def nvram_realloc_def Let_def)
  show "\<exists>h'. nvram_commit (one_var [67] long_value) = Some h' \<and> nvram_get h' [67] = None"
    using l by (intro nvram_commit_drops_silently[where v = long_value])
      (simp_all add: one_var_mmap nv_clean_def one_var_tuples one_var_get clean_def sdram_names_def lit_def entry_def long_value_def)
qed

end
