(* ===== verification/Nvram_Cli.thy ===== *)
theory Nvram_Cli
  imports Nvram_Props
begin

text \<open>
  The command line tool (\<open>openwrt/package/nvram/src/cli.c\<close>) and the staging file. The files
  the tool works on are the state: the NVRAM device, whose size is the erase size, and
  the staging file. An argument vector is the list of its strings after the program name;
  reading past its end dereferences the null pointer there, which is the error
  \<open>NullArgument\<close>. The lines printed on standard output by \<open>show\<close> and \<open>get\<close> are collected.
\<close>

section \<open>The files\<close>

record world =
  w_mtd :: "bytes option"
  w_staging :: "bytes option"

definition nvram_to_staging :: "world \<Rightarrow> int \<times> world" where
  "nvram_to_staging w =
     (case w_mtd w of
        Some dev \<Rightarrow> if 0 < length dev then (0, w\<lparr>w_staging := Some dev\<rparr>) else (-1, w)
      | None \<Rightarrow> (-1, w))"

definition staging_to_nvram :: "world \<Rightarrow> int \<times> world" where
  "staging_to_nvram w =
     (case (w_mtd w, w_staging w) of
        (Some dev, Some stg) \<Rightarrow>
          if 0 < length dev \<and> length dev \<le> length stg
          then (0, \<lparr>w_mtd = Some (take (length dev) stg), w_staging = None\<rparr>) else (-1, w)
      | _ \<Rightarrow> (-1, w))"

text \<open>
  Opening a file maps as many bytes as the device has, so the device has to exist; a file
  that is shorter is read past its end.
\<close>

definition open_mapped :: "world \<Rightarrow> bytes \<Rightarrow> nv_error + nvram_handle" where
  "open_mapped w file =
     (case w_mtd w of
        None \<Rightarrow> Inl BadMagic
      | Some dev \<Rightarrow> if length file < length dev then Inl Overrun else nvram_open (take (length dev) file))"

text \<open>The shared mapping of the staging file: opening it has overwritten what lies before the header.\<close>

definition clear_start :: "world \<Rightarrow> bytes \<Rightarrow> bytes" where
  "clear_start w file =
     (case w_mtd w of
        None \<Rightarrow> file
      | Some dev \<Rightarrow> let start = length dev - NVRAM_SPACE in replicate start 0xff @ drop start file)"

definition nvram_open_rdonly :: "world \<Rightarrow> nv_error + nvram_handle" where
  "nvram_open_rdonly w =
     (case (w_staging w, w_mtd w) of
        (Some stg, _) \<Rightarrow> open_mapped w stg
      | (None, Some dev) \<Rightarrow> open_mapped w dev
      | (None, None) \<Rightarrow> Inl BadMagic)"

definition nvram_open_staging :: "world \<Rightarrow> (nv_error + nvram_handle) \<times> world" where
  "nvram_open_staging w =
     (let (ok, w') = (if w_staging w \<noteq> None then (0, w) else nvram_to_staging w)
      in case w_staging w' of
           Some stg \<Rightarrow>
             if ok = 0 then (open_mapped w' stg, w'\<lparr>w_staging := Some (clear_start w' stg)\<rparr>) else (Inl BadMagic, w')
         | None \<Rightarrow> (Inl BadMagic, w'))"

section \<open>The commands\<close>

datatype cli_error = NullArgument | Fault

record session =
  s_handle :: nvram_handle
  s_stat :: int
  s_done :: nat
  s_commit :: bool
  s_out :: "bytes list"

definition do_show :: "session \<Rightarrow> session" where
  "do_show s =
     (let l = nvram_getall (s_handle s)
      in s\<lparr>s_stat := (if l = [] then 1 else 0), s_done := Suc (s_done s),
           s_out := s_out s @ map (\<lambda>t. fst t @ 61 # snd t) l\<rparr>)"

definition do_get :: "session \<Rightarrow> bytes \<Rightarrow> session" where
  "do_get s var =
     (case nvram_get (s_handle s) var of
        Some v \<Rightarrow> s\<lparr>s_stat := 0, s_done := Suc (s_done s), s_out := s_out s @ [v]\<rparr>
      | None \<Rightarrow> s\<lparr>s_stat := 1, s_done := Suc (s_done s)\<rparr>)"

definition do_unset :: "session \<Rightarrow> bytes \<Rightarrow> session" where
  "do_unset s var =
     (case nvram_unset (s_handle s) var of (r, h) \<Rightarrow>
        s\<lparr>s_handle := h, s_stat := r, s_done := Suc (s_done s)\<rparr>)"

definition do_set :: "session \<Rightarrow> bytes \<Rightarrow> session" where
  "do_set s pair =
     (if 61 \<in> set pair then
        (case nvram_set (s_handle s) (takeWhile (\<lambda>b. b \<noteq> 61) pair) (tl (dropWhile (\<lambda>b. b \<noteq> 61) pair)) of
           (r, h) \<Rightarrow> s\<lparr>s_handle := h, s_stat := r, s_done := Suc (s_done s)\<rparr>)
      else s\<lparr>s_stat := 1, s_done := Suc (s_done s)\<rparr>)"

text \<open>The first loop of \<open>main\<close>: whether some argument asks for a write.\<close>

fun wants_write :: "bytes list \<Rightarrow> cli_error + bool" where
  "wants_write [] = Inr False"
| "wants_write (a # args) =
     (if a = lit ''set'' \<or> a = lit ''unset'' then
        (if args = [] then Inl NullArgument else Inr True)
      else if a = lit ''commit'' then Inr True
      else wants_write args)"

text \<open>The second loop: \<open>break\<close> with \<open>done = 0\<close> at an unknown word.\<close>

fun run_args :: "bytes list \<Rightarrow> session \<Rightarrow> cli_error + session" where
  "run_args [] s = Inr s"
| "run_args (a # args) s =
     (if a = lit ''show'' then run_args args (do_show s)
      else if a = lit ''info'' then run_args args (s\<lparr>s_stat := 0, s_done := Suc (s_done s)\<rparr>)
      else if a = lit ''get'' then
        (case args of [] \<Rightarrow> Inl NullArgument | v # args' \<Rightarrow> run_args args' (do_get s v))
      else if a = lit ''unset'' then
        (case args of [] \<Rightarrow> Inl NullArgument | v # args' \<Rightarrow> run_args args' (do_unset s v))
      else if a = lit ''set'' then
        (case args of [] \<Rightarrow> Inl NullArgument | v # args' \<Rightarrow> run_args args' (do_set s v))
      else if a = lit ''commit'' then run_args args (s\<lparr>s_commit := True, s_done := Suc (s_done s)\<rparr>)
      else Inr (s\<lparr>s_done := 0\<rparr>))"

text \<open>
  What follows the loops: commit the table into the part of the staging file that is mapped, close it,
  copy the staging file.
\<close>

definition finish :: "bool \<Rightarrow> world \<Rightarrow> session \<Rightarrow> cli_error + int \<times> world \<times> bytes list" where
  "finish write w s =
     (case (if write then
              (case nvram_commit (s_handle s) of
                 None \<Rightarrow> None
               | Some h \<Rightarrow> Some (0, w\<lparr>w_staging := map_option (\<lambda>stg. h_mmap h @ drop (length (h_mmap h)) stg) (w_staging w)\<rparr>))
            else Some (s_stat s, w)) of
        None \<Rightarrow> Inl Fault
      | Some (stat, w') \<Rightarrow>
          let (stat', w'') = (if s_commit s then staging_to_nvram w' else (stat, w'))
          in Inr (if s_done s = 0 then 1 else stat', w'', s_out s))"

definition nvram_main :: "world \<Rightarrow> bytes list \<Rightarrow> cli_error + int \<times> world \<times> bytes list" where
  "nvram_main w args =
     (case wants_write args of
        Inl e \<Rightarrow> Inl e
      | Inr write \<Rightarrow>
          let (r, w') = (if write then nvram_open_staging w else (nvram_open_rdonly w, w)) in
          (case r of
             Inl Overrun \<Rightarrow> Inl Fault
           | Inl BadMagic \<Rightarrow> Inr (1, w', [])
           | Inr h \<Rightarrow>
               (if args = [] then Inr (1, w', [])
                else case run_args args \<lparr>s_handle = h, s_stat = 1, s_done = 0, s_commit = False, s_out = []\<rparr> of
                  Inl e \<Rightarrow> Inl e
                | Inr s \<Rightarrow> finish write w' s)))"

section \<open>Tables read from an image are clean\<close>

lemma nvram_set_tuples:
  "set (concat (nvram_hash (snd (nvram_set h n v)))) \<subseteq> insert (n, v) (set (concat (nvram_hash h)))"
proof -
  have upd: "set (concat (xs[i := ys])) \<subseteq> set ys \<union> set (concat xs)" for xs :: "tuple list list" and i ys
    using set_update_subset_insert[of xs i ys] by auto
  have rep: "set (chain_replace ts n (n, v)) \<subseteq> insert (n, v) (set ts)" for ts by (induction ts) auto
  have nth: "nv_index n < length (nvram_hash h) \<Longrightarrow> set (nvram_hash h ! nv_index n) \<subseteq> set (concat (nvram_hash h))"
    unfolding set_concat by (rule UN_upper[OF nth_mem])
  show ?thesis
  proof (cases "nv_index n < length (nvram_hash h)")
    case True
    let ?ts = "nvram_hash h ! nv_index n"
    have "set (concat ((nvram_hash h)[nv_index n := chain_replace ?ts n (n, v)])) \<subseteq> insert (n, v) (set (concat (nvram_hash h)))"
        "set (concat ((nvram_hash h)[nv_index n := (n, v) # ?ts])) \<subseteq> insert (n, v) (set (concat (nvram_hash h)))"
      using upd[of "nvram_hash h" "nv_index n" "chain_replace ?ts n (n, v)"]
        upd[of "nvram_hash h" "nv_index n" "(n, v) # ?ts"] rep[of ?ts] nth[OF True] by (simp_all del: set_concat) blast+
    then show ?thesis
      by (cases "chain_find ?ts n") (simp_all add: nvram_set_def nvram_realloc_def Let_def subset_insertI del: set_concat)
  next
    case False
    then show ?thesis
      by (cases "chain_find (nvram_hash h ! nv_index n) n")
         (simp_all add: nvram_set_def nvram_realloc_def Let_def list_update_beyond subset_insertI del: set_concat)
  qed
qed

lemma nvram_set_clean:
  "nv_clean h \<Longrightarrow> clean (n, v) \<Longrightarrow> nv_clean (snd (nvram_set h n v))"
  using nvram_set_tuples[of h n v] by (auto simp: nv_clean_def nvram_set_inv simp del: set_concat)

lemma update_all_clean:
  "nv_clean h \<Longrightarrow> \<forall>t\<in>set kvs. clean t \<Longrightarrow> nv_clean (nv.update_all kvs h)"
  by (induction kvs arbitrary: h) (auto simp: nvram_set_clean)

lemma nv_parse_clean: "nv_parse bs = Some kvs \<Longrightarrow> t \<in> set kvs \<Longrightarrow> clean t"
proof (induction bs arbitrary: kvs rule: nv_parse.induct)
  case (1 bs)
  let ?s = "takeWhile (\<lambda>b. b \<noteq> 0) bs"
  have z: "0 \<notin> set ?s" by (auto dest: set_takeWhileD)
  show ?case
  proof (cases "\<exists>b cs. bs = b # cs \<and> b \<noteq> 0 \<and> dropWhile (\<lambda>b. b \<noteq> 0) bs \<noteq> [] \<and> 61 \<in> set ?s")
    case True
    then obtain b cs where b: "bs = b # cs" "b \<noteq> 0" "dropWhile (\<lambda>b. b \<noteq> 0) bs \<noteq> []" "61 \<in> set ?s" by blast
    let ?t = "(takeWhile (\<lambda>b. b \<noteq> 61) ?s, tl (dropWhile (\<lambda>b. b \<noteq> 61) ?s))"
    have "nv_parse bs = map_option (Cons ?t) (nv_parse (tl (dropWhile (\<lambda>b. b \<noteq> 0) bs)))"
      using b by (subst nv_parse.simps) (auto simp: Let_def)
    then have "map_option (Cons ?t) (nv_parse (tl (dropWhile (\<lambda>b. b \<noteq> 0) bs))) = Some kvs"
      using "1.prems"(1) by (rule trans[OF sym])
    then obtain kvs' where k: "nv_parse (tl (dropWhile (\<lambda>b. b \<noteq> 0) bs)) = Some kvs'" "kvs = ?t # kvs'"
      unfolding map_option_eq_Some by blast
    have tl: "set (tl xs) \<subseteq> set xs" for xs :: bytes by (cases xs) auto
    have "set (tl (dropWhile (\<lambda>b. b \<noteq> 61) ?s)) \<subseteq> set ?s"
      using tl[of "dropWhile (\<lambda>b. b \<noteq> 61) ?s"] by (auto dest: set_dropWhileD)
    then have "clean ?t" using z by (auto simp: clean_def dest: set_takeWhileD)
    then show ?thesis using 1(1)[OF b(1) b(2) refl refl b(3) _ k(1)] b(4) "1.prems"(2) k(2) by auto
  next
    case False
    then have "kvs = []" using "1.prems"(1)
      by (subst (asm) nv_parse.simps) (auto simp: Let_def split: list.splits if_splits)
    then show ?thesis using "1.prems"(2) by simp
  qed
qed

lemma hex_clean: "0 \<notin> set (hex k n)"
proof -
  have "hex_digit d \<noteq> 0" if "d < 16" for d using digit_val_hex[OF that] by (auto simp: digit_val_def)
  then show ?thesis by (induction k arbitrary: n) (auto simp: eq_commute[of 0])
qed

lemma set_sdram_clean: "nv_clean h \<Longrightarrow> nv_clean (set_sdram hdr h)"
proof -
  have d: "nv_clean (set_default n (sprintf_hex k x) g)"
    if "nv_clean g" "0 \<notin> set n" "61 \<notin> set n" for n k x g
    using that hex_clean by (auto simp: set_default_def clean_def sprintf_hex_def lit_def intro!: nvram_set_clean)
  show "nv_clean h \<Longrightarrow> nv_clean (set_sdram hdr h)"
    unfolding set_sdram_def by (intro d) (simp_all add: lit_def)
qed

lemma nv_free_clean: "nv_clean (nv_free h)"
  unfolding nv_clean_def by (simp add: nv_free_def[of h, THEN arg_cong[of _ _ nvram_hash]] del: nv_free_inv) (simp flip: nv_free_def)

lemma nvram_rehash_clean:
  assumes "nvram_rehash h = Some r" shows "nv_clean r"
proof -
  obtain kvs where k: "nv_parse (drop HEADER_SIZE (nvram_area h)) = Some kvs"
      "r = set_sdram (read_header (nvram_area h)) (nv.update_all kvs (nv_free h))"
    using assms by (auto simp: nvram_rehash_def nv.update_all_def split: option.splits)
  have "\<forall>t\<in>set kvs. clean t" using nv_parse_clean[OF k(1)] by blast
  then show ?thesis unfolding k(2) by (intro set_sdram_clean update_all_clean nv_free_clean)
qed

lemma nvram_open_clean:
  assumes "nvram_open file = Inr h"
  shows "nv_clean h" "length (h_mmap h) = length file" "NVRAM_SPACE \<le> length file"
proof -
  let ?start = "length file - NVRAM_SPACE"
  let ?g = "\<lparr>h_mmap = replicate ?start 0xff @ drop ?start file,
      nvram_hash = replicate NVRAM_BUCKETS [], nvram_dead = []\<rparr>"
  have "nvram_rehash ?g = Some h" "NVRAM_SPACE \<le> length file" using assms by (auto simp: nvram_open_def Let_def split: if_splits option.splits)
  then show "nv_clean h" "length (h_mmap h) = length file" "NVRAM_SPACE \<le> length file"
    using nvram_rehash_clean nvram_rehash_mmap[of ?g h] by auto
qed

section \<open>Setting a variable from the command line\<close>

lemma do_set_pair:
  assumes "61 \<notin> set n"
  shows "do_set s (n @ 61 # v) = (case nvram_set (s_handle s) n v of (r, h) \<Rightarrow>
     s\<lparr>s_handle := h, s_stat := r, s_done := Suc (s_done s)\<rparr>)"
proof -
  have "\<forall>x\<in>set n. x \<noteq> 61" using assms by auto
  from while_split[OF this, of 61 v] show ?thesis by (simp add: do_set_def)
qed

lemmas cli_words = lit_def[of "''set''"] lit_def[of "''get''"] lit_def[of "''unset''"] lit_def[of "''commit''"]
  lit_def[of "''show''"] lit_def[of "''info''"]

lemma main_set_commit:
  assumes w: "w = \<lparr>w_mtd = Some dev, w_staging = None\<rparr>" "NVRAM_SPACE \<le> length dev"
    and o: "nvram_open dev = Inr h" and n: "clean (n, v)" "length v < NVRAM_SPACE"
    and f: "nv_fits (snd (nvram_set h n v))"
  obtains h' where "nvram_commit (snd (nvram_set h n v)) = Some h'"
    "nvram_main w [lit ''set'', n @ 61 # v, lit ''commit''] = Inr (0, \<lparr>w_mtd = Some (h_mmap h'), w_staging = None\<rparr>, [])"
    "length (h_mmap h') = length dev" "nvram_get h' n = Some v"
proof -
  let ?h = "snd (nvram_set h n v)"
  have c: "nv_clean ?h" "nv_inv h"
    using nvram_set_clean[OF nvram_open_clean(1)[OF o] n(1)] nvram_open_clean(1)[OF o] by (simp_all add: nv_clean_def)
  have mm: "h_mmap ?h = h_mmap h" by (auto simp: nvram_set_def Let_def split: option.splits)
  then have sp: "NVRAM_SPACE \<le> length (h_mmap ?h)" using nvram_open_clean(2,3)[OF o] by simp
  obtain h' where h': "nvram_commit ?h = Some h'" "nvram_get h' n = nvram_get ?h n"
    by (rule nvram_commit_get[OF c(1) f sp], rule that) (use nvram_set_get[OF c(2) n(2)] in auto)
  from mm have l: "length (h_mmap h') = length dev"
    using nvram_commit_mmap[OF h'(1)] commit_area_magic(1)[of ?h] nvram_open_clean(2)[OF o] w(2) by simp
  have s: "nvram_set h n v = (0, ?h)" using n(2) by (simp add: nvram_set_def nvram_realloc_def Let_def)
  have dev: "dev \<noteq> []" using w(2) NVRAM_SPACE_mod(2) by auto
  let ?stg = "clear_start \<lparr>w_mtd = Some dev, w_staging = Some dev\<rparr> dev"
  have stg: "length ?stg = length dev" by (simp add: clear_start_def Let_def)
  have "nvram_open_staging w = (Inr h, \<lparr>w_mtd = Some dev, w_staging = Some ?stg\<rparr>)"
    using w(1) o dev by (simp add: nvram_open_staging_def nvram_to_staging_def open_mapped_def)
  moreover have "do_set x (n @ 61 # v) = x\<lparr>s_handle := ?h, s_stat := 0, s_done := Suc (s_done x)\<rparr>"
    if "s_handle x = h" for x
    using n(1) do_set_pair[of n x v] that s by (auto simp: clean_def split: prod.splits)
  moreover have "wants_write [lit ''set'', n @ 61 # v, lit ''commit''] = Inr True" by simp
  ultimately have "nvram_main w [lit ''set'', n @ 61 # v, lit ''commit''] =
      finish True \<lparr>w_mtd = Some dev, w_staging = Some ?stg\<rparr>
        \<lparr>s_handle = ?h, s_stat = 0, s_done = Suc (Suc 0), s_commit = True, s_out = []\<rparr>"
    by (simp add: nvram_main_def cli_words)
  also have "\<dots> = Inr (0, \<lparr>w_mtd = Some (h_mmap h'), w_staging = None\<rparr>, [])"
    using h'(1) l dev stg by (simp add: finish_def staging_to_nvram_def)
  finally have "nvram_main w [lit ''set'', n @ 61 # v, lit ''commit''] =
      Inr (0, \<lparr>w_mtd = Some (h_mmap h'), w_staging = None\<rparr>, [])" .
  then show ?thesis using that h' l nvram_set_get[OF c(2) n(2), of n] by simp
qed

lemma main_get:
  assumes "nvram_open dev = Inr g" "nvram_get g n = Some v" "n \<notin> {lit ''set'', lit ''unset'', lit ''commit''}"
  shows "nvram_main \<lparr>w_mtd = Some dev, w_staging = None\<rparr> [lit ''get'', n]
    = Inr (0, \<lparr>w_mtd = Some dev, w_staging = None\<rparr>, [v])"
  using assms
  by (simp add: nvram_main_def cli_words nvram_open_rdonly_def open_mapped_def do_get_def finish_def)

text \<open>
  C2. \<open>nvram set name=value commit\<close> followed, in another process, by \<open>nvram get name\<close> prints the
  value, when the device holds a valid image with room for the variable. The name must
  not be one of the words \<open>set\<close>, \<open>unset\<close> and \<open>commit\<close>, which the first loop of \<open>main\<close> takes
  for commands.
\<close>

theorem nvram_cli_set_commit_get:
  assumes "w = \<lparr>w_mtd = Some dev, w_staging = None\<rparr>" "NVRAM_SPACE \<le> length dev" "nvram_open dev = Inr h"
    and "clean (n, v)" "length v < NVRAM_SPACE" "nv_fits (snd (nvram_set h n v))"
    and "n \<notin> {lit ''set'', lit ''unset'', lit ''commit''}"
  shows "\<exists>w'. nvram_main w [lit ''set'', n @ 61 # v, lit ''commit''] = Inr (0, w', []) \<and>
    nvram_main w' [lit ''get'', n] = Inr (0, w', [v])"
proof -
  obtain h' where h': "nvram_commit (snd (nvram_set h n v)) = Some h'"
      "nvram_main w [lit ''set'', n @ 61 # v, lit ''commit''] = Inr (0, \<lparr>w_mtd = Some (h_mmap h'), w_staging = None\<rparr>, [])"
      "nvram_get h' n = Some v"
    by (rule main_set_commit[OF assms(1-6)], rule that)
  obtain g where "nvram_open (h_mmap h') = Inr g" "nvram_get g n = Some v"
    using nvram_open_committed[OF h'(1)] h'(3) by auto
  from main_get[OF this assms(7)] h'(2) show ?thesis by blast
qed

text \<open>How much a table read from an image can hold, to see that there is room for more.\<close>

lemma entries_size_update:
  "i < length xs \<Longrightarrow> entries_size (concat (xs[i := ys])) + entries_size (xs ! i) = entries_size (concat xs) + entries_size ys"
  by (induction xs arbitrary: i) (auto split: nat.split)

lemma nvram_set_size:
  "nv_inv h \<Longrightarrow> entries_size (concat (nvram_hash (snd (nvram_set h n v)))) \<le>
   entries_size (concat (nvram_hash h)) + length (entry (n, v))"
proof -
  assume h: "nv_inv h"
  let ?ts = "nvram_hash h ! nv_index n"
  have i: "nv_index n < length (nvram_hash h)" using h by (simp add: nv_inv_def)
  have r: "entries_size (chain_replace ts n (n, v)) \<le> entries_size ts + length (entry (n, v))" for ts
    by (induction ts) auto
  have u: "entries_size (concat ((nvram_hash h)[nv_index n := ys])) \<le> entries_size (concat (nvram_hash h)) + length (entry (n, v))"
    if "entries_size ys \<le> entries_size ?ts + length (entry (n, v))" for ys
    using entries_size_update[OF i, of ys] that by linarith
  show ?thesis
    using u[OF r] u[of "(n, v) # ?ts"] by (cases "chain_find ?ts n") (simp_all add: nvram_set_def nvram_realloc_def Let_def)
qed

lemma update_all_size:
  "nv_inv h \<Longrightarrow> entries_size (concat (nvram_hash (nv.update_all kvs h))) \<le> entries_size (concat (nvram_hash h)) + entries_size kvs"
proof (induction kvs arbitrary: h)
  case (Cons kv kvs)
  obtain n v where kv: "kv = (n, v)" by fastforce
  show ?case
    using nvram_set_size[OF Cons.prems, of n v] Cons.IH[OF nvram_set_inv[OF Cons.prems], of n v] by (simp add: kv)
qed simp

lemma set_sdram_size:
  assumes "nv_inv h"
  shows "entries_size (concat (nvram_hash (set_sdram hdr h))) \<le> entries_size (concat (nvram_hash h)) + 81"
proof -
  have d: "entries_size (concat (nvram_hash (set_default n (sprintf_hex k x) g))) \<le>
      entries_size (concat (nvram_hash g)) + (length n + k + 4)" if "nv_inv g" for n k x g
    using nvram_set_size[OF that, of n "sprintf_hex k x"]
    by (simp add: set_default_def length_entry sprintf_hex_def lit_def)
  note i = assms set_default_inv
  have t: "a \<le> b + n \<Longrightarrow> b \<le> c + m \<Longrightarrow> a \<le> c + (n + m)" for a b c n m :: nat by simp
  note s = t[OF d t[OF d t[OF d d]]]
  show ?thesis unfolding set_sdram_def
    by (rule order_trans[OF s], (intro i)+) (simp add: lit_def)
qed

definition example_device :: bytes where
  "example_device = commit_area (one_var [65] [66])"

lemma example_device_open:
  obtains h where "nvram_open example_device = Inr h" "length example_device = NVRAM_SPACE"
    "nv_fits (snd (nvram_set h [67] [68]))"
proof -
  let ?o = "one_var [65] [66]"
  let ?g = "\<lparr>h_mmap = example_device, nvram_hash = replicate NVRAM_BUCKETS [], nvram_dead = []\<rparr>"
  have small: "length [66 :: u8] < NVRAM_SPACE" "Suc (Suc (Suc (Suc HEADER_SIZE))) \<le> NVRAM_SPACE - 2"
    by (simp_all add: NVRAM_SPACE_def HEADER_SIZE_def)
  obtain hdr us tail where s: "example_device = header_bytes hdr @ concat (map entry us) @ 0 # tail"
      "length example_device = NVRAM_SPACE"
      "HEADER_SIZE + entries_size (concat (nvram_hash ?o)) \<le> NVRAM_SPACE - 2 \<longrightarrow> us = concat (nvram_hash ?o)"
    by (rule commit_area_shape[of ?o], rule that) (simp_all only: example_device_def)
  have us: "us = [([65], [66])]" using s(3) small by (simp add: one_var_tuples entry_def)
  have area: "nvram_area ?g = example_device" using s(2) by (simp add: nvram_area_def)
  have "nv_parse (drop HEADER_SIZE example_device) = Some us"
    using nv_parse_entries[of us tail] by (simp add: s(1) us clean_def)
  then have "nvram_rehash ?g = Some (set_sdram (read_header example_device) (nv.update_all us (nv_free ?g)))"
    by (simp add: nvram_rehash_def area nv.update_all_def)
  then have o: "nvram_open example_device = Inr (set_sdram (read_header example_device) (nv.update_all us (nv_free ?g)))"
    using s(2) area commit_area_magic(2)[of ?o] by (simp add: nvram_open_def Let_def example_device_def)
  let ?u = "nv.update_all us (nv_free ?g)"
  let ?h = "set_sdram (read_header example_device) ?u"
  have u: "nv_inv ?u" by (rule nv.update_all_inv) simp
  have "entries_size (concat (nvram_hash (nv_free ?g))) = 0" by (simp add: nv_free_def)
  then have "entries_size (concat (nvram_hash ?h)) \<le> 85"
    using set_sdram_size[OF u, of "read_header example_device"] update_all_size[of "nv_free ?g" us]
    by (simp add: us entry_def)
  then have "nv_fits (snd (nvram_set ?h [67] [68]))"
    using nvram_set_size[OF set_sdram_inv[OF u], of "read_header example_device" "[67]" "[68]"]
    by (simp add: nv_fits_def entry_def HEADER_SIZE_def NVRAM_SPACE_def)
  then show ?thesis using that o s(2) by blast
qed

theorem nvram_cli_set_commit_get_witness:
  "\<exists>w'. nvram_main \<lparr>w_mtd = Some example_device, w_staging = None\<rparr> [lit ''set'', [67] @ 61 # [68], lit ''commit'']
      = Inr (0, w', []) \<and> nvram_main w' [lit ''get'', [67]] = Inr (0, w', [[68]])"
proof -
  obtain h where "nvram_open example_device = Inr h" "length example_device = NVRAM_SPACE"
    "nv_fits (snd (nvram_set h [67] [68]))" by (rule example_device_open)
  then show ?thesis
    by (intro nvram_cli_set_commit_get[OF refl]) (auto simp: clean_def NVRAM_SPACE_def lit_def)
qed

text \<open>
  A command that lacks its argument makes the tool read the null pointer at the end of
  the argument vector: \<open>++i < argc\<close> fails with \<open>i\<close> already moved, and the next comparison
  dereferences \<open>argv[argc]\<close>.
\<close>

theorem nvram_cli_missing_argument:
  "nvram_main w [lit ''set''] = Inl NullArgument \<and> nvram_main w [lit ''unset''] = Inl NullArgument"
  by (simp add: nvram_main_def cli_words)

end
