(* ===== verification/Siit_Packet.thy ===== *)
theory Siit_Packet
  imports NB_Prelude
begin

text \<open>
  What the two directions of the stateless IP/ICMP translator
  (\<open>openwrt/package/siit/src/siit.c\<close>) share: the results of an operation on packet memory,
  the fields of the protocol headers, and the kernel functions the module calls.

  Packet memory is a list of bytes in network order. \<open>rd\<close> and \<open>wr\<close> are the accesses
  through a pointer into it: outside the buffer they give \<open>BadRead\<close> and \<open>BadWrite\<close>, and a
  \<open>memcpy\<close> whose length would be negative gives \<open>BadLength\<close>, signed arithmetic that leaves the
  range of \<open>int\<close> gives \<open>Overflow\<close>. A packet the code drops with
  \<open>return -1\<close> is \<open>Dropped\<close>.
\<close>

datatype siit_error = Dropped | BadRead | BadWrite | BadLength | Overflow

type_synonym 'a result = "siit_error + 'a"

definition rd :: "bytes \<Rightarrow> nat \<Rightarrow> nat \<Rightarrow> bytes result" where
  "rd m off n = (if off + n \<le> length m then Inr (mem_read m off n) else Inl BadRead)"

definition wr :: "bytes \<Rightarrow> nat \<Rightarrow> bytes \<Rightarrow> bytes result" where
  "wr m off bs = (if off + length bs \<le> length m then Inr (mem_write m off bs) else Inl BadWrite)"

text \<open>The source of a \<open>memcpy\<close> of \<open>len - n\<close> bytes from \<open>src + n\<close>, for a buffer of \<open>len\<close> bytes.\<close>

definition rest_from :: "bytes \<Rightarrow> nat \<Rightarrow> bytes result" where
  "rest_from m n = (if n \<le> length m then Inr (drop n m) else Inl BadLength)"

section \<open>The kernel's checksums\<close>

text \<open>
  The checksum functions are the kernel's. They are given as functions on the bytes they
  are called with; the results are the numbers that stand in the packet.
\<close>

record kernel =
  k_csum_partial :: "bytes \<Rightarrow> u32 \<Rightarrow> u32"
  k_csum_ipv6_magic :: "bytes \<Rightarrow> bytes \<Rightarrow> nat \<Rightarrow> u8 \<Rightarrow> u32 \<Rightarrow> u16"
  k_csum_tcpudp_magic :: "bytes \<Rightarrow> bytes \<Rightarrow> nat \<Rightarrow> u8 \<Rightarrow> u32 \<Rightarrow> u16"
  k_ip_fast_csum :: "bytes \<Rightarrow> u16"
  k_ip_compute_csum :: "bytes \<Rightarrow> u16"

section \<open>Constants\<close>

definition FRAG_BUFF_SIZE :: nat where "FRAG_BUFF_SIZE = 1232"
definition TRANSLATED_PREFIX :: u32 where "TRANSLATED_PREFIX = 0x0000ffff"
definition MAPPED_PREFIX :: u32 where "MAPPED_PREFIX = 0x0000ffff"
definition IP4_IP6_HDR_DIFF :: nat where "IP4_IP6_HDR_DIFF = 20"
definition IP6_FRAGMENT_SIZE :: nat where "IP6_FRAGMENT_SIZE = 8"
definition IP6F_OFF_MASK :: u16 where "IP6F_OFF_MASK = 0xfff8"
definition IP6F_MORE_FRAG :: u16 where "IP6F_MORE_FRAG = 0x0001"
definition IP_DF :: u16 where "IP_DF = 0x4000"
definition IP_MF :: u16 where "IP_MF = 0x2000"
definition IP_OFFSET :: u16 where "IP_OFFSET = 0x1fff"

definition IPPROTO_ICMP :: u8 where "IPPROTO_ICMP = 1"
definition IPPROTO_TCP :: u8 where "IPPROTO_TCP = 6"
definition IPPROTO_UDP :: u8 where "IPPROTO_UDP = 17"
definition IPPROTO_ICMPV6 :: u8 where "IPPROTO_ICMPV6 = 58"
definition NEXTHDR_HOP :: u8 where "NEXTHDR_HOP = 0"
definition NEXTHDR_IPV6 :: u8 where "NEXTHDR_IPV6 = 41"
definition NEXTHDR_ROUTING :: u8 where "NEXTHDR_ROUTING = 43"
definition NEXTHDR_FRAGMENT :: u8 where "NEXTHDR_FRAGMENT = 44"
definition NEXTHDR_ESP :: u8 where "NEXTHDR_ESP = 50"
definition NEXTHDR_AUTH :: u8 where "NEXTHDR_AUTH = 51"
definition NEXTHDR_NONE :: u8 where "NEXTHDR_NONE = 59"
definition NEXTHDR_DEST :: u8 where "NEXTHDR_DEST = 60"

lemmas ip_constants = IP_DF_def IP_MF_def IP_OFFSET_def IPPROTO_ICMP_def IPPROTO_TCP_def IPPROTO_UDP_def
  IPPROTO_ICMPV6_def NEXTHDR_HOP_def NEXTHDR_IPV6_def NEXTHDR_ROUTING_def NEXTHDR_FRAGMENT_def
  NEXTHDR_ESP_def NEXTHDR_AUTH_def NEXTHDR_NONE_def NEXTHDR_DEST_def

section \<open>Header fields\<close>

definition field16 :: "bytes \<Rightarrow> nat \<Rightarrow> u16" where
  "field16 m off = of_be16 (mem_read m off 2)"

definition field32 :: "bytes \<Rightarrow> nat \<Rightarrow> u32" where
  "field32 m off = of_be32 (mem_read m off 4)"

record iphdr =
  version_ihl :: u8
  tos :: u8
  tot_len :: u16
  ip_id :: u16
  frag_off :: u16
  ttl :: u8
  protocol :: u8
  ip_check :: u16
  ip_saddr :: bytes
  ip_daddr :: bytes

definition read_iphdr :: "bytes \<Rightarrow> iphdr" where
  "read_iphdr m = \<lparr>version_ihl = m ! 0, tos = m ! 1, tot_len = field16 m 2, ip_id = field16 m 4,
     frag_off = field16 m 6, ttl = m ! 8, protocol = m ! 9, ip_check = field16 m 10,
     ip_saddr = mem_read m 12 4, ip_daddr = mem_read m 16 4\<rparr>"

definition iphdr_bytes :: "iphdr \<Rightarrow> bytes" where
  "iphdr_bytes h = [version_ihl h, tos h] @ be16 (tot_len h) @ be16 (ip_id h) @ be16 (frag_off h) @
     [ttl h, protocol h] @ be16 (ip_check h) @ ip_saddr h @ ip_daddr h"

text \<open>\<open>ihl * 4\<close>\<close>

definition hdr_len_of :: "iphdr \<Rightarrow> nat" where
  "hdr_len_of h = unat (version_ihl h AND 0x0f) * 4"

record ipv6hdr =
  vtc :: u8
  flow0 :: u8
  flow1 :: u8
  flow2 :: u8
  payload_len :: u16
  nexthdr :: u8
  hop_limit :: u8
  saddr :: bytes
  daddr :: bytes

definition read_ipv6hdr :: "bytes \<Rightarrow> ipv6hdr" where
  "read_ipv6hdr m = \<lparr>vtc = m ! 0, flow0 = m ! 1, flow1 = m ! 2, flow2 = m ! 3, payload_len = field16 m 4,
     nexthdr = m ! 6, hop_limit = m ! 7, saddr = mem_read m 8 16, daddr = mem_read m 24 16\<rparr>"

definition ipv6hdr_bytes :: "ipv6hdr \<Rightarrow> bytes" where
  "ipv6hdr_bytes h = [vtc h, flow0 h, flow1 h, flow2 h] @ be16 (payload_len h) @
     [nexthdr h, hop_limit h] @ saddr h @ daddr h"

record frag_hdr =
  f_nexthdr :: u8
  f_reserved :: u8
  f_frag_off :: u16
  f_identification :: u32

definition read_frag_hdr :: "bytes \<Rightarrow> frag_hdr" where
  "read_frag_hdr m = \<lparr>f_nexthdr = m ! 0, f_reserved = m ! 1, f_frag_off = field16 m 2, f_identification = field32 m 4\<rparr>"

definition frag_hdr_bytes :: "frag_hdr \<Rightarrow> bytes" where
  "frag_hdr_bytes f = [f_nexthdr f, f_reserved f] @ be16 (f_frag_off f) @ be32 (f_identification f)"

lemma length_frag_hdr_bytes [simp]: "length (frag_hdr_bytes f) = 8"
  by (simp add: frag_hdr_bytes_def)

lemma length_ipv6hdr_bytes [simp]:
  "length (saddr h) = 16 \<Longrightarrow> length (daddr h) = 16 \<Longrightarrow> length (ipv6hdr_bytes h) = 40"
  by (simp add: ipv6hdr_bytes_def)

lemma length_iphdr_bytes [simp]:
  "length (ip_saddr h) = 4 \<Longrightarrow> length (ip_daddr h) = 4 \<Longrightarrow> length (iphdr_bytes h) = 20"
  by (simp add: iphdr_bytes_def)

lemma be16_2: "\<exists>a b. be16 w = [a, b]"
  by (simp add: be16_def le16_def)

lemma be32_4: "\<exists>a b c d. be32 w = [a, b, c, d]"
  by (simp add: be32_def le32_def)

lemma read_iphdr_bytes:
  assumes "length (ip_saddr h) = 4" "length (ip_daddr h) = 4"
  shows "read_iphdr (iphdr_bytes h @ rest) = h"
proof -
  have "be16 w = [be16 w ! 0, be16 w ! 1]" for w by (simp add: be16_def le16_def)
  then have "read_iphdr (iphdr_bytes h @ rest) = h\<lparr>tot_len := of_be16 (be16 (tot_len h)),
      ip_id := of_be16 (be16 (ip_id h)), frag_off := of_be16 (be16 (frag_off h)), ip_check := of_be16 (be16 (ip_check h))\<rparr>"
    using assms by (simp add: read_iphdr_def iphdr_bytes_def field16_def mem_read_def nth_append)
  then show ?thesis by simp
qed

lemma read_ipv6hdr_bytes:
  assumes "length (saddr h) = 16" "length (daddr h) = 16"
  shows "read_ipv6hdr (ipv6hdr_bytes h @ rest) = h"
  using assms by (simp add: read_ipv6hdr_def ipv6hdr_bytes_def field16_def mem_read_def nth_append)

lemma read_frag_hdr_bytes: "read_frag_hdr (frag_hdr_bytes f @ rest) = f"
  by (simp add: read_frag_hdr_def frag_hdr_bytes_def field16_def field32_def mem_read_def nth_append)

text \<open>The IPv6 address with the prefix \<open>::ffff:0:0/96\<close> and an IPv4 address.\<close>

definition v6_addr :: "u32 \<Rightarrow> bytes \<Rightarrow> bytes" where
  "v6_addr prefix a = replicate 8 0 @ be32 prefix @ a"

definition addr_prefix :: "bytes \<Rightarrow> u32" where
  "addr_prefix a = field32 a 8"

definition addr_v4 :: "bytes \<Rightarrow> bytes" where
  "addr_v4 a = mem_read a 12 4"

lemma v6_addr_parts [simp]:
  assumes "length a = 4"
  shows "length (v6_addr p a) = 16" "addr_prefix (v6_addr p a) = p" "addr_v4 (v6_addr p a) = a"
  using assms by (simp_all add: v6_addr_def addr_prefix_def addr_v4_def field32_def mem_read_def)

end
