(* ===== verification/Siit_V4.thy ===== *)
theory Siit_V4
  imports Siit_Packet
begin

text \<open>
  The translation of an IPv4 packet to IPv6, \<open>ip4_ip6\<close> of \<open>openwrt/package/siit/src/siit.c\<close>.
  \<open>src\<close> is the packet, from its first byte to the end of the buffer, so that the argument
  \<open>len\<close> of the code is its length; \<open>dst\<close> is the destination memory and \<open>off\<close> the offset of
  the pointer into it. The function calls itself once, on the packet an ICMP error message
  includes, and that call never recurses, because ICMP inside ICMP is dropped.
\<close>

section \<open>The IPv6 header and the fragment header\<close>

definition fr_flag :: "bool \<Rightarrow> iphdr \<Rightarrow> bool" where
  "fr_flag include h \<longleftrightarrow> \<not> (frag_off h = IP_DF \<or> include)"

definition fr_size :: "bool \<Rightarrow> nat" where
  "fr_size fr = (if fr then 8 else 0)"

definition upper_proto :: "iphdr \<Rightarrow> u8" where
  "upper_proto h = (if protocol h = IPPROTO_ICMP then IPPROTO_ICMPV6 else protocol h)"

definition new_frag_hdr :: "iphdr \<Rightarrow> frag_hdr" where
  "new_frag_hdr h = \<lparr>f_nexthdr = upper_proto h, f_reserved = 0,
     f_frag_off = push_bit 3 (frag_off h AND IP_OFFSET) OR drop_bit 13 (frag_off h AND IP_MF),
     f_identification = ucast (ip_id h)\<rparr>"

definition new_tot_len :: "bool \<Rightarrow> iphdr \<Rightarrow> u16" where
  "new_tot_len fr h = (if fr then tot_len h + 8 else tot_len h)"

definition new_plen :: "bool \<Rightarrow> iphdr \<Rightarrow> int" where
  "new_plen fr h = uint (new_tot_len fr h) - int (hdr_len_of h)"

definition new_ipv6hdr :: "bool \<Rightarrow> bool \<Rightarrow> bool \<Rightarrow> iphdr \<Rightarrow> ipv6hdr" where
  "new_ipv6hdr tos_ignore fr include h =
     \<lparr>vtc = 0x60 OR (if tos_ignore then 0 else drop_bit 4 (tos h AND 0xf0)),
      flow0 = (if tos_ignore then 0 else push_bit 4 (tos h AND 0x0f)), flow1 = 0, flow2 = 0,
      payload_len = word_of_int (new_plen fr h),
      nexthdr = (if fr then NEXTHDR_FRAGMENT else upper_proto h), hop_limit = ttl h,
      saddr = v6_addr (if include then TRANSLATED_PREFIX else MAPPED_PREFIX) (ip_saddr h),
      daddr = v6_addr (if include then MAPPED_PREFIX else TRANSLATED_PREFIX) (ip_daddr h)\<rparr>"

section \<open>ICMP\<close>

text \<open>
  The switch on the type and code of an ICMPv4 header \<open>h\<close>, of which two bytes are known to
  be there. An error message gets a header of eight bytes, in which those the code does
  not assign keep the contents \<open>old\<close> of the destination; an echo message gets a type, and the
  bytes from the fourth on are copied with its data. The checksum is filled in later.
\<close>

datatype icmp6_out = Icmp_error bytes | Icmp_echo u8

definition icmp4_unreach :: "bytes \<Rightarrow> bytes \<Rightarrow> bytes result" where
  "icmp4_unreach h old =
     (let code = h ! 1 in
      if code \<in> {0, 1, 5, 6, 7, 8, 11, 12} then Inr ([1, 0] @ mem_read old 2 2 @ [0, 0, 0, 0])
      else if code = 2 then Inr ([4, 1] @ mem_read old 2 2 @ be32 6)
      else if code = 3 then Inr ([1, 4] @ mem_read old 2 2 @ [0, 0, 0, 0])
      else if code = 4 then
        (if length h < 8 then Inl BadRead
         else Inr ([2, 0] @ mem_read old 2 2 @
           be32 (if field16 h 6 = 0 then 576 else ucast (field16 h 6) + 20)))
      else if code = 9 \<or> code = 10 then Inr ([1, 1] @ mem_read old 2 2 @ [0, 0, 0, 0])
      else Inl Dropped)"

definition icmp4_pointer :: "u8 \<Rightarrow> u32" where
  "icmp4_pointer p = (if p = 0 then 0 else if p = 2 then 4 else if p = 8 then 7 else if p = 9 then 6
     else if p = 12 then 8 else if p = 16 then 24 else 0xffffffff)"

definition icmp4_header :: "bytes \<Rightarrow> bytes \<Rightarrow> icmp6_out result" where
  "icmp4_header h old =
     (let type = h ! 0; code = h ! 1 in
      if type = 3 then rbind (icmp4_unreach h old) (\<lambda>x. Inr (Icmp_error x))
      else if type = 11 then Inr (Icmp_error ([3, code] @ drop 2 old))
      else if type = 12 then
        (if length h < 6 then Inl BadRead
         else Inr (Icmp_error ([4, code] @ mem_read old 2 2 @ be32 (icmp4_pointer (h ! 4)))))
      else if type = 8 then Inr (Icmp_echo 128)
      else if type = 0 then Inr (Icmp_echo 129)
      else Inl Dropped)"

text \<open>The checksum of \<open>n\<close> bytes at offset \<open>p\<close>, computed with a zero in its place and stored.\<close>

definition store_csum6 :: "kernel \<Rightarrow> ipv6hdr \<Rightarrow> u8 \<Rightarrow> bytes \<Rightarrow> nat \<Rightarrow> nat \<Rightarrow> int \<Rightarrow> bytes result" where
  "store_csum6 k h6 proto d p coff n =
     rbind (wr d (p + coff) [0, 0]) (\<lambda>d.
     rbind (if n < 0 then Inl BadRead else rd d p (nat n)) (\<lambda>dat.
     wr d (p + coff) (be16 (k_csum_ipv6_magic k (saddr h6) (daddr h6) (nat n) proto (k_csum_partial k dat 0)))))"

definition ip4_icmp ::
  "(bytes \<Rightarrow> bytes \<Rightarrow> nat \<Rightarrow> bytes result) \<Rightarrow> kernel \<Rightarrow> bool \<Rightarrow> iphdr \<Rightarrow> ipv6hdr \<Rightarrow>
   bytes \<Rightarrow> bytes \<Rightarrow> nat \<Rightarrow> bool \<Rightarrow> bytes result" where
  "ip4_icmp inner k include h h6 src d off fr =
     (if frag_off h AND IP_OFFSET \<noteq> 0 \<or> frag_off h AND IP_MF \<noteq> 0 then Inl Dropped
      else if include then Inl Dropped
      else
        let hl = hdr_len_of h; p = off + 40 + fr_size fr;
            icmp_len = int (unat (tot_len h)) - int hl
        in rbind (rd src hl 2) (\<lambda>_.
           rbind (if p + 8 \<le> length d then Inr (mem_read d p 8) else Inl BadWrite) (\<lambda>old.
           rbind (icmp4_header (mem_read src hl 8) old) (\<lambda>out.
           case out of
             Icmp_error hdr6 \<Rightarrow>
               rbind (wr d p hdr6) (\<lambda>d.
               rbind (inner (drop (hl + 8) src) d (p + 8)) (\<lambda>d.
               rbind (wr d (off + 4) (be16 (word_of_int (new_plen fr h + 20)))) (\<lambda>d.
               store_csum6 k h6 IPPROTO_ICMPV6 d p 2 (icmp_len + 20))))
           | Icmp_echo type6 \<Rightarrow>
               rbind (wr d p [type6, 0]) (\<lambda>d.
               rbind (rest_from src (hl + 4)) (\<lambda>dat.
               rbind (wr d (p + 4) dat) (\<lambda>d.
               store_csum6 k h6 IPPROTO_ICMPV6 d p 2 icmp_len)))))))"

section \<open>UDP\<close>

definition ip4_udp ::
  "kernel \<Rightarrow> bool \<Rightarrow> iphdr \<Rightarrow> ipv6hdr \<Rightarrow> bytes \<Rightarrow> bytes \<Rightarrow> nat \<Rightarrow> bool \<Rightarrow> bytes result" where
  "ip4_udp k include h h6 src d off fr =
     (let hl = hdr_len_of h; p = off + 40 + fr_size fr in
      rbind (if frag_off h AND IP_OFFSET = 0
             then rbind (rd src hl 8) (\<lambda>udp.
               if field16 udp 6 = 0
               then (if frag_off h AND IP_MF \<noteq> 0 then Inl Dropped else Inr True)
               else Inr False)
             else Inr False) (\<lambda>fl_csum.
      rbind (rest_from src hl) (\<lambda>dat.
      rbind (wr d p dat) (\<lambda>d.
      if fl_csum \<and> \<not> include
      then store_csum6 k h6 IPPROTO_UDP d p 6 (new_plen fr h - int (fr_size fr))
      else Inr d))))"

section \<open>The translation\<close>

definition ip4_ip6_step ::
  "(bytes \<Rightarrow> bytes \<Rightarrow> nat \<Rightarrow> bytes result) \<Rightarrow> kernel \<Rightarrow> bool \<Rightarrow> bool \<Rightarrow> bytes \<Rightarrow> bytes \<Rightarrow> nat \<Rightarrow> bytes result" where
  "ip4_ip6_step inner k tos_ignore include src dst off =
     rbind (rd src 0 20) (\<lambda>hb.
     let h = read_iphdr hb; fr = fr_flag include h; h6 = new_ipv6hdr tos_ignore fr include h in
     rbind (if fr then wr dst (off + 40) (frag_hdr_bytes (new_frag_hdr h)) else Inr dst) (\<lambda>d.
     rbind (wr d off (ipv6hdr_bytes h6)) (\<lambda>d.
     if protocol h = IPPROTO_ICMP then ip4_icmp inner k include h h6 src d off fr
     else if protocol h = IPPROTO_TCP then
       rbind (rest_from src (hdr_len_of h)) (\<lambda>dat. wr d (off + 40 + fr_size fr) dat)
     else if protocol h = IPPROTO_UDP then ip4_udp k include h h6 src d off fr
     else Inl Dropped)))"

definition ip4_ip6 :: "kernel \<Rightarrow> bool \<Rightarrow> bool \<Rightarrow> bytes \<Rightarrow> bytes \<Rightarrow> nat \<Rightarrow> bytes result" where
  "ip4_ip6 k tos_ignore =
     ip4_ip6_step (ip4_ip6_step (\<lambda>_ _ _. Inl Dropped) k tos_ignore True) k tos_ignore"

text \<open>An included packet never calls the translation again, so this is the recursion of the code.\<close>

lemma ip4_ip6_included:
  "ip4_ip6_step inner k tos_ignore True = ip4_ip6_step inner' k tos_ignore True"
proof -
  have "ip4_icmp inner k True = ip4_icmp inner' k True" by (simp add: ip4_icmp_def fun_eq_iff)
  then have "ip4_ip6_step inner k tos_ignore True src dst off = ip4_ip6_step inner' k tos_ignore True src dst off"
    for src dst off unfolding ip4_ip6_step_def by (simp only:)
  then show ?thesis by (intro ext)
qed

lemma ip4_ip6_rec:
  "ip4_ip6 k tos_ignore include src dst off =
   ip4_ip6_step (ip4_ip6 k tos_ignore True) k tos_ignore include src dst off"
  unfolding ip4_ip6_def using ip4_ip6_included by metis

end
