(* ===== verification/Siit_V6.thy ===== *)
theory Siit_V6
  imports Siit_Packet
begin

text \<open>
  The translation of an IPv6 packet to IPv4, \<open>ip6_ip4\<close> of \<open>openwrt/package/siit/src/siit.c\<close>:
  the walk over the extension headers, the new header, and the ICMPv6 messages. As in the
  other direction the length of \<open>src\<close> is the argument \<open>len\<close>, and \<open>off\<close> is where the pointer
  \<open>dst\<close> stands in the destination memory.

  Two places of the code store a number in host byte order, so the model has the byte order of
  the machine as the argument \<open>big_endian\<close>. The tests \<open>(len_delta - sizeof (...)) >= 0\<close> compare an
  unsigned difference and always succeed; they do not appear in the model.
\<close>

section \<open>Extension headers\<close>

text \<open>The variables the walk over the extension headers changes.\<close>

record ext_state =
  len_delta :: int
  opts_len :: nat
  next_hdr :: u8
  x_id :: u16
  x_frag_off :: u16

definition opt_hdr_len :: "u8 \<Rightarrow> nat" where
  "opt_hdr_len hdrlen = unat hdrlen * 8 + 8"

definition skip_ext :: "nat \<Rightarrow> u8 \<Rightarrow> ext_state \<Rightarrow> ext_state" where
  "skip_ext n nh st = st\<lparr>len_delta := len_delta st - int n, opts_len := opts_len st + n, next_hdr := nh\<rparr>"

definition hop_by_hop :: "bytes \<Rightarrow> ext_state \<Rightarrow> ext_state result" where
  "hop_by_hop src st =
     (if next_hdr st = NEXTHDR_HOP then
        rbind (rd src (40 + opts_len st) 2) (\<lambda>opt.
        let n = opt_hdr_len (opt ! 1) in
        if int n \<le> len_delta st then Inr (skip_ext n (opt ! 0) st) else Inl Dropped)
      else Inr st)"

text \<open>
  A destination options header that is longer than the rest of the packet is not skipped and
  not refused: only \<open>len_delta\<close> goes down.
\<close>

definition dest_options :: "bytes \<Rightarrow> ext_state \<Rightarrow> ext_state result" where
  "dest_options src st =
     rbind (rd src (40 + opts_len st) 2) (\<lambda>opt.
     let n = opt_hdr_len (opt ! 1) in
     if int n \<le> len_delta st then Inr (skip_ext n (opt ! 0) st)
     else if len_delta st - int n < - (2 ^ 31) then Inl Overflow
     else Inr (st\<lparr>len_delta := len_delta st - int n\<rparr>))"

definition routing_hdr :: "bytes \<Rightarrow> ext_state \<Rightarrow> ext_state result" where
  "routing_hdr src st =
     rbind (rd src (40 + opts_len st) 4) (\<lambda>opt.
     let n = opt_hdr_len (opt ! 1) in
     if opt ! 3 \<noteq> 0 then Inl Dropped
     else if int n \<le> len_delta st then Inr (skip_ext n (opt ! 0) st) else Inl Dropped)"

definition fragment_hdr :: "bytes \<Rightarrow> ext_state \<Rightarrow> ext_state result" where
  "fragment_hdr src st =
     (if 8 \<le> len_delta st then
        rbind (rd src (40 + opts_len st) 8) (\<lambda>opt.
        let f = read_frag_hdr opt in
        Inr ((skip_ext 8 (f_nexthdr f) st)
          \<lparr>x_id := ucast (f_identification f),
           x_frag_off := drop_bit 3 (f_frag_off f AND IP6F_OFF_MASK) OR
                         push_bit 13 (f_frag_off f AND IP6F_MORE_FRAG)\<rparr>))
      else Inl Dropped)"

lemma opt_hdr_len_pos [simp]: "0 < opt_hdr_len n" "opt_hdr_len n \<noteq> 0"
  by (simp_all add: opt_hdr_len_def)

lemma dest_options_decreases:
  "dest_options src st = Inr st' \<Longrightarrow>
   len_delta st' < len_delta st \<and> (0 \<le> len_delta st' \<or> - (2 ^ 31) \<le> len_delta st')"
  by (auto simp: dest_options_def rbind_Inr skip_ext_def Let_def split: if_splits)

lemma routing_hdr_decreases:
  "routing_hdr src st = Inr st' \<Longrightarrow> len_delta st' < len_delta st \<and> 0 \<le> len_delta st'"
  by (auto simp: routing_hdr_def rbind_Inr skip_ext_def Let_def split: if_splits)

lemma fragment_hdr_decreases:
  "fragment_hdr src st = Inr st' \<Longrightarrow> len_delta st' < len_delta st \<and> 0 \<le> len_delta st'"
  by (auto simp: fragment_hdr_def rbind_Inr skip_ext_def Let_def split: if_splits)

function ext_loop :: "bytes \<Rightarrow> ext_state \<Rightarrow> ext_state result" where
  "ext_loop src st =
     (if next_hdr st = IPPROTO_ICMPV6 \<or> next_hdr st = IPPROTO_TCP \<or> next_hdr st = IPPROTO_UDP then Inr st
      else if next_hdr st = NEXTHDR_DEST then rbind (dest_options src st) (ext_loop src)
      else if next_hdr st = NEXTHDR_ROUTING then rbind (routing_hdr src st) (ext_loop src)
      else if next_hdr st = NEXTHDR_FRAGMENT then rbind (fragment_hdr src st) (ext_loop src)
      else if next_hdr st = NEXTHDR_NONE then Inr st
      else Inl Dropped)"
  by pat_completeness auto
termination
  by (relation "measure (\<lambda>(src, st). nat (len_delta st + 2 ^ 31))")
    (auto dest!: dest_options_decreases routing_hdr_decreases fragment_hdr_decreases)

declare ext_loop.simps [simp del]

definition ext_headers :: "bytes \<Rightarrow> ext_state \<Rightarrow> ext_state result" where
  "ext_headers src st =
     rbind (hop_by_hop src st) (\<lambda>st. if 0 < len_delta st then ext_loop src st else Inr st)"

section \<open>The IPv4 header\<close>

definition addresses_ok :: "bool \<Rightarrow> ipv6hdr \<Rightarrow> bool" where
  "addresses_ok include h6 \<longleftrightarrow>
     addr_prefix (saddr h6) = (if include then MAPPED_PREFIX else TRANSLATED_PREFIX) \<and>
     addr_prefix (daddr h6) = (if include then TRANSLATED_PREFIX else MAPPED_PREFIX)"

definition new_ntot_len :: "ipv6hdr \<Rightarrow> ext_state \<Rightarrow> int" where
  "new_ntot_len h6 st =
     (if payload_len h6 = 0 then 0 else uint (payload_len h6) + int IP4_IP6_HDR_DIFF - int (opts_len st))"

definition set_check :: "kernel \<Rightarrow> iphdr \<Rightarrow> iphdr" where
  "set_check k h = h\<lparr>ip_check := k_ip_fast_csum k (iphdr_bytes (h\<lparr>ip_check := 0\<rparr>))\<rparr>"

definition new_iphdr :: "bool \<Rightarrow> ipv6hdr \<Rightarrow> ext_state \<Rightarrow> iphdr" where
  "new_iphdr tos_ignore h6 st =
     \<lparr>version_ihl = 0x45,
      tos = (if tos_ignore then 0 else push_bit 4 (vtc h6 AND 0x0f) OR drop_bit 4 (flow0 h6)),
      tot_len = word_of_int (new_ntot_len h6 st), ip_id = x_id st, frag_off = x_frag_off st,
      ttl = hop_limit h6, protocol = next_hdr st, ip_check = 0,
      ip_saddr = addr_v4 (saddr h6), ip_daddr = addr_v4 (daddr h6)\<rparr>"

section \<open>ICMP\<close>

text \<open>A number in host byte order stored as two bytes.\<close>

definition host16 :: "bool \<Rightarrow> u16 \<Rightarrow> bytes" where
  "host16 big_endian w = (if big_endian then be16 w else le16 w)"

definition icmp6_pointer :: "u32 \<Rightarrow> u16" where
  "icmp6_pointer p = (if p = 0 then 0 else if p = 4 then 2 else if p = 6 then 9 else if p = 7 then 8
     else if p = 8 then 12 else if p = 24 then 16 else 0xff)"

text \<open>
  The switch on the ICMPv6 type: whether the message is an error, and the eight bytes of the new
  header. \<open>old\<close> is what the destination memory held; the bytes no assignment reaches keep it, the
  checksum is filled in later. The MTU of a \<open>Packet Too Big\<close> is the low half of the number
  as the machine reads it.
\<close>

definition icmp6_header :: "bool \<Rightarrow> bytes \<Rightarrow> bytes \<Rightarrow> (bool \<times> bytes) result" where
  "icmp6_header big_endian h old =
     (let type = h ! 0; code = h ! 1; old_csum = mem_read old 2 2 in
      if type = 1 then
        (if code = 0 \<or> code = 2 \<or> code = 3 then Inr (True, [3, 1] @ old_csum @ [0, 0, 0, 0])
         else if code = 1 then Inr (True, [3, 10] @ old_csum @ [0, 0, 0, 0])
         else if code = 4 then Inr (True, [3, 3] @ old_csum @ [0, 0, 0, 0])
         else Inl Dropped)
      else if type = 2 then
        Inr (True, [3, 4] @ old_csum @ mem_read old 4 2 @ mem_read h (if big_endian then 6 else 4) 2)
      else if type = 3 then Inr (True, [11, code] @ drop 2 old)
      else if type = 4 then
        (if code = 1 then Inr (True, [3, 2] @ drop 2 old)
         else Inr (True, [12, 0] @ old_csum @ host16 big_endian (icmp6_pointer (field32 h 4)) @ mem_read old 6 2))
      else if type = 128 then Inr (False, [8, 0] @ old_csum @ mem_read h 4 4)
      else if type = 129 then Inr (False, [0, 0] @ old_csum @ mem_read h 4 4)
      else Inl Dropped)"

text \<open>\<open>memcpy\<close> of \<open>n\<close> bytes at \<open>soff\<close> to \<open>doff\<close>, when there is anything to copy.\<close>

definition copy_rest :: "bytes \<Rightarrow> nat \<Rightarrow> int \<Rightarrow> bytes \<Rightarrow> nat \<Rightarrow> bytes result" where
  "copy_rest src soff n d doff =
     (if n \<le> 0 then Inr d else rbind (rd src soff (nat n)) (\<lambda>dat. wr d doff dat))"

text \<open>
  The packet an error message includes: what is written, the length of its extension headers and
  whether the header of the outer packet shrinks with it. \<open>n\<close> is the value of \<open>len_delta\<close>.
\<close>

definition icmp6_included ::
  "(bytes \<Rightarrow> bytes \<Rightarrow> nat \<Rightarrow> (bytes \<times> int) result) \<Rightarrow> bytes \<Rightarrow> nat \<Rightarrow> int \<Rightarrow> bytes \<Rightarrow> nat \<Rightarrow> (bytes \<times> int) result" where
  "icmp6_included inner src p n d off =
     (if 40 \<le> n
      then rbind (rd src p (nat n)) (\<lambda>pkt.
           rbind (inner pkt d off) (\<lambda>(d, inc_opts_len). Inr (d, inc_opts_len + int IP4_IP6_HDR_DIFF)))
      else rbind (copy_rest src p n d off) (\<lambda>d. Inr (d, 0)))"

definition icmp_csum :: "kernel \<Rightarrow> bytes \<Rightarrow> nat \<Rightarrow> int \<Rightarrow> bytes result" where
  "icmp_csum k d off n =
     (if n < 0 then Inl BadLength
      else rbind (wr d (off + 2) [0, 0]) (\<lambda>d.
           rbind (rd d off (nat n)) (\<lambda>dat.
           wr d (off + 2) (be16 (k_ip_compute_csum k dat)))))"

definition ip6_icmp ::
  "(bytes \<Rightarrow> bytes \<Rightarrow> nat \<Rightarrow> (bytes \<times> int) result) \<Rightarrow> kernel \<Rightarrow> bool \<Rightarrow> bool \<Rightarrow> iphdr \<Rightarrow> int \<Rightarrow>
   ext_state \<Rightarrow> bytes \<Rightarrow> bytes \<Rightarrow> nat \<Rightarrow> (bytes \<times> int) result" where
  "ip6_icmp inner k big_endian include h ntot_len st src d off =
     (let n = len_delta st - 8; p = 40 + opts_len st in
      if n < 0 then Inl Dropped
      else
        rbind (rd src p 8) (\<lambda>h6.
        if include \<and> h6 ! 0 \<noteq> 128 then Inl Dropped
        else
          rbind (if off + 28 \<le> length d then Inr (mem_read d (off + 20) 8) else Inl BadWrite) (\<lambda>old.
          rbind (icmp6_header big_endian h6 old) (\<lambda>(icmperr, hdr).
          rbind (wr d (off + 20) hdr) (\<lambda>d.
          rbind (if icmperr then icmp6_included inner src (p + 8) n d (off + 28)
                 else rbind (copy_rest src (p + 8) n d (off + 28)) (\<lambda>d. Inr (d, 0))) (\<lambda>(d, less).
          let tl = word_of_int (if ntot_len = 0 then 0 else ntot_len - less);
              h = set_check k (h\<lparr>protocol := IPPROTO_ICMP, tot_len := tl\<rparr>) in
          rbind (wr d off (iphdr_bytes h)) (\<lambda>d.
          rbind (if ntot_len = 0 then Inr d else icmp_csum k d (off + 20) (uint tl - 20)) (\<lambda>d.
          Inr (d, 28 + n - less)))))))))"

section \<open>The translation\<close>

definition ip6_ip4_step ::
  "(bytes \<Rightarrow> bytes \<Rightarrow> nat \<Rightarrow> (bytes \<times> int) result) \<Rightarrow> kernel \<Rightarrow> bool \<Rightarrow> bool \<Rightarrow> bool \<Rightarrow>
   bytes \<Rightarrow> bytes \<Rightarrow> nat \<Rightarrow> (bytes \<times> int) result" where
  "ip6_ip4_step inner k big_endian tos_ignore include src dst off =
     (if length src < 40 then Inl Dropped
      else
        let h6 = read_ipv6hdr src in
        if \<not> addresses_ok include h6 then Inl Dropped
        else
          rbind (ext_headers src \<lparr>len_delta = int (length src) - 40, opts_len = 0, next_hdr = nexthdr h6,
                   x_id = 0, x_frag_off = 0\<rparr>) (\<lambda>st.
          let h = new_iphdr tos_ignore h6 st in
          rbind (wr dst off (iphdr_bytes (set_check k h))) (\<lambda>d.
          rbind (if len_delta st \<le> 0 then Inr (d, 20)
                 else if next_hdr st = IPPROTO_ICMPV6
                 then ip6_icmp inner k big_endian include h (new_ntot_len h6 st) st src d off
                 else rbind (copy_rest src (40 + opts_len st) (len_delta st) d (off + 20)) (\<lambda>d.
                      Inr (d, 20 + len_delta st))) (\<lambda>(d, real_len).
          Inr (d, if include then int (opts_len st) else real_len)))))"

definition ip6_ip4 ::
  "kernel \<Rightarrow> bool \<Rightarrow> bool \<Rightarrow> bool \<Rightarrow> bytes \<Rightarrow> bytes \<Rightarrow> nat \<Rightarrow> (bytes \<times> int) result" where
  "ip6_ip4 k big_endian tos_ignore =
     ip6_ip4_step (ip6_ip4_step (\<lambda>_ _ _. Inl Dropped) k big_endian tos_ignore True) k big_endian tos_ignore"

end
