(* ===== verification/Siit_Xmit.thy ===== *)
theory Siit_Xmit
  imports Siit_V4 Siit_V6
begin

text \<open>
  The transmit function of the SIIT device and the fragmentation of large IPv4 packets,
  \<open>siit_xmit\<close> and \<open>ip4_fragment\<close> of \<open>openwrt/package/siit/src/siit.c\<close>. The state is the device
  statistics, the buffers handed to \<open>netif_rx\<close>, and counters of the socket buffers that were
  allocated and freed. \<open>dev_alloc_skb\<close> is a parameter: given the number of the allocation and
  a size it fails or gives the (uninitialised) memory.
\<close>

definition ETH_HLEN :: nat where "ETH_HLEN = 14"
definition ETH_P_IP :: u16 where "ETH_P_IP = 0x0800"
definition ETH_P_IPV6 :: u16 where "ETH_P_IPV6 = 0x86dd"

record net_device_stats =
  rx_packets :: u32
  tx_packets :: u32
  rx_bytes :: u32
  tx_bytes :: u32
  rx_errors :: u32
  tx_errors :: u32
  rx_dropped :: u32

text \<open>A socket buffer: its protocol, the hardware header, and the data after it was pulled.\<close>

record sk_buff =
  skb_protocol :: u16
  skb_mac :: bytes
  skb_data :: bytes

record siit_state =
  stats :: net_device_stats
  rx_queue :: "sk_buff list"
  allocated :: nat
  freed :: nat
  consumed :: nat

type_synonym allocator = "nat \<Rightarrow> nat \<Rightarrow> bytes option"

definition pull_eth :: "bytes \<Rightarrow> bytes" where
  "pull_eth frame = (if ETH_HLEN \<le> length frame then drop ETH_HLEN frame else frame)"

definition free_in :: "siit_state \<Rightarrow> siit_state" where
  "free_in w = w\<lparr>consumed := Suc (consumed w)\<rparr>"

definition free_out :: "siit_state \<Rightarrow> siit_state" where
  "free_out w = w\<lparr>freed := Suc (freed w)\<rparr>"

definition tx_deliver :: "sk_buff \<Rightarrow> siit_state \<Rightarrow> siit_state" where
  "tx_deliver skb w = w\<lparr>rx_queue := rx_queue w @ [skb],
     stats := (stats w)\<lparr>tx_packets := tx_packets (stats w) + 1,
                        tx_bytes := tx_bytes (stats w) + of_nat (length (skb_data skb))\<rparr>\<rparr>"

definition count_rx :: "bytes \<Rightarrow> siit_state \<Rightarrow> siit_state" where
  "count_rx frame w = w\<lparr>stats := (stats w)\<lparr>rx_bytes := rx_bytes (stats w) + of_nat (length frame),
     rx_packets := rx_packets (stats w) + 1\<rparr>\<rparr>"

definition count_tx_error :: "siit_state \<Rightarrow> siit_state" where
  "count_tx_error w = w\<lparr>stats := (stats w)\<lparr>tx_errors := tx_errors (stats w) + 1\<rparr>\<rparr>"

definition count_rx_error :: "siit_state \<Rightarrow> siit_state" where
  "count_rx_error w = w\<lparr>stats := (stats w)\<lparr>rx_errors := rx_errors (stats w) + 1\<rparr>\<rparr>"

definition count_rx_dropped :: "siit_state \<Rightarrow> siit_state" where
  "count_rx_dropped w = w\<lparr>stats := (stats w)\<lparr>rx_dropped := rx_dropped (stats w) + 1\<rparr>\<rparr>"

text \<open>
  The allocation of a new buffer with room for \<open>n\<close> bytes after the hardware header, which is
  copied from the incoming frame and gets another protocol.
\<close>

definition new_skb ::
  "allocator \<Rightarrow> bytes \<Rightarrow> u16 \<Rightarrow> nat \<Rightarrow> siit_state \<Rightarrow> ((sk_buff \<times> siit_state) option) result" where
  "new_skb alloc frame proto n w =
     (case alloc (allocated w) (n + ETH_HLEN) of
        None \<Rightarrow> Inr None
      | Some mem \<Rightarrow>
          rbind (rd frame 0 ETH_HLEN) (\<lambda>eth.
          rbind (wr mem 0 (take 12 eth @ be16 proto)) (\<lambda>mem.
          Inr (Some (\<lparr>skb_protocol = proto, skb_mac = take ETH_HLEN mem, skb_data = drop ETH_HLEN mem\<rparr>,
                     w\<lparr>allocated := Suc (allocated w)\<rparr>)))))"

section \<open>Fragmentation\<close>

text \<open>
  A zero UDP checksum: the first fragment of a datagram is refused, a whole datagram gets
  its checksum computed in place.
\<close>

definition fill_udp_csum :: "kernel \<Rightarrow> iphdr \<Rightarrow> bytes \<Rightarrow> bytes result" where
  "fill_udp_csum k h pkt =
     (if protocol h = IPPROTO_UDP \<and> frag_off h AND IP_OFFSET = 0 then
        rbind (rd pkt (hdr_len_of h) 8) (\<lambda>udp.
        if field16 udp 6 \<noteq> 0 then Inr pkt
        else if frag_off h AND IP_MF \<noteq> 0 then Inl Dropped
        else
          let udp_len = unat (field16 udp 4) in
          rbind (rd pkt (hdr_len_of h) udp_len) (\<lambda>dat.
          wr pkt (hdr_len_of h + 6)
            (be16 (k_csum_tcpudp_magic k (ip_saddr h) (ip_daddr h) udp_len IPPROTO_UDP (k_csum_partial k dat 0)))))
      else Inr pkt)"

text \<open>The fragment built in the buffer: the header, the data, and the fields that change.\<close>

definition frag_fields :: "kernel \<Rightarrow> bytes \<Rightarrow> u16 \<Rightarrow> u16 \<Rightarrow> nat \<Rightarrow> bytes \<Rightarrow> bytes" where
  "frag_fields k new_id fo tlen ihl_bytes b =
     (let b = mem_write b 4 new_id;
          b = mem_write b 6 (be16 fo);
          b = mem_write b 2 (be16 tlen);
          b = mem_write b 10 [0, 0]
      in mem_write b 10 (be16 (k_ip_fast_csum k (mem_read b 0 ihl_bytes))))"

definition frag_build :: "kernel \<Rightarrow> bytes \<Rightarrow> bytes \<Rightarrow> bytes \<Rightarrow> bool \<Rightarrow> u16 \<Rightarrow> bytes \<Rightarrow> bytes" where
  "frag_build k buff hdr new_id no_mf frag_offset dat =
     frag_fields k new_id (if no_mf then frag_offset AND NOT IP_MF else frag_offset OR IP_MF)
       (of_nat (length dat + length hdr)) (unat (hdr ! 0 AND 0x0f) * 4)
       (mem_write (mem_write buff 0 hdr) (length hdr) dat)"

function frag_loop ::
  "kernel \<Rightarrow> bool \<Rightarrow> allocator \<Rightarrow> bytes \<Rightarrow> bytes \<Rightarrow> bytes \<Rightarrow> bool \<Rightarrow> bytes \<Rightarrow> u16 \<Rightarrow> bytes \<Rightarrow>
   siit_state \<Rightarrow> (bool \<times> siit_state) result" where
  "frag_loop k tos_ignore alloc frame hdr new_id last_mf buff frag_offset rest w =
     (let last_frag = length rest \<le> FRAG_BUFF_SIZE;
          dat = take FRAG_BUFF_SIZE rest;
          buff = frag_build k buff hdr new_id (last_frag \<and> last_mf) frag_offset dat
      in rbind (new_skb alloc frame ETH_P_IPV6 (length dat + length hdr + IP4_IP6_HDR_DIFF + IP6_FRAGMENT_SIZE) w) (\<lambda>s.
         case s of
           None \<Rightarrow> Inr (False, w)
         | Some (skb2, w) \<Rightarrow>
             (case ip4_ip6 k tos_ignore False (take (length dat + length hdr) buff) (skb_data skb2) 0 of
                Inl e \<Rightarrow> if e = Dropped then Inr (False, free_out w) else Inl e
              | Inr d \<Rightarrow>
                  let w = tx_deliver (skb2\<lparr>skb_data := d\<rparr>) w in
                  if last_frag then Inr (True, w)
                  else frag_loop k tos_ignore alloc frame hdr new_id last_mf buff
                         (of_nat ((unat frag_offset * 8 + length dat) div 8)) (drop FRAG_BUFF_SIZE rest) w)))"
  by pat_completeness auto
termination
  by (relation "measure (\<lambda>(k, t, a, f, h, i, l, b, fo, rest, w). length rest)")
    (auto simp: FRAG_BUFF_SIZE_def)

declare frag_loop.simps [simp del]

text \<open>
  \<open>stack\<close> is the uninitialised contents of the variable-length array \<open>buff\<close>. The first
  component of the result is false for \<open>return -1\<close>.
\<close>

definition ip4_fragment ::
  "kernel \<Rightarrow> bool \<Rightarrow> allocator \<Rightarrow> bytes \<Rightarrow> bytes \<Rightarrow> iphdr \<Rightarrow> bytes \<Rightarrow> siit_state \<Rightarrow> (bool \<times> siit_state) result" where
  "ip4_fragment k tos_ignore alloc stack frame h pkt w =
     (case fill_udp_csum k h pkt of
        Inl e \<Rightarrow> if e = Dropped then Inr (False, w) else Inl e
      | Inr pkt \<Rightarrow>
          frag_loop k tos_ignore alloc frame (take (hdr_len_of h) pkt) (mem_read pkt 4 2)
            (frag_off h AND IP_MF = 0) (take (FRAG_BUFF_SIZE + hdr_len_of h) stack)
            (frag_off h AND IP_OFFSET) (drop (hdr_len_of h) pkt) w)"

section \<open>Transmission\<close>

text \<open>The new buffer, of \<open>n\<close> bytes after the hardware header, its translation and delivery.\<close>

definition send_v4 ::
  "kernel \<Rightarrow> bool \<Rightarrow> allocator \<Rightarrow> bytes \<Rightarrow> bytes \<Rightarrow> nat \<Rightarrow> siit_state \<Rightarrow> siit_state result" where
  "send_v4 k tos_ignore alloc frame pkt n w =
     rbind (new_skb alloc frame ETH_P_IPV6 n w) (\<lambda>s.
     case s of
       None \<Rightarrow> Inr (count_rx_dropped (free_in w))
     | Some (skb2, w) \<Rightarrow>
         (case ip4_ip6 k tos_ignore False pkt (skb_data skb2) 0 of
            Inl e \<Rightarrow> if e = Dropped then Inr (count_rx_error (free_out (free_in w))) else Inl e
          | Inr d \<Rightarrow> Inr (free_in (tx_deliver (skb2\<lparr>skb_data := d\<rparr>) w))))"

definition xmit_v4 ::
  "kernel \<Rightarrow> bool \<Rightarrow> allocator \<Rightarrow> bytes \<Rightarrow> bytes \<Rightarrow> bytes \<Rightarrow> siit_state \<Rightarrow> siit_state result" where
  "xmit_v4 k tos_ignore alloc stack frame pkt w =
     rbind (rd pkt 0 20) (\<lambda>hb.
     let h = read_iphdr hb; len = length pkt; hl = hdr_len_of h in
     if len \<noteq> unat (tot_len h) then Inr (free_in (count_tx_error w))
     else if frag_off h AND IP_DF = 0 \<and> FRAG_BUFF_SIZE + hl < len then
       rbind (ip4_fragment k tos_ignore alloc stack frame h pkt w) (\<lambda>(ok, w).
       Inr (free_in (if ok then w else count_tx_error w)))
     else
       rbind (if protocol h = IPPROTO_ICMP
              then rbind (rd pkt hl 1) (\<lambda>t. Inr (if t ! 0 \<noteq> 8 \<and> t ! 0 \<noteq> 0 then IP4_IP6_HDR_DIFF else 0))
              else Inr 0) (\<lambda>icmp_delta.
       let skb_delta = (if frag_off h = IP_DF then IP4_IP6_HDR_DIFF else IP4_IP6_HDR_DIFF + IP6_FRAGMENT_SIZE) + icmp_delta in
       send_v4 k tos_ignore alloc frame pkt (len + skb_delta) w))"

definition NEW_PACKET_BUFF :: nat where "NEW_PACKET_BUFF = 2048"

definition xmit_v6 ::
  "kernel \<Rightarrow> bool \<Rightarrow> bool \<Rightarrow> allocator \<Rightarrow> bytes \<Rightarrow> bytes \<Rightarrow> bytes \<Rightarrow> siit_state \<Rightarrow> siit_state result" where
  "xmit_v6 k big_endian tos_ignore alloc stack frame pkt w =
     (case ip6_ip4 k big_endian tos_ignore False pkt (take NEW_PACKET_BUFF stack) 0 of
        Inl e \<Rightarrow> if e = Dropped then Inr (free_in (count_rx_dropped w)) else Inl e
      | Inr (buf, new_packet_len) \<Rightarrow>
          if new_packet_len < 0 then Inl BadLength
          else
            rbind (new_skb alloc frame ETH_P_IP (nat new_packet_len) w) (\<lambda>s.
            case s of
              None \<Rightarrow> Inr (free_in (count_rx_dropped w))
            | Some (skb2, w) \<Rightarrow>
                rbind (rd buf 0 (nat new_packet_len)) (\<lambda>dat.
                rbind (wr (skb_data skb2) 0 dat) (\<lambda>d.
                Inr (free_in (tx_deliver (skb2\<lparr>skb_data := d\<rparr>) w))))))"

text \<open>
  \<open>siit_xmit\<close>: the value returned and the state after it. \<open>None\<close> is a null \<open>skb\<close> or \<open>dev\<close>; a
  buffer that arrives has its protocol and its data with the hardware header.
\<close>

definition siit_xmit ::
  "kernel \<Rightarrow> bool \<Rightarrow> bool \<Rightarrow> allocator \<Rightarrow> bytes \<Rightarrow> (u16 \<times> bytes) option \<Rightarrow> siit_state \<Rightarrow> (int \<times> siit_state) result" where
  "siit_xmit k big_endian tos_ignore alloc stack skb w =
     (case skb of
        None \<Rightarrow> Inr (- EINVAL, w)
      | Some (proto, frame) \<Rightarrow>
          let w = count_rx frame w; pkt = pull_eth frame in
          rbind (if proto = ETH_P_IP then xmit_v4 k tos_ignore alloc stack frame pkt w
                    else if proto = ETH_P_IPV6 then xmit_v6 k big_endian tos_ignore alloc stack frame pkt w
                    else Inr (free_in w)) (\<lambda>w. Inr (0, w)))"

end
