(* ===== verification/Siit_Trip.thy ===== *)
theory Siit_Trip
  imports Siit_Xmit
begin

text \<open>
  What the translation of a TCP or UDP packet computes in each direction, as closed forms, and
  that the headers survive the trip through IPv6.
\<close>

section \<open>Access to memory that is there\<close>

lemma rd_append [simp]: "rd (bs @ m) 0 n = (if n \<le> length bs + length m then Inr (take n (bs @ m)) else Inl BadRead)"
  by (simp add: rd_def mem_read_def)

lemma rd_ok: "off + n \<le> length m \<Longrightarrow> rd m off n = Inr (mem_read m off n)"
  by (simp add: rd_def)

lemma wr_ok: "off + length bs \<le> length m \<Longrightarrow> wr m off bs = Inr (mem_write m off bs)"
  by (simp add: wr_def)

lemma mem_write_whole:
  "length m = length bs \<Longrightarrow> mem_write m 0 bs = bs"
  by (simp add: mem_write_def)

lemma length_v6_hdr [simp]:
  "length (ip_saddr h) = 4 \<Longrightarrow> length (ip_daddr h) = 4 \<Longrightarrow> length (ipv6hdr_bytes (new_ipv6hdr t fr inc h)) = 40"
  by (simp add: new_ipv6hdr_def)

section \<open>IPv4 to IPv6\<close>

text \<open>The bytes of the IPv6 packet.\<close>

definition v6_packet :: "bool \<Rightarrow> iphdr \<Rightarrow> bytes \<Rightarrow> bytes" where
  "v6_packet tos_ignore h dat =
     (let fr = fr_flag False h in
      ipv6hdr_bytes (new_ipv6hdr tos_ignore fr False h) @
      (if fr then frag_hdr_bytes (new_frag_hdr h) else []) @ dat)"

text \<open>A plain packet: no options, TCP, or UDP with a checksum or past the first fragment.\<close>

definition plain_packet :: "iphdr \<Rightarrow> bytes \<Rightarrow> bool" where
  "plain_packet h dat \<longleftrightarrow>
     length (ip_saddr h) = 4 \<and> length (ip_daddr h) = 4 \<and> version_ihl h = 0x45 \<and>
     unat (tot_len h) = 20 + length dat \<and>
     (protocol h = IPPROTO_TCP \<or>
      protocol h = IPPROTO_UDP \<and>
        (frag_off h AND IP_OFFSET \<noteq> 0 \<or> 8 \<le> length dat \<and> field16 dat 6 \<noteq> 0))"

lemma hdr_len_20 [simp]: "version_ihl h = 0x45 \<Longrightarrow> hdr_len_of h = 20"
  by (simp add: hdr_len_of_def)

lemma write_packet:
  assumes "length d = length a + length f + length dat" "n = length a" "p = length a + length f"
  shows "mem_write (mem_write (mem_write d n f) 0 a) p dat = a @ f @ dat"
  using assms by (simp add: mem_write_def)

lemma write_packet':
  assumes "length d = length a + length dat" "n = length a"
  shows "mem_write (mem_write d 0 a) n dat = a @ dat"
  using assms by (simp add: mem_write_def)

lemma ip4_ip6_plain:
  assumes p: "plain_packet h dat" and d: "length dst = 40 + fr_size (fr_flag False h) + length dat"
  shows "ip4_ip6 k tos_ignore False (iphdr_bytes h @ dat) dst 0 = Inr (v6_packet tos_ignore h dat)"
proof -
  let ?fr = "fr_flag False h" and ?src = "iphdr_bytes h @ dat"
  let ?h6 = "new_ipv6hdr tos_ignore ?fr False h"
  let ?d = "mem_write (if ?fr then mem_write dst 40 (frag_hdr_bytes (new_frag_hdr h)) else dst) 0 (ipv6hdr_bytes ?h6)"
  have a: "length (ip_saddr h) = 4" "length (ip_daddr h) = 4" "hdr_len_of h = 20"
    using p by (auto simp: plain_packet_def)
  have hb: "rd ?src 0 20 = Inr (iphdr_bytes h)" and h: "read_iphdr (iphdr_bytes h) = h"
    using a read_iphdr_bytes [of h "[]"] by simp_all
  have rest: "rest_from ?src 20 = Inr dat" using a by (simp add: rest_from_def)
  have copy: "wr ?d (40 + fr_size ?fr) dat = Inr (v6_packet tos_ignore h dat)"
    using a d by (auto simp: wr_ok fr_size_def v6_packet_def Let_def write_packet write_packet')
  have proto: "protocol h = IPPROTO_TCP \<or> protocol h = IPPROTO_UDP" "protocol h \<noteq> IPPROTO_ICMP"
    using p by (auto simp: plain_packet_def ip_constants)
  have udp: "ip4_udp k False h ?h6 ?src ?d 0 ?fr = wr ?d (40 + fr_size ?fr) dat"
    if "protocol h = IPPROTO_UDP"
  proof (cases "frag_off h AND IP_OFFSET = 0")
    case True
    then have "8 \<le> length dat" "field16 dat 6 \<noteq> 0"
      using p that by (auto simp: plain_packet_def ip_constants)
    moreover have "rd ?src 20 8 = Inr (take 8 dat)" if "8 \<le> length dat"
      using a that by (simp add: rd_ok mem_read_def)
    moreover have "field16 (take 8 dat) 6 = field16 dat 6" by (simp add: field16_def mem_read_def drop_take)
    ultimately show ?thesis using a True rest by (simp add: ip4_udp_def copy)
  next
    case False then show ?thesis using a rest by (simp add: ip4_udp_def copy)
  qed
  have w1: "(if ?fr then wr dst (0 + 40) (frag_hdr_bytes (new_frag_hdr h)) else Inr dst) =
      Inr (if ?fr then mem_write dst 40 (frag_hdr_bytes (new_frag_hdr h)) else dst)"
    using d by (simp add: wr_ok fr_size_def)
  have w2: "wr (if ?fr then mem_write dst 40 (frag_hdr_bytes (new_frag_hdr h)) else dst) 0 (ipv6hdr_bytes ?h6) = Inr ?d"
    using a d by (intro wr_ok) (auto simp: fr_size_def)
  have "ip4_ip6 k tos_ignore False ?src dst 0 =
    (if protocol h = IPPROTO_TCP then rbind (rest_from ?src 20) (\<lambda>dat. wr ?d (0 + 40 + fr_size ?fr) dat)
     else if protocol h = IPPROTO_UDP then ip4_udp k False h ?h6 ?src ?d 0 ?fr else Inl Dropped)"
    unfolding ip4_ip6_def ip4_ip6_step_def hb rbind_simps Let_def h w1 w2 a(3) using proto(2) by (simp only: if_False)
  then show ?thesis using proto rest copy udp by auto
qed


section \<open>IPv6 to IPv4\<close>

text \<open>The header that comes back: a packet without a fragment header loses its identification.\<close>

definition trip_hdr :: "bool \<Rightarrow> iphdr \<Rightarrow> iphdr" where
  "trip_hdr tos_ignore h =
     h\<lparr>tos := if tos_ignore then 0 else tos h,
       ip_id := if frag_off h = IP_DF then 0 else ip_id h,
       frag_off := if frag_off h = IP_DF then 0 else frag_off h, ip_check := 0\<rparr>"

lemma tos_trip: "push_bit 4 ((0x60 OR drop_bit 4 (t AND 0xf0)) AND 0x0f) OR drop_bit 4 (push_bit 4 (t AND 0x0f)) = (t :: u8)"
proof (rule bit_word_eqI)
  fix n assume "n < LENGTH(8)"
  then consider "n = 0" | "n = 1" | "n = 2" | "n = 3" | "n = 4" | "n = 5" | "n = 6" | "n = 7" by force
  then show "bit (push_bit 4 ((0x60 OR drop_bit 4 (t AND 0xf0)) AND 0x0f) OR drop_bit 4 (push_bit 4 (t AND 0x0f))) n = bit t n"
    by cases (simp_all add: bit_simps bit_numeral_rec)
qed

lemma frag_trip:
  assumes "(f :: u16) AND 0xc000 = 0"
  shows "drop_bit 3 ((push_bit 3 (f AND IP_OFFSET) OR drop_bit 13 (f AND IP_MF)) AND IP6F_OFF_MASK) OR
         push_bit 13 ((push_bit 3 (f AND IP_OFFSET) OR drop_bit 13 (f AND IP_MF)) AND IP6F_MORE_FRAG) = f"
    (is "?l = f")
proof (rule bit_word_eqI)
  have hi: "\<not> bit f 14" "\<not> bit f 15"
    using arg_cong [OF assms, of "\<lambda>x. bit x 14"] arg_cong [OF assms, of "\<lambda>x. bit x 15"]
    by (simp_all add: bit_simps bit_numeral_rec)
  fix n assume "n < LENGTH(16)"
  then have "n \<in> {0, 1, 2, 3, 4, 5, 6, 7, 8, 9, 10, 11, 12, 13, 14, 15}" by (auto simp: numeral_eq_Suc less_Suc_eq)
  then show "bit ?l n = bit f n" using hi
    by (elim insertE emptyE) (simp_all add: bit_simps bit_numeral_rec IP_OFFSET_def IP_MF_def IP6F_OFF_MASK_def IP6F_MORE_FRAG_def)
qed

lemma id_trip: "ucast (ucast (i :: u16) :: u32) = i"
  by (simp add: unsigned_ucast_eq take_bit_word_eq_self)


definition trip_state :: "iphdr \<Rightarrow> bytes \<Rightarrow> ext_state" where
  "trip_state h dat = \<lparr>len_delta = int (length dat), opts_len = fr_size (fr_flag False h), next_hdr = protocol h,
     x_id = ip_id (trip_hdr False h), x_frag_off = frag_off (trip_hdr False h)\<rparr>"

lemma length_v6_packet [simp]:
  "plain_packet h dat \<Longrightarrow> length (v6_packet t h dat) = 40 + fr_size (fr_flag False h) + length dat"
  by (simp add: v6_packet_def plain_packet_def Let_def fr_size_def)

lemma read_v6_packet:
  "plain_packet h dat \<Longrightarrow> read_ipv6hdr (v6_packet t h dat) = new_ipv6hdr t (fr_flag False h) False h"
  by (simp add: v6_packet_def plain_packet_def Let_def read_ipv6hdr_bytes new_ipv6hdr_def)

lemma upper_proto_plain: "plain_packet h dat \<Longrightarrow> upper_proto h = protocol h"
  by (auto simp: plain_packet_def upper_proto_def ip_constants)

lemma ext_headers_plain:
  assumes p: "plain_packet h dat" and dat: "dat \<noteq> []" and f: "frag_off h = IP_DF \<or> frag_off h AND 0xc000 = 0"
  shows "ext_headers (v6_packet t h dat)
     \<lparr>len_delta = int (length (v6_packet t h dat)) - 40, opts_len = 0,
      next_hdr = nexthdr (new_ipv6hdr t (fr_flag False h) False h), x_id = 0, x_frag_off = 0\<rparr> =
    Inr (trip_state h dat)"
proof -
  have proto: "protocol h = IPPROTO_TCP \<or> protocol h = IPPROTO_UDP" "protocol h \<noteq> 0"
    and a: "length (ip_saddr h) = 4" "length (ip_daddr h) = 4"
    using p by (auto simp: plain_packet_def ip_constants)
  show ?thesis
  proof (cases "fr_flag False h")
    case False
    then have "frag_off h = IP_DF" by (simp add: fr_flag_def)
    then show ?thesis using False p dat proto
      by (auto simp: ext_headers_def hop_by_hop_def new_ipv6hdr_def upper_proto_plain ext_loop.simps trip_state_def trip_hdr_def fr_size_def NEXTHDR_HOP_def)
  next
    case True
    then have f: "frag_off h \<noteq> IP_DF" "frag_off h AND 0xc000 = 0" using f by (auto simp: fr_flag_def)
    let ?v = "v6_packet t h dat"
    let ?st = "\<lparr>len_delta = 8 + int (length dat), opts_len = 0, next_hdr = NEXTHDR_FRAGMENT, x_id = 0, x_frag_off = 0\<rparr>"
    have "rd ?v 40 8 = Inr (frag_hdr_bytes (new_frag_hdr h))"
      using a True by (simp add: rd_def mem_read_def v6_packet_def Let_def)
    then have frag: "fragment_hdr ?v ?st = Inr (trip_state h dat)"
      using True f frag_trip [OF f(2)] read_frag_hdr_bytes [of "new_frag_hdr h" "[]"] upper_proto_plain [OF p]
      by (simp add: fragment_hdr_def skip_ext_def trip_state_def new_frag_hdr_def id_trip trip_hdr_def fr_size_def)
    have "ext_loop ?v ?st = ext_loop ?v (trip_state h dat)"
      by (subst ext_loop.simps) (simp add: frag, simp add: ip_constants)
    also have "\<dots> = Inr (trip_state h dat)"
      using proto by (subst ext_loop.simps) (auto simp: trip_state_def)
    finally show ?thesis using True p
      by (simp add: ext_headers_def hop_by_hop_def new_ipv6hdr_def fr_size_def ip_constants)
  qed
qed


lemma new_tot_len_plain:
  assumes "plain_packet h dat" "length dat \<le> 65507"
  shows "uint (new_tot_len fr h) = int (20 + fr_size fr + length dat)"
proof -
  have t: "uint (tot_len h) = int (20 + length dat)"
    using assms(1) by (metis plain_packet_def uint_nat)
  have "uint (tot_len h + 8) = uint (tot_len h) + 8"
    using t assms(2) by (subst uint_plus_if') simp
  then show ?thesis using t by (simp add: new_tot_len_def fr_size_def)
qed

lemma ntot_len_plain:
  assumes p: "plain_packet h dat" "length dat \<le> 65507" and "dat \<noteq> []"
  shows "new_ntot_len (new_ipv6hdr t (fr_flag False h) False h) (trip_state h dat) = int (20 + length dat)"
proof -
  let ?n = "int (fr_size (fr_flag False h) + length dat)"
  have l: "payload_len (new_ipv6hdr t (fr_flag False h) False h) = word_of_int ?n"
    using p new_tot_len_plain [OF p] by (simp add: new_ipv6hdr_def new_plen_def plain_packet_def)
  have "0 < ?n" "?n < 2 ^ 16" using assms by (auto simp: fr_size_def)
  then have u: "uint (word_of_int ?n :: u16) = ?n" unfolding uint_word_of_int by simp
  then have "(word_of_int ?n :: u16) \<noteq> 0" using \<open>0 < ?n\<close> by (metis less_irrefl uint_0_eq)
  then have "new_ntot_len (new_ipv6hdr t (fr_flag False h) False h) (trip_state h dat) = ?n + 20 - int (opts_len (trip_state h dat))"
    unfolding new_ntot_len_def l u by (simp only: if_False IP4_IP6_HDR_DIFF_def of_nat_numeral)
  then show ?thesis by (simp add: trip_state_def)
qed

lemma new_iphdr_plain:
  assumes p: "plain_packet h dat" "length dat \<le> 65507" "dat \<noteq> []"
  shows "new_iphdr t (new_ipv6hdr t (fr_flag False h) False h) (trip_state h dat) = trip_hdr t h"
proof -
  have "word_of_int (int (20 + length dat)) = tot_len h"
    using p(1) by (metis plain_packet_def uint_nat word_of_int_uint)
  then show ?thesis using p(1) ntot_len_plain [OF p, of t] tos_trip
    by (simp add: new_iphdr_def trip_hdr_def trip_state_def new_ipv6hdr_def plain_packet_def del: of_nat_add)
qed

lemma ip6_ip4_plain:
  assumes p: "plain_packet h dat" and dat: "dat \<noteq> []" "20 + length dat \<le> length dst" "length dat \<le> 65507"
    and f: "frag_off h = IP_DF \<or> frag_off h AND 0xc000 = 0"
  shows "ip6_ip4 k be t False (v6_packet t h dat) dst 0 =
    Inr (iphdr_bytes (set_check k (trip_hdr t h)) @ dat @ drop (20 + length dat) dst, int (20 + length dat))"
proof -
  let ?v = "v6_packet t h dat" and ?h6 = "new_ipv6hdr t (fr_flag False h) False h"
  let ?h = "set_check k (trip_hdr t h)"
  have proto: "protocol h \<noteq> IPPROTO_ICMPV6" and a: "length (ip_saddr ?h) = 4" "length (ip_daddr ?h) = 4"
    and ok: "addresses_ok False ?h6"
    using p by (auto simp: plain_packet_def ip_constants set_check_def trip_hdr_def addresses_ok_def new_ipv6hdr_def
        MAPPED_PREFIX_def TRANSLATED_PREFIX_def)
  have rest: "rd ?v (40 + fr_size (fr_flag False h)) (length dat) = Inr dat"
    using p by (simp add: rd_def mem_read_def v6_packet_def Let_def fr_size_def plain_packet_def)
  have w1: "wr dst 0 (iphdr_bytes ?h) = Inr (iphdr_bytes ?h @ drop 20 dst)"
    using a dat by (simp add: wr_def mem_write_def)
  have w2: "wr (iphdr_bytes ?h @ drop 20 dst) (0 + 20) dat = Inr (iphdr_bytes ?h @ dat @ drop (20 + length dat) dst)"
    using a dat by (simp add: wr_def mem_write_append add.commute)
  have copy: "copy_rest ?v (40 + opts_len (trip_state h dat)) (len_delta (trip_state h dat)) (iphdr_bytes ?h @ drop 20 dst) (0 + 20)
      = Inr (iphdr_bytes ?h @ dat @ drop (20 + length dat) dst)"
    using dat rest w2 by (simp add: copy_rest_def trip_state_def)
  have guards: "\<not> length ?v < 40" "\<not> len_delta (trip_state h dat) \<le> 0" "next_hdr (trip_state h dat) \<noteq> IPPROTO_ICMPV6"
    using p dat(1) proto by (simp_all add: trip_state_def)
  show ?thesis
    unfolding ip6_ip4_def ip6_ip4_step_def read_v6_packet [OF p] Let_def ext_headers_plain [OF p dat(1) f]
      rbind_simps new_iphdr_plain [OF p dat(3,1)] w1 copy
    using guards ok by (simp add: trip_state_def)
qed

end
