(* ===== verification/Siit_Deliver.thy ===== *)
theory Siit_Deliver
  imports Siit_Trip
begin

text \<open>
  Transmission of plain packets through \<open>siit_xmit\<close>: what is handed to \<open>netif_rx\<close>, and the
  balance between socket buffers allocated, delivered and freed.
\<close>

section \<open>Allocation\<close>

text \<open>What the code relies on: \<open>dev_alloc_skb\<close> gives a buffer of the size asked for.\<close>

definition alloc_sizes :: "allocator \<Rightarrow> bool" where
  "alloc_sizes alloc \<longleftrightarrow> (\<forall>i n m. alloc i n = Some m \<longrightarrow> length m = n)"

definition new_mac :: "bytes \<Rightarrow> u16 \<Rightarrow> bytes" where
  "new_mac frame proto = take 12 frame @ be16 proto"

lemma length_new_mac [simp]: "12 \<le> length frame \<Longrightarrow> length (new_mac frame proto) = 14"
  by (simp add: new_mac_def)

lemma new_skb_Some:
  assumes "alloc_sizes alloc" "alloc (allocated w) (n + 14) = Some mem" "14 \<le> length frame"
  shows "new_skb alloc frame proto n w =
    Inr (Some (\<lparr>skb_protocol = proto, skb_mac = new_mac frame proto, skb_data = drop 14 mem\<rparr>,
               w\<lparr>allocated := Suc (allocated w)\<rparr>))"
proof -
  have "length mem = n + 14" using assms by (auto simp: alloc_sizes_def)
  then show ?thesis using assms(2,3)
    by (simp add: new_skb_def ETH_HLEN_def rd_def wr_def mem_read_def mem_write_def new_mac_def min_def)
qed

lemma new_skb_Inr:
  assumes "new_skb alloc frame proto n w = Inr (Some (skb, w'))"
  shows "w' = w\<lparr>allocated := Suc (allocated w)\<rparr>"
  using assms by (auto simp: new_skb_def rbind_Inr split: option.splits)

section \<open>Delivery of plain packets\<close>

definition delivered :: "bytes \<Rightarrow> u16 \<Rightarrow> bytes \<Rightarrow> siit_state \<Rightarrow> siit_state" where
  "delivered frame proto d w =
     free_in (tx_deliver \<lparr>skb_protocol = proto, skb_mac = new_mac frame proto, skb_data = d\<rparr>
       ((count_rx frame w)\<lparr>allocated := Suc (allocated w)\<rparr>))"

lemma delivered_simps [simp]:
  "rx_queue (delivered frame proto d w) =
     rx_queue w @ [\<lparr>skb_protocol = proto, skb_mac = new_mac frame proto, skb_data = d\<rparr>]"
  "allocated (delivered frame proto d w) = Suc (allocated w)"
  "consumed (delivered frame proto d w) = Suc (consumed w)"
  by (simp_all add: delivered_def free_in_def tx_deliver_def count_rx_def)

lemma count_rx_simps [simp]:
  "rx_queue (count_rx f w) = rx_queue w" "allocated (count_rx f w) = allocated w"
  "freed (count_rx f w) = freed w" "consumed (count_rx f w) = consumed w"
  by (simp_all add: count_rx_def)

lemma siit_xmit_v4_plain:
  assumes p: "plain_packet h dat" and eth: "length eth = 14"
    and short: "frag_off h AND IP_DF \<noteq> 0 \<or> length dat \<le> FRAG_BUFF_SIZE"
    and alloc: "alloc_sizes alloc" "\<And>n. alloc (allocated w) n \<noteq> None"
  shows "siit_xmit k be t alloc stack (Some (ETH_P_IP, eth @ iphdr_bytes h @ dat)) w =
    Inr (0, delivered (eth @ iphdr_bytes h @ dat) ETH_P_IPV6 (v6_packet t h dat) w)"
proof -
  let ?frame = "eth @ iphdr_bytes h @ dat" and ?n = "40 + fr_size (fr_flag False h) + length dat"
  have a: "length (ip_saddr h) = 4" "length (ip_daddr h) = 4" "hdr_len_of h = 20" "protocol h \<noteq> IPPROTO_ICMP"
    "unat (tot_len h) = 20 + length dat"
    using p by (auto simp: plain_packet_def ip_constants)
  have pull: "pull_eth ?frame = iphdr_bytes h @ dat" using eth by (simp add: pull_eth_def ETH_HLEN_def)
  have hb: "rd (iphdr_bytes h @ dat) 0 20 = Inr (iphdr_bytes h)" and h: "read_iphdr (iphdr_bytes h) = h"
    using a read_iphdr_bytes [of h "[]"] by simp_all
  obtain mem where mem: "alloc (allocated (count_rx ?frame w)) (?n + 14) = Some mem" using alloc(2) by fastforce
  have lm: "length mem = ?n + 14" using mem alloc(1) by (auto simp: alloc_sizes_def)
  have n: "length (iphdr_bytes h @ dat) + ((if frag_off h = IP_DF then IP4_IP6_HDR_DIFF else IP4_IP6_HDR_DIFF + IP6_FRAGMENT_SIZE) + 0) = ?n"
    using a by (simp add: fr_flag_def fr_size_def IP4_IP6_HDR_DIFF_def IP6_FRAGMENT_SIZE_def)
  have skb: "new_skb alloc ?frame ETH_P_IPV6 ?n (count_rx ?frame w) =
     Inr (Some (\<lparr>skb_protocol = ETH_P_IPV6, skb_mac = new_mac ?frame ETH_P_IPV6, skb_data = drop 14 mem\<rparr>,
               (count_rx ?frame w)\<lparr>allocated := Suc (allocated w)\<rparr>))"
    using new_skb_Some [OF alloc(1) mem] eth by simp
  have tr: "ip4_ip6 k t False (iphdr_bytes h @ dat) (drop 14 mem) 0 = Inr (v6_packet t h dat)"
    using lm by (intro ip4_ip6_plain [OF p]) simp
  have guards: "length (iphdr_bytes h @ dat) = unat (tot_len h)"
     "\<not> (frag_off h AND IP_DF = 0 \<and> FRAG_BUFF_SIZE + 20 < length (iphdr_bytes h @ dat))"
    using a short by auto
  have "xmit_v4 k t alloc stack ?frame (iphdr_bytes h @ dat) (count_rx ?frame w) =
      Inr (delivered ?frame ETH_P_IPV6 (v6_packet t h dat) w)"
    unfolding xmit_v4_def hb rbind_simps Let_def h a(3) if_not_P [OF a(4)] n
    using guards tr skb by (auto simp: delivered_def send_v4_def)
  then show ?thesis by (simp add: siit_xmit_def pull)
qed

lemma siit_xmit_v6_plain:
  assumes p: "plain_packet h dat" and eth: "length eth = 14"
    and dat: "dat \<noteq> []" "20 + length dat \<le> NEW_PACKET_BUFF" "NEW_PACKET_BUFF \<le> length stack"
    and f: "frag_off h = IP_DF \<or> frag_off h AND 0xc000 = 0"
    and alloc: "alloc_sizes alloc" "\<And>n. alloc (allocated w) n \<noteq> None"
  shows "siit_xmit k be t alloc stack (Some (ETH_P_IPV6, eth @ v6_packet t h dat)) w =
    Inr (0, delivered (eth @ v6_packet t h dat) ETH_P_IP (iphdr_bytes (set_check k (trip_hdr t h)) @ dat) w)"
proof -
  let ?frame = "eth @ v6_packet t h dat" and ?n = "20 + length dat"
  let ?d = "iphdr_bytes (set_check k (trip_hdr t h)) @ dat"
  have a: "length (iphdr_bytes (set_check k (trip_hdr t h))) = 20"
    using p by (simp add: plain_packet_def set_check_def trip_hdr_def)
  have pull: "pull_eth ?frame = v6_packet t h dat" using eth by (simp add: pull_eth_def ETH_HLEN_def)
  obtain mem where mem: "alloc (allocated (count_rx ?frame w)) (?n + 14) = Some mem" using alloc(2) by fastforce
  have lm: "length mem = ?n + 14" using mem alloc(1) by (auto simp: alloc_sizes_def)
  have tr: "ip6_ip4 k be t False (v6_packet t h dat) (take NEW_PACKET_BUFF stack) 0 =
     Inr (?d @ drop ?n (take NEW_PACKET_BUFF stack), int ?n)"
    using dat f by (subst ip6_ip4_plain [OF p]) (auto simp: NEW_PACKET_BUFF_def)
  have skb: "new_skb alloc ?frame ETH_P_IP ?n (count_rx ?frame w) =
     Inr (Some (\<lparr>skb_protocol = ETH_P_IP, skb_mac = new_mac ?frame ETH_P_IP, skb_data = drop 14 mem\<rparr>,
               (count_rx ?frame w)\<lparr>allocated := Suc (allocated w)\<rparr>))"
    using new_skb_Some [OF alloc(1) mem] eth by simp
  have r: "rd (?d @ drop ?n (take NEW_PACKET_BUFF stack)) 0 ?n = Inr ?d" using a by simp
  have w: "wr (drop 14 mem) 0 ?d = Inr ?d" using a lm by (simp add: wr_def mem_write_whole)
  have "xmit_v6 k be t alloc stack ?frame (v6_packet t h dat) (count_rx ?frame w) = Inr (delivered ?frame ETH_P_IP ?d w)"
    unfolding xmit_v6_def tr by (simp add: skb r w delivered_def nat_add_distrib del: append_assoc rd_append)
  then show ?thesis by (simp add: siit_xmit_def pull ETH_P_IP_def ETH_P_IPV6_def)
qed

section \<open>No buffer is lost\<close>

definition balanced :: "siit_state \<Rightarrow> bool" where
  "balanced w \<longleftrightarrow> allocated w = length (rx_queue w) + freed w"

lemma balanced_simps [simp]:
  "balanced (free_in w) = balanced w" "balanced (count_rx f w) = balanced w"
  "balanced (count_tx_error w) = balanced w" "balanced (count_rx_error w) = balanced w"
  "balanced (count_rx_dropped w) = balanced w"
  "balanced (free_out (w\<lparr>allocated := Suc (allocated w)\<rparr>)) = balanced w"
  "balanced (tx_deliver skb (w\<lparr>allocated := Suc (allocated w)\<rparr>)) = balanced w"
  by (simp_all add: balanced_def free_in_def count_rx_def count_tx_error_def count_rx_error_def
      count_rx_dropped_def free_out_def tx_deliver_def)

lemma consumed_simps [simp]:
  "consumed (free_in w) = Suc (consumed w)" "consumed (count_tx_error w) = consumed w"
  "consumed (count_rx_error w) = consumed w" "consumed (count_rx_dropped w) = consumed w"
  "consumed (free_out w) = consumed w" "consumed (tx_deliver skb w) = consumed w"
  by (simp_all add: free_in_def count_tx_error_def count_rx_error_def count_rx_dropped_def free_out_def tx_deliver_def)


lemma frag_loop_cases:
  assumes "frag_loop k t alloc frame hdr nid mf buff fo rest w = Inr (ok, w')"
  obtains "w' = w" | "w' = free_out (w\<lparr>allocated := Suc (allocated w)\<rparr>)"
  | skb where "w' = tx_deliver skb (w\<lparr>allocated := Suc (allocated w)\<rparr>)"
  | skb buff' fo' where "FRAG_BUFF_SIZE < length rest"
      "frag_loop k t alloc frame hdr nid mf buff' fo' (drop FRAG_BUFF_SIZE rest)
         (tx_deliver skb (w\<lparr>allocated := Suc (allocated w)\<rparr>)) = Inr (ok, w')"
proof -
  note step = assms [unfolded frag_loop.simps [of k t alloc frame hdr nid mf buff fo rest w] Let_def rbind_Inr]
  then obtain s where "new_skb alloc frame ETH_P_IPV6
      (length (take FRAG_BUFF_SIZE rest) + length hdr + IP4_IP6_HDR_DIFF + IP6_FRAGMENT_SIZE) w = Inr s" by blast
  with step show thesis
    by (cases s) (auto split: sum.splits if_splits dest!: new_skb_Inr simp: not_le intro: that)
qed

lemma frag_loop_balanced:
  "frag_loop k t alloc frame hdr nid mf buff fo rest w = Inr (ok, w') \<Longrightarrow>
   balanced w' = balanced w \<and> consumed w' = consumed w"
proof (induction "length rest" arbitrary: buff fo rest w rule: less_induct)
  case less
  from less.prems show ?case
  proof (cases rule: frag_loop_cases)
    case (4 skb buff' fo')
    then show ?thesis using less.hyps [OF _ 4(2)] by (simp add: FRAG_BUFF_SIZE_def)
  qed simp_all
qed

lemma ip4_fragment_balanced:
  "ip4_fragment k t alloc stack frame h pkt w = Inr (ok, w') \<Longrightarrow>
   balanced w' = balanced w \<and> consumed w' = consumed w"
  by (auto simp: ip4_fragment_def split: sum.splits if_splits dest!: frag_loop_balanced)

text \<open>A step from the state \<open>w\<close> that consumes the incoming buffer and loses no other.\<close>

definition kept :: "siit_state \<Rightarrow> siit_state result \<Rightarrow> bool" where
  "kept w r \<longleftrightarrow> (\<forall>w'. r = Inr w' \<longrightarrow> balanced w' = balanced w \<and> consumed w' = Suc (consumed w))"

lemma kept_simps [simp]:
  "kept w (Inl e)" "kept w (Inr w') \<longleftrightarrow> balanced w' = balanced w \<and> consumed w' = Suc (consumed w)"
  by (auto simp: kept_def)

lemma kept_rbind: "(\<And>x. r = Inr x \<Longrightarrow> kept w (f x)) \<Longrightarrow> kept w (rbind r f)"
  by (cases r) simp_all

lemma kept_new_skb:
  assumes "kept w none" "\<And>skb2. kept w (some skb2 (w\<lparr>allocated := Suc (allocated w)\<rparr>))"
  shows "kept w (rbind (new_skb alloc frame proto n w) (\<lambda>s. case s of None \<Rightarrow> none | Some (skb2, w) \<Rightarrow> some skb2 w))"
  by (rule kept_rbind) (auto split: option.split dest!: new_skb_Inr intro: assms)

lemma send_v4_kept: "kept w (send_v4 k t alloc frame pkt n w)"
  unfolding send_v4_def
  by (rule kept_new_skb) (auto simp: balanced_def free_out_def free_in_def tx_deliver_def count_rx_error_def
      count_rx_dropped_def split: sum.split)

lemma xmit_v4_kept: "kept w (xmit_v4 k t alloc stack frame pkt w)"
proof -
  have frag: "kept w (rbind (ip4_fragment k t alloc stack frame h pkt w) (\<lambda>(ok, w). Inr (free_in (if ok then w else count_tx_error w))))" for h
    by (rule kept_rbind) (auto dest: ip4_fragment_balanced)
  show ?thesis
    unfolding xmit_v4_def Let_def by (rule kept_rbind) (simp add: frag kept_rbind send_v4_kept)
qed

lemma xmit_v6_kept: "kept w (xmit_v6 k be t alloc stack frame pkt w)"
proof -
  have "kept w (rbind (new_skb alloc frame ETH_P_IP n w) (\<lambda>s.
          case s of None \<Rightarrow> Inr (free_in (count_rx_dropped w))
          | Some (skb2, w) \<Rightarrow> rbind (rd buf 0 n) (\<lambda>dat. rbind (wr (skb_data skb2) 0 dat) (\<lambda>d.
              Inr (free_in (tx_deliver (skb2\<lparr>skb_data := d\<rparr>) w))))))" for n buf
    by (rule kept_new_skb) (auto intro!: kept_rbind)
  then show ?thesis unfolding xmit_v6_def by (simp split: sum.split)
qed

end
