(* ===== verification/Siit_Frag.thy ===== *)
theory Siit_Frag
  imports Siit_Deliver
begin

text \<open>
  The fragments that \<open>ip4_fragment\<close> hands over are the packet: an IPv6 receiver that puts
  them together in the order of their offsets gets the data back, and no fragment is longer
  than the minimum MTU of IPv6.
\<close>

section \<open>Reassembly\<close>

definition v6_frag :: "bytes \<Rightarrow> frag_hdr" where
  "v6_frag d = read_frag_hdr (drop 40 d)"

definition frag_start :: "frag_hdr \<Rightarrow> nat" where
  "frag_start f = unat (f_frag_off f AND IP6F_OFF_MASK)"

definition more_frags :: "frag_hdr \<Rightarrow> bool" where
  "more_frags f \<longleftrightarrow> f_frag_off f AND IP6F_MORE_FRAG \<noteq> 0"

fun reassemble :: "nat \<Rightarrow> bytes list \<Rightarrow> bytes option" where
  "reassemble start [] = None"
| "reassemble start (d # ds) =
     (if frag_start (v6_frag d) \<noteq> start then None
      else if more_frags (v6_frag d)
      then map_option (\<lambda>rest. drop 48 d @ rest) (reassemble (start + length (drop 48 d)) ds)
      else if ds = [] then Some (drop 48 d) else None)"

section \<open>One fragment\<close>

text \<open>The header of a fragment.\<close>

definition frag_hdr_of :: "kernel \<Rightarrow> iphdr \<Rightarrow> bool \<Rightarrow> u16 \<Rightarrow> nat \<Rightarrow> iphdr" where
  "frag_hdr_of k h lst fo n =
     set_check k (h\<lparr>tot_len := of_nat (n + 20), frag_off := if lst then fo AND NOT IP_MF else fo OR IP_MF\<rparr>)"

lemma mem_write_in: "mem_write (a @ b @ c) (length a) b' = a @ b' @ c" if "length b = length b'"
  using that by (simp add: mem_write_def)

lemma frag_fields_any:
  assumes "length (ip_saddr h) = 4" "length (ip_daddr h) = 4"
  shows "frag_fields k (be16 (ip_id h)) fo len n (iphdr_bytes h @ rest) =
    iphdr_bytes (h\<lparr>tot_len := len, frag_off := fo,
      ip_check := k_ip_fast_csum k (mem_read (iphdr_bytes (h\<lparr>tot_len := len, frag_off := fo, ip_check := 0\<rparr>) @ rest) 0 n)\<rparr>) @ rest"
proof -
  define a where "a = [version_ihl h, tos h]"
  define c where "c = [ttl h, protocol h]"
  define e where "e = ip_saddr h @ ip_daddr h @ rest"
  have w: "mem_write (a @ x @ y @ z @ c @ u @ e) 4 y' = a @ x @ y' @ z @ c @ u @ e"
    "mem_write (a @ x @ y @ z @ c @ u @ e) 6 y' = a @ x @ y @ y' @ c @ u @ e"
    "mem_write (a @ x @ y @ z @ c @ u @ e) 2 y' = a @ y' @ y @ z @ c @ u @ e"
    "mem_write (a @ x @ y @ z @ c @ u @ e) 10 y' = a @ x @ y @ z @ c @ y' @ e"
    if "length x = 2" "length y = 2" "length z = 2" "length u = 2" "length y' = 2" for x y z u y'
    using that by (simp_all add: mem_write_def a_def c_def)
  have i: "iphdr_bytes (h\<lparr>tot_len := l, frag_off := f, ip_check := ck\<rparr>) @ rest =
      a @ be16 l @ be16 (ip_id h) @ be16 f @ c @ be16 ck @ e" for l f ck
    by (simp add: iphdr_bytes_def a_def c_def e_def)
  have i0: "iphdr_bytes h @ rest = a @ be16 (tot_len h) @ be16 (ip_id h) @ be16 (frag_off h) @ c @ be16 (ip_check h) @ e"
    by (simp add: iphdr_bytes_def a_def c_def e_def)
  let ?z = "h\<lparr>tot_len := len, frag_off := fo, ip_check := 0\<rparr>"
  have z: "be16 0 = [0, 0]" by (simp add: be16_def le16_def)
  show ?thesis
    unfolding frag_fields_def Let_def i0
    by (simp add: w flip: z) (simp add: w flip: i)
qed

lemma frag_fields_header:
  assumes "length (ip_saddr h) = 4" "length (ip_daddr h) = 4"
  shows "frag_fields k (be16 (ip_id h)) fo len 20 (iphdr_bytes h @ rest) =
    iphdr_bytes (set_check k (h\<lparr>tot_len := len, frag_off := fo\<rparr>)) @ rest"
  using assms by (simp add: frag_fields_any set_check_def mem_read_def)

lemma frag_build_plain:
  assumes h: "length (ip_saddr h) = 4" "length (ip_daddr h) = 4" "version_ihl h = 0x45"
    and b: "20 + length dat \<le> length buff"
  shows "take (length dat + 20) (frag_build k buff (iphdr_bytes h) (be16 (ip_id h)) lst fo dat) =
    iphdr_bytes (frag_hdr_of k h lst fo (length dat)) @ dat"
    and "length (frag_build k buff (iphdr_bytes h) (be16 (ip_id h)) lst fo dat) = length buff"
proof -
  have l: "length (iphdr_bytes h) = 20" using h by simp
  have nth0: "unat (iphdr_bytes h ! 0 AND 0x0f) * 4 = 20" using h by (simp add: iphdr_bytes_def)
  have m: "mem_write (mem_write buff 0 (iphdr_bytes h)) 20 dat = iphdr_bytes h @ dat @ drop (20 + length dat) buff"
    using l b by (simp add: mem_write_def add.commute)
  have "frag_build k buff (iphdr_bytes h) (be16 (ip_id h)) lst fo dat =
     iphdr_bytes (frag_hdr_of k h lst fo (length dat)) @ dat @ drop (20 + length dat) buff"
    unfolding frag_build_def l m nth0 by (simp add: frag_fields_header [OF h(1,2)] frag_hdr_of_def add.commute)
  moreover have "length (iphdr_bytes (frag_hdr_of k h lst fo (length dat))) = 20"
    using h by (simp add: frag_hdr_of_def set_check_def)
  ultimately show "take (length dat + 20) (frag_build k buff (iphdr_bytes h) (be16 (ip_id h)) lst fo dat) =
    iphdr_bytes (frag_hdr_of k h lst fo (length dat)) @ dat"
    and "length (frag_build k buff (iphdr_bytes h) (be16 (ip_id h)) lst fo dat) = length buff"
    using b by simp_all
qed

section \<open>Offsets\<close>

lemma take13: "unat (fo :: u16) < 8192 \<Longrightarrow> take_bit 13 fo = fo"
  by (rule word_unat_eq_iff [THEN iffD2]) (simp add: unsigned_take_bit_eq take_bit_nat_eq_self)

lemma low13: "unat fo < 8192 \<Longrightarrow> bit (fo :: u16) n \<Longrightarrow> n < 13"
  by (metis bit_take_bit_iff take13)

lemma frag_offset_bits:
  assumes "unat (fo :: u16) < 8192"
  shows "fo AND NOT IP_MF = fo" "(fo OR IP_MF) AND IP_OFFSET = fo" "fo AND IP_OFFSET = fo"
    "(fo OR IP_MF) AND IP_MF = IP_MF" "fo AND IP_MF = 0" "fo AND IP_DF = 0" "fo OR IP_MF \<noteq> IP_DF" "fo \<noteq> IP_DF"
proof -
  have e: "IP_MF = push_bit 13 1" "IP_DF = push_bit 14 1" and off: "IP_OFFSET = mask 13"
    by (simp_all add: IP_MF_def IP_OFFSET_def IP_DF_def mask_eq_exp_minus_1)
  have mf: "bit IP_MF n \<longleftrightarrow> n = 13" and df: "bit IP_DF n \<longleftrightarrow> n = 14" for n
    unfolding e bit_push_bit_iff possible_bit_word bit_1_iff by auto
  note b = low13 [OF assms]
  show "fo AND NOT IP_MF = fo" "(fo OR IP_MF) AND IP_OFFSET = fo" "fo AND IP_OFFSET = fo"
    "(fo OR IP_MF) AND IP_MF = IP_MF" "fo AND IP_MF = 0" "fo AND IP_DF = 0"
    by (auto simp: bit_eq_iff [where 'a = "16 word"] mf off df bit_simps dest: b)
  have "bit (fo OR IP_MF) 13" "\<not> bit IP_DF 13" "bit IP_DF 14" "\<not> bit fo 14" using b [of 14]
    by (auto simp: mf df bit_simps)
  then show "fo OR IP_MF \<noteq> IP_DF" "fo \<noteq> IP_DF" by metis+
qed

lemma frag_start_bits:
  assumes "unat (fo :: u16) < 8192"
  shows "unat (push_bit 3 fo AND IP6F_OFF_MASK) = 8 * unat fo"
    "unat ((push_bit 3 fo OR 1) AND IP6F_OFF_MASK) = 8 * unat fo"
    "push_bit 3 fo AND IP6F_MORE_FRAG = 0" "(push_bit 3 fo OR 1) AND IP6F_MORE_FRAG \<noteq> 0"
proof -
  have "IP6F_OFF_MASK = NOT (mask 3)" and m: "IP6F_MORE_FRAG = 1"
    by (simp_all add: IP6F_OFF_MASK_def IP6F_MORE_FRAG_def mask_eq_exp_minus_1)
  then have 1: "push_bit 3 fo AND IP6F_OFF_MASK = push_bit 3 fo" "(push_bit 3 fo OR 1) AND IP6F_OFF_MASK = push_bit 3 fo"
    by (auto simp: bit_eq_iff [where 'a = "16 word"] bit_simps)
  have "unat (push_bit 3 fo) = 8 * unat fo"
    using assms by (simp add: push_bit_eq_mult unat_mult_lem [THEN iffD1] mult.commute)
  then show "unat (push_bit 3 fo AND IP6F_OFF_MASK) = 8 * unat fo"
    "unat ((push_bit 3 fo OR 1) AND IP6F_OFF_MASK) = 8 * unat fo" by (simp_all only: 1)
  show "push_bit 3 fo AND IP6F_MORE_FRAG = 0" "(push_bit 3 fo OR 1) AND IP6F_MORE_FRAG \<noteq> 0"
    by (auto simp: m bit_eq_iff [where 'a = "16 word"] bit_simps)
qed

section \<open>The fragments of a packet\<close>

definition frag_ok :: "iphdr \<Rightarrow> u16 \<Rightarrow> bytes \<Rightarrow> bool" where
  "frag_ok h fo rest \<longleftrightarrow>
     length (ip_saddr h) = 4 \<and> length (ip_daddr h) = 4 \<and> version_ihl h = 0x45 \<and>
     unat fo * 8 + length rest \<le> 65535 \<and>
     (protocol h = IPPROTO_TCP \<or>
      protocol h = IPPROTO_UDP \<and> (fo \<noteq> 0 \<or> 8 \<le> length rest \<and> field16 rest 6 \<noteq> 0))"

lemma frag_ok_next:
  assumes "frag_ok h fo rest" "1232 < length rest"
  shows "frag_ok h (of_nat ((unat fo * 8 + 1232) div 8)) (drop 1232 rest)"
    "unat (of_nat ((unat fo * 8 + 1232) div 8) :: u16) = unat fo + 154"
proof -
  have "(unat fo * 8 + 1232) div 8 = unat fo + 154" by simp
  moreover have b: "unat fo + 154 < 2 ^ 16" using assms by (simp add: frag_ok_def)
  ultimately show u: "unat (of_nat ((unat fo * 8 + 1232) div 8) :: u16) = unat fo + 154"
    by (simp only: unat_of_nat) simp
  then have "(of_nat ((unat fo * 8 + 1232) div 8) :: u16) \<noteq> 0"
    by (metis add_is_0 unat_0 zero_neq_numeral)
  then show "frag_ok h (of_nat ((unat fo * 8 + 1232) div 8)) (drop 1232 rest)"
    using assms unfolding frag_ok_def u by auto
qed

lemma frag_plain:
  assumes f: "frag_ok h fo rest" and dat: "dat = take 1232 rest"
  shows "plain_packet (frag_hdr_of k h lst fo (length dat)) dat"
    and "fr_flag False (frag_hdr_of k h lst fo (length dat))"
proof -
  have fo: "unat fo < 8192" using f by (simp add: frag_ok_def)
  note b = frag_offset_bits [OF fo]
  have "unat (of_nat (length dat + 20) :: u16) = 20 + length dat"
    using dat by (subst unat_of_nat) (simp add: min_def)
  moreover have "field16 dat 6 = field16 rest 6" if "8 \<le> length rest"
    using that dat by (simp add: field16_def mem_read_def drop_take)
  ultimately show "plain_packet (frag_hdr_of k h lst fo (length dat)) dat"
    using f b dat by (auto simp: plain_packet_def frag_ok_def frag_hdr_of_def set_check_def)
  show "fr_flag False (frag_hdr_of k h lst fo (length dat))"
    using b by (simp add: fr_flag_def frag_hdr_of_def set_check_def)
qed

lemma frag_packet_parts:
  assumes f: "frag_ok h fo rest" and dat: "dat = take 1232 rest"
    and d_def: "d = v6_packet t (frag_hdr_of k h lst fo (length dat)) dat"
  shows "drop 48 d = dat" "length d = 48 + length dat" "frag_start (v6_frag d) = 8 * unat fo" "more_frags (v6_frag d) \<longleftrightarrow> \<not> lst"
proof -
  let ?h = "frag_hdr_of k h lst fo (length dat)"
  have fo: "unat fo < 8192" using f by (simp add: frag_ok_def)
  note p = frag_plain [OF f dat, of k lst]
  have l: "length (ipv6hdr_bytes (new_ipv6hdr t True False ?h)) = 40"
    using p(1) by (simp add: plain_packet_def)
  have d: "d = ipv6hdr_bytes (new_ipv6hdr t True False ?h) @ frag_hdr_bytes (new_frag_hdr ?h) @ dat"
    using p by (simp add: d_def v6_packet_def)
  show "drop 48 d = dat" "length d = 48 + length dat" using l by (simp_all add: d)
  have "v6_frag d = new_frag_hdr ?h" using l by (simp add: d v6_frag_def read_frag_hdr_bytes)
  moreover have "f_frag_off (new_frag_hdr ?h) = (if lst then push_bit 3 fo else push_bit 3 fo OR 1)"
  proof -
    have "frag_off ?h = (if lst then fo else fo OR IP_MF)"
      using frag_offset_bits(1) [OF fo] by (simp add: frag_hdr_of_def set_check_def)
    moreover have "drop_bit 13 IP_MF = 1" by (simp add: IP_MF_def)
    ultimately show ?thesis
      by (cases lst) (simp_all add: new_frag_hdr_def frag_offset_bits [OF fo] del: push_bit_and push_bit_or)
  qed
  ultimately show "frag_start (v6_frag d) = 8 * unat fo" "more_frags (v6_frag d) \<longleftrightarrow> \<not> lst"
    using frag_start_bits [OF fo] by (auto simp: frag_start_def more_frags_def)
qed

lemma frag_loop_plain:
  assumes f: "frag_ok h fo rest" and buff: "length buff = 1252" and eth: "14 \<le> length frame"
    and alloc: "alloc_sizes alloc" "\<And>i n. alloc i n \<noteq> None"
  shows "\<exists>w' frs. frag_loop k t alloc frame (iphdr_bytes h) (be16 (ip_id h)) True buff fo rest w = Inr (True, w') \<and>
    rx_queue w' = rx_queue w @ frs \<and> reassemble (8 * unat fo) (map skb_data frs) = Some rest \<and>
    (\<forall>s\<in>set frs. skb_protocol s = ETH_P_IPV6 \<and> length (skb_data s) \<le> 1280)"
  using f buff
proof (induction "length rest" arbitrary: rest fo buff w rule: less_induct)
  case less
  note f = less.prems(1) and buff = less.prems(2)
  let ?dat = "take 1232 rest" and ?lst = "length rest \<le> 1232"
  let ?h = "frag_hdr_of k h ?lst fo (length ?dat)" and ?n = "48 + length ?dat"
  let ?b = "frag_build k buff (iphdr_bytes h) (be16 (ip_id h)) ?lst fo ?dat"
  have a: "length (ip_saddr h) = 4" "length (ip_daddr h) = 4" "version_ihl h = 0x45" "length (iphdr_bytes h) = 20"
    using f by (auto simp: frag_ok_def)
  note p = frag_plain [OF f refl, of k ?lst] and parts = frag_packet_parts [OF f refl refl, of t k ?lst]
  have b: "take (length ?dat + 20) ?b = iphdr_bytes ?h @ ?dat" "length ?b = 1252"
    using frag_build_plain [OF a(1-3), of ?dat buff k ?lst fo] buff by auto
  obtain mem where mem: "alloc (allocated w) (?n + 14) = Some mem" using alloc(2) by fastforce
  have lm: "length mem = ?n + 14" using mem alloc(1) by (auto simp: alloc_sizes_def)
  define skb where "skb = \<lparr>skb_protocol = ETH_P_IPV6, skb_mac = new_mac frame ETH_P_IPV6, skb_data = drop 14 mem\<rparr>"
  have new: "new_skb alloc frame ETH_P_IPV6 (length ?dat + 20 + IP4_IP6_HDR_DIFF + IP6_FRAGMENT_SIZE) w =
      Inr (Some (skb, w\<lparr>allocated := Suc (allocated w)\<rparr>))"
    using new_skb_Some [OF alloc(1) mem eth] by (simp add: skb_def IP4_IP6_HDR_DIFF_def IP6_FRAGMENT_SIZE_def add.commute)
  have tr: "ip4_ip6 k t False (iphdr_bytes ?h @ ?dat) (skb_data skb) 0 = Inr (v6_packet t ?h ?dat)"
    using lm p(2) by (intro ip4_ip6_plain [OF p(1)]) (simp add: skb_def fr_size_def)
  define s where "s = skb\<lparr>skb_data := v6_packet t ?h ?dat\<rparr>"
  define w1 where "w1 = tx_deliver s (w\<lparr>allocated := Suc (allocated w)\<rparr>)"
  have s: "skb_data s = v6_packet t ?h ?dat" "skb_protocol s = ETH_P_IPV6" "length (skb_data s) \<le> 1280" "rx_queue w1 = rx_queue w @ [s]"
    using parts(2) by (auto simp: s_def w1_def tx_deliver_def skb_def)
  have step: "frag_loop k t alloc frame (iphdr_bytes h) (be16 (ip_id h)) True buff fo rest w =
     (if ?lst then Inr (True, w1)
      else frag_loop k t alloc frame (iphdr_bytes h) (be16 (ip_id h)) True ?b
             (of_nat ((unat fo * 8 + length ?dat) div 8)) (drop 1232 rest) w1)"
    by (subst frag_loop.simps) (simp only: Let_def FRAG_BUFF_SIZE_def simp_thms a(4) new rbind_simps b(1) tr option.case prod.case sum.case s_def w1_def)
  show ?case
  proof (cases ?lst)
    case True
    then show ?thesis using step s parts
      by (intro exI [of _ w1] exI [of _ "[s]"]) simp
  next
    case False
    then have len: "1232 < length rest" "length ?dat = 1232" by auto
    have "length (drop 1232 rest) < length rest" using len by simp
    from less.hyps [OF this frag_ok_next(1) [OF f len(1)] b(2), of w1]
    obtain w' frs where IH: "frag_loop k t alloc frame (iphdr_bytes h) (be16 (ip_id h)) True ?b
        (of_nat ((unat fo * 8 + 1232) div 8)) (drop 1232 rest) w1 = Inr (True, w')"
      "rx_queue w' = rx_queue w1 @ frs" "reassemble (8 * (unat fo + 154)) (map skb_data frs) = Some (drop 1232 rest)"
      "\<forall>s\<in>set frs. skb_protocol s = ETH_P_IPV6 \<and> length (skb_data s) \<le> 1280"
      unfolding frag_ok_next(2) [OF f len(1)] by auto
    have "reassemble (8 * unat fo) (map skb_data (s # frs)) = Some rest"
      using IH(3) parts s(1) False len(2) by (simp add: add.commute)
    then show ?thesis using step IH s False len(2)
      by (intro exI [of _ w'] exI [of _ "s # frs"]) simp
  qed
qed

end
