(* ===== verification/Siit_Safe.thy ===== *)
theory Siit_Safe
  imports Siit_Frag
begin

text \<open>
  Memory safety of the translator, by weakest preconditions over packet memory: \<open>vc E r P\<close> says
  that the result \<open>r\<close> is an error of \<open>E\<close> or a value with the property \<open>P\<close>.
\<close>

section \<open>Verification conditions\<close>

definition vc :: "siit_error set \<Rightarrow> 'a result \<Rightarrow> ('a \<Rightarrow> bool) \<Rightarrow> bool" where
  "vc E r P \<longleftrightarrow> (case r of Inl e \<Rightarrow> e \<in> E | Inr x \<Rightarrow> P x)"

lemma vc_simps [simp]: "vc E (Inl e) P \<longleftrightarrow> e \<in> E" "vc E (Inr x) P \<longleftrightarrow> P x"
  by (simp_all add: vc_def)

lemma vc_rbind: "vc E r Q \<Longrightarrow> (\<And>x. r = Inr x \<Longrightarrow> Q x \<Longrightarrow> vc E (f x) P) \<Longrightarrow> vc E (rbind r f) P"
  by (cases r) simp_all

lemma vc_mono: "vc E r Q \<Longrightarrow> (\<And>x. Q x \<Longrightarrow> P x) \<Longrightarrow> vc E r P"
  by (cases r) simp_all

lemma vc_rd: "off + n \<le> length m \<or> BadRead \<in> E \<Longrightarrow> vc E (rd m off n) (\<lambda>x. x = mem_read m off n \<and> length x = n)"
  by (auto simp: rd_def)

lemma vc_wr: "off + length bs \<le> length m \<Longrightarrow> vc E (wr m off bs) (\<lambda>m'. length m' = length m)"
  by (simp add: wr_def)

lemma vc_rest: "n \<le> length m \<Longrightarrow> vc E (rest_from m n) (\<lambda>x. length x = length m - n)"
  by (simp add: rest_from_def)

lemma vc_if: "(b \<Longrightarrow> vc E r P) \<Longrightarrow> (\<not> b \<Longrightarrow> vc E s P) \<Longrightarrow> vc E (if b then r else s) P"
  by simp

lemmas vc_intros = vc_rbind [OF vc_wr] vc_rbind [OF vc_rd] vc_rbind [OF vc_rest]

section \<open>IPv4 to IPv6\<close>

lemma store_csum6_safe:
  assumes "p + coff + 2 \<le> length d" "0 \<le> n" "p + nat n \<le> length d"
  shows "vc E (store_csum6 k h6 proto d p coff n) (\<lambda>d'. length d' = length d)"
  using assms by (auto simp: store_csum6_def intro!: vc_intros vc_mono [OF vc_wr])

text \<open>A packet inside an ICMP error message that can be translated in place.\<close>

definition included_ok :: "bytes \<Rightarrow> bool" where
  "included_ok q \<longleftrightarrow>
     20 \<le> length q \<and>
     (let h = read_iphdr (take 20 q) in
      20 \<le> hdr_len_of h \<and> hdr_len_of h \<le> length q \<and>
      (protocol h = IPPROTO_UDP \<and> frag_off h AND IP_OFFSET = 0 \<longrightarrow> hdr_len_of h + 8 \<le> length q))"

lemma length_new_ipv6 [simp]:
  "length hb = 20 \<Longrightarrow> length (ipv6hdr_bytes (new_ipv6hdr t fr inc (read_iphdr hb))) = 40"
  by (intro length_v6_hdr) (simp_all add: read_iphdr_def)

lemma ip4_udp_safe:
  assumes "hdr_len_of h \<le> length src" "off + 40 + fr_size fr + length src - hdr_len_of h \<le> length d"
    "frag_off h AND IP_OFFSET = 0 \<longrightarrow> hdr_len_of h + 8 \<le> length src"
    "\<not> inc \<longrightarrow> int (fr_size fr) \<le> new_plen fr h \<and> new_plen fr h - int (fr_size fr) \<le> int (length src - hdr_len_of h)"
    "Dropped \<in> E"
  shows "vc E (ip4_udp k inc h h6 src d off fr) (\<lambda>d'. length d' = length d)"
proof -
  let ?hl = "hdr_len_of h" and ?p = "off + 40 + fr_size fr"
  let ?chk = "if frag_off h AND IP_OFFSET = 0
             then rbind (rd src ?hl 8) (\<lambda>udp.
               if field16 udp 6 = 0
               then (if frag_off h AND IP_MF \<noteq> 0 then Inl Dropped else Inr True)
               else Inr False)
             else Inr False"
  have 1: "vc E ?chk (\<lambda>fl. fl \<longrightarrow> ?hl + 8 \<le> length src)"
    using assms by (auto intro!: vc_intros)
  have 2: "vc E (rbind (wr d ?p dat) (\<lambda>d. if fl \<and> \<not> inc
      then store_csum6 k h6 IPPROTO_UDP d ?p 6 (new_plen fr h - int (fr_size fr)) else Inr d)) (\<lambda>d'. length d' = length d)"
    if "length dat = length src - ?hl" "fl \<longrightarrow> ?hl + 8 \<le> length src" for fl dat
    using assms that by (auto intro!: vc_intros vc_mono [OF store_csum6_safe])
  show ?thesis
    unfolding ip4_udp_def Let_def by (rule vc_rbind [OF 1], rule vc_rbind [OF vc_rest]) (use assms 2 in auto)
qed

text \<open>The part of the translation that precedes the switch on the protocol.\<close>

lemma ip4_ip6_step_safe:
  assumes src: "20 \<le> length src" and d: "off + 40 + fr_size (fr_flag inc (read_iphdr (take 20 src))) \<le> length dst"
    and body: "\<And>h h6 fr d. h = read_iphdr (take 20 src) \<Longrightarrow> fr = fr_flag inc h \<Longrightarrow> length d = length dst \<Longrightarrow>
      vc E (if protocol h = IPPROTO_ICMP then ip4_icmp inner k inc h h6 src d off fr
        else if protocol h = IPPROTO_TCP then
          rbind (rest_from src (hdr_len_of h)) (\<lambda>dat. wr d (off + 40 + fr_size fr) dat)
        else if protocol h = IPPROTO_UDP then ip4_udp k inc h h6 src d off fr
        else Inl Dropped) (\<lambda>d'. length d' = length dst)"
  shows "vc E (ip4_ip6_step inner k t inc src dst off) (\<lambda>d'. length d' = length dst)"
proof -
  let ?h = "read_iphdr (take 20 src)"
  have r: "rd src 0 20 = Inr (take 20 src)" using src by (simp add: rd_def mem_read_def)
  have w: "vc E (if fr_flag inc ?h then wr dst (off + 40) (frag_hdr_bytes (new_frag_hdr ?h)) else Inr dst)
      (\<lambda>d'. length d' = length dst)"
    using d by (auto simp: fr_size_def intro!: vc_wr)
  show ?thesis unfolding ip4_ip6_step_def r rbind_simps Let_def
  proof (rule vc_rbind [OF w], rule vc_rbind [OF vc_wr], goal_cases)
    case (1 d1) then show ?case using src d by simp
  next
    case (2 d1 d2) then show ?case by (intro body) auto
  qed
qed

lemma included_safe:
  assumes q: "included_ok q" and d: "off + 20 + length q \<le> length d" and E: "Dropped \<in> E"
  shows "vc E (ip4_ip6_step inner k t True q d off) (\<lambda>d'. length d' = length d)"
proof (rule ip4_ip6_step_safe)
  show "20 \<le> length q" using q by (simp add: included_ok_def)
  then show "off + 40 + fr_size (fr_flag True (read_iphdr (take 20 q))) \<le> length d"
    using d by (simp add: fr_flag_def fr_size_def)
  fix h h6 fr and d' :: bytes assume h: "h = read_iphdr (take 20 q)" "fr = fr_flag True h" and d': "length d' = length d"
  have fr: "fr_size fr = 0" and hl: "20 \<le> hdr_len_of h" "hdr_len_of h \<le> length q"
    and udp: "protocol h = IPPROTO_UDP \<and> frag_off h AND IP_OFFSET = 0 \<longrightarrow> hdr_len_of h + 8 \<le> length q"
    using q h by (auto simp: included_ok_def Let_def fr_flag_def fr_size_def)
  have "vc E (ip4_udp k True h h6 q d' off fr) (\<lambda>x. length x = length d)" if "protocol h = IPPROTO_UDP"
    using d d' fr hl udp that E by (intro vc_mono [OF ip4_udp_safe]) auto
  then show "vc E (if protocol h = IPPROTO_ICMP then ip4_icmp inner k True h h6 q d' off fr
        else if protocol h = IPPROTO_TCP then rbind (rest_from q (hdr_len_of h)) (\<lambda>dat. wr d' (off + 40 + fr_size fr) dat)
        else if protocol h = IPPROTO_UDP then ip4_udp k True h h6 q d' off fr
        else Inl Dropped) (\<lambda>x. length x = length d)"
    using d d' fr hl E by (auto simp: ip4_icmp_def intro!: vc_intros vc_mono [OF vc_wr])
qed

text \<open>
  An ICMP message that can be translated: eight bytes of header, and in an error message a packet
  that can be translated. The buffer has \<open>extra\<close> bytes for the longer header of that packet.
\<close>

definition icmp_ok :: "bytes \<Rightarrow> bool" where
  "icmp_ok m \<longleftrightarrow> 8 \<le> length m \<and> (m ! 0 \<noteq> 8 \<and> m ! 0 \<noteq> 0 \<longrightarrow> included_ok (drop 8 m))"

lemma icmp4_header_safe:
  assumes "length h = 8" "length old = 8" "Dropped \<in> E"
  shows "vc E (icmp4_header h old) (\<lambda>out. case out of
      Icmp_error x \<Rightarrow> length x = 8 \<and> h ! 0 \<noteq> 8 \<and> h ! 0 \<noteq> 0 | Icmp_echo _ \<Rightarrow> h ! 0 = 8 \<or> h ! 0 = 0)"
proof -
  have "vc E (icmp4_unreach h old) (\<lambda>x. length x = 8)"
    using assms by (simp add: icmp4_unreach_def Let_def)
  then show ?thesis using assms
    by (auto simp: icmp4_header_def Let_def intro!: vc_rbind)
qed

lemma ip4_icmp_safe:
  fixes h src
  defines "m \<equiv> drop (hdr_len_of h) src"
  assumes src: "20 \<le> hdr_len_of h" "hdr_len_of h \<le> length src" "length src = unat (tot_len h)" and m: "icmp_ok m"
    and d: "off + 40 + fr_size fr + length m + (if m ! 0 \<noteq> 8 \<and> m ! 0 \<noteq> 0 then 20 else 0) \<le> length d"
    and inner: "inner = ip4_ip6_step inner' k t True" and E: "Dropped \<in> E"
  shows "vc E (ip4_icmp inner k False h h6 src d off fr) (\<lambda>d'. length d' = length d)"
proof -
  let ?hl = "hdr_len_of h" and ?p = "off + 40 + fr_size fr" and ?n = "int (unat (tot_len h)) - int (hdr_len_of h)"
  let ?err = "m ! 0 \<noteq> 8 \<and> m ! 0 \<noteq> 0"
  have lm: "length src = ?hl + length m" "8 \<le> length m" using m src by (auto simp: m_def icmp_ok_def)
  have n: "?n = int (length m)" using lm(1) src(3) by linarith
  have hd: "mem_read src ?hl 8 = take 8 m" "drop (?hl + 8) src = drop 8 m" by (simp_all add: m_def mem_read_def add.commute)
  have err: "vc E (rbind (wr d ?p hdr6) (\<lambda>d.
               rbind (inner (drop 8 m) d (?p + 8)) (\<lambda>d.
               rbind (wr d (off + 4) (be16 (word_of_int (new_plen fr h + 20)))) (\<lambda>d.
               store_csum6 k h6 IPPROTO_ICMPV6 d ?p 2 (int (length m) + 20))))) (\<lambda>d'. length d' = length d)"
    if "length hdr6 = 8" ?err for hdr6
  proof (rule vc_rbind [OF vc_wr], goal_cases)
    case (2 d1)
    have "vc E (inner (drop 8 m) d1 (?p + 8)) (\<lambda>d'. length d' = length d1)"
      unfolding inner using m that 2 d lm E by (intro included_safe) (auto simp: icmp_ok_def)
    then show ?case
      by (rule vc_rbind) (use 2 that d lm in \<open>auto intro!: vc_intros vc_mono [OF store_csum6_safe]\<close>)
  qed (use that d lm in auto)
  have echo: "vc E (rbind (wr d ?p [ty, 0]) (\<lambda>d.
               rbind (rest_from src (?hl + 4)) (\<lambda>dat.
               rbind (wr d (?p + 4) dat) (\<lambda>d.
               store_csum6 k h6 IPPROTO_ICMPV6 d ?p 2 (int (length m)))))) (\<lambda>d'. length d' = length d)" for ty
    using d lm by (auto intro!: vc_intros vc_mono [OF store_csum6_safe])
  have "vc E (rbind (rd src ?hl 2) (\<lambda>_.
           rbind (if ?p + 8 \<le> length d then Inr (mem_read d ?p 8) else Inl BadWrite) (\<lambda>old.
           rbind (icmp4_header (take 8 m) old) (\<lambda>out.
           case out of
             Icmp_error hdr6 \<Rightarrow>
               rbind (wr d ?p hdr6) (\<lambda>d.
               rbind (inner (drop 8 m) d (?p + 8)) (\<lambda>d.
               rbind (wr d (off + 4) (be16 (word_of_int (new_plen fr h + 20)))) (\<lambda>d.
               store_csum6 k h6 IPPROTO_ICMPV6 d ?p 2 (int (length m) + 20))))
           | Icmp_echo type6 \<Rightarrow>
               rbind (wr d ?p [type6, 0]) (\<lambda>d.
               rbind (rest_from src (?hl + 4)) (\<lambda>dat.
               rbind (wr d (?p + 4) dat) (\<lambda>d.
               store_csum6 k h6 IPPROTO_ICMPV6 d ?p 2 (int (length m))))))))) (\<lambda>d'. length d' = length d)"
  proof (rule vc_rbind [OF vc_rd], goal_cases)
    case (2 x)
    have "?p + 8 \<le> length d" using d lm by simp
    then show ?case
      by (simp only: if_True rbind_simps, intro vc_rbind [OF icmp4_header_safe])
        (use lm m E err echo in \<open>auto split: icmp6_out.splits\<close>)
  qed (use lm in auto)
  note body = this
  show ?thesis
    unfolding ip4_icmp_def Let_def hd n by (rule vc_if, simp add: E, simp only: if_False body)
qed

definition icmp_extra :: "iphdr \<Rightarrow> bytes \<Rightarrow> nat" where
  "icmp_extra h pkt =
     (let m = drop (hdr_len_of h) pkt in
      if protocol h = IPPROTO_ICMP \<and> m ! 0 \<noteq> 8 \<and> m ! 0 \<noteq> 0 then IP4_IP6_HDR_DIFF else 0)"

definition whole :: "iphdr \<Rightarrow> bool" where
  "whole h \<longleftrightarrow> frag_off h AND IP_OFFSET = 0 \<and> frag_off h AND IP_MF = 0"

lemma ip4_ip6_safe:
  assumes src: "20 \<le> length pkt" and h: "h = read_iphdr (take 20 pkt)"
    and hl: "20 \<le> hdr_len_of h" "hdr_len_of h \<le> length pkt" "length pkt = unat (tot_len h)" "length pkt \<le> 65527"
    and udp: "protocol h = IPPROTO_UDP \<and> frag_off h AND IP_OFFSET = 0 \<longrightarrow> hdr_len_of h + 8 \<le> length pkt"
    and icmp: "protocol h = IPPROTO_ICMP \<and> whole h \<longrightarrow> icmp_ok (drop (hdr_len_of h) pkt) \<and>
      length pkt + 20 + fr_size (fr_flag False h) + icmp_extra h pkt \<le> length d"
    and d: "length pkt + 20 + fr_size (fr_flag False h) \<le> length d" and E: "Dropped \<in> E"
  shows "vc E (ip4_ip6 k t False pkt d 0) (\<lambda>d'. length d' = length d)"
  unfolding ip4_ip6_def
proof (rule ip4_ip6_step_safe [OF src], goal_cases)
  case 1 then show ?case using d src by (simp add: h)
next
  case (2 h' h6 fr d')
  have h': "h' = h" and l: "length d' = length d" and fr: "fr = fr_flag False h" using 2 h by simp_all
  have "uint (new_tot_len fr h) = int (fr_size fr + length pkt)"
  proof -
    have "uint (tot_len h) = int (length pkt)" using hl(3) by simp
    then show ?thesis using hl(4) by (simp add: new_tot_len_def fr_size_def uint_plus_if')
  qed
  then have plen: "new_plen fr h = int (fr_size fr) + int (length pkt - hdr_len_of h)"
    using hl(2) by (simp add: new_plen_def of_nat_diff)
  have u: "vc E (ip4_udp k False h h6 pkt d' 0 fr) (\<lambda>x. length x = length d)" if "protocol h = IPPROTO_UDP"
    using d l fr hl(1,2) udp that E plen by (intro vc_mono [OF ip4_udp_safe]) auto
  have i: "vc E (ip4_icmp (ip4_ip6_step (\<lambda>_ _ _. Inl Dropped) k t True) k False h h6 pkt d' 0 fr) (\<lambda>x. length x = length d)"
    if "protocol h = IPPROTO_ICMP"
  proof (cases "whole h")
    case True
    then show ?thesis using l fr hl icmp that E
      by (intro vc_mono [OF ip4_icmp_safe]) (auto simp: icmp_extra_def Let_def IP4_IP6_HDR_DIFF_def)
  next
    case False then show ?thesis using E by (auto simp: ip4_icmp_def whole_def)
  qed
  have tcp: "vc E (rbind (rest_from pkt (hdr_len_of h)) (\<lambda>dat. wr d' (0 + 40 + fr_size fr) dat)) (\<lambda>x. length x = length d)"
    using d l fr hl(1,2) by (auto intro!: vc_intros vc_mono [OF vc_wr])
  show ?case unfolding h' using E u i tcp by (intro vc_if) simp_all
qed

section \<open>Fragments\<close>

lemma le16_of_le16: "le16 (of_le16 [a, b]) = [a, b]"
  by (auto simp: le16_def bit_eq_iff [where 'a = "8 word"] bit_simps dest: bit_imp_le_length)

lemma mem_read_glue: "j = i + n \<Longrightarrow> mem_read m i n @ mem_read m j l = mem_read m i (n + l)"
  by (metis mem_read_def take_add drop_drop add.commute)

lemma be16_field16: "off + 2 \<le> length m \<Longrightarrow> be16 (field16 m off) = mem_read m off 2"
proof -
  assume "off + 2 \<le> length m"
  then have "mem_read m off 2 = [m ! off, m ! Suc off]"
    by (simp add: mem_read_def take_Suc_conv_app_nth numeral_2_eq_2)
  then show ?thesis using le16_of_le16 [of "m ! Suc off" "m ! off"]
    by (simp add: field16_def of_be16_def be16_def)
qed

lemma iphdr_bytes_read:
  assumes "length m = 20"
  shows "iphdr_bytes (read_iphdr m) = m"
proof -
  have "[m ! 0, m ! 1] = mem_read m 0 2" "[m ! 8, m ! 9] = mem_read m 8 2"
    using assms by (auto simp: mem_read_def take_Suc_conv_app_nth numeral_2_eq_2)
  then have "iphdr_bytes (read_iphdr m) = mem_read m 0 2 @ mem_read m 2 2 @ mem_read m 4 2 @ mem_read m 6 2 @
      mem_read m 8 2 @ mem_read m 10 2 @ mem_read m 12 4 @ mem_read m 16 4"
    using assms by (simp add: iphdr_bytes_def read_iphdr_def be16_field16)
  also have "\<dots> = mem_read m 0 20"
    by (simp add: mem_read_glue)
  finally show ?thesis using assms by (simp add: mem_read_def)
qed

text \<open>
  One fragment of a packet whose header has the bytes of \<open>h\<close> and options \<open>opts\<close>: the memory
  that the translation reads, and its header.
\<close>

lemma frag_build_any:
  assumes h: "length (ip_saddr h) = 4" "length (ip_daddr h) = 4" and hdr: "hdr = iphdr_bytes h @ opts"
    and b: "length hdr + length dat \<le> length buff"
  obtains ck rest where
    "frag_build k buff hdr (be16 (ip_id h)) lst fo dat =
       iphdr_bytes (h\<lparr>tot_len := of_nat (length dat + length hdr),
         frag_off := if lst then fo AND NOT IP_MF else fo OR IP_MF, ip_check := ck\<rparr>) @ opts @ dat @ rest"
    "length (opts @ dat @ rest) = length buff - 20"
proof -
  have "mem_write (mem_write buff 0 hdr) (length hdr) dat = iphdr_bytes h @ opts @ dat @ drop (length hdr + length dat) buff"
    using b by (simp add: mem_write_def hdr ac_simps)
  then show thesis
    using b h by (intro that [of _ "drop (length hdr + length dat) buff"])
      (simp add: frag_build_def frag_fields_any [OF h], simp add: hdr)
qed

lemma new_skb_safe:
  assumes "alloc_sizes alloc" "14 \<le> length frame"
  shows "vc E (new_skb alloc frame proto n w) (\<lambda>s. case s of None \<Rightarrow> True | Some (skb2, w') \<Rightarrow> length (skb_data skb2) = n)"
proof (cases "alloc (allocated w) (n + 14)")
  case None then show ?thesis by (simp add: new_skb_def ETH_HLEN_def)
next
  case (Some mem)
  moreover have "length mem = n + 14" using Some assms(1) by (auto simp: alloc_sizes_def)
  ultimately show ?thesis using new_skb_Some [OF assms(1) Some assms(2)] by simp
qed

lemma hdr_len_60: "hdr_len_of h \<le> 60"
proof -
  have "version_ihl h AND 0x0f = take_bit 4 (version_ihl h)" by (simp add: take_bit_eq_mask mask_eq_exp_minus_1)
  then have "unat (version_ihl h AND 0x0f) < 16"
    using take_bit_nat_less_exp [of 4 "unat (version_ihl h)"] by (simp add: unsigned_take_bit_eq)
  then show ?thesis by (simp add: hdr_len_of_def)
qed

lemma frag_piece_safe:
  fixes h opts rest fo
  defines "hdr \<equiv> iphdr_bytes h @ opts" and "dat \<equiv> take FRAG_BUFF_SIZE rest"
  assumes h: "length (ip_saddr h) = 4" "length (ip_daddr h) = 4" "length hdr = hdr_len_of h"
    and buff: "length buff = FRAG_BUFF_SIZE + length hdr"
    and fo: "unat fo * 8 + length rest \<le> 65535" "fo \<noteq> 0 \<or> FRAG_BUFF_SIZE < length rest"
    and lst: "lst \<longrightarrow> length rest \<le> FRAG_BUFF_SIZE"
    and d: "length d = length dat + length hdr + IP4_IP6_HDR_DIFF + IP6_FRAGMENT_SIZE"
  shows "vc {Dropped} (ip4_ip6 k t False (take (length dat + length hdr) (frag_build k buff hdr (be16 (ip_id h)) lst fo dat)) d 0) (\<lambda>_. True)"
    and "length (frag_build k buff hdr (be16 (ip_id h)) lst fo dat) = length buff"
proof -
  let ?fo = "if lst then fo AND NOT IP_MF else fo OR IP_MF" and ?tl = "of_nat (length dat + length hdr) :: u16"
  have ld: "length dat \<le> 1232" by (simp add: dat_def FRAG_BUFF_SIZE_def)
  obtain ck r where b: "frag_build k buff hdr (be16 (ip_id h)) lst fo dat =
       iphdr_bytes (h\<lparr>tot_len := ?tl, frag_off := ?fo, ip_check := ck\<rparr>) @ opts @ dat @ r" "length (opts @ dat @ r) = length buff - 20"
    using frag_build_any [OF h(1,2) meta_eq_to_obj_eq [OF hdr_def], of dat buff k lst fo] buff ld by (auto simp: FRAG_BUFF_SIZE_def)
  let ?h = "h\<lparr>tot_len := ?tl, frag_off := ?fo, ip_check := ck\<rparr>"
  have l20: "length (iphdr_bytes ?h) = 20" "length hdr = 20 + length opts" using h(1,2) by (simp_all add: hdr_def)
  then show "length (frag_build k buff hdr (be16 (ip_id h)) lst fo dat) = length buff"
    using b buff by (simp add: FRAG_BUFF_SIZE_def)
  let ?p = "iphdr_bytes ?h @ opts @ dat"
  have p: "take (length dat + length hdr) (frag_build k buff hdr (be16 (ip_id h)) lst fo dat) = ?p" using b l20 by simp
  have rh: "read_iphdr (take 20 ?p) = ?h" using read_iphdr_bytes [of ?h "[]"] h l20 by simp
  have f13: "unat fo < 8192" using fo(1) by simp
  note bits = frag_offset_bits [OF f13]
  have off: "?fo AND IP_OFFSET = fo" using bits by (simp only: split: if_split) simp
  have mf: "\<not> lst \<Longrightarrow> ?fo AND IP_MF \<noteq> 0" using bits(4) by (simp add: IP_MF_def)
  have full: "length dat = 1232" "\<not> lst" if "fo = 0" using fo(2) lst that by (auto simp: dat_def FRAG_BUFF_SIZE_def)
  have tl: "unat ?tl = length ?p"
    using ld l20 hdr_len_60 [of h] h(3) by (subst unat_of_nat) simp
  have hl: "hdr_len_of ?h = 20 + length opts" using h(3) l20 by (simp add: hdr_len_of_def)
  show "vc {Dropped} (ip4_ip6 k t False (take (length dat + length hdr) (frag_build k buff hdr (be16 (ip_id h)) lst fo dat)) d 0) (\<lambda>_. True)"
    unfolding p
  proof (rule vc_mono [OF ip4_ip6_safe [where h = ?h]], goal_cases)
    case 6 then show ?case using ld l20 hdr_len_60 [of h] h(3) by simp
  next
    case 7 then show ?case using off full hl l20 by auto
  next
    case 8 then show ?case using off mf full by (auto simp: whole_def)
  next
    case 9 then show ?case using d l20 by (simp add: fr_size_def IP4_IP6_HDR_DIFF_def IP6_FRAGMENT_SIZE_def)
  qed (use l20 rh tl hl in simp_all)
qed

lemma frag_loop_safe:
  assumes h: "length (ip_saddr h) = 4" "length (ip_daddr h) = 4" "length hdr = hdr_len_of h" "hdr = iphdr_bytes h @ opts"
    and env: "alloc_sizes alloc" "14 \<le> length frame"
    and buff: "length buff = FRAG_BUFF_SIZE + length hdr"
    and fo: "unat fo * 8 + length rest \<le> 65535" "fo \<noteq> 0 \<or> FRAG_BUFF_SIZE < length rest"
  shows "vc {} (frag_loop k t alloc frame hdr (be16 (ip_id h)) last_mf buff fo rest w) (\<lambda>_. True)"
  using buff fo
proof (induction "length rest" arbitrary: rest fo buff w rule: less_induct)
  case less
  let ?dat = "take FRAG_BUFF_SIZE rest" and ?lst = "length rest \<le> FRAG_BUFF_SIZE \<and> last_mf"
  let ?fo = "of_nat ((unat fo * 8 + length ?dat) div 8) :: u16"
  let ?b = "frag_build k buff hdr (be16 (ip_id h)) ?lst fo ?dat"
  have lb: "length ?b = FRAG_BUFF_SIZE + length hdr"
    using frag_piece_safe(2) [of h opts buff fo rest ?lst "replicate (length ?dat + length hdr + IP4_IP6_HDR_DIFF + IP6_FRAGMENT_SIZE) 0"]
      h less.prems by simp
  have next_ok: "vc {} (frag_loop k t alloc frame hdr (be16 (ip_id h)) last_mf ?b ?fo (drop FRAG_BUFF_SIZE rest) w') (\<lambda>_. True)"
    if big: "\<not> length rest \<le> FRAG_BUFF_SIZE" for w'
  proof (rule less.hyps [OF _ lb])
    have "(unat fo * 8 + length ?dat) div 8 = unat fo + 154" using big by (simp add: FRAG_BUFF_SIZE_def)
    moreover have "unat fo + 154 < 2 ^ 16" using less.prems by simp
    ultimately have u: "unat ?fo = unat fo + 154" by (simp only: unat_of_nat) simp
    then show "unat ?fo * 8 + length (drop FRAG_BUFF_SIZE rest) \<le> 65535"
      unfolding u using big less.prems by (simp add: FRAG_BUFF_SIZE_def)
    have "?fo \<noteq> 0" using u by (metis add_is_0 unat_0 zero_neq_numeral)
    then show "?fo \<noteq> 0 \<or> FRAG_BUFF_SIZE < length (drop FRAG_BUFF_SIZE rest)" ..
  qed (use big in \<open>simp add: FRAG_BUFF_SIZE_def\<close>)
  show ?case
    unfolding frag_loop.simps [of k t alloc frame hdr "be16 (ip_id h)" last_mf buff fo rest w] Let_def
  proof (rule vc_rbind [OF new_skb_safe [OF env]], goal_cases)
    case (1 s)
    show ?case
    proof (cases s)
      case (Some p)
      obtain skb2 w2 where p: "p = (skb2, w2)" by (cases p)
      have "vc {Dropped} (ip4_ip6 k t False (take (length ?dat + length hdr) ?b) (skb_data skb2) 0) (\<lambda>_. True)"
        using h less.prems 1 Some p unfolding h(4) by (intro frag_piece_safe(1)) auto
      then show ?thesis
        unfolding Some p option.case prod.case
        by (cases "ip4_ip6 k t False (take (length ?dat + length hdr) ?b) (skb_data skb2) 0")
          (simp, simp only: sum.case, rule vc_if, simp, rule next_ok)
    qed simp
  qed
qed

section \<open>The transmit function on IPv4\<close>

text \<open>The packets that \<open>siit_xmit\<close> handles without an access outside its buffers.\<close>

definition v4_ok :: "bytes \<Rightarrow> bool" where
  "v4_ok pkt \<longleftrightarrow>
     20 \<le> length pkt \<and>
     (let h = read_iphdr (take 20 pkt); hl = hdr_len_of h in
      20 \<le> hl \<and> hl \<le> length pkt \<and> length pkt \<le> 65527 \<and>
      unat (frag_off h AND IP_OFFSET) * 8 + (length pkt - hl) \<le> 65535 \<and>
      (protocol h = IPPROTO_UDP \<and> frag_off h AND IP_OFFSET = 0 \<longrightarrow>
         hl + 8 \<le> length pkt \<and> hl + unat (field16 pkt (hl + 4)) \<le> length pkt) \<and>
      (protocol h = IPPROTO_ICMP \<longrightarrow> icmp_ok (drop hl pkt)))"

lemma fill_udp_csum_safe:
  assumes ok: "v4_ok pkt" and h: "h = read_iphdr (take 20 pkt)" and E: "Dropped \<in> E"
  shows "vc E (fill_udp_csum k h pkt) (\<lambda>pkt'. length pkt' = length pkt \<and> take (hdr_len_of h) pkt' = take (hdr_len_of h) pkt)"
proof -
  let ?hl = "hdr_len_of h"
  have udp: "?hl + 8 \<le> length pkt" "?hl + unat (field16 pkt (?hl + 4)) \<le> length pkt"
    if "protocol h = IPPROTO_UDP" "frag_off h AND IP_OFFSET = 0"
    using ok that by (auto simp: v4_ok_def Let_def h)
  have f: "field16 (mem_read pkt ?hl 8) 4 = field16 pkt (?hl + 4)"
    by (simp add: field16_def mem_read_def drop_take add.commute)
  show ?thesis unfolding fill_udp_csum_def Let_def
    by (intro vc_if vc_rbind [OF vc_rd]) (use udp E in \<open>auto simp: f wr_def mem_write_def intro!: vc_rbind [OF vc_rd]\<close>)
qed

lemma xmit_v4_safe:
  assumes ok: "v4_ok pkt" and env: "alloc_sizes alloc" "14 \<le> length frame" "FRAG_BUFF_SIZE + 60 \<le> length stack"
  shows "vc {} (xmit_v4 k t alloc stack frame pkt w) (\<lambda>_. True)"
proof -
  let ?h = "read_iphdr (take 20 pkt)" let ?hl = "hdr_len_of ?h"
  have b: "20 \<le> length pkt" "20 \<le> ?hl" "?hl \<le> length pkt" "length pkt \<le> 65527"
    and off: "unat (frag_off ?h AND IP_OFFSET) * 8 + (length pkt - ?hl) \<le> 65535"
    and udp: "protocol ?h = IPPROTO_UDP \<and> frag_off ?h AND IP_OFFSET = 0 \<longrightarrow> ?hl + 8 \<le> length pkt"
    and icmp: "protocol ?h = IPPROTO_ICMP \<longrightarrow> icmp_ok (drop ?hl pkt)"
    using ok by (auto simp: v4_ok_def Let_def)
  have r: "rd pkt 0 20 = Inr (take 20 pkt)" using b by (simp add: rd_def mem_read_def)
  have hdr: "length (ip_saddr ?h) = 4" "length (ip_daddr ?h) = 4" using b by (simp_all add: read_iphdr_def)
  have tk: "take ?hl pkt = iphdr_bytes ?h @ take (?hl - 20) (drop 20 pkt)"
    using b iphdr_bytes_read [of "take 20 pkt"] take_add [of 20 "?hl - 20" pkt] by simp
  have frag: "vc {} (ip4_fragment k t alloc stack frame ?h pkt w) (\<lambda>_. True)" if big: "FRAG_BUFF_SIZE + ?hl < length pkt"
  proof (cases "fill_udp_csum k ?h pkt")
    case (Inl e)
    then show ?thesis using fill_udp_csum_safe [OF ok refl, of "{Dropped}" k] by (simp add: ip4_fragment_def)
  next
    case (Inr pkt')
    then have p: "length pkt' = length pkt" "take ?hl pkt' = take ?hl pkt"
      using fill_udp_csum_safe [OF ok refl, of "{Dropped}" k] by simp_all
    have nid: "mem_read pkt' 4 2 = be16 (ip_id ?h)"
    proof -
      have "mem_read pkt' 4 2 = mem_read (take ?hl pkt') 4 2" "mem_read (take 20 pkt) 4 2 = mem_read (take ?hl pkt) 4 2"
        using b by (simp_all add: mem_read_def drop_take min_def)
      then show ?thesis using b p by (simp add: read_iphdr_def be16_field16)
    qed
    have big': "FRAG_BUFF_SIZE < length pkt - ?hl" using big by linarith
    have "vc {} (frag_loop k t alloc frame (take ?hl pkt') (be16 (ip_id ?h)) (frag_off ?h AND IP_MF = 0)
       (take (FRAG_BUFF_SIZE + ?hl) stack) (frag_off ?h AND IP_OFFSET) (drop ?hl pkt') w) (\<lambda>_. True)"
      using big' b off p env hdr_len_60 [of ?h] length_iphdr_bytes [OF hdr]
      by (intro frag_loop_safe [OF hdr]) (simp_all add: tk FRAG_BUFF_SIZE_def)
    then show ?thesis by (simp add: ip4_fragment_def Inr nid)
  qed
  have send: "vc {} (send_v4 k t alloc frame pkt n w) (\<lambda>_. True)"
    if n: "n = length pkt + 20 + fr_size (fr_flag False ?h) + icmp_extra ?h pkt" and tl: "length pkt = unat (tot_len ?h)" for n
    unfolding send_v4_def
  proof (rule vc_rbind [OF new_skb_safe [OF env(1,2)]], goal_cases)
    case (1 s)
    show ?case
    proof (cases s)
      case (Some p)
      obtain skb2 w2 where p: "p = (skb2, w2)" by (cases p)
      have "vc {Dropped} (ip4_ip6 k t False pkt (skb_data skb2) 0) (\<lambda>d'. length d' = length (skb_data skb2))"
        using udp icmp 1(2) n unfolding Some p by (intro ip4_ip6_safe [OF b(1) refl b(2,3) tl b(4)]) simp_all
      then show ?thesis by (auto simp: Some p vc_def split: sum.splits)
    qed simp
  qed
  have d: "vc {} (if protocol ?h = IPPROTO_ICMP
              then rbind (rd pkt ?hl 1) (\<lambda>t. Inr (if t ! 0 \<noteq> 8 \<and> t ! 0 \<noteq> 0 then IP4_IP6_HDR_DIFF else 0))
              else Inr 0) (\<lambda>n. n = icmp_extra ?h pkt)"
    using icmp by (auto simp: icmp_ok_def icmp_extra_def rd_def mem_read_def Let_def)
  show ?thesis unfolding xmit_v4_def r rbind_simps Let_def
  proof (intro vc_if, goal_cases)
    case 2 then show ?case by (intro vc_rbind [OF frag]) auto
  next
    case 3
    then show ?case
      by (intro vc_rbind [OF d] send)
        (simp_all add: fr_flag_def fr_size_def IP4_IP6_HDR_DIFF_def IP6_FRAGMENT_SIZE_def)
  qed simp
qed

section \<open>IPv6 to IPv4: no write outside the buffer\<close>

text \<open>
  Every error but a write outside the destination and the overflow of \<open>len_delta\<close>, after which the
  code would copy with a wrong length.
\<close>

definition no_bad_write :: "siit_error set" where
  "no_bad_write = {Dropped, BadRead, BadLength}"

lemma no_bad_write_simps [simp]:
  "Dropped \<in> no_bad_write" "BadRead \<in> no_bad_write" "BadLength \<in> no_bad_write"
  by (simp_all add: no_bad_write_def)

text \<open>
  That no destination options header announces more bytes than are left of the packet, which the code
  does not check: followed from header to header, up to the first one that is no extension. A packet
  without a whole IPv6 header is dropped before.
\<close>

function headers_fit :: "bytes \<Rightarrow> ext_state \<Rightarrow> bool" where
  "headers_fit src st =
     (if next_hdr st = NEXTHDR_DEST then
        (case rd src (40 + opts_len st) 2 of
           Inl e \<Rightarrow> True
         | Inr opt \<Rightarrow>
             if int (opt_hdr_len (opt ! 1)) \<le> len_delta st
             then headers_fit src (skip_ext (opt_hdr_len (opt ! 1)) (opt ! 0) st) else False)
      else if next_hdr st = NEXTHDR_ROUTING then
        (case routing_hdr src st of Inl e \<Rightarrow> True | Inr st1 \<Rightarrow> headers_fit src st1)
      else if next_hdr st = NEXTHDR_FRAGMENT then
        (case fragment_hdr src st of Inl e \<Rightarrow> True | Inr st1 \<Rightarrow> headers_fit src st1)
      else True)"
  by pat_completeness auto
termination
  by (relation "measure (\<lambda>(src, st). nat (len_delta st))")
    (auto simp: skip_ext_def dest!: routing_hdr_decreases fragment_hdr_decreases intro: less_le_trans [of 0 "int (opt_hdr_len _)"])

declare headers_fit.simps [simp del]

definition first_header :: "bytes \<Rightarrow> ext_state" where
  "first_header src = \<lparr>len_delta = int (length src) - 40, opts_len = 0, next_hdr = nexthdr (read_ipv6hdr src),
     x_id = 0, x_frag_off = 0\<rparr>"

definition options_fit :: "bytes \<Rightarrow> bool" where
  "options_fit src \<longleftrightarrow> length src < 40 \<or>
     (case hop_by_hop src (first_header src) of Inl e \<Rightarrow> True | Inr st \<Rightarrow> 0 < len_delta st \<longrightarrow> headers_fit src st)"

text \<open>The packet inside an ICMPv6 error message: what follows its header of eight bytes.\<close>

definition included_packet :: "bytes \<Rightarrow> bytes" where
  "included_packet src =
     (case ext_headers src (first_header src) of
        Inl e \<Rightarrow> []
      | Inr st \<Rightarrow> mem_read src (48 + opts_len st) (nat (len_delta st - 8)))"

text \<open>What is left of the packet and the headers that were skipped fit into it.\<close>

definition ext_inv :: "nat \<Rightarrow> ext_state \<Rightarrow> bool" where
  "ext_inv n st \<longleftrightarrow> 40 + int (opts_len st) + len_delta st \<le> int n"

lemma ext_steps_inv:
  assumes "ext_inv n st"
  shows "vc no_bad_write (hop_by_hop src st) (ext_inv n)"
    "vc no_bad_write (routing_hdr src st) (ext_inv n)" "vc no_bad_write (fragment_hdr src st) (ext_inv n)"
  using assms unfolding hop_by_hop_def routing_hdr_def fragment_hdr_def Let_def
  by (auto intro!: vc_rbind [OF vc_rd] simp: ext_inv_def skip_ext_def)

lemma dest_options_fit:
  assumes "ext_inv n st" "headers_fit src st" "next_hdr st = NEXTHDR_DEST"
  shows "vc no_bad_write (dest_options src st) (\<lambda>st'. ext_inv n st' \<and> headers_fit src st')"
  using assms headers_fit.simps [of src st] unfolding dest_options_def Let_def
  by (cases "rd src (40 + opts_len st) 2") (auto simp: rd_def ext_inv_def skip_ext_def split: if_splits)

lemma ext_loop_inv: "ext_inv n st \<Longrightarrow> headers_fit src st \<Longrightarrow> vc no_bad_write (ext_loop src st) (ext_inv n)"
proof (induction src st rule: ext_loop.induct)
  case (1 src st)
  have r: "vc no_bad_write (routing_hdr src st) (\<lambda>st'. ext_inv n st' \<and> headers_fit src st')" if "next_hdr st = NEXTHDR_ROUTING"
    using that ext_steps_inv(2) [OF 1(4), of src] 1(5) headers_fit.simps [of src st]
    by (cases "routing_hdr src st") (auto simp: ip_constants)
  have f: "vc no_bad_write (fragment_hdr src st) (\<lambda>st'. ext_inv n st' \<and> headers_fit src st')" if "next_hdr st = NEXTHDR_FRAGMENT"
    using that ext_steps_inv(3) [OF 1(4), of src] 1(5) headers_fit.simps [of src st]
    by (cases "fragment_hdr src st") (auto simp: ip_constants)
  show ?case
  proof (subst ext_loop.simps, intro vc_if, goal_cases)
    case 2 then show ?case using 1(1,4,5) by (intro vc_rbind [OF dest_options_fit [OF 1(4,5)]]) auto
  next
    case 3 then show ?case using 1(2) by (intro vc_rbind [OF r]) auto
  next
    case 4 then show ?case using 1(3) by (intro vc_rbind [OF f]) auto
  qed (use 1(4) in auto)
qed

lemma ext_headers_inv:
  assumes "options_fit src" "\<not> length src < 40" shows "vc no_bad_write (ext_headers src (first_header src)) (ext_inv (length src))"
proof -
  have "ext_inv (length src) (first_header src)" by (simp add: ext_inv_def first_header_def)
  from ext_steps_inv(1) [OF this, of src] show ?thesis
    unfolding ext_headers_def by (rule vc_rbind) (use assms in \<open>auto simp: options_fit_def intro: ext_loop_inv\<close>)
qed

lemma copy_rest_safe:
  "doff + nat n \<le> length d \<Longrightarrow> vc no_bad_write (copy_rest src soff n d doff) (\<lambda>d'. length d' = length d)"
  unfolding copy_rest_def by (auto intro!: vc_rbind [OF vc_rd] vc_mono [OF vc_wr])

lemma icmp6_header_safe:
  assumes "length h = 8" "length old = 8"
  shows "vc no_bad_write (icmp6_header be h old) (\<lambda>(err, hdr). length hdr = 8)"
  using assms unfolding icmp6_header_def Let_def host16_def by simp

lemma icmp_csum_safe: "off + 4 \<le> length d \<Longrightarrow> vc no_bad_write (icmp_csum k d off n) (\<lambda>d'. length d' = length d)"
  unfolding icmp_csum_def by (auto intro!: vc_intros vc_mono [OF vc_wr])

text \<open>
  What a translation promises about its destination: a packet of \<open>n\<close> bytes that is \<open>good\<close> never
  needs more than \<open>n - 20\<close> bytes there. The translation relies on this promise for the packet an error message
  includes, and makes it itself.
\<close>

locale packet_writer =
  fixes inner :: "bytes \<Rightarrow> bytes \<Rightarrow> nat \<Rightarrow> (bytes \<times> int) result" and good :: "bytes \<Rightarrow> bool"
  assumes inside: "good pkt \<Longrightarrow> off + length pkt \<le> length d + 20 \<Longrightarrow>
    vc no_bad_write (inner pkt d off) (\<lambda>(d', _). length d' = length d)"
begin

lemma icmp6_included_safe:
  assumes d: "off + nat n \<le> length d" and g: "good (mem_read src p (nat n))"
  shows "vc no_bad_write (icmp6_included inner src p n d off) (\<lambda>(d', _). length d' = length d)"
  unfolding icmp6_included_def
proof (rule vc_if, goal_cases)
  case 1
  show ?case
  proof (rule vc_rbind [OF vc_rd], simp, goal_cases)
    case (1 pkt)
    then have "vc no_bad_write (inner pkt d off) (\<lambda>(d', _). length d' = length d)"
      using d g by (intro inside) auto
    then show ?case by (rule vc_rbind) auto
  qed
next
  case 2 then show ?case using d by (auto intro!: vc_rbind [OF copy_rest_safe])
qed

lemma ip6_icmp_safe:
  assumes st: "ext_inv (length src) st" and g: "good (mem_read src (48 + opts_len st) (nat (len_delta st - 8)))"
    and d: "off + length src \<le> length d + 20" and h: "length (ip_saddr h) = 4" "length (ip_daddr h) = 4"
  shows "vc no_bad_write (ip6_icmp inner k be inc h nt st src d off) (\<lambda>(d', _). length d' = length d)"
proof (cases "len_delta st - 8 < 0")
  case True then show ?thesis by (simp add: ip6_icmp_def)
next
  case False
  let ?n = "len_delta st - 8" and ?p = "40 + opts_len st"
  have room: "off + 28 + nat ?n \<le> length d" using False st d by (simp add: ext_inv_def)
  have bodies: "vc no_bad_write (if err then icmp6_included inner src (?p + 8) ?n d1 (off + 28)
      else rbind (copy_rest src (?p + 8) ?n d1 (off + 28)) (\<lambda>d. Inr (d, 0))) (\<lambda>(d', _). length d' = length d)"
    if "length d1 = length d" for err d1
    using that room g by (intro vc_if) (auto intro!: vc_mono [OF icmp6_included_safe] vc_rbind [OF copy_rest_safe])
  have tail: "vc no_bad_write (rbind (wr d1 off (iphdr_bytes (set_check k (h\<lparr>protocol := IPPROTO_ICMP, tot_len := tl\<rparr>)))) (\<lambda>d.
          rbind (if nt = 0 then Inr d else icmp_csum k d (off + 20) (uint tl - 20)) (\<lambda>d. Inr (d, x))))
      (\<lambda>(d', _). length d' = length d)" if "length d1 = length d" for d1 tl x
    using that room h by (auto simp: set_check_def intro!: vc_intros vc_rbind [OF icmp_csum_safe])
  have old: "off + 28 \<le> length d" using room by simp
  show ?thesis unfolding ip6_icmp_def Let_def if_not_P [OF False]
  proof (rule vc_rbind [OF vc_rd], simp, rule vc_if, simp, goal_cases)
    case (1 h6)
    show ?case unfolding if_P [OF old] rbind_simps
    proof (rule vc_rbind [OF icmp6_header_safe], goal_cases)
      case (3 out)
      obtain err hdr where out: "out = (err, hdr)" "length hdr = 8" using 3(2) by (cases out) auto
      show ?case unfolding out(1) prod.case
      proof (rule vc_rbind [OF vc_wr], goal_cases)
        case (2 d1)
        from bodies [OF 2(2)] show ?case by (rule vc_rbind) (auto intro: tail)
      qed (use out room in simp)
    qed (use 1 old in auto)
  qed
qed

lemma step_inside:
  assumes fit: "options_fit src" and g: "good (included_packet src)" and d: "off + length src \<le> length d + 20"
  shows "vc no_bad_write (ip6_ip4_step inner k be t inc src d off) (\<lambda>(d', _). length d' = length d)"
proof -
  let ?h6 = "read_ipv6hdr src"
  show ?thesis
  proof (cases "length src < 40 \<or> \<not> addresses_ok inc ?h6")
    case True then show ?thesis by (auto simp: ip6_ip4_step_def Let_def)
  next
    case False
    then have src: "\<not> length src < 40" and ok: "\<not> \<not> addresses_ok inc ?h6" by simp_all
    have a: "length (ip_saddr (new_iphdr t ?h6 st)) = 4" "length (ip_daddr (new_iphdr t ?h6 st)) = 4" for st
      using src by (simp_all add: new_iphdr_def addr_v4_def read_ipv6hdr_def)
    have body: "vc no_bad_write (if len_delta st \<le> 0 then Inr (d1, 20)
                 else if next_hdr st = IPPROTO_ICMPV6
                 then ip6_icmp inner k be inc (new_iphdr t ?h6 st) (new_ntot_len ?h6 st) st src d1 off
                 else rbind (copy_rest src (40 + opts_len st) (len_delta st) d1 (off + 20)) (\<lambda>d.
                      Inr (d, 20 + len_delta st))) (\<lambda>(d', _). length d' = length d)"
      if "length d1 = length d" "ext_inv (length src) st" "ext_headers src (first_header src) = Inr st" for d1 st
      using that d a src g by (intro vc_if)
        (auto simp: ext_inv_def included_packet_def intro!: vc_mono [OF ip6_icmp_safe] vc_rbind [OF copy_rest_safe])
    show ?thesis unfolding ip6_ip4_step_def Let_def if_not_P [OF src] if_not_P [OF ok] first_header_def [symmetric]
    proof (rule vc_rbind [OF ext_headers_inv [OF fit src]], rule vc_rbind [OF vc_wr], goal_cases)
      case (1 st) then show ?case using a d src by (simp add: set_check_def)
    next
      case (2 st d1)
      from body [OF 2(4,2,1)] show ?case by (rule vc_rbind) auto
    qed
  qed
qed

end

text \<open>Nothing is translated inside an included packet; the included packet is the second level.\<close>

interpretation nested: packet_writer "\<lambda>_ _ _. Inl Dropped" "\<lambda>_. True"
  by unfold_locales simp

interpretation included: packet_writer "ip6_ip4_step (\<lambda>_ _ _. Inl Dropped) k be t True" options_fit for k be t
  by unfold_locales (rule nested.step_inside, simp_all)

lemma ip6_ip4_writes_inside:
  "options_fit pkt \<Longrightarrow> options_fit (included_packet pkt) \<Longrightarrow> off + length pkt \<le> length d + 20 \<Longrightarrow>
   vc no_bad_write (ip6_ip4 k be t inc pkt d off) (\<lambda>(d', _). length d' = length d)"
  unfolding ip6_ip4_def by (rule included.step_inside)

end
