(* ===== verification/Siit_Props.thy ===== *)
theory Siit_Props
  imports Siit_Safe
begin

text \<open>
  The properties of the SIIT translator: packets survive the trip through IPv6, large packets
  arrive as fragments that fit and fit together, no buffer is lost, memory is respected, and
  two packets for which it is not.
\<close>

section \<open>Concrete packets\<close>

definition no_csum :: kernel where
  "no_csum = \<lparr>k_csum_partial = (\<lambda>_ _. 0), k_csum_ipv6_magic = (\<lambda>_ _ _ _ _. 0),
     k_csum_tcpudp_magic = (\<lambda>_ _ _ _ _. 0), k_ip_fast_csum = (\<lambda>_. 0), k_ip_compute_csum = (\<lambda>_. 0)\<rparr>"

definition zero_alloc :: allocator where
  "zero_alloc i n = Some (replicate n 0)"

definition start_state :: siit_state where
  "start_state = \<lparr>stats = \<lparr>rx_packets = 0, tx_packets = 0, rx_bytes = 0, tx_bytes = 0, rx_errors = 0,
     tx_errors = 0, rx_dropped = 0\<rparr>, rx_queue = [], allocated = 0, freed = 0, consumed = 0\<rparr>"

definition tcp_hdr :: "nat \<Rightarrow> iphdr" where
  "tcp_hdr n = \<lparr>version_ihl = 0x45, tos = 0x1e, tot_len = of_nat (20 + n), ip_id = 7, frag_off = 0, ttl = 64,
     protocol = 6, ip_check = 0, ip_saddr = [10, 0, 0, 1], ip_daddr = [10, 0, 0, 2]\<rparr>"

lemma zero_alloc_simps [simp]: "alloc_sizes zero_alloc" "zero_alloc i n \<noteq> None"
  by (simp_all add: alloc_sizes_def zero_alloc_def)

section \<open>Delivery\<close>



text \<open>
  C13. Fragmentation: a TCP packet, or a UDP packet with a checksum, without options, with more than
  1232 bytes of data, so that it does not fit into an IPv6 packet of the minimum MTU, with both
  flags clear, so that it may be fragmented and is the whole or the last part of a datagram of at most
  65535 bytes, is handed up as IPv6 packets of at most 1280 bytes each, and a
  receiver that puts the fragments together gets exactly its data.
\<close>

theorem siit_fragments_reassemble:
  assumes "frag_ok h (frag_off h) dat" "unat (tot_len h) = 20 + length dat" "FRAG_BUFF_SIZE < length dat"
    and "length eth = 14" "FRAG_BUFF_SIZE + 20 \<le> length stack" "alloc_sizes alloc" "\<And>i n. alloc i n \<noteq> None"
  shows "\<exists>w' frs. siit_xmit k be t alloc stack (Some (ETH_P_IP, eth @ iphdr_bytes h @ dat)) w = Inr (0, w') \<and>
    rx_queue w' = rx_queue w @ frs \<and>
    reassemble (8 * unat (frag_off h)) (map skb_data frs) = Some dat \<and>
    (\<forall>s\<in>set frs. skb_protocol s = ETH_P_IPV6 \<and> length (skb_data s) \<le> 1280)"
proof -
  let ?frame = "eth @ iphdr_bytes h @ dat" and ?pkt = "iphdr_bytes h @ dat"
  have a: "length (ip_saddr h) = 4" "length (ip_daddr h) = 4" "hdr_len_of h = 20" "length (iphdr_bytes h) = 20"
    and fo: "unat (frag_off h) < 8192"
    using assms(1) by (auto simp: frag_ok_def)
  note bits = frag_offset_bits [OF fo]
  have hb: "rd ?pkt 0 20 = Inr (iphdr_bytes h)" and h: "read_iphdr (iphdr_bytes h) = h"
    using a read_iphdr_bytes [of h "[]"] by simp_all
  have pull: "pull_eth ?frame = ?pkt" using assms(4) by (simp add: pull_eth_def ETH_HLEN_def)
  have udp: "fill_udp_csum k h ?pkt = Inr ?pkt"
  proof (cases "protocol h = IPPROTO_UDP \<and> frag_off h = 0")
    case True
    then have "8 \<le> length dat" "field16 dat 6 \<noteq> 0" using assms(1) by (auto simp: frag_ok_def ip_constants)
    moreover have "field16 (take 8 dat) 6 = field16 dat 6" by (simp add: field16_def mem_read_def drop_take)
    ultimately show ?thesis using a bits by (simp add: fill_udp_csum_def rd_def mem_read_def)
  qed (use bits in \<open>auto simp: fill_udp_csum_def\<close>)
  have nid: "mem_read ?pkt 4 2 = be16 (ip_id h)"
    using a by (simp add: iphdr_bytes_def mem_read_def)
  obtain w' frs where loop: "frag_loop k t alloc ?frame (iphdr_bytes h) (be16 (ip_id h)) True
      (take (FRAG_BUFF_SIZE + 20) stack) (frag_off h) dat (count_rx ?frame w) = Inr (True, w')"
    "rx_queue w' = rx_queue w @ frs" "reassemble (8 * unat (frag_off h)) (map skb_data frs) = Some dat"
    "\<forall>s\<in>set frs. skb_protocol s = ETH_P_IPV6 \<and> length (skb_data s) \<le> 1280"
    using frag_loop_plain [OF assms(1) _ _ assms(6,7), of "take (FRAG_BUFF_SIZE + 20) stack" ?frame k t "count_rx ?frame w"] assms(4,5)
    by (auto simp: FRAG_BUFF_SIZE_def)
  have "ip4_fragment k t alloc stack ?frame h ?pkt (count_rx ?frame w) = Inr (True, w')"
    using loop(1) a bits(3,5) by (simp add: ip4_fragment_def udp nid)
  moreover have "length ?pkt = unat (tot_len h)" "FRAG_BUFF_SIZE + 20 < length ?pkt" using a assms(2,3) by simp_all
  ultimately have "xmit_v4 k t alloc stack ?frame ?pkt (count_rx ?frame w) = Inr (free_in w')"
    unfolding xmit_v4_def hb rbind_simps Let_def h a(3) using bits(6) by simp
  then have "siit_xmit k be t alloc stack (Some (ETH_P_IP, ?frame)) w = Inr (0, free_in w')"
    by (simp add: siit_xmit_def pull)
  then show ?thesis using loop(2-4) by (intro exI [of _ "free_in w'"] exI [of _ frs]) (simp add: free_in_def)
qed

theorem siit_fragments_reassemble_witness:
  "\<exists>w' frs. siit_xmit no_csum True False zero_alloc (replicate 2048 0)
      (Some (ETH_P_IP, replicate 14 1 @ iphdr_bytes (tcp_hdr 1400) @ replicate 1400 5)) start_state = Inr (0, w') \<and>
    rx_queue w' = rx_queue start_state @ frs \<and>
    reassemble (8 * unat (frag_off (tcp_hdr 1400))) (map skb_data frs) = Some (replicate 1400 5) \<and>
    (\<forall>s\<in>set frs. skb_protocol s = ETH_P_IPV6 \<and> length (skb_data s) \<le> 1280)"
  by (rule siit_fragments_reassemble) (simp_all add: frag_ok_def tcp_hdr_def FRAG_BUFF_SIZE_def ip_constants)

text \<open>
  C24. No socket buffer is lost: on every path, whatever is allocated is either handed to
  \<open>netif_rx\<close> or freed, and the incoming buffer is freed exactly once (a null argument changes
  nothing).
\<close>

theorem siit_xmit_no_leak:
  assumes "siit_xmit k be t alloc stack skb w = Inr (r, w')" "balanced w"
  shows "balanced w' \<and> consumed w' = consumed w + (if skb = None then 0 else 1)"
proof (cases skb)
  case None then show ?thesis using assms by (simp add: siit_xmit_def)
next
  case (Some s)
  obtain proto frame where s: "s = (proto, frame)" by (cases s)
  let ?w = "count_rx frame w"
  have "kept ?w (if proto = ETH_P_IP then xmit_v4 k t alloc stack frame (pull_eth frame) ?w
      else if proto = ETH_P_IPV6 then xmit_v6 k be t alloc stack frame (pull_eth frame) ?w else Inr (free_in ?w))"
    by (simp add: xmit_v4_kept xmit_v6_kept)
  moreover have "(if proto = ETH_P_IP then xmit_v4 k t alloc stack frame (pull_eth frame) ?w
      else if proto = ETH_P_IPV6 then xmit_v6 k be t alloc stack frame (pull_eth frame) ?w else Inr (free_in ?w)) = Inr w'"
    using assms(1) by (simp only: siit_xmit_def Some s option.case prod.case Let_def rbind_Inr) auto
  ultimately show ?thesis using assms(2) by (simp only: kept_simps) (simp add: Some)
qed

theorem siit_xmit_no_leak_witness:
  "balanced (free_in (count_rx [1, 2] start_state)) \<and>
   consumed (free_in (count_rx [1, 2] start_state)) = consumed start_state + (if Some (0 :: u16, [1, 2 :: u8]) = None then 0 else 1)"
  by (rule siit_xmit_no_leak [of no_csum True False zero_alloc "[]" "Some (0, [1, 2])" start_state 0])
    (simp_all add: siit_xmit_def ETH_P_IP_def ETH_P_IPV6_def balanced_def start_state_def)

section \<open>Memory\<close>

text \<open>
  C14. Memory safety on IPv4: for a packet of at most 65527 bytes with a complete header, whose data
  ends within the 65535 bytes of a datagram when it is a fragment at an offset, with a complete UDP
  or ICMP header where it has one, a UDP length within the packet, and a complete packet inside an ICMP
  error message, \<open>siit_xmit\<close> accesses no memory outside its buffers, whatever the packet's
  protocol, options, flags, length field and contents. (The code checks none of these; beyond the 65535 bytes the
  offset of the last fragment wraps around to zero, and a UDP checksum is looked for there.)
\<close>

theorem siit_xmit_memory_safe:
  assumes "v4_ok pkt" "length eth = 14" "alloc_sizes alloc" "FRAG_BUFF_SIZE + 60 \<le> length stack"
  shows "\<exists>w'. siit_xmit k be t alloc stack (Some (ETH_P_IP, eth @ pkt)) w = Inr (0, w')"
proof -
  have pull: "pull_eth (eth @ pkt) = pkt" using assms(2) by (simp add: pull_eth_def ETH_HLEN_def)
  have "vc {} (xmit_v4 k t alloc stack (eth @ pkt) pkt (count_rx (eth @ pkt) w)) (\<lambda>_. True)"
    using assms by (intro xmit_v4_safe) auto
  then show ?thesis by (simp add: siit_xmit_def pull vc_def split: sum.splits)
qed

theorem siit_xmit_memory_safe_witness:
  "\<exists>w'. siit_xmit no_csum True False zero_alloc (replicate 2048 0)
     (Some (ETH_P_IP, replicate 14 1 @ (iphdr_bytes (tcp_hdr 3) @ [1, 2, 3]))) start_state = Inr (0, w')"
proof (rule siit_xmit_memory_safe)
  have "read_iphdr (iphdr_bytes (tcp_hdr 3)) = tcp_hdr 3"
    using read_iphdr_bytes [of "tcp_hdr 3" "[]"] by (simp add: tcp_hdr_def)
  moreover have "length (iphdr_bytes (tcp_hdr 3)) = 20" by (simp add: tcp_hdr_def)
  ultimately show "v4_ok (iphdr_bytes (tcp_hdr 3) @ [1, 2, 3])"
    by (simp add: v4_ok_def hdr_len_20) (simp add: tcp_hdr_def ip_constants)
qed (simp_all add: FRAG_BUFF_SIZE_def)

text \<open>
  C33. Bounds of the stack buffer: let an IPv6 packet of at most 2068 bytes have no destination options
  header that announces more bytes than are left of the packet, and likewise the packet included in
  it if it is an ICMPv6 error message; its contents are arbitrary otherwise. Then the translation
  never writes outside the 2048 bytes of \<open>new_packet_buff\<close>, and its length variable does not
  overflow. (With such a header it does overflow, and the code then copies far too much:
  \<open>siit_dest_options_overflow\<close>.)
\<close>

theorem siit_v6_stays_in_buffer:
  assumes "length pkt \<le> NEW_PACKET_BUFF + 20" "options_fit pkt" "options_fit (included_packet pkt)"
  shows "ip6_ip4 k be t False pkt (replicate NEW_PACKET_BUFF b) 0 \<notin> {Inl BadWrite, Inl Overflow}"
proof -
  have "vc no_bad_write (ip6_ip4 k be t False pkt (replicate NEW_PACKET_BUFF b) 0)
     (\<lambda>(d', _). length d' = length (replicate NEW_PACKET_BUFF b))"
    using assms by (intro ip6_ip4_writes_inside) simp_all
  then show ?thesis by (auto simp: no_bad_write_def)
qed

text \<open>A TCP packet behind a destination options header of eight bytes.\<close>

definition options_packet :: bytes where
  "options_packet = [0x60, 0, 0, 0, 0, 12, 60, 64,
     0, 0, 0, 0, 0, 0, 0, 0, 0, 0, 255, 255, 10, 0, 0, 1,
     0, 0, 0, 0, 0, 0, 0, 0, 0, 0, 255, 255, 10, 0, 0, 2, 6, 0, 0, 0, 0, 0, 0, 0, 1, 2, 3, 4]"

lemma options_packet_fits: "options_fit options_packet" "options_fit (included_packet options_packet)"
  by code_simp+

theorem siit_v6_stays_in_buffer_witness:
  "ip6_ip4 no_csum True False False options_packet (replicate NEW_PACKET_BUFF 7) 0 \<notin> {Inl BadWrite, Inl Overflow}"
  by (rule siit_v6_stays_in_buffer [OF _ options_packet_fits]) (simp add: options_packet_def NEW_PACKET_BUFF_def)

section \<open>Checksums\<close>

text \<open>
  The sum of the sixteen-bit words of a pseudo header; the Internet checksum is the complement of
  this sum modulo 65535.
\<close>

fun sum16 :: "bytes \<Rightarrow> nat" where
  "sum16 (a # b # r) = unat a * 256 + unat b + sum16 r"
| "sum16 [a] = unat a * 256"
| "sum16 [] = 0"

definition pseudo4 :: "iphdr \<Rightarrow> u16 \<Rightarrow> bytes" where
  "pseudo4 h len = ip_saddr h @ ip_daddr h @ [0, protocol h] @ be16 len"

definition pseudo6 :: "ipv6hdr \<Rightarrow> u8 \<Rightarrow> u16 \<Rightarrow> bytes" where
  "pseudo6 h6 proto len = saddr h6 @ daddr h6 @ be32 (ucast len) @ [0, 0, 0, proto]"

lemma sum16_append: "even (length a) \<Longrightarrow> sum16 (a @ b) = sum16 a + sum16 b"
  by (induction a rule: sum16.induct) auto

lemma sum16_v6_addr:
  assumes "length a = 4"
  shows "sum16 (v6_addr 0x0000ffff a) = 65535 + sum16 a"
proof -
  have "be32 0x0000ffff = [0, 0, 255, 255]" by (simp add: be32_def le32_def)
  moreover have "replicate 8 0 = [0, 0, 0, 0, 0, 0, 0, 0 :: u8]" by (simp add: numeral_eq_Suc)
  ultimately have "v6_addr 0x0000ffff a = [0, 0, 0, 0, 0, 0, 0, 0, 0, 0, 255, 255] @ a"
    by (simp add: v6_addr_def)
  then show ?thesis by (simp add: sum16_append)
qed

text \<open>
  C37. The addresses chosen for the translation are checksum neutral: the pseudo header of the
  IPv6 packet has the same one's complement sum as the pseudo header of the IPv4 packet, so a
  TCP or UDP checksum that was right stays right although the code copies it unchanged.
\<close>

theorem siit_checksum_neutral:
  assumes "length (ip_saddr h) = 4" "length (ip_daddr h) = 4"
  shows "sum16 (pseudo6 (new_ipv6hdr t fr inc h) (protocol h) len) mod 65535 = sum16 (pseudo4 h len) mod 65535"
proof -
  have l: "be32 (ucast len) = [0, 0] @ be16 len"
  proof -
    have "ucast (drop_bit 16 (ucast len :: u32)) = (0 :: u8)" "ucast (drop_bit 24 (ucast len :: u32)) = (0 :: u8)"
      "ucast (ucast len :: u32) = (ucast len :: u8)" "ucast (drop_bit 8 (ucast len :: u32)) = (ucast (drop_bit 8 len) :: u8)"
      by (auto simp: bit_eq_iff [where 'a = "8 word"] bit_simps dest: bit_imp_le_length)
    then show ?thesis by (simp add: be32_def le32_def be16_def le16_def)
  qed
  obtain x y where b: "be16 len = [x, y]" using be16_2 by blast
  have p: "saddr (new_ipv6hdr t fr inc h) = v6_addr 0x0000ffff (ip_saddr h)" "daddr (new_ipv6hdr t fr inc h) = v6_addr 0x0000ffff (ip_daddr h)"
    by (simp_all add: new_ipv6hdr_def TRANSLATED_PREFIX_def MAPPED_PREFIX_def)
  have "sum16 (pseudo6 (new_ipv6hdr t fr inc h) (protocol h) len) = sum16 (pseudo4 h len) + 2 * 65535"
    using assms by (simp add: pseudo6_def pseudo4_def p sum16_append sum16_v6_addr l b)
  then show ?thesis by (simp only: mod_mult_self1)
qed

theorem siit_checksum_neutral_witness:
  "sum16 (pseudo6 (new_ipv6hdr False True False (tcp_hdr 3)) (protocol (tcp_hdr 3)) 23) mod 65535 =
   sum16 (pseudo4 (tcp_hdr 3) 23) mod 65535"
  by (rule siit_checksum_neutral) (simp_all add: tcp_hdr_def)

section \<open>Packets the code does not survive\<close>

lemma ext_loop_stuck:
  assumes "next_hdr st = NEXTHDR_DEST" "42 + opts_len st \<le> length src"
    "len_delta st < int (opt_hdr_len (src ! (41 + opts_len st)))"
  shows "ext_loop src st = Inl Overflow"
  using assms
proof (induction src st rule: ext_loop.induct)
  case (1 src st)
  let ?n = "int (opt_hdr_len (src ! (41 + opts_len st)))"
  have r: "rd src (40 + opts_len st) 2 = Inr (mem_read src (40 + opts_len st) 2)" using 1(5) by (simp add: rd_def)
  have o1: "mem_read src (40 + opts_len st) 2 ! 1 = src ! (41 + opts_len st)"
    using 1(5) by (simp add: mem_read_def)
  have step: "dest_options src st = (if len_delta st - ?n < - (2 ^ 31) then Inl Overflow else Inr (st\<lparr>len_delta := len_delta st - ?n\<rparr>))"
    unfolding dest_options_def r rbind_simps Let_def o1 using 1(6) by simp
  have d: "ext_loop src st = rbind (dest_options src st) (ext_loop src)"
    using 1(4) by (subst ext_loop.simps) (simp add: ip_constants)
  show ?case
  proof (cases "len_delta st - ?n < - (2 ^ 31)")
    case True then show ?thesis by (simp add: d step)
  next
    case False
    then have "dest_options src st = Inr (st\<lparr>len_delta := len_delta st - ?n\<rparr>)" by (simp add: step)
    moreover have "ext_loop src (st\<lparr>len_delta := len_delta st - ?n\<rparr>) = Inl Overflow"
      using 1(1) [OF _ 1(4) calculation] 1(4-6) by (simp add: ip_constants)
    ultimately show ?thesis by (simp add: d)
  qed
qed

text \<open>
  A destination options header that announces more bytes than the packet has is neither
  skipped nor refused: the loop of \<open>ip6_ip4\<close> looks at the same header again and again while
  \<open>len_delta\<close> falls, until the signed variable overflows.
\<close>

theorem siit_dest_options_overflow:
  assumes "42 \<le> length pkt" "addresses_ok False (read_ipv6hdr pkt)" "pkt ! 6 = NEXTHDR_DEST"
    and "length pkt - 40 < opt_hdr_len (pkt ! 41)"
  shows "ip6_ip4 k be t False pkt dst 0 = Inl Overflow"
proof -
  let ?st = "\<lparr>len_delta = int (length pkt) - 40, opts_len = 0, next_hdr = nexthdr (read_ipv6hdr pkt), x_id = 0, x_frag_off = 0\<rparr>"
  have "ext_loop pkt ?st = Inl Overflow"
    using assms by (intro ext_loop_stuck) (auto simp: read_ipv6hdr_def)
  moreover have "hop_by_hop pkt ?st = Inr ?st"
    using assms(3) by (simp add: hop_by_hop_def read_ipv6hdr_def ip_constants)
  ultimately have "ext_headers pkt ?st = Inl Overflow" using assms(1) by (simp add: ext_headers_def)
  then show ?thesis using assms(1,2) by (simp add: ip6_ip4_def ip6_ip4_step_def Let_def)
qed

definition long_options_packet :: bytes where
  "long_options_packet = [0x60, 0, 0, 0, 0, 8, 60, 64,
     0, 0, 0, 0, 0, 0, 0, 0, 0, 0, 255, 255, 10, 0, 0, 1,
     0, 0, 0, 0, 0, 0, 0, 0, 0, 0, 255, 255, 10, 0, 0, 2, 6, 1, 0, 0, 0, 0, 0, 0]"

theorem siit_dest_options_overflow_witness:
  "ip6_ip4 no_csum True False False long_options_packet (replicate 2048 0) 0 = Inl Overflow"
proof (rule siit_dest_options_overflow)
  show "addresses_ok False (read_ipv6hdr long_options_packet)"
    by (simp add: addresses_ok_def read_ipv6hdr_def long_options_packet_def mem_read_def
        addr_prefix_def field32_def of_be32_def TRANSLATED_PREFIX_def MAPPED_PREFIX_def)
qed (simp_all add: long_options_packet_def ip_constants opt_hdr_len_def)

definition short_header_packet :: bytes where
  "short_header_packet =
     [0x45, 0, 0, 48, 0, 0, 0x40, 0, 64, 1, 0, 0, 10, 0, 0, 1, 10, 0, 0, 2,
      3, 1, 0, 0, 0, 0, 0, 0,
      0x40, 0, 0, 20, 0, 0, 0, 0, 64, 6, 0, 0, 10, 0, 0, 2, 10, 0, 0, 1]"

lemma short_header_outer:
  defines "h \<equiv> read_iphdr (take 20 short_header_packet)"
  shows "rd short_header_packet 0 20 = Inr (take 20 short_header_packet)" "length short_header_packet = 48"
    "protocol h = IPPROTO_ICMP" "frag_off h = IP_DF" "hdr_len_of h = 20" "unat (tot_len h) = 48"
    "mem_read short_header_packet 20 8 = [3, 1, 0, 0, 0, 0, 0, 0]"
  by (simp_all add: h_def short_header_packet_def rd_def mem_read_def read_iphdr_def field16_def of_be16_def
      IP_DF_def IPPROTO_ICMP_def hdr_len_of_def)

lemma short_header_inner:
  defines "q \<equiv> drop 28 short_header_packet"
  shows "rd q 0 20 = Inr q" "protocol (read_iphdr q) = IPPROTO_TCP" "hdr_len_of (read_iphdr q) = 0" "length q = 20"
  by (simp_all add: q_def short_header_packet_def rd_def mem_read_def read_iphdr_def IPPROTO_TCP_def hdr_len_of_def)

lemma short_header_overflow:
  assumes "length d = 88"
  shows "ip4_ip6_step inner k t True (drop 28 short_header_packet) d 48 = Inl BadWrite"
proof -
  let ?q = "drop 28 short_header_packet" let ?h = "read_iphdr ?q"
  have l: "length (ipv6hdr_bytes (new_ipv6hdr t False True ?h)) = 40"
    using short_header_inner(4) by (intro length_new_ipv6)
  have w: "wr d 48 (ipv6hdr_bytes (new_ipv6hdr t False True ?h)) = Inr (mem_write d 48 (ipv6hdr_bytes (new_ipv6hdr t False True ?h)))"
    using assms l by (simp add: wr_def)
  have "length (mem_write d 48 (ipv6hdr_bytes (new_ipv6hdr t False True ?h))) = 88" using assms l by simp
  then have o: "wr (mem_write d 48 (ipv6hdr_bytes (new_ipv6hdr t False True ?h))) (48 + 40 + 0) ?q = Inl BadWrite"
    using short_header_inner(4) by (simp add: wr_def)
  have r: "rest_from ?q 0 = Inr ?q" by (simp add: rest_from_def)
  have fr: "fr_flag True ?h = False" "fr_size False = 0" by (simp_all add: fr_flag_def fr_size_def)
  show ?thesis
    unfolding ip4_ip6_step_def short_header_inner rbind_simps Let_def fr if_False w r o by (simp add: ip_constants)
qed

lemma ip4_ip6_short_header:
  assumes d: "length d = 88"
  shows "ip4_ip6 k t False short_header_packet d 0 = Inl BadWrite"
proof -
  let ?h = "read_iphdr (take 20 short_header_packet)"
  let ?h6 = "new_ipv6hdr t False False ?h"
  let ?d = "mem_write d 0 (ipv6hdr_bytes ?h6)"
  have fr: "fr_flag False ?h = False" "fr_size False = 0" by (simp_all add: fr_flag_def fr_size_def short_header_outer)
  have l: "length (ipv6hdr_bytes ?h6) = 40" using short_header_outer(2) by (intro length_new_ipv6) simp
  have w: "wr d 0 (ipv6hdr_bytes ?h6) = Inr ?d" "length ?d = 88" using d l by (simp_all add: wr_def)
  have m: "frag_off ?h AND IP_OFFSET = 0" "frag_off ?h AND IP_MF = 0" unfolding short_header_outer by (simp_all add: IP_DF_def IP_OFFSET_def IP_MF_def)
  have "icmp4_header [3, 1, 0, 0, 0, 0, 0, 0] (mem_read ?d 40 8) = Inr (Icmp_error ([1, 0] @ mem_read (mem_read ?d 40 8) 2 2 @ [0, 0, 0, 0]))"
    by (simp add: icmp4_header_def icmp4_unreach_def)
  moreover have "rd short_header_packet 20 2 = Inr (mem_read short_header_packet 20 2)" using short_header_outer(2) by (simp add: rd_def)
  moreover have "wr ?d 40 ([1, 0] @ mem_read (mem_read ?d 40 8) 2 2 @ [0, 0, 0, 0]) = Inr (mem_write ?d 40 ([1, 0] @ mem_read (mem_read ?d 40 8) 2 2 @ [0, 0, 0, 0]))"
    "length (mem_write ?d 40 ([1, 0] @ mem_read (mem_read ?d 40 8) 2 2 @ [0, 0, 0, 0])) = 88"
    using w(2) by (simp_all add: wr_def)
  ultimately have "ip4_icmp (ip4_ip6_step (\<lambda>_ _ _. Inl Dropped) k t True) k False ?h ?h6 short_header_packet ?d 0 False = Inl BadWrite"
    unfolding ip4_icmp_def Let_def short_header_outer(5,7) using m w(2) by (simp add: fr short_header_overflow short_header_outer)
  then show ?thesis
    unfolding ip4_ip6_def ip4_ip6_step_def [of "ip4_ip6_step _ _ _ _"] short_header_outer rbind_simps Let_def fr if_False w by simp
qed

text \<open>
  The header length of a packet inside an ICMP error message is not checked: an included TCP
  packet that claims a header of no bytes is copied whole behind its new header, and that
  writes past the end of the buffer that \<open>siit_xmit\<close> allocated.
\<close>

theorem siit_included_header_overflow:
  "siit_xmit k be t zero_alloc stack (Some (ETH_P_IP, replicate 14 1 @ short_header_packet)) w = Inl BadWrite"
proof -
  let ?f = "replicate 14 1 @ short_header_packet"
  have pull: "pull_eth ?f = short_header_packet" by (simp add: pull_eth_def ETH_HLEN_def)
  have skb: "new_skb zero_alloc ?f ETH_P_IPV6 88 (count_rx ?f w) =
     Inr (Some (\<lparr>skb_protocol = ETH_P_IPV6, skb_mac = new_mac ?f ETH_P_IPV6, skb_data = replicate 88 0\<rparr>,
               (count_rx ?f w)\<lparr>allocated := Suc (allocated w)\<rparr>))"
    using new_skb_Some [of zero_alloc "count_rx ?f w" 88 "replicate 102 0" ?f ETH_P_IPV6] by (simp add: zero_alloc_def)
  have send: "send_v4 k t zero_alloc ?f short_header_packet 88 (count_rx ?f w) = Inl BadWrite"
    by (simp add: send_v4_def skb ip4_ip6_short_header)
  have ty: "rd short_header_packet 20 1 = Inr [3]" by (simp add: rd_def mem_read_def short_header_packet_def)
  have "xmit_v4 k t zero_alloc stack ?f short_header_packet (count_rx ?f w) = Inl BadWrite"
    using send by (simp add: xmit_v4_def short_header_outer Let_def IP_DF_def FRAG_BUFF_SIZE_def IP4_IP6_HDR_DIFF_def ty [simplified])
  then show ?thesis by (simp add: siit_xmit_def pull)
qed

end
