(* ===== verification/Ring_Buffer.thy ===== *)
theory Ring_Buffer
  imports NB_Prelude
begin

text \<open>
  The log ring buffers of the neufbox,
  \<open>openwrt/target/linux/generic-2.6/files-2.6.21/drivers/char/neufbox-ring-buffer.c\<close>: character
  devices that keep the last bytes written to them. The operations run under the device's
  semaphore, so each is one step. Counters have the width of \<open>unsigned long long\<close>, sizes that
  of the 32-bit \<open>size_t\<close>. A copy that would leave the buffer gives \<open>None\<close>.
\<close>

type_synonym u64 = "64 word"

record ring_buffer_device =
  rb_buffer :: bytes
  rb_size :: u32
  rb_in :: u64
  rb_out :: u64
  rb_pos :: u64

text \<open>The sizes of the buffers on the neufbox 4.\<close>

definition ring_buffer_sizes :: "u32 list" where
  "ring_buffer_sizes = map (push_bit 10) [64, 64, 64, 64, 16, 64, 16, 16, 64, 4, 64, 4]"

definition ring_buffer_len :: "ring_buffer_device \<Rightarrow> u32" where
  "ring_buffer_len dev = ucast (rb_in dev - rb_out dev)"

text \<open>\<open>x & (dev->size - 1)\<close>\<close>

definition rb_index :: "ring_buffer_device \<Rightarrow> u64 \<Rightarrow> u32" where
  "rb_index dev x = ucast (x AND ucast (rb_size dev - 1))"

definition copy_out :: "bytes \<Rightarrow> u32 \<Rightarrow> u32 \<Rightarrow> bytes option" where
  "copy_out m off n = (if unat off + unat n \<le> length m then Some (mem_read m (unat off) (unat n)) else None)"

definition copy_in :: "bytes \<Rightarrow> u32 \<Rightarrow> bytes \<Rightarrow> bytes option" where
  "copy_in m off bs = (if unat off + length bs \<le> length m then Some (mem_write m (unat off) bs) else None)"

definition ring_buffer_get :: "ring_buffer_device \<Rightarrow> u32 \<Rightarrow> bytes option" where
  "ring_buffer_get dev count =
     (let len = min count (ring_buffer_len dev - ucast (rb_pos dev - rb_out dev));
          l = min len (rb_size dev - rb_index dev (rb_pos dev))
      in case copy_out (rb_buffer dev) (rb_index dev (rb_pos dev)) l of
           None \<Rightarrow> None
         | Some a \<Rightarrow> (case copy_out (rb_buffer dev) 0 (len - l) of None \<Rightarrow> None | Some b \<Rightarrow> Some (a @ b)))"

text \<open>The bytes offered are \<open>buf\<close>; the result is how many were taken.\<close>

definition ring_buffer_put :: "ring_buffer_device \<Rightarrow> bytes \<Rightarrow> (u32 \<times> ring_buffer_device) option" where
  "ring_buffer_put dev buf =
     (let len = min (of_nat (length buf)) (rb_size dev);
          l = min len (rb_size dev - rb_index dev (rb_in dev))
      in case copy_in (rb_buffer dev) (rb_index dev (rb_in dev)) (take (unat l) buf) of
           None \<Rightarrow> None
         | Some m \<Rightarrow>
             (case copy_in m 0 (take (unat (len - l)) (drop (unat l) buf)) of
                None \<Rightarrow> None
              | Some m \<Rightarrow>
                  let dev = dev\<lparr>rb_buffer := m, rb_in := rb_in dev + ucast len\<rparr>
                  in Some (len, if rb_size dev < ring_buffer_len dev
                                then dev\<lparr>rb_out := rb_in dev - ucast (rb_size dev)\<rparr> else dev)))"

definition ring_buffer_open :: "ring_buffer_device \<Rightarrow> ring_buffer_device" where
  "ring_buffer_open dev = dev\<lparr>rb_pos := rb_out dev\<rparr>"

definition ring_buffer_read :: "ring_buffer_device \<Rightarrow> u32 \<Rightarrow> (bytes \<times> ring_buffer_device) option" where
  "ring_buffer_read dev count =
     (case ring_buffer_get dev count of
        None \<Rightarrow> None
      | Some bs \<Rightarrow> Some (bs, dev\<lparr>rb_pos := rb_pos dev + of_nat (length bs)\<rparr>))"

text \<open>The bytes taken, the new size of the inode, and the device.\<close>

definition ring_buffer_write :: "ring_buffer_device \<Rightarrow> bytes \<Rightarrow> (u32 \<times> u64 \<times> ring_buffer_device) option" where
  "ring_buffer_write dev buf =
     (case ring_buffer_put dev buf of
        None \<Rightarrow> None
      | Some (n, dev) \<Rightarrow> Some (n, rb_in dev - rb_out dev, dev))"

text \<open>The new position of the file, or \<open>-EINVAL\<close>.\<close>

definition ring_buffer_llseek :: "ring_buffer_device \<Rightarrow> u64 \<Rightarrow> nat \<Rightarrow> int \<times> ring_buffer_device" where
  "ring_buffer_llseek dev off whence =
     (let seek = (\<lambda>p. (sint (p - rb_out dev), dev\<lparr>rb_pos := p\<rparr>)) in
      if whence = 0 then seek (rb_out dev + off)
      else if whence = 1 then seek (rb_pos dev + off)
      else if whence = 2 then seek (rb_in dev + off)
      else (- EINVAL, dev))"

definition ring_buffer_clear :: "ring_buffer_device \<Rightarrow> ring_buffer_device" where
  "ring_buffer_clear dev = dev\<lparr>rb_in := 0, rb_out := 0\<rparr>"

text \<open>A number written to the control file, when there is one, selects the buffer to clear.\<close>

definition ring_buffer_proc_write :: "int option \<Rightarrow> ring_buffer_device list \<Rightarrow> ring_buffer_device list" where
  "ring_buffer_proc_write num devs =
     (case num of
        Some i \<Rightarrow> if 0 \<le> i \<and> nat i < length devs then devs[nat i := ring_buffer_clear (devs ! nat i)] else devs
      | None \<Rightarrow> map ring_buffer_clear devs)"

text \<open>The set-up of one buffer, with the memory that was allocated for it.\<close>

definition ring_buffer_setup :: "u32 \<Rightarrow> bytes option \<Rightarrow> ring_buffer_device option" where
  "ring_buffer_setup sz mem =
     (case mem of
        None \<Rightarrow> None
      | Some m \<Rightarrow> Some \<lparr>rb_buffer = m, rb_size = sz, rb_in = 0, rb_out = 0, rb_pos = 0\<rparr>)"

section \<open>Invariant and contents\<close>

definition rb_ok :: "ring_buffer_device \<Rightarrow> bool" where
  "rb_ok dev \<longleftrightarrow> (\<exists>n<31. rb_size dev = 2 ^ n) \<and> length (rb_buffer dev) = unat (rb_size dev) \<and>
     unat (rb_in dev - rb_out dev) \<le> unat (rb_size dev)"

definition rb_at :: "ring_buffer_device \<Rightarrow> nat \<Rightarrow> u8" where
  "rb_at dev x = rb_buffer dev ! ((unat (rb_out dev) + x) mod unat (rb_size dev))"

definition rb_contents :: "ring_buffer_device \<Rightarrow> bytes" where
  "rb_contents dev = map (rb_at dev) [0..<unat (rb_in dev - rb_out dev)]"

lemma rb_okE:
  assumes "rb_ok dev"
  obtains n where "n < 31" "rb_size dev = 2 ^ n" "unat (rb_size dev) = 2 ^ n" "length (rb_buffer dev) = 2 ^ n"
    "unat (rb_in dev - rb_out dev) \<le> 2 ^ n"
proof -
  from assms obtain n where n: "n < 31" "rb_size dev = 2 ^ n" by (auto simp: rb_ok_def)
  have "unat (of_nat (2 ^ n) :: u32) = 2 ^ n"
    using n(1) power_strict_increasing [of n 32 "2 :: nat"] by (subst unat_of_nat) simp
  then have "unat (rb_size dev) = 2 ^ n" by (simp add: n(2))
  with n assms that show thesis by (auto simp: rb_ok_def)
qed

lemma rb_index_mod:
  assumes "n < 31" "rb_size dev = 2 ^ n"
  shows "unat (rb_index dev x) = unat x mod 2 ^ n"
proof -
  have "ucast (rb_size dev - 1) = (mask n :: u64)"
    using assms ucast_mask_eq [of n, where 'a = 64 and 'b = 32] by (simp add: mask_eq_exp_minus_1)
  then have "x AND ucast (rb_size dev - 1) = take_bit n x" by (simp add: take_bit_eq_mask)
  then have "rb_index dev x = ucast (take_bit n x)" by (simp add: rb_index_def)
  moreover have "unat (take_bit n x) = unat x mod 2 ^ n" by (simp add: unsigned_take_bit_eq flip: take_bit_eq_mod)
  moreover have "unat x mod 2 ^ n < 2 ^ 32"
  proof -
    have "unat x mod 2 ^ n < 2 ^ n" by simp
    also have "(2 :: nat) ^ n < 2 ^ 32" using assms(1) by (intro power_strict_increasing) simp_all
    finally show ?thesis .
  qed
  ultimately show ?thesis by (simp add: unsigned_ucast_eq take_bit_nat_eq_self)
qed

section \<open>Writing around the end\<close>

text \<open>Two copies that together write \<open>dat\<close> from index \<open>a\<close> on, around the end of the buffer.\<close>

definition ring_store :: "bytes \<Rightarrow> nat \<Rightarrow> bytes \<Rightarrow> bytes" where
  "ring_store m a dat =
     (let l = min (length dat) (length m - a) in mem_write (mem_write m a (take l dat)) 0 (drop l dat))"

lemma nth_mem_write:
  "off + length bs \<le> length m \<Longrightarrow> j < length m \<Longrightarrow>
   mem_write m off bs ! j = (if off \<le> j \<and> j < off + length bs then bs ! (j - off) else m ! j)"
  by (auto simp: mem_write_def nth_append min_def)

lemma length_ring_store [simp]:
  "a < length m \<Longrightarrow> length dat \<le> length m \<Longrightarrow> length (ring_store m a dat) = length m"
  by (auto simp: ring_store_def Let_def min_def)

lemma ring_store_nth:
  assumes "a < length m" "length dat \<le> length m" "y < length m"
  shows "ring_store m a dat ! ((a + y) mod length m) = (if y < length dat then dat ! y else m ! ((a + y) mod length m))"
proof (cases "length dat \<le> length m - a")
  case True
  then have "ring_store m a dat = mem_write m a dat" by (simp add: ring_store_def mem_write_def [of _ 0])
  then have n0: "ring_store m a dat ! j = (if a \<le> j \<and> j < a + length dat then dat ! (j - a) else m ! j)" if "j < length m" for j
    using assms True that by (simp add: nth_mem_write)
  show ?thesis
  proof (cases "a + y < length m")
    case lt: True then show ?thesis using n0 [of "a + y"] by simp
  next
    case ge: False
    then have "(a + y) mod length m = a + y - length m" using assms by (simp add: le_mod_geq)
    then show ?thesis using assms True ge n0 [of "a + y - length m"] by auto
  qed
next
  case False
  let ?l = "length m - a"
  let ?m = "mem_write m a (take ?l dat)"
  have s: "ring_store m a dat = mem_write ?m 0 (drop ?l dat)" using False by (simp add: ring_store_def Let_def)
  have m: "length ?m = length m" using assms False by simp
  have n1: "ring_store m a dat ! j = (if j < length dat - ?l then dat ! (?l + j) else ?m ! j)" if "j < length m" for j
    unfolding s using assms False m that by (subst nth_mem_write) auto
  have n2: "?m ! j = (if a \<le> j \<and> j < length m then dat ! (j - a) else m ! j)" if "j < length m" for j
    using assms False that by (subst nth_mem_write) auto
  show ?thesis
  proof (cases "a + y < length m")
    case True
    then show ?thesis using assms False n1 [of "a + y"] n2 [of "a + y"] by auto
  next
    case ge: False
    then have "(a + y) mod length m = a + y - length m" using assms by (simp add: le_mod_geq)
    then show ?thesis using assms False ge n1 [of "a + y - length m"] n2 [of "a + y - length m"] by auto
  qed
qed

text \<open>The same, told by distances from any start of which \<open>a\<close> is \<open>len\<close> steps away.\<close>

lemma ring_store_at:
  assumes m: "0 < length m" "length dat \<le> length m" and a: "a = (o' + len) mod length m"
    and x: "len \<le> x" "x < len + length m"
  shows "ring_store m a dat ! ((o' + x) mod length m) = (if x < len + length dat then dat ! (x - len) else m ! ((o' + x) mod length m))"
proof -
  have "(o' + x) mod length m = (a + (x - len)) mod length m"
    using mod_add_left_eq [of "o' + len" "length m" "x - len"] x(1) by (simp add: a)
  then show ?thesis using ring_store_nth [of a m dat "x - len"] m x a by auto
qed

section \<open>What a write does\<close>

definition last_n :: "nat \<Rightarrow> 'a list \<Rightarrow> 'a list" where
  "last_n n xs = drop (length xs - n) xs"

lemma unat_of_nat_small: "k < 2 ^ LENGTH('a) \<Longrightarrow> unat (of_nat k :: 'a::len word) = k"
  by (simp add: unat_of_nat)

lemma pow31: "n < 31 \<Longrightarrow> (2 :: nat) ^ n \<le> 2 ^ 30"
  by (intro power_increasing) simp_all

lemma unat_min: "unat (min a b) = min (unat a) (unat (b :: 'a::len word))"
  by (simp add: min_def word_le_nat_alt)

definition rb_put_result :: "ring_buffer_device \<Rightarrow> bytes \<Rightarrow> ring_buffer_device" where
  "rb_put_result dev dat =
     (let dev = dev\<lparr>rb_buffer := ring_store (rb_buffer dev) (unat (rb_in dev) mod unat (rb_size dev)) dat,
                    rb_in := rb_in dev + of_nat (length dat)\<rparr>
      in if rb_size dev < ring_buffer_len dev then dev\<lparr>rb_out := rb_in dev - ucast (rb_size dev)\<rparr> else dev)"

lemma ring_buffer_put_eq:
  assumes ok: "rb_ok dev" and buf: "length buf < 2 ^ 32"
  shows "ring_buffer_put dev buf =
    Some (of_nat (min (length buf) (unat (rb_size dev))), rb_put_result dev (take (unat (rb_size dev)) buf))"
proof -
  from ok obtain n where n: "n < 31" "rb_size dev = 2 ^ n" "unat (rb_size dev) = 2 ^ n" "length (rb_buffer dev) = 2 ^ n"
    by (rule rb_okE)
  let ?N = "2 ^ n :: nat" and ?a = "unat (rb_in dev) mod 2 ^ n" and ?k = "min (length buf) (2 ^ n)"
  let ?i = "rb_index dev (rb_in dev)" and ?len = "min (of_nat (length buf)) (rb_size dev)"
  let ?l = "min ?len (rb_size dev - ?i)"
  define L where "L = unat ?l"
  have a: "unat ?i = ?a" "?a < ?N" using rb_index_mod [OF n(1,2)] by simp_all
  have len: "unat ?len = ?k" using buf n(3) by (simp add: unat_min unat_of_nat_small)
  have "unat (rb_size dev - ?i) = ?N - ?a"
    using a n(3) by (subst unat_sub) (simp_all add: word_le_nat_alt)
  then have l: "L = min ?k (?N - ?a)" using unat_min [of ?len "rb_size dev - ?i"] by (simp only: L_def len)
  have r: "unat (?len - ?l) = ?k - L"
    unfolding L_def using unat_sub [of ?l ?len] len by (simp only: min.cobounded1)
  have lk: "L \<le> ?k" unfolding l by (rule min.cobounded1)
  have "L \<le> ?N - ?a" unfolding l by (rule min.cobounded2)
  then have al: "?a + L \<le> ?N" using a(2) by linarith
  let ?m1 = "mem_write (rb_buffer dev) ?a (take L buf)" and ?rest = "take (?k - L) (drop L buf)"
  have m1: "length ?m1 = ?N" using al lk n(4) by simp
  have c1: "copy_in (rb_buffer dev) ?i (take L buf) = Some ?m1"
    using a(1) al lk n(4) by (simp add: copy_in_def)
  have "length ?rest \<le> ?N" by simp
  then have c2: "copy_in ?m1 0 ?rest = Some (mem_write ?m1 0 ?rest)"
    using m1 by (simp only: copy_in_def unat_0) simp
  have m: "mem_write ?m1 0 ?rest = ring_store (rb_buffer dev) ?a (take ?N buf)"
  proof -
    have "take L (take ?N buf) = take L buf" using lk by (simp add: min_absorb2)
    moreover have "drop L (take ?N buf) = ?rest" by (simp add: drop_take min_def)
    moreover have "L = min (length (take ?N buf)) (length (rb_buffer dev) - ?a)" using l n(4) by simp
    ultimately show ?thesis by (simp only: ring_store_def Let_def)
  qed
  have len': "?len = of_nat ?k" using len by (metis of_nat_unat ucast_id)
  have k32: "?k < 2 ^ 32" using buf by simp
  have u: "ucast ?len = (of_nat ?k :: u64)"
    by (rule word_unat_eq_iff [THEN iffD2]) (use k32 len in \<open>simp add: unsigned_ucast_eq unat_of_nat take_bit_nat_eq_self\<close>)
  show ?thesis
    unfolding ring_buffer_put_def Let_def r L_def [symmetric] c1 option.case c2 m u
    unfolding len' by (simp add: rb_put_result_def Let_def n(3) min.commute)
qed

lemma unat_in_mod:
  assumes "n < 31"
  shows "unat (rb_in dev) mod 2 ^ n = (unat (rb_out dev) + unat (rb_in dev - rb_out dev)) mod 2 ^ n"
proof -
  have "unat (rb_in dev) = unat (rb_out dev + (rb_in dev - rb_out dev))" by simp
  also have "\<dots> = (unat (rb_out dev) + unat (rb_in dev - rb_out dev)) mod 2 ^ LENGTH(64)" by (simp only: unat_word_ariths)
  finally have e: "unat (rb_in dev) = (unat (rb_out dev) + unat (rb_in dev - rb_out dev)) mod 2 ^ LENGTH(64)" .
  have "(2 :: nat) ^ n dvd 2 ^ LENGTH(64)" using assms by (intro le_imp_power_dvd) simp
  then show ?thesis unfolding e by (rule mod_mod_cancel)
qed

lemma rb_put_contents:
  assumes ok: "rb_ok dev" and dat: "length dat \<le> unat (rb_size dev)"
  shows "rb_ok (rb_put_result dev dat)"
    "rb_contents (rb_put_result dev dat) = last_n (unat (rb_size dev)) (rb_contents dev @ dat)"
proof -
  from ok obtain n where n: "n < 31" "rb_size dev = 2 ^ n" "unat (rb_size dev) = 2 ^ n" "length (rb_buffer dev) = 2 ^ n"
    and len: "unat (rb_in dev - rb_out dev) \<le> 2 ^ n" by (rule rb_okE)
  let ?N = "2 ^ n :: nat" and ?len = "unat (rb_in dev - rb_out dev)" and ?k = "length dat"
  let ?o = "unat (rb_out dev)" and ?a = "unat (rb_in dev) mod 2 ^ n"
  let ?m = "ring_store (rb_buffer dev) ?a dat"
  have k: "?k \<le> ?N" using dat n(3) by simp
  have N: "?N \<le> 2 ^ 30" by (rule pow31 [OF n(1)])
  have a: "?a = (?o + ?len) mod ?N" by (rule unat_in_mod [OF n(1)])
  have lm: "length ?m = ?N" using n(4) k by simp
  have at: "?m ! ((?o + x) mod ?N) = (if x < ?len + ?k then dat ! (x - ?len) else rb_at dev x)"
    if "?len \<le> x" "x < ?len + ?N" for x
    using ring_store_at [of "rb_buffer dev" dat ?a ?o ?len x] n(3,4) k a that by (simp add: rb_at_def)
  let ?d = "dev\<lparr>rb_buffer := ?m, rb_in := rb_in dev + of_nat ?k\<rparr>"
  have "rb_in ?d - rb_out ?d = (rb_in dev - rb_out dev) + of_nat ?k" by simp
  moreover have "unat ((rb_in dev - rb_out dev) + of_nat ?k) = ?len + ?k"
    using len k N by (subst unat_plus_simple [THEN iffD1]) (simp_all add: word_le_nat_alt unat_of_nat_small unat_word_ariths)
  ultimately have d: "unat (rb_in ?d - rb_out ?d) = ?len + ?k" by (simp only:)
  then have "unat (ring_buffer_len ?d) = ?len + ?k"
    using len k N by (simp add: ring_buffer_len_def unsigned_ucast_eq take_bit_nat_eq_self)
  then have test: "rb_size dev < ring_buffer_len ?d \<longleftrightarrow> ?N < ?len + ?k" by (simp add: word_less_nat_alt n(3))
  have cd: "rb_contents dev = map (rb_at dev) [0..<?len]" by (simp add: rb_contents_def)
  have "rb_ok (rb_put_result dev dat) \<and> rb_contents (rb_put_result dev dat) = last_n ?N (rb_contents dev @ dat)"
  proof (cases "?N < ?len + ?k")
    case False
    then have r: "rb_put_result dev dat = ?d" using test n by (simp add: rb_put_result_def Let_def)
    have "rb_contents ?d = rb_contents dev @ dat"
    proof (rule nth_equalityI)
      show "length (rb_contents ?d) = length (rb_contents dev @ dat)" using d by (simp add: rb_contents_def)
      fix i assume "i < length (rb_contents ?d)"
      then have i: "i < ?len + ?k" using d by (simp add: rb_contents_def)
      have "rb_contents ?d ! i = ?m ! ((?o + i) mod ?N)" using i d n by (simp add: rb_contents_def rb_at_def)
      also have "\<dots> = (rb_contents dev @ dat) ! i"
      proof (cases "i < ?len")
        case True
        then have "?m ! ((?o + (i + ?N)) mod ?N) = rb_at dev (i + ?N)" using at [of "i + ?N"] len False by auto
        then show ?thesis using True n by (simp add: nth_append cd rb_at_def add.assoc [symmetric])
      next
        case ge: False
        then show ?thesis using at [of i] i k by (simp add: nth_append cd)
      qed
      finally show "rb_contents ?d ! i = (rb_contents dev @ dat) ! i" .
    qed
    then show ?thesis using False d lm n by (auto simp: r last_n_def rb_ok_def rb_contents_def)
  next
    case True
    let ?d' = "?d\<lparr>rb_out := rb_in ?d - ucast (rb_size dev)\<rparr>"
    have r: "rb_put_result dev dat = ?d'" using True test n by (simp add: rb_put_result_def Let_def)
    have sz: "unat (ucast (rb_size dev) :: u64) = ?N" using n(1,3) by (simp add: unsigned_ucast_eq take_bit_nat_eq_self)
    have d': "rb_in ?d' - rb_out ?d' = ucast (rb_size dev)" by simp
    have oi: "unat (rb_out ?d') mod ?N = (?o + ?len + ?k) mod ?N"
    proof -
      have "unat (rb_in ?d) mod ?N = (?o + (?len + ?k)) mod ?N"
        using unat_in_mod [OF n(1), of ?d] unfolding d by simp
      moreover have "unat (rb_in ?d') mod ?N = (unat (rb_out ?d') + ?N) mod ?N"
        using unat_in_mod [OF n(1), of ?d'] unfolding d' sz by simp
      ultimately show ?thesis by (simp add: add.assoc)
    qed
    have at': "rb_at ?d' i = ?m ! ((?o + (?len + ?k + i)) mod ?N)" for i
      using oi mod_add_left_eq [of "unat (rb_out ?d')" ?N i] mod_add_left_eq [of "?o + ?len + ?k" ?N i] n
      by (simp add: rb_at_def add.assoc)
    have "rb_contents ?d' = last_n ?N (rb_contents dev @ dat)"
    proof (rule nth_equalityI)
      show l: "length (rb_contents ?d') = length (last_n ?N (rb_contents dev @ dat))"
        using True unfolding rb_contents_def d' sz by (simp add: last_n_def)
      fix i assume "i < length (rb_contents ?d')"
      then have i: "i < ?N" unfolding rb_contents_def d' sz by simp
      have "rb_contents ?d' ! i = rb_at ?d' i" using i unfolding rb_contents_def d' sz by simp
      also have "\<dots> = (rb_contents dev @ dat) ! (?len + ?k - ?N + i)"
      proof (cases "?k + i < ?N")
        case lt: True
        have "rb_at ?d' i = rb_at dev (?len + ?k + i)" using at' at [of "?len + ?k + i"] lt by simp
        moreover have "rb_at dev (?len + ?k + i) = rb_at dev (?len + ?k - ?N + i)"
        proof -
          have "?len + ?k + i = (?len + ?k - ?N + i) + ?N" using True by simp
          then show ?thesis using n(3) by (simp only: rb_at_def add.assoc [symmetric] mod_add_self2)
        qed
        moreover have "?len + ?k - ?N + i < ?len" using lt True by linarith
        ultimately show ?thesis by (simp add: nth_append cd)
      next
        case ge: False
        have "(?o + (?len + (?k + i - ?N))) mod ?N = (?o + (?len + ?k + i)) mod ?N"
        proof -
          have "?o + (?len + ?k + i) = ?o + (?len + (?k + i - ?N)) + ?N" using ge by simp
          then show ?thesis by (simp only: mod_add_self2)
        qed
        then have "rb_at ?d' i = dat ! (?k + i - ?N)" using at' at [of "?len + (?k + i - ?N)"] ge i k by auto
        moreover have "\<not> ?len + ?k - ?N + i < ?len" "?len + ?k - ?N + i - ?len = ?k + i - ?N" using ge True by auto
        ultimately show ?thesis by (simp add: nth_append cd)
      qed
      also have "\<dots> = last_n ?N (rb_contents dev @ dat) ! i" using True i by (simp add: last_n_def cd del: drop_append)
      finally show "rb_contents ?d' ! i = last_n ?N (rb_contents dev @ dat) ! i" .
    qed
    moreover have "rb_ok ?d'" unfolding rb_ok_def d' sz using lm n by auto
    ultimately show ?thesis by (simp add: r)
  qed
  then show "rb_ok (rb_put_result dev dat)"
    "rb_contents (rb_put_result dev dat) = last_n (unat (rb_size dev)) (rb_contents dev @ dat)"
    using n(3) by simp_all
qed

section \<open>What a read returns\<close>

text \<open>A position between the oldest byte and the newest.\<close>

definition pos_ok :: "ring_buffer_device \<Rightarrow> bool" where
  "pos_ok dev \<longleftrightarrow> unat (rb_pos dev - rb_out dev) \<le> unat (rb_in dev - rb_out dev)"

lemma ring_read_around:
  assumes "a < length m" "k \<le> length m"
  shows "take (min k (length m - a)) (drop a m) @ take (k - min k (length m - a)) m =
    map (\<lambda>i. m ! ((a + i) mod length m)) [0..<k]"
proof (rule nth_equalityI)
  show "length (take (min k (length m - a)) (drop a m) @ take (k - min k (length m - a)) m) =
      length (map (\<lambda>i. m ! ((a + i) mod length m)) [0..<k])" using assms by (auto simp: min_def)
  fix i assume "i < length (take (min k (length m - a)) (drop a m) @ take (k - min k (length m - a)) m)"
  then have i: "i < k" using assms by (simp add: min_def split: if_splits)
  show "(take (min k (length m - a)) (drop a m) @ take (k - min k (length m - a)) m) ! i =
      map (\<lambda>i. m ! ((a + i) mod length m)) [0..<k] ! i"
  proof (cases "a + i < length m")
    case True
    then have "i < min k (length m - a)" using i by simp
    then show ?thesis using True i by (simp add: nth_append)
  next
    case False
    then have "(a + i) mod length m = a + i - length m" using i assms by (simp add: le_mod_geq)
    moreover have "min k (length m - a) = length m - a" "\<not> i < length m - a" using False i by simp_all
    ultimately show ?thesis using False i assms by (simp add: nth_append) (simp add: add.commute)
  qed
qed

lemma ring_buffer_get_contents:
  assumes ok: "rb_ok dev" and pos: "pos_ok dev"
  shows "ring_buffer_get dev count = Some (take (unat count) (drop (unat (rb_pos dev - rb_out dev)) (rb_contents dev)))"
proof -
  from ok obtain n where n: "n < 31" "rb_size dev = 2 ^ n" "unat (rb_size dev) = 2 ^ n" "length (rb_buffer dev) = 2 ^ n"
    and len: "unat (rb_in dev - rb_out dev) \<le> 2 ^ n" by (rule rb_okE)
  let ?N = "2 ^ n :: nat" and ?len = "unat (rb_in dev - rb_out dev)" and ?p = "unat (rb_pos dev - rb_out dev)"
  let ?i = "rb_index dev (rb_pos dev)" and ?a = "unat (rb_pos dev) mod 2 ^ n"
  have N: "?N \<le> 2 ^ 30" by (rule pow31 [OF n(1)])
  have p: "?p \<le> ?len" using pos by (simp add: pos_ok_def)
  have i: "unat ?i = ?a" "?a < ?N" using rb_index_mod [OF n(1,2)] by simp_all
  have a: "?a = (unat (rb_out dev) + ?p) mod ?N"
    using unat_in_mod [OF n(1), of "dev\<lparr>rb_in := rb_pos dev\<rparr>"] by simp
  have l1: "unat (ring_buffer_len dev) = ?len" and l2: "unat (ucast (rb_pos dev - rb_out dev) :: u32) = ?p"
    using len p N by (simp_all add: ring_buffer_len_def unsigned_ucast_eq take_bit_nat_eq_self)
  have "unat (ring_buffer_len dev - ucast (rb_pos dev - rb_out dev)) = ?len - ?p"
    using l1 l2 p by (subst unat_sub) (simp_all add: word_le_nat_alt)
  then have k: "unat (min count (ring_buffer_len dev - ucast (rb_pos dev - rb_out dev))) = min (unat count) (?len - ?p)" (is "unat ?c = ?k")
    by (simp only: unat_min)
  have "unat (rb_size dev - ?i) = ?N - ?a"
    using i n(3) by (subst unat_sub) (simp_all add: word_le_nat_alt)
  then have l: "unat (min ?c (rb_size dev - ?i)) = min ?k (?N - ?a)" (is "unat ?l = ?L") using unat_min [of ?c "rb_size dev - ?i"] by (simp only: k)
  have r: "unat (?c - ?l) = ?k - ?L" using unat_sub [of ?l ?c] k l by (simp only: min.cobounded1)
  have kN: "?k \<le> ?N" using len by simp
  have "?L \<le> ?N - ?a" by (rule min.cobounded2)
  then have aL: "?a + ?L \<le> ?N" using i(2) by linarith
  have c1: "copy_out (rb_buffer dev) ?i ?l = Some (take ?L (drop ?a (rb_buffer dev)))"
    using aL n(4) by (simp only: copy_out_def l i(1) mem_read_def) simp
  have c2: "copy_out (rb_buffer dev) 0 (?c - ?l) = Some (take (?k - ?L) (rb_buffer dev))"
    using n(4) kN by (simp only: copy_out_def r unat_0 mem_read_def) auto
  have "ring_buffer_get dev count = Some (take ?L (drop ?a (rb_buffer dev)) @ take (?k - ?L) (rb_buffer dev))"
    by (simp only: ring_buffer_get_def Let_def c1 c2 option.case)
  also have "take ?L (drop ?a (rb_buffer dev)) @ take (?k - ?L) (rb_buffer dev) = map (\<lambda>i. rb_buffer dev ! ((?a + i) mod ?N)) [0..<?k]"
    using ring_read_around [of ?a "rb_buffer dev" ?k] i n(4) kN by simp
  also have "\<dots> = map (\<lambda>i. rb_at dev (?p + i)) [0..<?k]"
    using mod_add_left_eq [of "unat (rb_out dev) + ?p" ?N] by (simp add: rb_at_def n(3) a add.assoc)
  also have "\<dots> = take (unat count) (drop ?p (rb_contents dev))"
    using p by (intro nth_equalityI) (auto simp: rb_contents_def)
  finally show ?thesis .
qed

end
