(* ===== verification/Ring_Props.thy ===== *)
theory Ring_Props
  imports Ring_Buffer
begin

text \<open>
  The log devices as their users see them: a sequence of writes, then a reader. What the last
  writes left is what a reader gets, and what happens to a reader that the writers overtake.
\<close>

section \<open>A log that keeps the last bytes\<close>

text \<open>
  The interface of a device that keeps the last \<open>cap\<close> bytes written to it, by the effect of one
  write on its contents.
\<close>

locale tail_log =
  fixes ok :: "'d \<Rightarrow> bool" and contents :: "'d \<Rightarrow> bytes" and put :: "'d \<Rightarrow> bytes \<Rightarrow> 'd" and cap :: "'d \<Rightarrow> nat"
  assumes put_ok: "ok d \<Longrightarrow> length bs \<le> cap d \<Longrightarrow> ok (put d bs)"
    and put_cap: "ok d \<Longrightarrow> length bs \<le> cap d \<Longrightarrow> cap (put d bs) = cap d"
    and put_contents: "ok d \<Longrightarrow> length bs \<le> cap d \<Longrightarrow> contents (put d bs) = last_n (cap d) (contents d @ bs)"
begin

lemma last_n_last_n: "last_n n (last_n n xs @ ys) = last_n n (xs @ ys)"
  by (cases "length xs \<le> n") (auto simp: last_n_def min_def add.commute)

lemma puts:
  assumes "ok d" "\<forall>bs\<in>set ws. length bs \<le> cap d" "length (contents d) \<le> cap d"
  shows "ok (foldl put d ws) \<and> cap (foldl put d ws) = cap d \<and> contents (foldl put d ws) = last_n (cap d) (contents d @ concat ws)"
  using assms
proof (induction ws arbitrary: d)
  case (Cons w ws)
  have w: "ok (put d w)" "cap (put d w) = cap d" "contents (put d w) = last_n (cap d) (contents d @ w)"
    using Cons.prems put_ok put_cap put_contents by auto
  then have "length (contents (put d w)) \<le> cap (put d w)" by (simp add: last_n_def)
  then show ?case using Cons.IH [of "put d w"] Cons.prems w last_n_last_n [of "cap d" "contents d @ w" "concat ws"] by simp
qed (simp add: last_n_def)

end

text \<open>The write of the driver, where it succeeds.\<close>

definition write_step :: "ring_buffer_device \<Rightarrow> bytes \<Rightarrow> ring_buffer_device" where
  "write_step dev bs = (case ring_buffer_write dev bs of Some (_, _, dev') \<Rightarrow> dev' | None \<Rightarrow> dev)"

lemma rb_size_bound: "rb_ok dev \<Longrightarrow> unat (rb_size dev) < 2 ^ 32"
  using unsigned_less [of "rb_size dev"] by simp

lemma ring_buffer_write_eq:
  assumes "rb_ok dev" "length bs \<le> unat (rb_size dev)"
  shows "ring_buffer_write dev bs = Some (of_nat (length bs), rb_in (rb_put_result dev bs) - rb_out (rb_put_result dev bs), rb_put_result dev bs)"
    and "write_step dev bs = rb_put_result dev bs"
  using assms rb_size_bound [OF assms(1)] ring_buffer_put_eq [OF assms(1), of bs]
  by (simp_all add: ring_buffer_write_def write_step_def min_absorb1)

lemma rb_put_size [simp]: "rb_size (rb_put_result dev bs) = rb_size dev"
  by (simp add: rb_put_result_def Let_def)

interpretation rb: tail_log rb_ok rb_contents write_step "\<lambda>d. unat (rb_size d)"
  by unfold_locales (simp_all add: ring_buffer_write_eq rb_put_contents)

section \<open>Writers and a reader\<close>

definition run_writes :: "ring_buffer_device \<Rightarrow> bytes list \<Rightarrow> ring_buffer_device" where
  "run_writes dev ws = foldl write_step dev ws"

definition fresh_device :: "nat \<Rightarrow> ring_buffer_device" where
  "fresh_device n = the (ring_buffer_setup (2 ^ n) (Some (replicate (2 ^ n) 0)))"

lemma unat_pow: "n < 31 \<Longrightarrow> unat (2 ^ n :: u32) = 2 ^ n"
  using power_strict_increasing [of n 32 "2 :: nat"] unat_of_nat [of "2 ^ n", where 'a = 32] by simp

lemma fresh_ok: "n < 31 \<Longrightarrow> rb_ok (fresh_device n)" "rb_contents (fresh_device n) = []" "rb_size (fresh_device n) = 2 ^ n"
  by (auto simp: fresh_device_def ring_buffer_setup_def rb_ok_def rb_contents_def unat_pow)

text \<open>
  C10. The log keeps the tail: after any sequence of writes, none longer than the buffer, to a new
  device of a power of two bytes, a reader that opens it and reads with a large enough count gets
  exactly the last bytes written, as many as the buffer holds; every access stays inside the buffer,
  also when the counters wrap.
\<close>

theorem ring_buffer_keeps_tail:
  assumes "n < 31" "\<forall>bs\<in>set ws. length bs \<le> 2 ^ n" "2 ^ n \<le> unat count"
  shows "\<exists>dev'. ring_buffer_read (ring_buffer_open (run_writes (fresh_device n) ws)) count =
    Some (last_n (2 ^ n) (concat ws), dev')"
proof -
  let ?d = "run_writes (fresh_device n) ws"
  note f = fresh_ok(1) [OF assms(1)] fresh_ok(2) [of n] fresh_ok(3) [of n]
  have c: "unat (rb_size (fresh_device n)) = 2 ^ n" using f(3) unat_pow [OF assms(1)] by simp
  have d: "rb_ok ?d" "rb_contents ?d = last_n (2 ^ n) (concat ws)"
    using rb.puts [of "fresh_device n" ws] f assms(2) c by (simp_all add: run_writes_def)
  let ?o = "ring_buffer_open ?d"
  have o: "rb_ok ?o" "pos_ok ?o" "rb_contents ?o = rb_contents ?d" "rb_pos ?o - rb_out ?o = 0"
    using d(1) by (simp_all add: ring_buffer_open_def rb_ok_def pos_ok_def rb_contents_def rb_at_def [abs_def])
  have "length (last_n (2 ^ n) (concat ws)) \<le> unat count" using assms(3) by (simp add: last_n_def)
  then have "ring_buffer_get ?o count = Some (last_n (2 ^ n) (concat ws))"
    using ring_buffer_get_contents [OF o(1,2), of count] o d(2) by simp
  then show ?thesis by (simp add: ring_buffer_read_def)
qed

theorem ring_buffer_keeps_tail_witness:
  "\<exists>dev'. ring_buffer_read (ring_buffer_open (run_writes (fresh_device 2) [[1, 2, 3], [4, 5, 6]])) 4 =
    Some (last_n (2 ^ 2) (concat [[1, 2, 3], [4, 5, 6]]), dev')"
  by (rule ring_buffer_keeps_tail) simp_all

section \<open>A reader that is overtaken\<close>

lemma ucast_diff_down: "(ucast (a - b :: u64) :: u32) = ucast a - ucast b"
proof (rule word_uint_eq_iff [THEN iffD2])
  have "uint (ucast (a - b) :: u32) = take_bit 32 (take_bit 64 (uint a - uint b))"
    by (simp add: unsigned_ucast_eq uint_word_ariths take_bit_eq_mod)
  also have "\<dots> = take_bit 32 (uint a - uint b)" by (simp add: take_bit_take_bit)
  also have "\<dots> = take_bit 32 (take_bit 32 (uint a) - take_bit 32 (uint b))" by (simp add: take_bit_diff)
  also have "\<dots> = uint (ucast a - ucast b :: u32)" by (simp add: unsigned_ucast_eq uint_word_ariths take_bit_eq_mod)
  finally show "uint (ucast (a - b) :: u32) = uint (ucast a - ucast b :: u32)" .
qed

lemma run_writes_counters:
  assumes "rb_ok d" "\<forall>bs\<in>set ws. length bs \<le> unat (rb_size d)"
  shows "rb_in (run_writes d ws) = rb_in d + of_nat (length (concat ws)) \<and> rb_pos (run_writes d ws) = rb_pos d \<and>
    rb_size (run_writes d ws) = rb_size d"
  using assms unfolding run_writes_def
proof (induction ws arbitrary: d)
  case (Cons w ws)
  then have w: "write_step d w = rb_put_result d w" "rb_ok (rb_put_result d w)"
    using ring_buffer_write_eq rb_put_contents(1) by auto
  have "rb_in (rb_put_result d w) = rb_in d + of_nat (length w)" "rb_pos (rb_put_result d w) = rb_pos d"
    by (simp_all add: rb_put_result_def Let_def)
  then show ?case using Cons.IH [OF w(2)] Cons.prems w by (simp add: add.assoc)
qed simp

text \<open>
  A reader that is overtaken leaves the buffer: the position of a reader is not moved when
  the writers go on, so when more than twice the size of the buffer was written since it opened the
  device, the length that a read computes exceeds the buffer, and the second copy reads past its
  end.
\<close>

theorem ring_buffer_overtaken_reader:
  assumes "n < 31" "\<forall>bs\<in>set ws. length bs \<le> 2 ^ n"
    and "2 * 2 ^ n < length (concat ws)" "length (concat ws) < 2 ^ 32" "length (concat ws) \<le> unat count"
  shows "ring_buffer_read (run_writes (ring_buffer_open (fresh_device n)) ws) count = None"
proof -
  let ?f = "ring_buffer_open (fresh_device n)" let ?d = "run_writes ?f ws" and ?t = "length (concat ws)"
  have f: "rb_ok ?f" "rb_contents ?f = []" "rb_size ?f = 2 ^ n" "rb_in ?f = 0" "rb_pos ?f = 0"
    using fresh_ok [of n] assms(1)
    by (auto simp: ring_buffer_open_def rb_ok_def rb_contents_def fresh_device_def ring_buffer_setup_def)
  have c: "unat (rb_size ?f) = 2 ^ n" using f(3) unat_pow [OF assms(1)] by simp
  have d: "rb_ok ?d" "rb_contents ?d = last_n (2 ^ n) (concat ws)"
    using rb.puts [of ?f ws] f assms(2) c by (simp_all add: run_writes_def)
  have cnt: "rb_in ?d = of_nat ?t" "rb_pos ?d = 0" "rb_size ?d = 2 ^ n"
    using run_writes_counters [OF f(1), of ws] f assms(2) c by simp_all
  have len: "unat (rb_in ?d - rb_out ?d) = 2 ^ n"
    using arg_cong [OF d(2), of length] assms(3) by (simp add: rb_contents_def last_n_def)
  have ne: "unat (rb_size ?d) = 2 ^ n" "length (rb_buffer ?d) = 2 ^ n" using d(1) cnt(3) unat_pow [OF assms(1)] by (auto simp: rb_ok_def)
  have avail: "ring_buffer_len ?d - ucast (rb_pos ?d - rb_out ?d) = of_nat ?t"
  proof -
    have "ring_buffer_len ?d - ucast (rb_pos ?d - rb_out ?d) = (ucast (rb_in ?d - rb_out ?d - (rb_pos ?d - rb_out ?d)) :: u32)"
      by (simp only: ring_buffer_len_def ucast_diff_down [of "rb_in ?d - rb_out ?d"])
    also have "\<dots> = ucast (of_nat ?t :: u64)" using cnt by simp
    also have "\<dots> = of_nat ?t"
      by (rule word_unat_eq_iff [THEN iffD2]) (use assms(4) in \<open>simp add: unsigned_ucast_eq unat_of_nat take_bit_nat_eq_self\<close>)
    finally show ?thesis .
  qed
  have t: "unat (of_nat ?t :: u32) = ?t" using assms(4) by (intro unat_of_nat_small) simp
  have idx: "rb_index ?d (rb_pos ?d) = 0" using cnt(2) by (simp add: rb_index_def)
  have "unat (min count (of_nat ?t)) = ?t" using t assms(5) by (simp only: unat_min min_absorb2)
  then have m: "min count (of_nat ?t) = (of_nat ?t :: u32)" using t by (simp only: word_unat_eq_iff)
  have l: "min (of_nat ?t) (rb_size ?d - 0) = rb_size ?d"
    using t ne(1) assms(3) by (simp add: min_def word_le_nat_alt)
  have "unat (of_nat ?t - rb_size ?d) = ?t - 2 ^ n"
    using t ne(1) assms(3) by (subst unat_sub) (simp_all add: word_le_nat_alt)
  then have "copy_out (rb_buffer ?d) 0 (of_nat ?t - rb_size ?d) = None"
    using ne(2) assms(3) by (simp only: copy_out_def unat_0) simp
  then have "ring_buffer_get ?d count = None"
    unfolding ring_buffer_get_def Let_def avail m idx l by (simp split: option.split)
  then show ?thesis by (simp add: ring_buffer_read_def)
qed

theorem ring_buffer_overtaken_reader_witness:
  "ring_buffer_read (run_writes (ring_buffer_open (fresh_device 1)) [[1, 2], [3, 4], [5, 6]]) 100 = None"
  by (rule ring_buffer_overtaken_reader) simp_all

end
