(* ===== verification/Leds.thy ===== *)
theory Leds
  imports NB_Prelude
begin

text \<open>
  The front panel of the neufbox 4, from the command of a program to the level of a pin: the LED
  driver \<open>drivers/leds/leds-neufbox.c\<close> (under
  \<open>openwrt/target/linux/generic-2.6/files-2.6.21\<close>), the pin maps of
  \<open>brcm63xx/files-2.6.21/arch/mips/bcm63xx/boards/board_neufbox4.c\<close>, and the shift register
  that drives some of the pins, \<open>generic-2.6/files/drivers/gpio/nxp_74hc164.c\<close>. The levels of
  the pins of the processor are a map from pin numbers.
\<close>

section \<open>Enumerations\<close>

datatype led_mode = led_mode_disable | led_mode_control | led_mode_downloading | led_mode_burning
  | led_mode_panic | led_mode_demo

datatype led_id = led_id_wan | led_id_traffic | led_id_tel | led_id_tv | led_id_wifi | led_id_alarm
  | led_id_red | led_id_green | led_id_blue

datatype led_state = led_state_unchanged | led_state_on | led_state_off | led_state_toggle
  | led_state_blinkonce | led_state_slowblinks | led_state_blinks

text \<open>The numbers of the enumerations; other numbers are not values of them.\<close>

definition led_modes :: "led_mode list" where
  "led_modes = [led_mode_disable, led_mode_control, led_mode_downloading, led_mode_burning, led_mode_panic, led_mode_demo]"

definition front_leds :: "led_id list" where
  "front_leds = [led_id_wan, led_id_traffic, led_id_tel, led_id_tv, led_id_wifi, led_id_alarm]"

definition all_leds :: "led_id list" where
  "all_leds = front_leds @ [led_id_red, led_id_green, led_id_blue]"

definition led_states :: "led_state list" where
  "led_states = [led_state_unchanged, led_state_on, led_state_off, led_state_toggle, led_state_blinkonce,
     led_state_slowblinks, led_state_blinks]"

lemma in_all_leds [simp]: "i \<in> set all_leds"
  by (cases i) (simp_all add: all_leds_def front_leds_def)

lemma distinct_leds [simp]: "distinct all_leds" "distinct front_leds"
  by (simp_all add: all_leds_def front_leds_def)

section \<open>Pins\<close>

definition LED_ACTIVE_LOW :: u16 where "LED_ACTIVE_LOW = 0x8000"

definition active_low :: "u16 \<Rightarrow> bool" where
  "active_low info \<longleftrightarrow> info AND LED_ACTIVE_LOW \<noteq> 0"

definition LED_GPIO :: "u16 \<Rightarrow> nat" where
  "LED_GPIO info = unat (info AND NOT LED_ACTIVE_LOW)"

definition LED_ON :: "u16 \<Rightarrow> bool" where "LED_ON info \<longleftrightarrow> \<not> active_low info"
definition LED_OFF :: "u16 \<Rightarrow> bool" where "LED_OFF info \<longleftrightarrow> active_low info"

text \<open>\<open>GPIO_CPU\<close> and \<open>GPIO_74HC164D\<close>\<close>

definition gpio_cpu :: "u16 \<Rightarrow> u16" where "gpio_cpu n = n"
definition gpio_74hc164d :: "u16 \<Rightarrow> u16" where "gpio_74hc164d n = 64 + n"

type_synonym led_map = "led_id \<Rightarrow> u16"

fun leds_maps_nb4_sercomm :: led_map where
  "leds_maps_nb4_sercomm led_id_wan = gpio_74hc164d 4 OR LED_ACTIVE_LOW"
| "leds_maps_nb4_sercomm led_id_traffic = gpio_cpu 2 OR LED_ACTIVE_LOW"
| "leds_maps_nb4_sercomm led_id_tel = gpio_74hc164d 3 OR LED_ACTIVE_LOW"
| "leds_maps_nb4_sercomm led_id_tv = gpio_74hc164d 2 OR LED_ACTIVE_LOW"
| "leds_maps_nb4_sercomm led_id_wifi = gpio_cpu 15 OR LED_ACTIVE_LOW"
| "leds_maps_nb4_sercomm led_id_alarm = gpio_74hc164d 0 OR LED_ACTIVE_LOW"
| "leds_maps_nb4_sercomm led_id_red = gpio_cpu 29 OR LED_ACTIVE_LOW"
| "leds_maps_nb4_sercomm led_id_green = gpio_cpu 30 OR LED_ACTIVE_LOW"
| "leds_maps_nb4_sercomm led_id_blue = gpio_cpu 4 OR LED_ACTIVE_LOW"

fun leds_maps_nb4f_sercomm :: led_map where
  "leds_maps_nb4f_sercomm led_id_wan = gpio_cpu 1 OR LED_ACTIVE_LOW"
| "leds_maps_nb4f_sercomm led_id_traffic = gpio_cpu 2 OR LED_ACTIVE_LOW"
| "leds_maps_nb4f_sercomm led_id_tel = gpio_cpu 3 OR LED_ACTIVE_LOW"
| "leds_maps_nb4f_sercomm led_id_tv = gpio_cpu 5 OR LED_ACTIVE_LOW"
| "leds_maps_nb4f_sercomm led_id_wifi = gpio_cpu 15 OR LED_ACTIVE_LOW"
| "leds_maps_nb4f_sercomm led_id_alarm = gpio_cpu 8 OR LED_ACTIVE_LOW"
| "leds_maps_nb4f_sercomm led_id_red = gpio_cpu 29 OR LED_ACTIVE_LOW"
| "leds_maps_nb4f_sercomm led_id_green = gpio_cpu 30 OR LED_ACTIVE_LOW"
| "leds_maps_nb4f_sercomm led_id_blue = gpio_cpu 4 OR LED_ACTIVE_LOW"

fun leds_maps_nb4_foxconn :: led_map where
  "leds_maps_nb4_foxconn led_id_wan = gpio_74hc164d 4 OR LED_ACTIVE_LOW"
| "leds_maps_nb4_foxconn led_id_traffic = gpio_cpu 2"
| "leds_maps_nb4_foxconn led_id_tel = gpio_74hc164d 3 OR LED_ACTIVE_LOW"
| "leds_maps_nb4_foxconn led_id_tv = gpio_74hc164d 2 OR LED_ACTIVE_LOW"
| "leds_maps_nb4_foxconn led_id_wifi = gpio_cpu 15"
| "leds_maps_nb4_foxconn led_id_alarm = gpio_74hc164d 0 OR LED_ACTIVE_LOW"
| "leds_maps_nb4_foxconn led_id_red = gpio_cpu 29"
| "leds_maps_nb4_foxconn led_id_green = gpio_cpu 30"
| "leds_maps_nb4_foxconn led_id_blue = gpio_cpu 4"

section \<open>The shift register\<close>

text \<open>
  \<open>nx_out\<close> is what the eight outputs of the register show. On the rising edge of the clock it
  shifts the level of the data pin in.
\<close>

record nxp_74hc164_chip =
  nx_dirty :: bool
  nx_data :: u32
  nx_clk :: int
  nx_out :: u8

definition nxp_clock :: "bool \<Rightarrow> u8 \<Rightarrow> u8" where
  "nxp_clock b q = push_bit 1 q OR (if b then 1 else 0)"

fun nxp_shift :: "nat \<Rightarrow> u8 \<Rightarrow> u8 \<Rightarrow> u8" where
  "nxp_shift 0 dat q = q"
| "nxp_shift (Suc i) dat q = nxp_shift i (push_bit 1 dat) (nxp_clock (dat AND 0x80 \<noteq> 0) q)"

definition nxp_74hc164_serialize :: "nxp_74hc164_chip \<Rightarrow> nxp_74hc164_chip" where
  "nxp_74hc164_serialize c = (if nx_clk c < 0 then c else c\<lparr>nx_out := nxp_shift 8 (ucast (nx_data c)) (nx_out c)\<rparr>)"

definition nxp_74hc164_get_value :: "nat \<Rightarrow> nxp_74hc164_chip \<Rightarrow> bool" where
  "nxp_74hc164_get_value n c = bit (nx_data c) n"

definition nxp_74hc164_set_value :: "nat \<Rightarrow> bool \<Rightarrow> nxp_74hc164_chip \<Rightarrow> nxp_74hc164_chip" where
  "nxp_74hc164_set_value n val c =
     (let c' = c\<lparr>nx_data := (if val then set_bit n (nx_data c) else unset_bit n (nx_data c))\<rparr> in
      if bit (nx_data c) n \<noteq> val then c'\<lparr>nx_dirty := True\<rparr> else c')"

definition nxp_74hc164_flush :: "nxp_74hc164_chip \<Rightarrow> nxp_74hc164_chip" where
  "nxp_74hc164_flush c = (if nx_dirty c then nxp_74hc164_serialize (c\<lparr>nx_dirty := False\<rparr>) else c)"

section \<open>The board\<close>

record board =
  pins :: "nat \<Rightarrow> bool"
  chip :: nxp_74hc164_chip

text \<open>The pins from 64 on belong to the register.\<close>

definition gpio_get_value :: "nat \<Rightarrow> board \<Rightarrow> bool" where
  "gpio_get_value n b = (if 64 \<le> n \<and> n < 72 then nxp_74hc164_get_value (n - 64) (chip b) else pins b n)"

definition gpio_set_value :: "nat \<Rightarrow> bool \<Rightarrow> board \<Rightarrow> board" where
  "gpio_set_value n v b =
     (if 64 \<le> n \<and> n < 72 then b\<lparr>chip := nxp_74hc164_set_value (n - 64) v (chip b)\<rparr>
      else b\<lparr>pins := (pins b)(n := v)\<rparr>)"

definition flush :: "board \<Rightarrow> board" where
  "flush b = b\<lparr>chip := nxp_74hc164_flush (chip b)\<rparr>"

text \<open>Whether the LED emits light, by the level at its pin.\<close>

definition pin_level :: "nat \<Rightarrow> board \<Rightarrow> bool" where
  "pin_level n b = (if 64 \<le> n \<and> n < 72 then bit (nx_out (chip b)) (n - 64) else pins b n)"

definition led_lit :: "led_map \<Rightarrow> led_id \<Rightarrow> board \<Rightarrow> bool" where
  "led_lit m i b \<longleftrightarrow> (pin_level (LED_GPIO (m i)) b \<noteq> active_low (m i))"

definition led_off :: "led_map \<Rightarrow> led_id \<Rightarrow> board \<Rightarrow> board" where
  "led_off m i b = gpio_set_value (LED_GPIO (m i)) (LED_OFF (m i)) b"

definition led_on :: "led_map \<Rightarrow> led_id \<Rightarrow> board \<Rightarrow> board" where
  "led_on m i b = gpio_set_value (LED_GPIO (m i)) (LED_ON (m i)) b"

text \<open>The value returned is true when the LED is now off.\<close>

definition led_toggle :: "led_map \<Rightarrow> led_id \<Rightarrow> board \<Rightarrow> bool \<times> board" where
  "led_toggle m i b =
     (let v = \<not> gpio_get_value (LED_GPIO (m i)) b in
      (if active_low (m i) then v else \<not> v, gpio_set_value (LED_GPIO (m i)) v b))"

definition leds_off :: "led_map \<Rightarrow> led_id list \<Rightarrow> board \<Rightarrow> board" where
  "leds_off m ids b = fold (led_off m) ids b"

definition leds_on :: "led_map \<Rightarrow> led_id list \<Rightarrow> board \<Rightarrow> board" where
  "leds_on m ids b = fold (led_on m) ids b"

end
