(* ===== verification/Leds_Driver.thy ===== *)
theory Leds_Driver
  imports Leds
begin

text \<open>
  The LED driver \<open>leds-neufbox.c\<close>: the timer function with the processing of each mode, the
  change of mode, the commands and the control interface. Commands arrive while the timer function
  runs; where it matters the timer function has them as arguments, at the two points between
  the atomic operations on a command register.
\<close>

datatype led_process = P_disable | P_control | P_downloading | P_burning | P_panic | P_demo

datatype timer_delay = Eighth_second | One_second

record leds_device =
  led_timer :: timer_delay
  counter :: u32
  led_mode_reg :: led_mode
  fn_process :: "led_process option"
  command :: "led_id \<Rightarrow> led_state"
  state_reg :: "led_id \<Rightarrow> led_state"
  panel :: board

definition atomic_cmpxchg :: "'a \<Rightarrow> 'a \<Rightarrow> 'a \<Rightarrow> 'a" where
  "atomic_cmpxchg old new cur = (if cur = old then new else cur)"

section \<open>Processing in the modes\<close>

text \<open>
  One LED in control mode. \<open>a1\<close> is a command that arrives between the read of the register and its
  reset, \<open>a2\<close> one between the reset and the last exchange. \<open>blink\<close> is the variable
  \<open>blink_state\<close>, \<open>None\<close> for -1.
\<close>

type_synonym arrivals = "led_id \<Rightarrow> led_state option \<times> led_state option"

definition arrive :: "led_state option \<Rightarrow> led_state \<Rightarrow> led_state" where
  "arrive a cur = (case a of None \<Rightarrow> cur | Some s \<Rightarrow> s)"

definition control_panel :: "led_map \<Rightarrow> u32 \<Rightarrow> led_id \<Rightarrow> led_state \<Rightarrow> bool option \<times> board \<Rightarrow> bool option \<times> board" where
  "control_panel m cnt i st bb =
     (case bb of (blink, b) \<Rightarrow>
      (case st of
         led_state_unchanged \<Rightarrow> (blink, b)
       | led_state_on \<Rightarrow> (blink, led_on m i b)
       | led_state_off \<Rightarrow> (blink, led_off m i b)
       | led_state_toggle \<Rightarrow> (blink, snd (led_toggle m i b))
       | led_state_blinkonce \<Rightarrow> (blink, snd (led_toggle m i b))
       | led_state_slowblinks \<Rightarrow> (blink, if cnt mod 8 = 0 then snd (led_toggle m i b) else b)
       | led_state_blinks \<Rightarrow>
           (case blink of
              None \<Rightarrow> (let (off, b) = led_toggle m i b in (Some off, b))
            | Some off \<Rightarrow> (blink, if off then led_off m i b else led_on m i b))))"

text \<open>The command that the LED state leaves behind when no other arrived.\<close>

definition follow_up :: "led_state \<Rightarrow> led_state \<Rightarrow> led_state" where
  "follow_up st cur =
     (case st of
        led_state_blinkonce \<Rightarrow> atomic_cmpxchg led_state_unchanged led_state_toggle cur
      | led_state_slowblinks \<Rightarrow> atomic_cmpxchg led_state_unchanged led_state_slowblinks cur
      | led_state_blinks \<Rightarrow> atomic_cmpxchg led_state_unchanged led_state_blinks cur
      | _ \<Rightarrow> cur)"

definition control_led :: "led_map \<Rightarrow> arrivals \<Rightarrow> led_id \<Rightarrow> bool option \<times> leds_device \<Rightarrow> bool option \<times> leds_device" where
  "control_led m arr i bd =
     (case bd of (blink, dev) \<Rightarrow>
      let st = command dev i;
          (a1, a2) = arr i;
          cmd = arrive a2 (atomic_cmpxchg st led_state_unchanged (arrive a1 st));
          (blink, b) = control_panel m (counter dev) i st (blink, panel dev)
      in (blink, dev\<lparr>command := (command dev)(i := follow_up st cmd),
                     state_reg := (if st = led_state_unchanged then state_reg dev else (state_reg dev)(i := st)),
                     panel := b\<rparr>))"

definition leds_process_control :: "led_map \<Rightarrow> arrivals \<Rightarrow> leds_device \<Rightarrow> leds_device" where
  "leds_process_control m arr dev =
     (let dev = snd (fold (control_led m arr) all_leds (None, dev)) in dev\<lparr>panel := flush (panel dev)\<rparr>)"

definition k2000_led :: "u32 \<Rightarrow> led_id" where
  "k2000_led c = [led_id_wan, led_id_traffic, led_id_tel, led_id_tv, led_id_wifi, led_id_alarm, led_id_wifi,
     led_id_tv, led_id_tel, led_id_traffic] ! unat (c mod 10)"

definition leds_process_k2000 :: "led_map \<Rightarrow> leds_device \<Rightarrow> leds_device" where
  "leds_process_k2000 m dev =
     dev\<lparr>panel := flush (led_on m (k2000_led (counter dev)) (leds_off m front_leds (panel dev))), led_timer := One_second\<rparr>"

definition leds_process_downloading :: "led_map \<Rightarrow> leds_device \<Rightarrow> leds_device" where
  "leds_process_downloading m dev =
     (let dev = leds_process_k2000 m dev
      in dev\<lparr>panel := led_off m led_id_blue (led_on m led_id_green (led_on m led_id_red (panel dev)))\<rparr>)"

definition leds_process_burning :: "led_map \<Rightarrow> leds_device \<Rightarrow> leds_device" where
  "leds_process_burning m dev =
     (let dev = leds_process_k2000 m dev
      in dev\<lparr>panel := led_off m led_id_blue (led_off m led_id_green (led_on m led_id_red (panel dev)))\<rparr>)"

definition leds_process_panic :: "led_map \<Rightarrow> leds_device \<Rightarrow> leds_device" where
  "leds_process_panic m dev =
     dev\<lparr>panel := flush ((if counter dev AND 1 \<noteq> 0 then leds_on m all_leds else leds_off m all_leds) (panel dev))\<rparr>"

definition demo_color :: "led_map \<Rightarrow> u32 \<Rightarrow> board \<Rightarrow> board" where
  "demo_color m n b =
     (if n = 0 then led_off m led_id_blue (led_off m led_id_green (led_on m led_id_red b))
      else if n = 1 then led_off m led_id_blue (led_on m led_id_green (led_off m led_id_red b))
      else led_on m led_id_blue (led_off m led_id_green (led_off m led_id_red b)))"

definition demo_pair :: "u32 \<Rightarrow> led_id \<times> led_id" where
  "demo_pair n =
     (if n = 0 \<or> n = 5 then (led_id_wan, led_id_alarm)
      else if n = 1 \<or> n = 4 then (led_id_traffic, led_id_wifi)
      else (led_id_tel, led_id_tv))"

definition leds_process_demo :: "led_map \<Rightarrow> leds_device \<Rightarrow> leds_device" where
  "leds_process_demo m dev =
     (let c = counter dev; b = leds_off m front_leds (panel dev);
          b = (if c mod 6 \<noteq> 0 then demo_color m (c div 6 mod 3) b else b);
          (x, y) = demo_pair (c mod 6)
      in dev\<lparr>panel := flush (led_on m y (led_on m x b))\<rparr>)"

fun run_process :: "led_map \<Rightarrow> arrivals \<Rightarrow> led_process \<Rightarrow> leds_device \<Rightarrow> leds_device" where
  "run_process m arr P_disable dev = dev"
| "run_process m arr P_control dev = leds_process_control m arr dev"
| "run_process m arr P_downloading dev = leds_process_downloading m dev"
| "run_process m arr P_burning dev = leds_process_burning m dev"
| "run_process m arr P_panic dev = leds_process_panic m dev"
| "run_process m arr P_demo dev = leds_process_demo m dev"

text \<open>The timer function; \<open>None\<close> is a call through a null pointer.\<close>

definition leds_timer_function :: "led_map \<Rightarrow> arrivals \<Rightarrow> leds_device \<Rightarrow> leds_device option" where
  "leds_timer_function m arr dev =
     (case fn_process dev of
        None \<Rightarrow> None
      | Some p \<Rightarrow>
          let dev = run_process m arr p (dev\<lparr>led_timer := Eighth_second\<rparr>)
          in Some (dev\<lparr>counter := counter dev + 1\<rparr>))"

section \<open>Modes and commands\<close>

fun mode_process :: "led_mode \<Rightarrow> led_process" where
  "mode_process led_mode_disable = P_disable"
| "mode_process led_mode_control = P_control"
| "mode_process led_mode_downloading = P_downloading"
| "mode_process led_mode_burning = P_burning"
| "mode_process led_mode_panic = P_panic"
| "mode_process led_mode_demo = P_demo"

definition mode_number :: "led_mode \<Rightarrow> int" where
  "mode_number md = (case md of led_mode_disable \<Rightarrow> 0 | led_mode_control \<Rightarrow> 1 | led_mode_downloading \<Rightarrow> 2
     | led_mode_burning \<Rightarrow> 3 | led_mode_panic \<Rightarrow> 4 | led_mode_demo \<Rightarrow> 5)"

definition restore_commands :: "leds_device \<Rightarrow> leds_device" where
  "restore_commands dev =
     dev\<lparr>command := (\<lambda>i. atomic_cmpxchg led_state_unchanged (state_reg dev i) (command dev i))\<rparr>"

definition leds_set_mode :: "led_map \<Rightarrow> u32 \<Rightarrow> leds_device \<Rightarrow> int \<times> leds_device" where
  "leds_set_mode m new dev =
     (let prev = mode_number (led_mode_reg dev) in
      if uint new = prev then (prev, dev)
      else case enum_value led_modes new of
             None \<Rightarrow> (-1, dev)
           | Some md \<Rightarrow>
               let dev = dev\<lparr>fn_process := Some (mode_process md), led_mode_reg := md\<rparr> in
               if md = led_mode_control then (prev, restore_commands dev)
               else (prev, dev\<lparr>panel := flush (leds_off m all_leds (panel dev))\<rparr>))"

definition leds_control :: "u32 \<Rightarrow> u32 \<Rightarrow> leds_device \<Rightarrow> int \<times> leds_device" where
  "leds_control i st dev =
     (case (enum_value all_leds i, enum_value led_states st) of
        (Some i, Some st) \<Rightarrow> (0, dev\<lparr>command := (command dev)(i := st)\<rparr>)
      | _ \<Rightarrow> (-1, dev))"

section \<open>The control interface\<close>

record leds_ioctl_struct =
  io_mode :: u32
  io_id :: u32
  io_state :: u32

datatype leds_cmd = LED_IOCTL_SET_MODE | LED_IOCTL_GET_MODE | LED_IOCTL_SET_LED | LED_IOCTL_GET_LED | Other_ioctl

definition state_number :: "led_state \<Rightarrow> u32" where
  "state_number st = (case st of led_state_unchanged \<Rightarrow> 0 | led_state_on \<Rightarrow> 1 | led_state_off \<Rightarrow> 2
     | led_state_toggle \<Rightarrow> 3 | led_state_blinkonce \<Rightarrow> 4 | led_state_slowblinks \<Rightarrow> 5 | led_state_blinks \<Rightarrow> 6)"

text \<open>
  The result of \<open>leds_set_mode\<close> goes through a variable of the enumeration type, which is unsigned,
  so the test for a negative result never succeeds. \<open>stack\<close> is the uninitialised structure on the
  stack. The result, the structure given back, and the device.
\<close>

definition leds_compat_ioctl ::
  "led_map \<Rightarrow> leds_ioctl_struct \<Rightarrow> leds_cmd \<Rightarrow> leds_ioctl_struct \<Rightarrow> leds_device \<Rightarrow> int \<times> leds_ioctl_struct \<times> leds_device" where
  "leds_compat_ioctl m stack cmd arg dev =
     (case cmd of
        LED_IOCTL_SET_MODE \<Rightarrow>
          let (r, dev) = leds_set_mode m (io_mode arg) dev; md = (word_of_int r :: u32)
          in if uint md < 0 then (- EINVAL, arg, dev) else (0, arg\<lparr>io_mode := md\<rparr>, dev)
      | LED_IOCTL_GET_MODE \<Rightarrow> (0, stack\<lparr>io_mode := word_of_int (mode_number (led_mode_reg dev))\<rparr>, dev)
      | LED_IOCTL_SET_LED \<Rightarrow>
          let (r, dev) = leds_control (io_id arg) (io_state arg) dev
          in if r < 0 then (- EINVAL, arg, dev) else (0, arg, dev)
      | LED_IOCTL_GET_LED \<Rightarrow>
          (case enum_value all_leds (io_id arg) of
             None \<Rightarrow> (- EINVAL, arg, dev)
           | Some i \<Rightarrow>
               let st = (if led_mode_reg dev = led_mode_disable
                         then (if command dev i = led_state_unchanged then state_reg dev i else command dev i)
                         else state_reg dev i)
               in (0, arg\<lparr>io_state := state_number st\<rparr>, dev))
      | Other_ioctl \<Rightarrow> (- ENOTTY, arg, dev))"

section \<open>Start and stop\<close>

definition zero_device :: "board \<Rightarrow> leds_device" where
  "zero_device b = \<lparr>led_timer = Eighth_second, counter = 0, led_mode_reg = led_mode_disable, fn_process = None,
     command = (\<lambda>_. led_state_unchanged), state_reg = (\<lambda>_. led_state_unchanged), panel = b\<rparr>"

definition request_leds :: "led_map \<Rightarrow> board \<Rightarrow> board" where
  "request_leds m b = fold (\<lambda>i. gpio_set_value (LED_GPIO (m i)) False) all_leds b"

definition service_color :: "led_map \<Rightarrow> bool \<Rightarrow> leds_device \<Rightarrow> leds_device" where
  "service_color m main dev =
     (let rg = (if main then led_on m else led_off m); bl = (if main then led_off m else led_on m);
          rg_state = (if main then led_state_on else led_state_off); bl_state = (if main then led_state_off else led_state_on)
      in dev\<lparr>panel := bl led_id_blue (rg led_id_green (rg led_id_red (panel dev))),
             command := (command dev)(led_id_red := rg_state, led_id_green := rg_state, led_id_blue := bl_state)\<rparr>)"

definition leds_init :: "led_map \<Rightarrow> bool \<Rightarrow> board \<Rightarrow> leds_device" where
  "leds_init m main b =
     (let dev = (zero_device (request_leds m b))\<lparr>state_reg := (\<lambda>_. led_state_off)\<rparr>;
          dev = snd (leds_set_mode m 1 dev);
          dev = service_color m main dev
      in dev\<lparr>panel := flush (panel dev)\<rparr>)"

text \<open>\<open>leds_exit\<close> computes the pin from the number of the LED, not from its map.\<close>

definition leds_exit :: "led_map \<Rightarrow> leds_device \<Rightarrow> board" where
  "leds_exit m dev =
     fold (\<lambda>n. gpio_set_value (LED_GPIO (of_nat n)) False) [0..<length all_leds] (panel (snd (leds_set_mode m 0 dev)))"

definition leds_panic_blink :: "led_map \<Rightarrow> int \<Rightarrow> bool \<Rightarrow> board \<Rightarrow> bool \<times> board" where
  "leds_panic_blink m time on b =
     (if time mod 256 = 0
      then (\<not> on, flush ((if \<not> on then leds_on m all_leds else leds_off m all_leds) b))
      else (on, b))"

end
