(* ===== verification/Leds_Panel.thy ===== *)
theory Leds_Panel
  imports Leds_Driver
begin

text \<open>
  What the panel shows: the shift register displays what was set once it is flushed, on a map
  with distinct pins an operation on one LED leaves the others alone, and the effect of the
  timer function on each LED.
\<close>

section \<open>The register\<close>

lemma bit_nxp_shift:
  "k \<le> 8 \<Longrightarrow> bit (nxp_shift k dat q) n \<longleftrightarrow> n < 8 \<and> (if n < k then bit dat (8 - k + n) else bit q (n - k))"
proof (induction k arbitrary: dat q)
  case 0 then show ?case by (auto dest: bit_imp_le_length)
next
  case (Suc k)
  have msb: "dat AND 0x80 \<noteq> 0 \<longleftrightarrow> bit dat 7"
  proof -
    have e: "(0x80 :: u8) = push_bit 7 1" by simp
    have "bit (0x80 :: u8) j \<longleftrightarrow> j = 7" for j unfolding e bit_push_bit_iff possible_bit_word bit_1_iff by auto
    then have b: "bit (dat AND 0x80) j \<longleftrightarrow> bit dat j \<and> j = 7" for j by (simp only: bit_and_iff)
    show ?thesis
    proof
      assume "bit dat 7" then show "dat AND 0x80 \<noteq> 0" using b [of 7] by (metis bit_0_eq bot_apply bot_bool_def)
    next
      assume n: "dat AND 0x80 \<noteq> 0"
      show "bit dat 7"
      proof (rule ccontr)
        assume "\<not> bit dat 7"
        then have "dat AND 0x80 = 0" by (intro bit_eqI) (auto simp only: b bit_0_eq bot_apply bot_bool_def)
        with n show False ..
      qed
    qed
  qed
  have pb: "bit (push_bit 1 x) j \<longleftrightarrow> 1 \<le> j \<and> j < 8 \<and> bit x (j - 1)" for x :: u8 and j
    unfolding bit_push_bit_iff possible_bit_word by auto
  have cb: "bit (nxp_clock v q) j \<longleftrightarrow> (if j = 0 then v else j < 8 \<and> bit q (j - 1))" for v j
    unfolding nxp_clock_def bit_or_iff pb by (auto simp: bit_1_iff)
  have "bit (nxp_shift (Suc k) dat q) n \<longleftrightarrow>
      n < 8 \<and> (if n < k then bit (push_bit 1 dat) (8 - k + n) else bit (nxp_clock (bit dat 7) q) (n - k))"
    using Suc by (simp add: msb)
  also have "\<dots> \<longleftrightarrow> n < 8 \<and> (if n < Suc k then bit dat (8 - Suc k + n) else bit q (n - Suc k))"
  proof (cases "n < k")
    case True
    then show ?thesis using Suc.prems unfolding pb by auto
  next
    case False
    then show ?thesis using Suc.prems unfolding cb by (cases "n = k") auto
  qed
  finally show ?case .
qed

lemma nxp_shift_8: "nxp_shift 8 dat q = dat"
  by (rule bit_word_eqI) (simp add: bit_nxp_shift)

text \<open>The register shows what was set, unless it waits for a flush.\<close>

definition chip_ok :: "nxp_74hc164_chip \<Rightarrow> bool" where
  "chip_ok c \<longleftrightarrow> 0 \<le> nx_clk c \<and> (\<not> nx_dirty c \<longrightarrow> nx_out c = ucast (nx_data c))"

lemma chip_ok_set: "chip_ok c \<Longrightarrow> n < 8 \<Longrightarrow> chip_ok (nxp_74hc164_set_value n v c)"
  by (auto simp: chip_ok_def nxp_74hc164_set_value_def Let_def bit_eq_iff [where 'a = "8 word"] bit_simps)

lemma chip_ok_flush: "chip_ok c \<Longrightarrow> chip_ok (nxp_74hc164_flush c) \<and> \<not> nx_dirty (nxp_74hc164_flush c)"
  by (simp add: chip_ok_def nxp_74hc164_flush_def nxp_74hc164_serialize_def nxp_shift_8)

section \<open>One LED at a time\<close>

text \<open>What the driver last set for an LED.\<close>

definition driven :: "led_map \<Rightarrow> led_id \<Rightarrow> board \<Rightarrow> bool" where
  "driven m i b \<longleftrightarrow> (gpio_get_value (LED_GPIO (m i)) b \<noteq> active_low (m i))"

definition map_ok :: "led_map \<Rightarrow> bool" where
  "map_ok m \<longleftrightarrow> distinct (map (\<lambda>i. LED_GPIO (m i)) all_leds)"

lemma neufbox_maps_ok: "map_ok leds_maps_nb4_sercomm" "map_ok leds_maps_nb4f_sercomm" "map_ok leds_maps_nb4_foxconn"
  by (simp_all add: map_ok_def all_leds_def front_leds_def LED_GPIO_def gpio_cpu_def gpio_74hc164d_def LED_ACTIVE_LOW_def)

lemma map_ok_inj: "map_ok m \<Longrightarrow> LED_GPIO (m i) = LED_GPIO (m j) \<longleftrightarrow> i = j"
  using in_all_leds by (auto simp: map_ok_def distinct_map inj_on_def)

lemma get_set: "gpio_get_value n (gpio_set_value k v b) = (if n = k then v else gpio_get_value n b)"
  by (auto simp: gpio_get_value_def gpio_set_value_def nxp_74hc164_get_value_def nxp_74hc164_set_value_def Let_def
      bit_simps)

lemma driven_on [simp]: "map_ok m \<Longrightarrow> driven m i (led_on m j b) = (if i = j then True else driven m i b)"
  by (auto simp: driven_def led_on_def get_set LED_ON_def map_ok_inj)

lemma driven_off [simp]: "map_ok m \<Longrightarrow> driven m i (led_off m j b) = (if i = j then False else driven m i b)"
  by (auto simp: driven_def led_off_def get_set LED_OFF_def map_ok_inj)

lemma driven_toggle [simp]:
  "map_ok m \<Longrightarrow> driven m i (snd (led_toggle m j b)) = (if i = j then \<not> driven m i b else driven m i b)"
  by (auto simp: driven_def led_toggle_def get_set Let_def map_ok_inj)

lemma fst_toggle [simp]: "fst (led_toggle m i b) = driven m i b"
  by (auto simp: driven_def led_toggle_def Let_def)

lemma driven_flush [simp]: "driven m i (flush b) = driven m i b"
  by (simp add: driven_def flush_def gpio_get_value_def nxp_74hc164_get_value_def nxp_74hc164_flush_def
      nxp_74hc164_serialize_def)

lemma chip_gpio: "chip_ok (chip b) \<Longrightarrow> chip_ok (chip (gpio_set_value n v b))"
  by (auto simp: gpio_set_value_def intro: chip_ok_set)

lemma chip_leds [simp]:
  assumes "chip_ok (chip b)"
  shows "chip_ok (chip (led_on m i b))" "chip_ok (chip (led_off m i b))" "chip_ok (chip (snd (led_toggle m i b)))"
    "chip_ok (chip (flush b))"
  using assms chip_ok_flush by (auto simp: led_on_def led_off_def led_toggle_def Let_def flush_def intro: chip_gpio)

lemma driven_leds_off: "map_ok m \<Longrightarrow> driven m i (leds_off m ids b) = (if i \<in> set ids then False else driven m i b)"
  unfolding leds_off_def by (induction ids arbitrary: b) auto

lemma driven_leds_on: "map_ok m \<Longrightarrow> driven m i (leds_on m ids b) = (if i \<in> set ids then True else driven m i b)"
  unfolding leds_on_def by (induction ids arbitrary: b) auto

lemma chip_leds_off [simp]: "chip_ok (chip b) \<Longrightarrow> chip_ok (chip (leds_off m ids b))"
  unfolding leds_off_def by (induction ids arbitrary: b) auto

lemma chip_leds_on [simp]: "chip_ok (chip b) \<Longrightarrow> chip_ok (chip (leds_on m ids b))"
  unfolding leds_on_def by (induction ids arbitrary: b) auto

text \<open>After a flush the light is what was set.\<close>

lemma lit_flush: "chip_ok (chip b) \<Longrightarrow> led_lit m i (flush b) = driven m i b"
  using chip_ok_flush [of "chip b"]
  by (auto simp: led_lit_def driven_def pin_level_def gpio_get_value_def nxp_74hc164_get_value_def flush_def chip_ok_def
      bit_simps nxp_74hc164_flush_def nxp_74hc164_serialize_def split: if_splits)

section \<open>The timer function in control mode\<close>

definition shown :: "led_state \<Rightarrow> u32 \<Rightarrow> bool \<Rightarrow> bool" where
  "shown st cnt d =
     (case st of led_state_on \<Rightarrow> True | led_state_off \<Rightarrow> False | led_state_toggle \<Rightarrow> \<not> d | led_state_blinkonce \<Rightarrow> \<not> d
      | led_state_slowblinks \<Rightarrow> (if cnt mod 8 = 0 then \<not> d else d) | _ \<Rightarrow> d)"

definition next_command :: "arrivals \<Rightarrow> led_id \<Rightarrow> led_state \<Rightarrow> led_state" where
  "next_command arr i st =
     follow_up st (arrive (snd (arr i)) (atomic_cmpxchg st led_state_unchanged (arrive (fst (arr i)) st)))"

lemma control_panel_one:
  assumes m: "map_ok m" and r: "control_panel m cnt i st (bl, b) = (bl', b')"
  shows "j \<noteq> i \<Longrightarrow> driven m j b' = driven m j b"
    "st \<noteq> led_state_blinks \<Longrightarrow> driven m i b' = shown st cnt (driven m i b) \<and> bl' = bl"
    "st = led_state_blinks \<Longrightarrow> bl' = Some (\<not> driven m i b') \<and> (bl \<noteq> None \<longrightarrow> bl' = bl)"
    "chip_ok (chip b) \<Longrightarrow> chip_ok (chip b')"
proof -
  have "control_panel m cnt i st (bl, b) =
    (if st = led_state_blinks \<and> bl = None then Some (driven m i b) else bl,
     case st of led_state_unchanged \<Rightarrow> b | led_state_on \<Rightarrow> led_on m i b | led_state_off \<Rightarrow> led_off m i b
      | led_state_slowblinks \<Rightarrow> (if cnt mod 8 = 0 then snd (led_toggle m i b) else b)
      | led_state_blinks \<Rightarrow> (case bl of None \<Rightarrow> snd (led_toggle m i b) | Some off \<Rightarrow> if off then led_off m i b else led_on m i b)
      | _ \<Rightarrow> snd (led_toggle m i b))"
    by (cases st; cases bl) (simp_all add: control_panel_def case_prod_beta)
  with r have e: "b' = (case st of led_state_unchanged \<Rightarrow> b | led_state_on \<Rightarrow> led_on m i b | led_state_off \<Rightarrow> led_off m i b
      | led_state_slowblinks \<Rightarrow> (if cnt mod 8 = 0 then snd (led_toggle m i b) else b)
      | led_state_blinks \<Rightarrow> (case bl of None \<Rightarrow> snd (led_toggle m i b) | Some off \<Rightarrow> if off then led_off m i b else led_on m i b)
      | _ \<Rightarrow> snd (led_toggle m i b))"
    "bl' = (if st = led_state_blinks \<and> bl = None then Some (driven m i b) else bl)"
    by (simp_all only: prod.inject)
  show "j \<noteq> i \<Longrightarrow> driven m j b' = driven m j b" "chip_ok (chip b) \<Longrightarrow> chip_ok (chip b')"
    using m by (cases st; simp add: e split: option.split)+
  show "st \<noteq> led_state_blinks \<Longrightarrow> driven m i b' = shown st cnt (driven m i b) \<and> bl' = bl"
    using m by (cases st) (simp_all add: e shown_def)
  show "st = led_state_blinks \<Longrightarrow> bl' = Some (\<not> driven m i b') \<and> (bl \<noteq> None \<longrightarrow> bl' = bl)"
    using m by (simp add: e split: option.split)
qed

lemma control_led_one:
  assumes m: "map_ok m" and r: "control_led m arr i (bl, dev) = (bl', dev')"
  shows "command dev' = (command dev)(i := next_command arr i (command dev i))"
    "state_reg dev' = (if command dev i = led_state_unchanged then state_reg dev else (state_reg dev)(i := command dev i))"
    "counter dev' = counter dev" "led_mode_reg dev' = led_mode_reg dev" "fn_process dev' = fn_process dev"
    "control_panel m (counter dev) i (command dev i) (bl, panel dev) = (bl', panel dev')"
  using r by (auto simp: control_led_def next_command_def Let_def case_prod_beta)

text \<open>All LEDs of a list, one after the other.\<close>

lemma control_leds:
  assumes m: "map_ok m" and "distinct ids" and "fold (control_led m arr) ids (bl, dev) = (bl', dev')"
  shows "counter dev' = counter dev \<and> led_mode_reg dev' = led_mode_reg dev \<and> fn_process dev' = fn_process dev \<and>
    (chip_ok (chip (panel dev)) \<longrightarrow> chip_ok (chip (panel dev'))) \<and>
    (bl \<noteq> None \<longrightarrow> bl' = bl) \<and>
    (\<forall>i. (i \<notin> set ids \<longrightarrow> command dev' i = command dev i \<and> state_reg dev' i = state_reg dev i \<and>
            driven m i (panel dev') = driven m i (panel dev)) \<and>
         (i \<in> set ids \<longrightarrow> command dev' i = next_command arr i (command dev i) \<and>
            state_reg dev' i = (if command dev i = led_state_unchanged then state_reg dev i else command dev i) \<and>
            (if command dev i = led_state_blinks then bl' = Some (\<not> driven m i (panel dev'))
             else driven m i (panel dev') = shown (command dev i) (counter dev) (driven m i (panel dev)))))"
  using assms(2,3)
proof (induction ids arbitrary: bl dev)
  case (Cons j ids)
  obtain bl1 d1 where s: "control_led m arr j (bl, dev) = (bl1, d1)" by (cases "control_led m arr j (bl, dev)")
  note one = control_led_one [OF m s]
  note p = control_panel_one [OF m one(6)]
  have f: "fold (control_led m arr) ids (bl1, d1) = (bl', dev')" using Cons.prems(2) s by simp
  have IH: "counter dev' = counter d1 \<and> led_mode_reg dev' = led_mode_reg d1 \<and> fn_process dev' = fn_process d1 \<and>
    (chip_ok (chip (panel d1)) \<longrightarrow> chip_ok (chip (panel dev'))) \<and> (bl1 \<noteq> None \<longrightarrow> bl' = bl1)"
    and IHi: "\<And>i. (i \<notin> set ids \<longrightarrow> command dev' i = command d1 i \<and> state_reg dev' i = state_reg d1 i \<and>
            driven m i (panel dev') = driven m i (panel d1)) \<and>
         (i \<in> set ids \<longrightarrow> command dev' i = next_command arr i (command d1 i) \<and>
            state_reg dev' i = (if command d1 i = led_state_unchanged then state_reg d1 i else command d1 i) \<and>
            (if command d1 i = led_state_blinks then bl' = Some (\<not> driven m i (panel dev'))
             else driven m i (panel dev') = shown (command d1 i) (counter d1) (driven m i (panel d1))))"
    using Cons.IH [OF _ f] Cons.prems(1) by auto
  have bl: "bl \<noteq> None \<longrightarrow> bl' = bl" using IH p(2,3) by (cases "command dev j = led_state_blinks") auto
  have j: "j \<notin> set ids" using Cons.prems(1) by simp
  have "(i \<notin> set (j # ids) \<longrightarrow> command dev' i = command dev i \<and> state_reg dev' i = state_reg dev i \<and>
            driven m i (panel dev') = driven m i (panel dev)) \<and>
         (i \<in> set (j # ids) \<longrightarrow> command dev' i = next_command arr i (command dev i) \<and>
            state_reg dev' i = (if command dev i = led_state_unchanged then state_reg dev i else command dev i) \<and>
            (if command dev i = led_state_blinks then bl' = Some (\<not> driven m i (panel dev'))
             else driven m i (panel dev') = shown (command dev i) (counter dev) (driven m i (panel dev))))" for i
  proof (cases "i = j")
    case True
    then show ?thesis using IHi [of j] j one(1,2) p(2,3) IH by auto
  next
    case False
    then show ?thesis using IHi [of i] one(1-3) p(1) by simp
  qed
  then show ?case using IH one(3-5) p(4) bl by simp
qed simp

end
