(* ===== verification/Leds_Props.thy ===== *)
theory Leds_Props
  imports Leds_Panel
begin

text \<open>
  The properties of the LED driver: commands are shown and not lost, blinking LEDs blink
  together, the driver's callback fits its mode, a change of mode and back restores the panel, and
  where it does not.
\<close>

section \<open>Ticks of the timer\<close>

definition quiet :: arrivals where
  "quiet i = (None, None)"

text \<open>The timer function, \<open>n\<close> times, while no command arrives.\<close>

fun ticks :: "led_map \<Rightarrow> nat \<Rightarrow> leds_device \<Rightarrow> leds_device option" where
  "ticks m 0 dev = Some dev"
| "ticks m (Suc n) dev = (case leds_timer_function m quiet dev of None \<Rightarrow> None | Some d \<Rightarrow> ticks m n d)"

definition in_control :: "leds_device \<Rightarrow> bool" where
  "in_control dev \<longleftrightarrow> fn_process dev = Some P_control \<and> chip_ok (chip (panel dev))"

text \<open>One tick in control mode, for every LED.\<close>

lemma tick_control:
  assumes m: "map_ok m" and c: "in_control dev"
  obtains dev' where "leds_timer_function m arr dev = Some dev'" "in_control dev'" "led_mode_reg dev' = led_mode_reg dev"
    "\<And>i. command dev' i = next_command arr i (command dev i)"
    "\<And>i. state_reg dev' i = (if command dev i = led_state_unchanged then state_reg dev i else command dev i)"
    "\<And>i. led_lit m i (panel dev') = driven m i (panel dev')"
    "\<And>i. command dev i \<noteq> led_state_blinks \<Longrightarrow>
       driven m i (panel dev') = shown (command dev i) (counter dev) (driven m i (panel dev))"
    "\<And>i j. command dev i = led_state_blinks \<Longrightarrow> command dev j = led_state_blinks \<Longrightarrow>
       driven m i (panel dev') = driven m j (panel dev')"
proof -
  let ?d0 = "dev\<lparr>led_timer := Eighth_second\<rparr>"
  obtain bl d1 where f: "fold (control_led m arr) all_leds (None, ?d0) = (bl, d1)"
    by (cases "fold (control_led m arr) all_leds (None, ?d0)")
  note cl = control_leds [OF m distinct_leds(1) f]
  let ?d = "d1\<lparr>panel := flush (panel d1), counter := counter d1 + 1\<rparr>"
  have chip: "chip_ok (chip (panel d1))" using cl c by (simp add: in_control_def)
  show thesis
  proof (rule that [of ?d])
    show "leds_timer_function m arr dev = Some ?d"
      using c f by (simp add: leds_timer_function_def in_control_def leds_process_control_def Let_def)
    show "in_control ?d" using cl c chip by (simp add: in_control_def)
    show "led_mode_reg ?d = led_mode_reg dev" using cl by simp
    show "command ?d i = next_command arr i (command dev i)"
      "state_reg ?d i = (if command dev i = led_state_unchanged then state_reg dev i else command dev i)" for i
      using cl in_all_leds by simp_all
    show "led_lit m i (panel ?d) = driven m i (panel ?d)" for i using chip by (simp add: lit_flush)
    show "driven m i (panel ?d) = shown (command dev i) (counter dev) (driven m i (panel dev))"
      if "command dev i \<noteq> led_state_blinks" for i
      using cl in_all_leds that by simp
    show "driven m i (panel ?d) = driven m j (panel ?d)"
      if ij: "command dev i = led_state_blinks" "command dev j = led_state_blinks" for i j
    proof -
      have "bl = Some (\<not> driven m k (panel d1))" if "command dev k = led_state_blinks" for k
        using cl in_all_leds [of k] that by auto
      from this [OF ij(1)] this [OF ij(2)] show ?thesis by simp
    qed
  qed
qed

lemma next_command_quiet: "st \<noteq> led_state_blinkonce \<Longrightarrow> st \<noteq> led_state_slowblinks \<Longrightarrow> st \<noteq> led_state_blinks \<Longrightarrow>
  next_command quiet i st = led_state_unchanged"
  by (cases st) (simp_all add: next_command_def quiet_def arrive_def atomic_cmpxchg_def follow_up_def)

lemma tick_control_led:
  assumes m: "map_ok m" and c: "in_control dev" and st: "command dev i \<noteq> led_state_blinks"
  shows "\<exists>dev'. leds_timer_function m arr dev = Some dev' \<and> in_control dev' \<and> led_mode_reg dev' = led_mode_reg dev \<and>
    command dev' i = next_command arr i (command dev i) \<and>
    state_reg dev' i = (if command dev i = led_state_unchanged then state_reg dev i else command dev i) \<and>
    driven m i (panel dev') = shown (command dev i) (counter dev) (driven m i (panel dev)) \<and>
    led_lit m i (panel dev') = driven m i (panel dev')"
  by (rule tick_control [OF m c, of arr]) (use st in auto)

text \<open>An LED that no command concerns keeps its light.\<close>

lemma ticks_keep:
  assumes "map_ok m" "in_control dev" "command dev i = led_state_unchanged" "led_lit m i (panel dev) = driven m i (panel dev)"
  shows "\<exists>dev'. ticks m n dev = Some dev' \<and> in_control dev' \<and> led_mode_reg dev' = led_mode_reg dev \<and>
    command dev' i = led_state_unchanged \<and> state_reg dev' i = state_reg dev i \<and>
    led_lit m i (panel dev') = led_lit m i (panel dev) \<and> driven m i (panel dev') = driven m i (panel dev)"
  using assms(2-)
proof (induction n arbitrary: dev)
  case (Suc n)
  obtain d where d: "leds_timer_function m quiet dev = Some d" "in_control d" "led_mode_reg d = led_mode_reg dev"
    "command d i = led_state_unchanged" "state_reg d i = state_reg dev i"
    "led_lit m i (panel d) = driven m i (panel d)" "driven m i (panel d) = driven m i (panel dev)"
    using tick_control_led [OF assms(1) Suc.prems(1), of i quiet] Suc.prems(2) next_command_quiet [of led_state_unchanged i]
    by (auto simp: shown_def)
  then show ?case using Suc.IH [OF d(2,4,6)] Suc.prems(3) by auto
qed simp

section \<open>The driver from its start\<close>

definition leds_inv :: "leds_device \<Rightarrow> bool" where
  "leds_inv dev \<longleftrightarrow> fn_process dev = Some (mode_process (led_mode_reg dev)) \<and> chip_ok (chip (panel dev))"

lemma chip_request: "chip_ok (chip b) \<Longrightarrow> chip_ok (chip (request_leds m b))"
proof -
  have "chip_ok (chip b) \<Longrightarrow> chip_ok (chip (fold (\<lambda>i. gpio_set_value (LED_GPIO (m i)) False) ids b))" for ids b
    by (induction ids arbitrary: b) (simp_all add: chip_gpio)
  then show "chip_ok (chip b) \<Longrightarrow> chip_ok (chip (request_leds m b))" by (simp add: request_leds_def)
qed

lemma set_mode_control: "enum_value led_modes 1 = Some led_mode_control"
  by (simp add: enum_value_def led_modes_def)

lemma leds_init_ok:
  assumes "chip_ok (chip b)"
  shows "leds_inv (leds_init m main b)" "led_mode_reg (leds_init m main b) = led_mode_control"
  using assms
  by (simp_all add: leds_init_def service_color_def leds_set_mode_def set_mode_control mode_number_def zero_device_def
      restore_commands_def leds_inv_def chip_request Let_def)

lemma in_control_inv: "leds_inv dev \<Longrightarrow> led_mode_reg dev = led_mode_control \<Longrightarrow> in_control dev"
  by (simp add: leds_inv_def in_control_def)

lemma run_process_inv:
  assumes m: "map_ok m" and d: "chip_ok (chip (panel dev))"
  shows "fn_process (run_process m arr p dev) = fn_process dev \<and> led_mode_reg (run_process m arr p dev) = led_mode_reg dev \<and>
    chip_ok (chip (panel (run_process m arr p dev)))"
proof (cases p)
  case P_control
  obtain bl d1 where f: "fold (control_led m arr) all_leds (None, dev) = (bl, d1)"
    by (cases "fold (control_led m arr) all_leds (None, dev)")
  show ?thesis using control_leds [OF m distinct_leds(1) f] d P_control f by (simp add: leds_process_control_def Let_def)
qed (use d in \<open>simp_all add: leds_process_downloading_def leds_process_burning_def leds_process_panic_def
    leds_process_demo_def leds_process_k2000_def demo_color_def Let_def split: prod.split\<close>)

lemma leds_set_mode_inv: "leds_inv dev \<Longrightarrow> leds_inv (snd (leds_set_mode m n dev))"
  by (simp add: leds_set_mode_def leds_inv_def restore_commands_def Let_def split: option.split)

lemma leds_control_inv: "leds_inv dev \<Longrightarrow> leds_inv (snd (leds_control n st dev))"
  by (simp add: leds_control_def leds_inv_def split: option.split)

lemma leds_ioctl_inv: "leds_inv dev \<Longrightarrow> leds_inv (snd (snd (leds_compat_ioctl m stack cmd arg dev)))"
  using leds_set_mode_inv [of dev m "io_mode arg"] leds_control_inv [of dev "io_id arg" "io_state arg"]
  by (cases cmd) (auto simp: leds_compat_ioctl_def Let_def split: prod.splits option.splits)

lemma leds_tick_inv: "map_ok m \<Longrightarrow> leds_inv dev \<Longrightarrow> leds_timer_function m arr dev = Some dev' \<Longrightarrow> leds_inv dev'"
  using run_process_inv [of m "dev\<lparr>led_timer := Eighth_second\<rparr>" arr "mode_process (led_mode_reg dev)"]
  by (auto simp: leds_timer_function_def leds_inv_def Let_def)

text \<open>The states of the driver after its start: ticks, control calls and commands, in any order.\<close>

inductive leds_reach :: "led_map \<Rightarrow> bool \<Rightarrow> board \<Rightarrow> leds_device \<Rightarrow> bool" for m main b where
  init: "leds_reach m main b (leds_init m main b)"
| tick: "leds_reach m main b dev \<Longrightarrow> leds_timer_function m arr dev = Some dev' \<Longrightarrow> leds_reach m main b dev'"
| ioctl: "leds_reach m main b dev \<Longrightarrow> leds_reach m main b (snd (snd (leds_compat_ioctl m stack cmd arg dev)))"
| control: "leds_reach m main b dev \<Longrightarrow> leds_reach m main b (snd (leds_control n st dev))"

text \<open>
  C9. When the shift register holds at the start what the driver believes it holds (the probe of the chip
  does not write it, so this is a condition on the power-up), in every state the driver can reach, by ticks,
  control calls and commands in any order and with commands arriving at any point of the timer function, the callback is the one of the mode,
  the timer function does not call through a null pointer, and the shift register shows what was
  set unless it is marked for a flush.
\<close>

theorem leds_callback_invariant:
  assumes "map_ok m" "chip_ok (chip b)" "leds_reach m main b dev"
  shows "fn_process dev = Some (mode_process (led_mode_reg dev)) \<and> chip_ok (chip (panel dev)) \<and>
    leds_timer_function m arr dev \<noteq> None"
proof -
  have "leds_inv dev" using assms(3)
    by (induction rule: leds_reach.induct)
      (simp_all add: leds_init_ok(1) assms(2) leds_ioctl_inv leds_control_inv leds_tick_inv [OF assms(1)])
  then show ?thesis by (simp add: leds_inv_def leds_timer_function_def Let_def)
qed

definition dark_board :: board where
  "dark_board = \<lparr>pins = (\<lambda>_. False), chip = \<lparr>nx_dirty = False, nx_data = 0, nx_clk = 6, nx_out = 0\<rparr>\<rparr>"

definition started :: leds_device where
  "started = leds_init leds_maps_nb4_foxconn True dark_board"

lemma dark_board_ok: "chip_ok (chip dark_board)"
  by (simp add: dark_board_def chip_ok_def)

lemma started_control: "in_control started"
  unfolding started_def by (intro in_control_inv leds_init_ok dark_board_ok)

theorem leds_callback_invariant_witness:
  "fn_process started = Some (mode_process (led_mode_reg started)) \<and> chip_ok (chip (panel started)) \<and>
    leds_timer_function leds_maps_nb4_foxconn quiet started \<noteq> None"
  by (rule leds_callback_invariant [of _ dark_board True])
    (simp_all add: neufbox_maps_ok dark_board_ok started_def leds_reach.init)

section \<open>Commands\<close>

text \<open>
  C23. Commands are shown: on a board whose LEDs have distinct pins (all three boards do), in control
  mode, the command to switch an LED on or off shows at its pin, through the shift register where
  there is one, from the next tick of the timer on and for as long as no other command comes.
\<close>

theorem leds_command_shown:
  assumes "map_ok m" "in_control dev" "enum_value all_leds n = Some i" "st = 1 \<or> st = 2"
  shows "fst (leds_control n st dev) = 0 \<and>
    (\<exists>dev'. ticks m (Suc k) (snd (leds_control n st dev)) = Some dev' \<and> led_lit m i (panel dev') = (st = 1))"
proof -
  let ?s = "if st = 1 then led_state_on else led_state_off" and ?d = "snd (leds_control n st dev)"
  have e: "enum_value led_states st = Some ?s" using assms(4) by (auto simp: enum_value_def led_states_def)
  have c: "fst (leds_control n st dev) = 0" "?d = dev\<lparr>command := (command dev)(i := ?s)\<rparr>"
    using assms(3) e by (simp_all add: leds_control_def)
  have ctl: "in_control ?d" using assms(2) by (simp add: c in_control_def)
  have cmd: "command ?d i = ?s" by (simp add: c)
  have s: "?s \<noteq> led_state_blinks" "next_command quiet i ?s = led_state_unchanged" "shown ?s c x = (st = 1)" for c x
    using next_command_quiet [of ?s i] by (simp_all add: shown_def)
  obtain d where d: "leds_timer_function m quiet ?d = Some d" "in_control d" "command d i = led_state_unchanged"
    "driven m i (panel d) = (st = 1)" "led_lit m i (panel d) = driven m i (panel d)"
    using tick_control_led [OF assms(1) ctl, of i quiet] s unfolding cmd by auto
  then show ?thesis using ticks_keep [OF assms(1) d(2,3,5), of k] c(1) by auto
qed

theorem leds_command_shown_witness:
  "fst (leds_control 4 1 started) = 0 \<and>
    (\<exists>dev'. ticks leds_maps_nb4_foxconn (Suc 2) (snd (leds_control 4 1 started)) = Some dev' \<and>
      led_lit leds_maps_nb4_foxconn led_id_wifi (panel dev') = ((1 :: u32) = 1))"
  by (rule leds_command_shown)
    (simp_all add: neufbox_maps_ok started_control enum_value_def all_leds_def front_leds_def)

text \<open>
  C32. No command is lost: a command that arrives while the timer function is at the LED it
  concerns is in the register afterwards, for the next tick, also when the LED blinks; unless it
  arrives just before the register is reset and repeats the command that is being executed.
\<close>

theorem leds_no_lost_command:
  assumes "map_ok m" "in_control dev" "leds_timer_function m arr dev = Some dev'" "s \<noteq> led_state_unchanged"
    and "snd (arr i) = Some s \<or> snd (arr i) = None \<and> fst (arr i) = Some s \<and> s \<noteq> command dev i"
  shows "command dev' i = s"
proof -
  obtain d where "leds_timer_function m arr dev = Some d" "command d i = next_command arr i (command dev i)"
    using tick_control [OF assms(1,2), of arr] by metis
  moreover have "next_command arr i st = s" if "snd (arr i) = Some s \<or> snd (arr i) = None \<and> fst (arr i) = Some s \<and> s \<noteq> st" for st
    using that assms(4) by (auto simp: next_command_def arrive_def atomic_cmpxchg_def follow_up_def split: led_state.splits)
  ultimately show ?thesis using assms(3,5) by simp
qed

theorem leds_no_lost_command_witness:
  "\<exists>dev'. leds_timer_function leds_maps_nb4_foxconn (\<lambda>_. (None, Some led_state_blinks)) started = Some dev' \<and>
     command dev' led_id_red = led_state_blinks"
proof (rule tick_control [OF neufbox_maps_ok(3) started_control, of "\<lambda>_. (None, Some led_state_blinks)"], goal_cases)
  case (1 d)
  have "command d led_id_red = led_state_blinks"
    by (rule leds_no_lost_command [OF neufbox_maps_ok(3) started_control 1(1)]) simp_all
  then show ?case using 1(1) by blast
qed

text \<open>
  Blinking LEDs blink together: all LEDs with the command to blink show the same after every
  tick, whatever they showed before.
\<close>

theorem leds_blink_together:
  assumes "map_ok m" "in_control dev" "leds_timer_function m arr dev = Some dev'"
    and "command dev i = led_state_blinks" "command dev j = led_state_blinks"
  shows "led_lit m i (panel dev') = led_lit m j (panel dev')"
proof (rule tick_control [OF assms(1,2), of arr], goal_cases)
  case (1 d)
  then have "d = dev'" using assms(3) by simp
  then show ?case using 1(6) 1(8) [OF assms(4,5)] by simp
qed

theorem leds_blink_together_witness:
  "\<exists>dev'. leds_timer_function leds_maps_nb4_foxconn quiet (started\<lparr>command := (\<lambda>_. led_state_blinks)\<rparr>) = Some dev' \<and>
     led_lit leds_maps_nb4_foxconn led_id_red (panel dev') = led_lit leds_maps_nb4_foxconn led_id_tv (panel dev')"
proof -
  let ?d = "started\<lparr>command := (\<lambda>_. led_state_blinks)\<rparr>"
  have c: "in_control ?d" using started_control by (simp add: in_control_def)
  show ?thesis
  proof (rule tick_control [OF neufbox_maps_ok(3) c, of quiet], goal_cases)
    case (1 d)
    have "led_lit leds_maps_nb4_foxconn led_id_red (panel d) = led_lit leds_maps_nb4_foxconn led_id_tv (panel d)"
      by (rule leds_blink_together [OF neufbox_maps_ok(3) c 1(1)]) simp_all
    then show ?case using 1(1) by blast
  qed
qed

section \<open>Changes of mode\<close>

lemma run_other:
  assumes "p \<noteq> P_control"
  shows "command (run_process m arr p dev) = command dev \<and> state_reg (run_process m arr p dev) = state_reg dev"
  using assms
  by (cases p) (simp_all add: leds_process_downloading_def leds_process_burning_def leds_process_panic_def
      leds_process_demo_def leds_process_k2000_def Let_def split: prod.split)

lemma ticks_other:
  assumes "map_ok m" "leds_inv dev" "led_mode_reg dev \<noteq> led_mode_control"
  shows "\<exists>dev'. ticks m n dev = Some dev' \<and> leds_inv dev' \<and> led_mode_reg dev' = led_mode_reg dev \<and>
    command dev' = command dev \<and> state_reg dev' = state_reg dev"
  using assms(2,3)
proof (induction n arbitrary: dev)
  case (Suc n)
  let ?p = "mode_process (led_mode_reg dev)"
  let ?d = "run_process m quiet ?p (dev\<lparr>led_timer := Eighth_second\<rparr>)"
  let ?e = "?d\<lparr>counter := counter ?d + 1\<rparr>"
  have t: "leds_timer_function m quiet dev = Some ?e"
    using Suc.prems(1) by (simp add: leds_timer_function_def leds_inv_def Let_def)
  have "?p \<noteq> P_control" using Suc.prems(2) by (cases "led_mode_reg dev") simp_all
  then have k: "command ?e = command dev" "state_reg ?e = state_reg dev" using run_other by simp_all
  have r: "led_mode_reg ?e = led_mode_reg dev"
    using run_process_inv [OF assms(1), of "dev\<lparr>led_timer := Eighth_second\<rparr>"] Suc.prems(1) by (simp add: leds_inv_def)
  have i: "leds_inv ?e" using leds_tick_inv [OF assms(1) Suc.prems(1) t] .
  obtain d' where "ticks m n ?e = Some d'" "leds_inv d'" "led_mode_reg d' = led_mode_reg dev"
    "command d' = command dev" "state_reg d' = state_reg dev"
    using Suc.IH [OF i] Suc.prems(2) unfolding k r by blast
  then show ?case using t by simp
qed simp

text \<open>From control mode to another, some ticks there, and back: every register is a command again.\<close>

lemma mode_and_back:
  assumes m: "map_ok m" and d: "leds_inv dev" "led_mode_reg dev = led_mode_control" "command dev i = led_state_unchanged"
    and md: "enum_value led_modes n = Some md" "md \<noteq> led_mode_control"
  shows "\<exists>d2. ticks m k (snd (leds_set_mode m n dev)) = Some d2 \<and>
    in_control (snd (leds_set_mode m 1 d2)) \<and> command (snd (leds_set_mode m 1 d2)) i = state_reg dev i \<and>
    leds_inv d2 \<and> led_mode_reg d2 = md"
proof -
  have ne: "uint n \<noteq> mode_number led_mode_control"
  proof
    assume "uint n = mode_number led_mode_control"
    then have "n = 1" by (simp add: mode_number_def word_uint_eq_iff)
    then show False using md set_mode_control by simp
  qed
  let ?d1 = "snd (leds_set_mode m n dev)"
  have d1: "leds_inv ?d1" using leds_set_mode_inv [OF d(1)] .
  have e: "led_mode_reg ?d1 = md" "command ?d1 = command dev" "state_reg ?d1 = state_reg dev"
    using ne md d(2) by (simp_all add: leds_set_mode_def Let_def)
  obtain d2 where d2: "ticks m k ?d1 = Some d2" "leds_inv d2" "led_mode_reg d2 = md" "command d2 = command dev" "state_reg d2 = state_reg dev"
    using ticks_other [OF m d1, of k] e md(2) by auto
  have "uint (1 :: u32) \<noteq> mode_number md" using md(2) by (cases md) (simp_all add: mode_number_def)
  then have c: "snd (leds_set_mode m 1 d2) = restore_commands (d2\<lparr>fn_process := Some P_control, led_mode_reg := led_mode_control\<rparr>)"
    using d2(3) set_mode_control by (simp add: leds_set_mode_def Let_def)
  have "in_control (snd (leds_set_mode m 1 d2))" using d2(2) by (simp add: c in_control_def restore_commands_def leds_inv_def)
  moreover have "command (snd (leds_set_mode m 1 d2)) i = state_reg dev i"
    using d2(4,5) d(3) by (simp add: c restore_commands_def atomic_cmpxchg_def)
  ultimately show ?thesis using d2 by blast
qed

text \<open>
  C36. A change of mode and back restores the panel: an LED that was switched on or off in
  control mode shows the same again one tick after the driver returned from any other mode, however
  long it was there.
\<close>

theorem leds_mode_restores:
  assumes "map_ok m" "leds_inv dev" "led_mode_reg dev = led_mode_control" "command dev i = led_state_unchanged"
    and "state_reg dev i = led_state_on \<or> state_reg dev i = led_state_off"
    and "enum_value led_modes n = Some md" "md \<noteq> led_mode_control"
  shows "\<exists>d2 d3. ticks m k (snd (leds_set_mode m n dev)) = Some d2 \<and>
    leds_timer_function m quiet (snd (leds_set_mode m 1 d2)) = Some d3 \<and>
    led_lit m i (panel d3) = (state_reg dev i = led_state_on)"
proof -
  obtain d2 where d2: "ticks m k (snd (leds_set_mode m n dev)) = Some d2" "in_control (snd (leds_set_mode m 1 d2))"
    "command (snd (leds_set_mode m 1 d2)) i = state_reg dev i"
    using mode_and_back [OF assms(1-4,6,7)] by blast
  have s: "state_reg dev i \<noteq> led_state_blinks" "shown (state_reg dev i) c x = (state_reg dev i = led_state_on)" for c x
    using assms(5) by (auto simp: shown_def)
  show ?thesis
    using tick_control_led [OF assms(1) d2(2), of i quiet] d2(1) s unfolding d2(3) by auto
qed

theorem leds_mode_restores_witness:
  "\<exists>d2 d3. ticks leds_maps_nb4_foxconn 5 (snd (leds_set_mode leds_maps_nb4_foxconn 4
        (started\<lparr>command := (\<lambda>_. led_state_unchanged), state_reg := (\<lambda>_. led_state_on)\<rparr>))) = Some d2 \<and>
    leds_timer_function leds_maps_nb4_foxconn quiet (snd (leds_set_mode leds_maps_nb4_foxconn 1 d2)) = Some d3 \<and>
    led_lit leds_maps_nb4_foxconn led_id_tv (panel d3) =
      (state_reg (started\<lparr>command := (\<lambda>_. led_state_unchanged), state_reg := (\<lambda>_. led_state_on)\<rparr>) led_id_tv = led_state_on)"
  by (rule leds_mode_restores [where md = led_mode_panic])
    (use leds_init_ok [OF dark_board_ok] in \<open>simp_all add: neufbox_maps_ok started_def leds_inv_def enum_value_def led_modes_def\<close>)

text \<open>
  After a single blink the panel is not restored: the blink leaves \<open>led_state_toggle\<close> in the
  register of the LED, so that an LED that was dark before and after the blink is lit when the
  driver comes back from another mode.
\<close>

theorem leds_blinkonce_restore_flaw:
  assumes "map_ok m" "leds_inv dev" "led_mode_reg dev = led_mode_control" "command dev i = led_state_blinkonce"
    and "\<not> driven m i (panel dev)"
  shows "\<exists>d1 d2 d3. ticks m 2 dev = Some d1 \<and> \<not> led_lit m i (panel d1) \<and>
    ticks m 0 (snd (leds_set_mode m 4 d1)) = Some d2 \<and>
    leds_timer_function m quiet (snd (leds_set_mode m 1 d2)) = Some d3 \<and> led_lit m i (panel d3)"
proof -
  have nb: "next_command quiet i led_state_blinkonce = led_state_toggle" "next_command quiet i led_state_toggle = led_state_unchanged"
    by (simp_all add: next_command_def quiet_def arrive_def atomic_cmpxchg_def follow_up_def)
  have c: "in_control dev" using in_control_inv assms(2,3) .
  obtain e1 where e1: "leds_timer_function m quiet dev = Some e1" "in_control e1" "led_mode_reg e1 = led_mode_control"
    "command e1 i = led_state_toggle" "driven m i (panel e1)"
    using tick_control_led [OF assms(1) c, of i quiet] assms(3-5) nb by (auto simp: shown_def)
  obtain d1 where d1: "leds_timer_function m quiet e1 = Some d1" "in_control d1" "led_mode_reg d1 = led_mode_control"
    "command d1 i = led_state_unchanged" "state_reg d1 i = led_state_toggle" "\<not> led_lit m i (panel d1)" "\<not> driven m i (panel d1)"
    using tick_control_led [OF assms(1) e1(2), of i quiet] e1(3-5) nb by (auto simp: shown_def)
  have t2: "ticks m 2 dev = Some d1" using e1(1) d1(1) by (simp add: numeral_2_eq_2)
  have inv: "leds_inv d1" using d1(2,3) by (simp add: leds_inv_def in_control_def)
  have pm: "enum_value led_modes 4 = Some led_mode_panic" by (simp add: enum_value_def led_modes_def)
  let ?d2 = "snd (leds_set_mode m 4 d1)"
  have d2: "in_control (snd (leds_set_mode m 1 ?d2))" "command (snd (leds_set_mode m 1 ?d2)) i = led_state_toggle"
    using mode_and_back [OF assms(1) inv d1(3,4) pm, of 0] d1(5) by auto
  have "\<not> driven m i (panel ?d2)"
    using d1(3) pm assms(1) by (simp add: leds_set_mode_def mode_number_def Let_def driven_leds_off)
  moreover have "panel (snd (leds_set_mode m 1 ?d2)) = panel ?d2"
    by (simp add: leds_set_mode_def [of m 1 ?d2] set_mode_control restore_commands_def Let_def)
  ultimately have dk: "\<not> driven m i (panel (snd (leds_set_mode m 1 ?d2)))" by simp
  obtain d3 where "leds_timer_function m quiet (snd (leds_set_mode m 1 ?d2)) = Some d3" "led_lit m i (panel d3)"
    using tick_control_led [OF assms(1) d2(1), of i quiet] dk unfolding d2(2) by (auto simp: shown_def)
  then show ?thesis using t2 d1(6) by auto
qed

theorem leds_blinkonce_restore_flaw_witness:
  "\<exists>d1 d2 d3. ticks leds_maps_nb4_foxconn 2 (started\<lparr>command := (\<lambda>_. led_state_blinkonce)\<rparr>) = Some d1 \<and>
    \<not> led_lit leds_maps_nb4_foxconn led_id_traffic (panel d1) \<and>
    ticks leds_maps_nb4_foxconn 0 (snd (leds_set_mode leds_maps_nb4_foxconn 4 d1)) = Some d2 \<and>
    leds_timer_function leds_maps_nb4_foxconn quiet (snd (leds_set_mode leds_maps_nb4_foxconn 1 d2)) = Some d3 \<and>
    led_lit leds_maps_nb4_foxconn led_id_traffic (panel d3)"
proof (rule leds_blinkonce_restore_flaw)
  show "\<not> driven leds_maps_nb4_foxconn led_id_traffic (panel (started\<lparr>command := (\<lambda>_. led_state_blinkonce)\<rparr>))"
    using neufbox_maps_ok(3)
    by (simp add: started_def leds_init_def service_color_def Let_def leds_set_mode_def set_mode_control zero_device_def
        mode_number_def restore_commands_def)
      (simp add: driven_def request_leds_def all_leds_def front_leds_def get_set dark_board_def LED_GPIO_def
        gpio_cpu_def gpio_74hc164d_def LED_ACTIVE_LOW_def active_low_def)
qed (use leds_init_ok [OF dark_board_ok] in \<open>simp_all add: neufbox_maps_ok started_def leds_inv_def\<close>)

section \<open>Invalid modes\<close>

text \<open>
  An invalid mode is not reported: the test for a negative result is made on a variable of an
  unsigned type, so the control call succeeds and gives back the mode 0xffffffff.
\<close>

lemma leds_invalid_mode_accepted:
  assumes "enum_value led_modes (io_mode arg) = None"
  shows "leds_compat_ioctl m stack LED_IOCTL_SET_MODE arg dev = (0, arg\<lparr>io_mode := 0xffffffff\<rparr>, dev)"
proof -
  have "uint (io_mode arg) \<noteq> mode_number (led_mode_reg dev)"
  proof
    assume u: "uint (io_mode arg) = mode_number (led_mode_reg dev)"
    have "mode_number (led_mode_reg dev) < 6" by (cases "led_mode_reg dev") (simp_all add: mode_number_def)
    then have "unat (io_mode arg) < 6" using u by (simp add: unat_eq_nat_uint)
    then show False using assms by (simp add: enum_value_def led_modes_def)
  qed
  then show ?thesis using assms by (simp add: leds_compat_ioctl_def leds_set_mode_def Let_def)
qed

end
