(* ===== verification/Events.thy ===== *)
theory Events
  imports NB_Prelude
begin

text \<open>
  The event queue of the neufbox,
  \<open>openwrt/target/linux/generic-2.6/files-2.6.21/drivers/char/neufbox-eventqueue.c\<close>: the
  drivers of the board enqueue events, one process reads them. The queue is a \<open>kfifo\<close> of
  the kernel, a bounded queue of bytes whose operations are arguments of the model; what the
  kernel documents of them is \<open>kfifo_spec\<close>. An event is the four bytes of its number in the byte
  order of the processor, which is big-endian.
\<close>

section \<open>Bounded queues\<close>

text \<open>
  What a client of a bounded queue relies on: an element goes to the end unless the queue is
  full, and elements leave from the front. \<open>run\<close> is a sequence of operations, \<open>Some x\<close> for
  putting \<open>x\<close> and \<open>None\<close> for getting one; it gives the elements that were accepted and those that
  came out.
\<close>

locale bounded_fifo =
  fixes inv :: "'s \<Rightarrow> bool"
    and contents :: "'s \<Rightarrow> 'a list"
    and put :: "'a \<Rightarrow> 's \<Rightarrow> bool \<times> 's"
    and get :: "'s \<Rightarrow> 'a option \<times> 's"
    and cap :: nat
  assumes put_fits: "inv s \<Longrightarrow> length (contents s) < cap \<Longrightarrow> put x s = (b, s') \<Longrightarrow>
      b \<and> inv s' \<and> contents s' = contents s @ [x]"
    and put_full: "inv s \<Longrightarrow> \<not> length (contents s) < cap \<Longrightarrow> put x s = (b, s') \<Longrightarrow>
      \<not> b \<and> inv s' \<and> contents s' = contents s"
    and get_first: "inv s \<Longrightarrow> contents s = x # xs \<Longrightarrow> get s = (r, s') \<Longrightarrow>
      r = Some x \<and> inv s' \<and> contents s' = xs"
    and get_empty: "inv s \<Longrightarrow> contents s = [] \<Longrightarrow> get s = (r, s') \<Longrightarrow> r = None \<and> inv s' \<and> contents s' = []"
begin

fun run :: "'a option list \<Rightarrow> 's \<Rightarrow> 'a list \<times> 'a list \<times> 's" where
  "run [] s = ([], [], s)"
| "run (Some x # ops) s =
     (let (b, s1) = put x s; (acc, got, s2) = run ops s1 in (if b then x # acc else acc, got, s2))"
| "run (None # ops) s =
     (let (r, s1) = get s; (acc, got, s2) = run ops s1
      in (acc, (case r of None \<Rightarrow> got | Some x \<Rightarrow> x # got), s2))"

lemma run_fifo:
  "inv s \<Longrightarrow> run ops s = (acc, got, s') \<Longrightarrow> inv s' \<and> contents s @ acc = got @ contents s'"
proof (induction ops s arbitrary: acc got s' rule: run.induct)
  case (2 x ops s)
  obtain b s1 where p: "put x s = (b, s1)" by fastforce
  obtain acc1 got1 where r: "run ops s1 = (acc1, got1, s')" "got = got1" "acc = (if b then x # acc1 else acc1)"
    using 2(3) p by (auto split: prod.splits)
  show ?case
    using 2(1) [OF p [symmetric] refl, of acc1 got1 s'] put_fits [OF 2(2) _ p] put_full [OF 2(2) _ p] r
    by (cases "length (contents s) < cap") auto
next
  case (3 ops s)
  obtain o1 s1 where g: "get s = (o1, s1)" by fastforce
  obtain got1 where r: "run ops s1 = (acc, got1, s')" "got = (case o1 of None \<Rightarrow> got1 | Some x \<Rightarrow> x # got1)"
    using 3(3) g by (auto split: prod.splits)
  show ?case
    using 3(1) [OF g [symmetric] refl, of acc got1 s'] get_first [OF 3(2) _ g] get_empty [OF 3(2) _ g] r
    by (cases "contents s") auto
qed auto

text \<open>While there is room for all that is put, nothing is refused.\<close>

lemma run_accepts:
  "inv s \<Longrightarrow> length (contents s) + length (filter (\<lambda>x. x \<noteq> None) ops) \<le> cap \<Longrightarrow>
   fst (run ops s) = map the (filter (\<lambda>x. x \<noteq> None) ops)"
proof (induction ops s rule: run.induct)
  case (2 x ops s)
  obtain b s1 where p: "put x s = (b, s1)" by fastforce
  show ?case using 2 p put_fits [OF 2(2) _ p] by (auto split: prod.splits)
next
  case (3 ops s)
  obtain o1 s1 where g: "get s = (o1, s1)" by fastforce
  show ?case
    using 3 g get_first [OF 3(2) _ g] get_empty [OF 3(2) _ g]
    by (cases "contents s") (auto split: prod.splits)
qed auto

end

section \<open>Events\<close>

datatype event_id = event_id_dummy | event_id_reset_down | event_id_clip_up | event_id_clip_down | event_id_clip_long
  | event_id_service_up | event_id_service_down | event_id_service_long | event_id_eth0_up
  | event_id_eth0_down | event_id_eth1_up | event_id_eth1_down | event_id_eth10_up
  | event_id_eth10_down | event_id_eth11_up | event_id_eth11_down | event_id_eth12_up
  | event_id_eth12_down | event_id_eth13_up | event_id_eth13_down | event_id_eth14_up
  | event_id_eth14_down | event_id_eth2_up | event_id_eth2_down | event_id_usb0_up
  | event_id_usb0_down | event_id_wlan_up | event_id_wlan_down | event_id_data_up
  | event_id_data_down | event_id_voip_up | event_id_voip_down | event_id_tv_up | event_id_tv_down
  | event_id_ses_start | event_id_ses_stop | event_id_ses_timeout | event_id_dhcp_up
  | event_id_dhcp_down | event_id_ppp_up | event_id_ppp_down | event_id_adsl_up | event_id_adsl_down
  | event_id_boot_succeeded | event_id_boot_failed

definition event_ids :: "event_id list" where
  "event_ids = [event_id_dummy, event_id_reset_down, event_id_clip_up, event_id_clip_down, event_id_clip_long,
     event_id_service_up, event_id_service_down, event_id_service_long, event_id_eth0_up,
     event_id_eth0_down, event_id_eth1_up, event_id_eth1_down, event_id_eth10_up, event_id_eth10_down,
     event_id_eth11_up, event_id_eth11_down, event_id_eth12_up, event_id_eth12_down, event_id_eth13_up,
     event_id_eth13_down, event_id_eth14_up, event_id_eth14_down, event_id_eth2_up, event_id_eth2_down,
     event_id_usb0_up, event_id_usb0_down, event_id_wlan_up, event_id_wlan_down, event_id_data_up,
     event_id_data_down, event_id_voip_up, event_id_voip_down, event_id_tv_up, event_id_tv_down,
     event_id_ses_start, event_id_ses_stop, event_id_ses_timeout, event_id_dhcp_up, event_id_dhcp_down,
     event_id_ppp_up, event_id_ppp_down, event_id_adsl_up, event_id_adsl_down, event_id_boot_succeeded,
     event_id_boot_failed]"

lemma in_event_ids [simp]: "e \<in> set event_ids"
  by (cases e) (simp_all add: event_ids_def)

lemma length_event_ids [simp]: "length event_ids = 45"
  by (simp add: event_ids_def)

definition event_bytes :: "event_id \<Rightarrow> bytes" where
  "event_bytes e = be32 (enum_number event_ids e)"

lemma length_event_bytes [simp]: "length (event_bytes e) = 4"
  by (simp add: event_bytes_def)

lemma enum_value_event [simp]: "enum_value event_ids (of_be32 (event_bytes e)) = Some e"
  by (simp add: event_bytes_def)

lemma event_bytes_inject [simp]: "event_bytes e = event_bytes e' \<longleftrightarrow> e = e'"
  by (metis enum_value_event option.inject)

section \<open>The device\<close>

definition EBUSY :: int where "EBUSY = 16"
definition ENOMEM :: int where "ENOMEM = 12"
definition ERESTARTSYS :: int where "ERESTARTSYS = 512"
definition POLLIN :: u32 where "POLLIN = 0x0001"
definition POLLRDNORM :: u32 where "POLLRDNORM = 0x0040"

text \<open>Misuses of the kernel's interfaces; the last two belong to the drivers that enqueue.\<close>

datatype kernel_bug = Bad_pointer | Timer_pending | Unbalanced_irq

record 'f kfifo_ops =
  kfifo_alloc :: "nat \<Rightarrow> 'f option"
  kfifo_put :: "'f \<Rightarrow> bytes \<Rightarrow> nat \<times> 'f"
  kfifo_get :: "'f \<Rightarrow> nat \<Rightarrow> bytes \<times> 'f"
  kfifo_len :: "'f \<Rightarrow> nat"

text \<open>
  What the kernel documents: with \<open>content\<close> the bytes in the queue and \<open>capacity\<close> its capacity,
  \<open>kfifo_alloc\<close> gives an empty queue of the size asked for if that is a power of two (other sizes
  are rounded up, which the drivers do not use), \<open>kfifo_put\<close> stores as many bytes as there is room for and \<open>kfifo_get\<close> takes at most as many as
  there are.
\<close>

definition kfifo_spec :: "'f kfifo_ops \<Rightarrow> ('f \<Rightarrow> bytes) \<Rightarrow> ('f \<Rightarrow> nat) \<Rightarrow> bool" where
  "kfifo_spec kf content capacity \<longleftrightarrow>
     (\<forall>m f. kfifo_alloc kf (2 ^ m) = Some f \<longrightarrow> content f = [] \<and> capacity f = 2 ^ m) \<and>
     (\<forall>f bs n f'. kfifo_put kf f bs = (n, f') \<longrightarrow> n = min (length bs) (capacity f - length (content f)) \<and>
        content f' = content f @ take n bs \<and> capacity f' = capacity f) \<and>
     (\<forall>f n bs f'. kfifo_get kf f n = (bs, f') \<longrightarrow> bs = take n (content f) \<and>
        content f' = drop n (content f) \<and> capacity f' = capacity f) \<and>
     (\<forall>f. kfifo_len kf f = length (content f))"

lemma kfifo_putD:
  "kfifo_spec kf content capacity \<Longrightarrow> kfifo_put kf f bs = (n, f') \<Longrightarrow>
   n = min (length bs) (capacity f - length (content f)) \<and> content f' = content f @ take n bs \<and> capacity f' = capacity f"
  unfolding kfifo_spec_def by blast

lemma kfifo_getD:
  "kfifo_spec kf content capacity \<Longrightarrow> kfifo_get kf f n = (bs, f') \<Longrightarrow>
   bs = take n (content f) \<and> content f' = drop n (content f) \<and> capacity f' = capacity f"
  unfolding kfifo_spec_def by blast

lemma kfifo_lenD: "kfifo_spec kf content capacity \<Longrightarrow> kfifo_len kf f = length (content f)"
  unfolding kfifo_spec_def by blast

lemma kfifo_allocD: "kfifo_spec kf content capacity \<Longrightarrow> kfifo_alloc kf (2 ^ m) = Some f \<Longrightarrow> content f = [] \<and> capacity f = 2 ^ m"
  unfolding kfifo_spec_def by blast

text \<open>\<open>fifo\<close> is \<open>None\<close> when its allocation failed and the pointer is an error number.\<close>

record 'f events_device =
  inuse :: bool
  fifo :: "'f option"

text \<open>The first component says whether the event was put in the queue; the code prints a message if not.\<close>

definition event_enqueue :: "'f kfifo_ops \<Rightarrow> event_id \<Rightarrow> 'f events_device \<Rightarrow> kernel_bug + bool \<times> 'f events_device" where
  "event_enqueue kf e dev =
     (case fifo dev of
        None \<Rightarrow> Inl Bad_pointer
      | Some f \<Rightarrow>
          let (n, f) = kfifo_put kf f (event_bytes e) in Inr (n = 4, dev\<lparr>fifo := Some f\<rparr>))"

definition events_open :: "'f events_device \<Rightarrow> int \<times> 'f events_device" where
  "events_open dev = (if inuse dev then (- EBUSY, dev) else (0, dev\<lparr>inuse := True\<rparr>))"

definition events_release :: "'f events_device \<Rightarrow> 'f events_device" where
  "events_release dev = dev\<lparr>inuse := False\<rparr>"

definition events_poll :: "'f kfifo_ops \<Rightarrow> 'f events_device \<Rightarrow> kernel_bug + u32" where
  "events_poll kf dev =
     (case fifo dev of
        None \<Rightarrow> Inl Bad_pointer
      | Some f \<Rightarrow> Inr (if kfifo_len kf f \<noteq> 0 then POLLIN OR POLLRDNORM else 0))"

text \<open>
  A read that finds the queue empty sleeps, unless a signal is pending. \<open>stack\<close> is the uninitialised
  variable \<open>id\<close>. The result, the programs started for the user, and the device.
\<close>

datatype read_result = Returned int bytes | Sleeping

definition events_read ::
  "'f kfifo_ops \<Rightarrow> bool \<Rightarrow> bytes \<Rightarrow> nat \<Rightarrow> 'f events_device \<Rightarrow> kernel_bug + read_result \<times> string list \<times> 'f events_device" where
  "events_read kf signal stack count dev =
     (if count < 4 then Inr (Returned 0 [], [], dev)
      else case fifo dev of
             None \<Rightarrow> Inl Bad_pointer
           | Some f \<Rightarrow>
               if kfifo_len kf f = 0
               then Inr (if signal then Returned (- ERESTARTSYS) [] else Sleeping, [], dev)
               else
                 let (bs, f) = kfifo_get kf f 4; ident = mem_write stack 0 bs
                 in Inr (Returned 4 ident,
                         if ident = event_bytes event_id_reset_down then [''/sbin/reset_to_factory''] else [],
                         dev\<lparr>fifo := Some f\<rparr>))"

text \<open>The result of \<open>misc_register\<close>, whether the allocation of the device succeeds.\<close>

definition events_init :: "'f kfifo_ops \<Rightarrow> int \<Rightarrow> bool \<Rightarrow> int \<times> 'f events_device option" where
  "events_init kf err mem =
     (if err < 0 then (err, None)
      else if \<not> mem then (- ENOMEM, None)
      else (0, Some \<lparr>inuse = False, fifo = kfifo_alloc kf 64\<rparr>))"

section \<open>The queue of events\<close>

text \<open>
  The bytes in the queue are whole events, at most sixteen of them. Since the capacity is a
  multiple of the four bytes of an event, \<open>kfifo_put\<close> stores an event whole or not at all.
\<close>

fun decode_events :: "bytes \<Rightarrow> event_id list" where
  "decode_events (a # b # c # d # bs) = the (enum_value event_ids (of_be32 [a, b, c, d])) # decode_events bs"
| "decode_events _ = []"

definition encode_events :: "event_id list \<Rightarrow> bytes" where
  "encode_events q = concat (map event_bytes q)"

lemma decode_Cons [simp]: "decode_events (event_bytes e @ bs) = e # decode_events bs"
proof -
  obtain a b c d where "event_bytes e = [a, b, c, d]"
    by (simp add: event_bytes_def be32_def le32_def)
  with enum_value_event [of e] show ?thesis by simp
qed

lemma decode_encode [simp]: "decode_events (encode_events q) = q"
  by (induction q) (simp_all add: encode_events_def)

lemma encode_simps [simp]:
  "encode_events [] = []" "encode_events (e # q) = event_bytes e @ encode_events q"
  "encode_events (q @ q') = encode_events q @ encode_events q'"
  by (simp_all add: encode_events_def)

lemma length_encode [simp]: "length (encode_events q) = 4 * length q"
  by (induction q) simp_all

definition events_ok :: "'f kfifo_ops \<Rightarrow> ('f \<Rightarrow> bytes) \<Rightarrow> ('f \<Rightarrow> nat) \<Rightarrow> 'f events_device \<Rightarrow> bool" where
  "events_ok kf content capacity dev \<longleftrightarrow> kfifo_spec kf content capacity \<and>
     (\<exists>f q. fifo dev = Some f \<and> capacity f = 64 \<and> content f = encode_events q \<and> length q \<le> 16)"

definition events_of :: "('f \<Rightarrow> bytes) \<Rightarrow> 'f events_device \<Rightarrow> event_id list" where
  "events_of content dev = (case fifo dev of None \<Rightarrow> [] | Some f \<Rightarrow> decode_events (content f))"

lemma events_okE:
  assumes "events_ok kf content capacity dev"
  obtains f q where "kfifo_spec kf content capacity" "fifo dev = Some f" "capacity f = 64"
    "content f = encode_events q" "events_of content dev = q" "length q \<le> 16"
  using assms by (auto simp: events_ok_def events_of_def)

lemma events_okI:
  assumes "kfifo_spec kf content capacity" "capacity f = 64" "content f = encode_events q" "length q \<le> 16"
  shows "events_ok kf content capacity (dev\<lparr>fifo := Some f\<rparr>)" "events_of content (dev\<lparr>fifo := Some f\<rparr>) = q"
  using assms by (auto simp: events_ok_def events_of_def)

lemma event_enqueue_spec:
  assumes "events_ok kf content capacity dev"
  shows "\<exists>dev'. event_enqueue kf e dev = Inr (length (events_of content dev) < 16, dev') \<and>
    events_ok kf content capacity dev' \<and> inuse dev' = inuse dev \<and>
    events_of content dev' = events_of content dev @ (if length (events_of content dev) < 16 then [e] else [])"
proof -
  from assms obtain f q where f: "kfifo_spec kf content capacity" "fifo dev = Some f" "capacity f = 64"
    "content f = encode_events q" "events_of content dev = q" "length q \<le> 16" by (rule events_okE)
  obtain n f' where put: "kfifo_put kf f (event_bytes e) = (n, f')" by fastforce
  from kfifo_putD [OF f(1) put] f have n: "n = min 4 (64 - 4 * length q)" "content f' = encode_events q @ take n (event_bytes e)" "capacity f' = 64"
    by simp_all
  have n4: "n = (if length q < 16 then 4 else 0)" using n(1) by (auto simp: min_def)
  have "content f' = encode_events (q @ (if length q < 16 then [e] else []))" using n(2) n4 by simp
  moreover have "length (q @ (if length q < 16 then [e] else [])) \<le> 16" using f(6) by auto
  ultimately show ?thesis
    using events_okI [OF f(1) n(3), of "q @ (if length q < 16 then [e] else [])" dev] n4 f put
    by (simp add: event_enqueue_def)
qed

lemma events_read_spec:
  assumes "events_ok kf content capacity dev" "4 \<le> count" "length stack = 4"
  shows "case events_of content dev of
      [] \<Rightarrow> events_read kf signal stack count dev =
             Inr (if signal then Returned (- ERESTARTSYS) [] else Sleeping, [], dev)
    | e # q \<Rightarrow> \<exists>dev'. events_read kf signal stack count dev =
             Inr (Returned 4 (event_bytes e), if e = event_id_reset_down then [''/sbin/reset_to_factory''] else [], dev') \<and>
           events_ok kf content capacity dev' \<and> events_of content dev' = q \<and> inuse dev' = inuse dev"
proof -
  from assms(1) obtain f q where f: "kfifo_spec kf content capacity" "fifo dev = Some f" "capacity f = 64"
    "content f = encode_events q" "events_of content dev = q" "length q \<le> 16" by (rule events_okE)
  obtain bs f' where get: "kfifo_get kf f 4 = (bs, f')" by fastforce
  from kfifo_getD [OF f(1) get] kfifo_lenD [OF f(1), of f] f have g: "bs = take 4 (encode_events q)" "content f' = drop 4 (encode_events q)" "capacity f' = 64"
      "kfifo_len kf f = length (encode_events q)"
    by simp_all
  show ?thesis
  proof (cases q)
    case Nil
    with f g assms(2) show ?thesis by (simp add: events_read_def)
  next
    case (Cons e r)
    with g f have "bs = event_bytes e" "content f' = encode_events r" by simp_all
    with events_okI [OF f(1) g(3), of r dev] f g get Cons assms show ?thesis
      by (simp add: events_read_def mem_write_def)
  qed
qed

text \<open>The device as a bounded queue: what a driver and a reader with a large enough buffer see.\<close>

definition events_put :: "'f kfifo_ops \<Rightarrow> event_id \<Rightarrow> 'f events_device \<Rightarrow> bool \<times> 'f events_device" where
  "events_put kf e dev = (case event_enqueue kf e dev of Inl _ \<Rightarrow> (False, dev) | Inr r \<Rightarrow> r)"

definition events_get :: "'f kfifo_ops \<Rightarrow> 'f events_device \<Rightarrow> event_id option \<times> 'f events_device" where
  "events_get kf dev =
     (case events_read kf False (replicate 4 0) 4 dev of
        Inr (Returned n bs, _, dev') \<Rightarrow> (if n = 4 then enum_value event_ids (of_be32 bs) else None, dev')
      | _ \<Rightarrow> (None, dev))"

lemma events_get_spec:
  assumes "events_ok kf content capacity dev" "events_get kf dev = (r, dev')"
  shows "events_ok kf content capacity dev' \<and>
    (case events_of content dev of [] \<Rightarrow> r = None \<and> dev' = dev | e # q \<Rightarrow> r = Some e \<and> events_of content dev' = q)"
  using events_read_spec [OF assms(1), of 4 "replicate 4 0" False] assms
  by (cases "events_of content dev") (auto simp: events_get_def)

interpretation evq: bounded_fifo "events_ok kf content capacity" "events_of content" "events_put kf" "events_get kf" 16
  for kf content capacity
proof unfold_locales
  fix s x b s'
  assume s: "events_ok kf content capacity s" and p: "events_put kf x s = (b, s')"
  note q = event_enqueue_spec [OF s, of x] p [unfolded events_put_def]
  show "length (events_of content s) < 16 \<Longrightarrow> b \<and> events_ok kf content capacity s' \<and> events_of content s' = events_of content s @ [x]"
    and "\<not> length (events_of content s) < 16 \<Longrightarrow> \<not> b \<and> events_ok kf content capacity s' \<and> events_of content s' = events_of content s"
    using q by auto
qed (auto dest: events_get_spec)

end
