(* ===== verification/Board.thy ===== *)
theory Board
  imports Events Leds
begin

text \<open>
  The buttons of the neufbox 4 and what identifies the board:
  \<open>openwrt/target/linux/brcm63xx/files-2.6.21/arch/mips/bcm63xx/boards/board_neufbox4.c\<close> and
  \<open>board_neufbox4-gpio_poll.c\<close> beside it, on the BCM6358 and with the event queue configured.
  The service and clip buttons are polled, the reset and SES buttons raise interrupts; all of them
  enqueue events. The kernel's timers, interrupt masking and clock are part of the state: a timer
  is the tick at which it expires while it is pending, an interrupt line has the depth of its
  masking. The clock is a number that never wraps, as the kernel compares ticks modulo its
  width. \<open>hz\<close> is the number of ticks in a second.
\<close>

section \<open>Resources\<close>

datatype neufbox_resource = gpio_clip_button | gpio_service_button | gpio_reset_button | gpio_ses_button
  | gpio_voip_relay | irq_reset_button | irq_ses_button

definition INTERRUPT_ID_EXTERNAL_0 :: u16 where "INTERRUPT_ID_EXTERNAL_0 = 8 + 25"
definition INTERRUPT_ID_EXTERNAL_3 :: u16 where "INTERRUPT_ID_EXTERNAL_3 = 8 + 28"
definition EI_CLEAR_SHFT :: int where "EI_CLEAR_SHFT = 8"
definition EI_MASK_SHFT :: int where "EI_MASK_SHFT = 12"

type_synonym resources = "neufbox_resource \<Rightarrow> u16"

fun nb4_ser_r0 :: resources where
  "nb4_ser_r0 gpio_clip_button = gpio_cpu 31"
| "nb4_ser_r0 gpio_service_button = gpio_cpu 27"
| "nb4_ser_r0 gpio_reset_button = gpio_cpu 34"
| "nb4_ser_r0 gpio_ses_button = gpio_cpu 37"
| "nb4_ser_r0 gpio_voip_relay = gpio_cpu 10"
| "nb4_ser_r0 irq_reset_button = INTERRUPT_ID_EXTERNAL_0"
| "nb4_ser_r0 irq_ses_button = INTERRUPT_ID_EXTERNAL_3"

fun nb4f_ser_r0 :: resources where
  "nb4f_ser_r0 gpio_clip_button = gpio_cpu 13"
| "nb4f_ser_r0 gpio_service_button = gpio_cpu 27"
| "nb4f_ser_r0 gpio_reset_button = gpio_cpu 34"
| "nb4f_ser_r0 gpio_ses_button = gpio_cpu 37"
| "nb4f_ser_r0 gpio_voip_relay = gpio_cpu 10"
| "nb4f_ser_r0 irq_reset_button = INTERRUPT_ID_EXTERNAL_0"
| "nb4f_ser_r0 irq_ses_button = INTERRUPT_ID_EXTERNAL_3"

fun nb4_fxc_r0 :: resources where
  "nb4_fxc_r0 gpio_clip_button = gpio_cpu 31"
| "nb4_fxc_r0 gpio_service_button = gpio_cpu 27"
| "nb4_fxc_r0 gpio_reset_button = gpio_cpu 34"
| "nb4_fxc_r0 gpio_ses_button = gpio_cpu 37"
| "nb4_fxc_r0 gpio_voip_relay = gpio_cpu 10"
| "nb4_fxc_r0 irq_reset_button = INTERRUPT_ID_EXTERNAL_3"
| "nb4_fxc_r0 irq_ses_button = INTERRUPT_ID_EXTERNAL_0"

fun nb4_fxc_r1 :: resources where
  "nb4_fxc_r1 gpio_clip_button = gpio_cpu 31"
| "nb4_fxc_r1 gpio_service_button = gpio_cpu 27"
| "nb4_fxc_r1 gpio_reset_button = gpio_cpu 34"
| "nb4_fxc_r1 gpio_ses_button = gpio_cpu 37"
| "nb4_fxc_r1 gpio_voip_relay = gpio_cpu 10"
| "nb4_fxc_r1 irq_reset_button = INTERRUPT_ID_EXTERNAL_0"
| "nb4_fxc_r1 irq_ses_button = INTERRUPT_ID_EXTERNAL_3"

definition gpio_to_irq :: "resources \<Rightarrow> nat \<Rightarrow> int" where
  "gpio_to_irq res gpio =
     (if gpio = unat (res gpio_reset_button) then uint (res irq_reset_button)
      else if gpio = unat (res gpio_ses_button) then uint (res irq_ses_button)
      else - EINVAL)"

definition irq_to_gpio :: "resources \<Rightarrow> nat \<Rightarrow> int" where
  "irq_to_gpio res irq =
     (if irq = unat (res irq_reset_button) then uint (res gpio_reset_button)
      else if irq = unat (res irq_ses_button) then uint (res gpio_ses_button)
      else - EINVAL)"

section \<open>Serialization\<close>

text \<open>
  The parts of \<open>struct serialization\<close> that the code fills in, and what it chooses by the product
  identifier. In the boot flash the MAC address stands at offset 288
  of the NVRAM data and the serialization data at \<open>0xff80\<close>. The comparison with
  \<open>strcmp\<close> ends within the twenty bytes of the identifier, since the constant is shorter.
\<close>

record serialization =
  pid :: bytes
  wpa_key :: bytes
  mac_address :: bytes

definition NVRAM_DATA_OFFSET :: nat where "NVRAM_DATA_OFFSET = 0x580"
definition SERIALIZATION_BASE :: nat where "SERIALIZATION_BASE = 0xff80"

definition read_serialization :: "bytes \<Rightarrow> serialization" where
  "read_serialization m =
     \<lparr>pid = mem_read m SERIALIZATION_BASE 20, wpa_key = mem_read m (SERIALIZATION_BASE + 20) 20,
      mac_address = mem_read m (NVRAM_DATA_OFFSET + 288) 6\<rparr>"

definition board_kind :: "bytes \<Rightarrow> bool \<times> led_map \<times> resources" where
  "board_kind p =
     (if take 7 p = lit ''NB4-FXC''
      then (False, leds_maps_nb4_foxconn, if cstr p = lit ''NB4-FXC-r0'' then nb4_fxc_r0 else nb4_fxc_r1)
      else if take 8 p = lit ''NB4F-SER'' then (True, leds_maps_nb4f_sercomm, nb4f_ser_r0)
      else (False, leds_maps_nb4_sercomm, nb4_ser_r0))"

definition board_get_mac_address :: "serialization \<Rightarrow> u32 \<Rightarrow> bytes" where
  "board_get_mac_address s off = take 2 (mac_address s) @ be32 (of_be32 (drop 2 (mac_address s)) + off)"

section \<open>Polled buttons\<close>

text \<open>The functions of the buttons; \<open>None\<close> is a null pointer.\<close>

datatype poll_fn = Service_up | Service_down | Service_long | Clip_up | Clip_down | Clip_long

record gpio_poll_struct =
  poll_gpio :: nat
  poll_timer :: "nat option"
  poll_trigger :: u32
  poll_value :: int
  fn_up :: "poll_fn option"
  fn_down :: "poll_fn option"
  fn_long :: "poll_fn option"

definition POLL_TRIGGER :: u32 where "POLL_TRIGGER = 5"

definition del_timer :: "gpio_poll_struct \<Rightarrow> gpio_poll_struct" where
  "del_timer g = g\<lparr>poll_timer := None\<rparr>"

text \<open>Adding a timer that is pending is a bug the kernel stops at.\<close>

definition add_timer :: "nat \<Rightarrow> gpio_poll_struct \<Rightarrow> kernel_bug + gpio_poll_struct" where
  "add_timer expires g = (if poll_timer g \<noteq> None then Inl Timer_pending else Inr (g\<lparr>poll_timer := Some expires\<rparr>))"

text \<open>
  One poll: the function to call, which is the last thing the code does but print, and the
  structure after it. \<open>level\<close> is the pin as read. The trigger is unsigned, so \<open>trigger <= 0\<close>
  holds only at zero.
\<close>

definition gpio_poll :: "nat \<Rightarrow> nat \<Rightarrow> int \<Rightarrow> gpio_poll_struct \<Rightarrow> kernel_bug + poll_fn option \<times> gpio_poll_struct" where
  "gpio_poll hz now level g =
     (let t = poll_trigger g + 1;
          t = (if POLL_TRIGGER < t then POLL_TRIGGER else t)
      in if level \<noteq> poll_value g then
           let t = t - 2 in
           if t \<le> 0 then
             let v = (if poll_value g = 0 then 1 else 0);
                 g = g\<lparr>poll_trigger := POLL_TRIGGER, poll_value := v\<rparr>
             in if v \<noteq> 0
                then Inr (fn_up g, if poll_timer g \<noteq> None then del_timer g else g)
                else rbind (if fn_long g \<noteq> None then add_timer (now + hz * 4) g else Inr g) (\<lambda>g. Inr (fn_down g, g))
           else Inr (None, g\<lparr>poll_trigger := t\<rparr>)
         else Inr (None, g\<lparr>poll_trigger := t\<rparr>))"

definition gpio_poll_init :: "gpio_poll_struct \<Rightarrow> gpio_poll_struct" where
  "gpio_poll_init g = g\<lparr>poll_trigger := POLL_TRIGGER, poll_value := 1, poll_timer := None\<rparr>"

section \<open>The board\<close>

text \<open>
  \<open>boot\<close> is the memory of the boot flash. \<open>running\<close> is the timer whose function is about to run: the kernel takes a timer off its list
  before it calls its function, and interrupts are taken in between. \<open>pins_out\<close> are the levels the
  code sets.
\<close>

datatype board_timer = Service_timer | Clip_timer | Ses_timer

record 'f neufbox_board =
  boot :: bytes
  serial :: serialization
  resource :: resources
  leds_map :: led_map
  femtocell :: bool
  clip_poll :: gpio_poll_struct
  service_poll :: gpio_poll_struct
  ses_timeout :: "nat option"
  irq_depth :: "int \<Rightarrow> nat"
  ext_irq_cfg :: u32
  pins_out :: "nat \<Rightarrow> int"
  events :: "'f events_device"
  jiffies :: nat
  running :: "board_timer option"

definition serialization_init :: "'f neufbox_board \<Rightarrow> 'f neufbox_board" where
  "serialization_init b =
     (let s = read_serialization (boot b); (femto, leds, res) = board_kind (pid s)
      in b\<lparr>serial := s, femtocell := femto, leds_map := leds, resource := res\<rparr>)"

definition enqueue :: "'f kfifo_ops \<Rightarrow> event_id \<Rightarrow> 'f neufbox_board \<Rightarrow> kernel_bug + 'f neufbox_board" where
  "enqueue kf e b = rbind (event_enqueue kf e (events b)) (\<lambda>(_, d). Inr (b\<lparr>events := d\<rparr>))"

definition set_pin :: "nat \<Rightarrow> int \<Rightarrow> 'f neufbox_board \<Rightarrow> 'f neufbox_board" where
  "set_pin n v b = b\<lparr>pins_out := (pins_out b)(n := v)\<rparr>"

text \<open>\<open>1 << (irq - INTERRUPT_ID_EXTERNAL_0 + shift)\<close>\<close>

definition irq_bit :: "int \<Rightarrow> int \<Rightarrow> u32" where
  "irq_bit irq shift = push_bit (nat (irq - uint INTERRUPT_ID_EXTERNAL_0 + shift)) 1"

definition set_irq_cfg :: "u32 \<Rightarrow> 'f neufbox_board \<Rightarrow> 'f neufbox_board" where
  "set_irq_cfg w b = b\<lparr>ext_irq_cfg := ext_irq_cfg b OR w\<rparr>"

definition disable_irq :: "int \<Rightarrow> 'f neufbox_board \<Rightarrow> 'f neufbox_board" where
  "disable_irq irq b = b\<lparr>irq_depth := (irq_depth b)(irq := Suc (irq_depth b irq))\<rparr>"

definition enable_irq :: "int \<Rightarrow> 'f neufbox_board \<Rightarrow> kernel_bug + 'f neufbox_board" where
  "enable_irq irq b =
     (if irq_depth b irq = 0 then Inl Unbalanced_irq
      else Inr (b\<lparr>irq_depth := (irq_depth b)(irq := irq_depth b irq - 1)\<rparr>))"

definition switch_ses_timeout :: "'f kfifo_ops \<Rightarrow> 'f neufbox_board \<Rightarrow> kernel_bug + 'f neufbox_board" where
  "switch_ses_timeout kf b =
     (let irq = gpio_to_irq (resource b) (unat (resource b gpio_ses_button));
          b = set_irq_cfg (irq_bit irq EI_CLEAR_SHFT) b;
          b = set_irq_cfg (irq_bit irq EI_MASK_SHFT) b
      in rbind (enable_irq irq b) (enqueue kf event_id_ses_timeout))"

definition switch_ses_handler :: "'f kfifo_ops \<Rightarrow> nat \<Rightarrow> int \<Rightarrow> 'f neufbox_board \<Rightarrow> kernel_bug + 'f neufbox_board" where
  "switch_ses_handler kf hz irq b =
     (if ses_timeout b \<noteq> None then Inl Timer_pending
      else
        rbind (enqueue kf event_id_ses_start (b\<lparr>ses_timeout := Some (jiffies b + 130 * hz)\<rparr>)) (\<lambda>b.
        Inr (disable_irq irq (set_irq_cfg (irq_bit irq EI_CLEAR_SHFT) b))))"

definition switch_reset_handler :: "'f kfifo_ops \<Rightarrow> int \<Rightarrow> 'f neufbox_board \<Rightarrow> kernel_bug + 'f neufbox_board" where
  "switch_reset_handler kf irq b =
     rbind (enqueue kf event_id_reset_down b) (\<lambda>b. Inr (set_irq_cfg (irq_bit irq EI_CLEAR_SHFT) b))"

definition trigger_service_long :: "'f kfifo_ops \<Rightarrow> 'f neufbox_board \<Rightarrow> kernel_bug + 'f neufbox_board" where
  "trigger_service_long kf b = enqueue kf event_id_service_long b"

definition trigger_service_up :: "'f kfifo_ops \<Rightarrow> 'f neufbox_board \<Rightarrow> kernel_bug + 'f neufbox_board" where
  "trigger_service_up kf b = enqueue kf event_id_service_up b"

definition trigger_service_down :: "'f kfifo_ops \<Rightarrow> 'f neufbox_board \<Rightarrow> kernel_bug + 'f neufbox_board" where
  "trigger_service_down kf b = enqueue kf event_id_service_down b"

text \<open>The link pin of the Ethernet controller is pin 0, its speed pin is pin 28.\<close>

definition trigger_clip_long :: "'f kfifo_ops \<Rightarrow> (nat \<Rightarrow> int) \<Rightarrow> 'f neufbox_board \<Rightarrow> kernel_bug + 'f neufbox_board" where
  "trigger_clip_long kf lv b = enqueue kf event_id_clip_long (set_pin 28 (lv 0) b)"

definition trigger_clip_up :: "'f kfifo_ops \<Rightarrow> (nat \<Rightarrow> int) \<Rightarrow> 'f neufbox_board \<Rightarrow> kernel_bug + 'f neufbox_board" where
  "trigger_clip_up kf lv b = enqueue kf event_id_clip_up (set_pin 28 (lv 0) b)"

definition trigger_clip_down :: "'f kfifo_ops \<Rightarrow> (nat \<Rightarrow> int) \<Rightarrow> 'f neufbox_board \<Rightarrow> kernel_bug + 'f neufbox_board" where
  "trigger_clip_down kf lv b = enqueue kf event_id_clip_down (set_pin 28 (if lv 0 = 0 then 1 else 0) b)"

fun run_fn :: "'f kfifo_ops \<Rightarrow> (nat \<Rightarrow> int) \<Rightarrow> poll_fn \<Rightarrow> 'f neufbox_board \<Rightarrow> kernel_bug + 'f neufbox_board" where
  "run_fn kf lv Service_up b = trigger_service_up kf b"
| "run_fn kf lv Service_down b = trigger_service_down kf b"
| "run_fn kf lv Service_long b = trigger_service_long kf b"
| "run_fn kf lv Clip_up b = trigger_clip_up kf lv b"
| "run_fn kf lv Clip_down b = trigger_clip_down kf lv b"
| "run_fn kf lv Clip_long b = trigger_clip_long kf lv b"

definition poll_of :: "nat \<Rightarrow> poll_fn \<Rightarrow> poll_fn \<Rightarrow> poll_fn \<Rightarrow> gpio_poll_struct" where
  "poll_of gpio up down long = gpio_poll_init
     \<lparr>poll_gpio = gpio, poll_timer = None, poll_trigger = 0, poll_value = 0, fn_up = Some up, fn_down = Some down, fn_long = Some long\<rparr>"

text \<open>
  \<open>board_init\<close>, whether the directory and the file in \<open>/proc\<close> can be made. On a femtocell board the
  clip button is not polled and the pins of the module are set low.
\<close>

definition board_init :: "bool \<Rightarrow> bool \<Rightarrow> 'f neufbox_board \<Rightarrow> int \<times> 'f neufbox_board" where
  "board_init procfs_ok pid_ok b =
     (if \<not> procfs_ok \<or> \<not> pid_ok then (- ENOMEM, b)
      else
        let b = b\<lparr>service_poll := poll_of (unat (resource b gpio_service_button)) Service_up Service_down Service_long\<rparr>
        in (0, if \<not> femtocell b
               then b\<lparr>clip_poll := poll_of (unat (resource b gpio_clip_button)) Clip_up Clip_down Clip_long\<rparr>
               else fold (\<lambda>n. set_pin n 0) [11, 22, 23, 31, 36] b))"

section \<open>What happens to the board\<close>

text \<open>
  The inputs: time passes, a button is polled, a timer expires, its function runs, a button
  raises its interrupt, the process reads, opens or closes the event device, the file \<open>/proc/neufbox/pid\<close> is written. Each handler is one step, so
  an interrupt that arrives while the function of a timer runs is taken before or after it.
\<close>

datatype board_input = Time nat | Poll_service "nat \<Rightarrow> int" | Poll_clip "nat \<Rightarrow> int" | Expire board_timer
  | Run "nat \<Rightarrow> int" | Ses_irq | Reset_irq | Read_event bool bytes nat | Open_events | Release_events
  | Write_pid

fun timer_of :: "board_timer \<Rightarrow> 'f neufbox_board \<Rightarrow> nat option" where
  "timer_of Service_timer b = poll_timer (service_poll b)"
| "timer_of Clip_timer b = poll_timer (clip_poll b)"
| "timer_of Ses_timer b = ses_timeout b"

fun clear_timer :: "board_timer \<Rightarrow> 'f neufbox_board \<Rightarrow> 'f neufbox_board" where
  "clear_timer Service_timer b = b\<lparr>service_poll := del_timer (service_poll b)\<rparr>"
| "clear_timer Clip_timer b = b\<lparr>clip_poll := del_timer (clip_poll b)\<rparr>"
| "clear_timer Ses_timer b = b\<lparr>ses_timeout := None\<rparr>"

definition call :: "'f kfifo_ops \<Rightarrow> (nat \<Rightarrow> int) \<Rightarrow> poll_fn option \<Rightarrow> 'f neufbox_board \<Rightarrow> kernel_bug + 'f neufbox_board" where
  "call kf lv fn b = (case fn of None \<Rightarrow> Inl Bad_pointer | Some f \<Rightarrow> run_fn kf lv f b)"

definition call_opt :: "'f kfifo_ops \<Rightarrow> (nat \<Rightarrow> int) \<Rightarrow> poll_fn option \<Rightarrow> 'f neufbox_board \<Rightarrow> kernel_bug + 'f neufbox_board" where
  "call_opt kf lv fn b = (case fn of None \<Rightarrow> Inr b | Some f \<Rightarrow> run_fn kf lv f b)"

fun run_timer :: "'f kfifo_ops \<Rightarrow> (nat \<Rightarrow> int) \<Rightarrow> board_timer \<Rightarrow> 'f neufbox_board \<Rightarrow> kernel_bug + 'f neufbox_board" where
  "run_timer kf lv Service_timer b = call kf lv (fn_long (service_poll b)) b"
| "run_timer kf lv Clip_timer b = call kf lv (fn_long (clip_poll b)) b"
| "run_timer kf lv Ses_timer b = switch_ses_timeout kf b"

text \<open>Whether the kernel lets the input happen.\<close>

fun possible :: "board_input \<Rightarrow> 'f neufbox_board \<Rightarrow> bool" where
  "possible (Poll_clip lv) b \<longleftrightarrow> \<not> femtocell b"
| "possible (Expire t) b \<longleftrightarrow> running b = None \<and> (case timer_of t b of None \<Rightarrow> False | Some e \<Rightarrow> e \<le> jiffies b)"
| "possible (Run lv) b \<longleftrightarrow> running b \<noteq> None"
| "possible Ses_irq b \<longleftrightarrow> irq_depth b (uint (resource b irq_ses_button)) = 0"
| "possible Reset_irq b \<longleftrightarrow> irq_depth b (uint (resource b irq_reset_button)) = 0"
| "possible (Read_event s stack n) b \<longleftrightarrow> length stack = 4"
| "possible _ b \<longleftrightarrow> True"

fun board_handle :: "'f kfifo_ops \<Rightarrow> nat \<Rightarrow> board_input \<Rightarrow> 'f neufbox_board \<Rightarrow> kernel_bug + 'f neufbox_board" where
  "board_handle kf hz (Time n) b = Inr (b\<lparr>jiffies := jiffies b + n\<rparr>)"
| "board_handle kf hz (Poll_service lv) b =
     rbind (gpio_poll hz (jiffies b) (lv (poll_gpio (service_poll b))) (service_poll b)) (\<lambda>(fn, g).
     call_opt kf lv fn (b\<lparr>service_poll := g\<rparr>))"
| "board_handle kf hz (Poll_clip lv) b =
     rbind (gpio_poll hz (jiffies b) (lv (poll_gpio (clip_poll b))) (clip_poll b)) (\<lambda>(fn, g).
     call_opt kf lv fn (b\<lparr>clip_poll := g\<rparr>))"
| "board_handle kf hz (Expire t) b = Inr ((clear_timer t b)\<lparr>running := Some t\<rparr>)"
| "board_handle kf hz (Run lv) b =
     (case running b of
        None \<Rightarrow> Inr b
      | Some t \<Rightarrow> run_timer kf lv t (b\<lparr>running := None\<rparr>))"
| "board_handle kf hz Ses_irq b = switch_ses_handler kf hz (uint (resource b irq_ses_button)) b"
| "board_handle kf hz Reset_irq b = switch_reset_handler kf (uint (resource b irq_reset_button)) b"
| "board_handle kf hz (Read_event sig stack n) b =
     rbind (events_read kf sig stack n (events b)) (\<lambda>(_, _, d). Inr (b\<lparr>events := d\<rparr>))"
| "board_handle kf hz Open_events b = Inr (b\<lparr>events := snd (events_open (events b))\<rparr>)"
| "board_handle kf hz Release_events b = Inr (b\<lparr>events := events_release (events b)\<rparr>)"
| "board_handle kf hz Write_pid b = Inr (serialization_init b)"

end
