(* ===== verification/Board_Poll.thy ===== *)
theory Board_Poll
  imports Board
begin

text \<open>
  The debouncing of a polled button: bounds on the trigger, how long a level has to last to be
  reported, and how far two reports are apart.
\<close>

definition poll_ok :: "gpio_poll_struct \<Rightarrow> bool" where
  "poll_ok g \<longleftrightarrow> poll_trigger g \<in> {1, 2, 3, 4, 5} \<and> poll_value g \<in> {0, 1} \<and> (poll_timer g \<noteq> None \<longrightarrow> poll_value g = 0)"

definition same_fns :: "gpio_poll_struct \<Rightarrow> gpio_poll_struct \<Rightarrow> bool" where
  "same_fns g g' \<longleftrightarrow> poll_gpio g = poll_gpio g' \<and> fn_up g = fn_up g' \<and> fn_down g = fn_down g' \<and> fn_long g = fn_long g'"

lemma same_fns_trans: "same_fns g g' \<Longrightarrow> same_fns g' g'' \<Longrightarrow> same_fns g g''"
  by (simp add: same_fns_def)

lemma poll_of_ok [simp]: "poll_ok (poll_of n u d l)" "poll_value (poll_of n u d l) = 1" "poll_timer (poll_of n u d l) = None"
    "fn_up (poll_of n u d l) = Some u" "fn_down (poll_of n u d l) = Some d" "fn_long (poll_of n u d l) = Some l"
    "poll_gpio (poll_of n u d l) = n"
  by (simp_all add: poll_of_def gpio_poll_init_def poll_ok_def POLL_TRIGGER_def)

text \<open>The four things a poll can do.\<close>

lemma gpio_poll_same:
  "poll_ok g \<Longrightarrow> level = poll_value g \<Longrightarrow>
   \<exists>t. gpio_poll hz now level g = Inr (None, g\<lparr>poll_trigger := t\<rparr>) \<and> poll_ok (g\<lparr>poll_trigger := t\<rparr>) \<and> poll_trigger g \<le> t"
  by (auto simp: gpio_poll_def poll_ok_def POLL_TRIGGER_def)

lemma gpio_poll_count:
  "poll_ok g \<Longrightarrow> level \<noteq> poll_value g \<Longrightarrow> poll_trigger g \<noteq> 1 \<Longrightarrow>
   \<exists>t. gpio_poll hz now level g = Inr (None, g\<lparr>poll_trigger := t\<rparr>) \<and> poll_ok (g\<lparr>poll_trigger := t\<rparr>) \<and>
     t = (if poll_trigger g = 5 then 3 else poll_trigger g - 1)"
  by (auto simp: gpio_poll_def poll_ok_def POLL_TRIGGER_def)

lemma gpio_poll_up:
  "poll_ok g \<Longrightarrow> level \<noteq> 0 \<Longrightarrow> poll_value g = 0 \<Longrightarrow> poll_trigger g = 1 \<Longrightarrow>
   gpio_poll hz now level g = Inr (fn_up g, g\<lparr>poll_trigger := 5, poll_value := 1, poll_timer := None\<rparr>)"
  by (cases "poll_timer g") (auto simp: gpio_poll_def poll_ok_def POLL_TRIGGER_def del_timer_def)

lemma gpio_poll_down:
  "poll_ok g \<Longrightarrow> level \<noteq> 1 \<Longrightarrow> poll_value g = 1 \<Longrightarrow> poll_trigger g = 1 \<Longrightarrow>
   gpio_poll hz now level g = Inr (fn_down g, g\<lparr>poll_trigger := 5, poll_value := 0,
     poll_timer := (if fn_long g = None then poll_timer g else Some (now + hz * 4))\<rparr>)"
  by (cases "poll_timer g") (auto simp: gpio_poll_def poll_ok_def POLL_TRIGGER_def add_timer_def)

lemma gpio_poll_cases:
  assumes "poll_ok g"
  obtains
    (quiet) t where "gpio_poll hz now level g = Inr (None, g\<lparr>poll_trigger := t\<rparr>)" "poll_ok (g\<lparr>poll_trigger := t\<rparr>)"
  | (up) "gpio_poll hz now level g = Inr (fn_up g, g\<lparr>poll_trigger := 5, poll_value := 1, poll_timer := None\<rparr>)"
      "level \<noteq> 0" "poll_value g = 0" "poll_trigger g = 1"
  | (down) "gpio_poll hz now level g = Inr (fn_down g, g\<lparr>poll_trigger := 5, poll_value := 0,
      poll_timer := (if fn_long g = None then poll_timer g else Some (now + hz * 4))\<rparr>)"
      "level \<noteq> 1" "poll_value g = 1" "poll_trigger g = 1" "poll_timer g = None"
proof -
  have v: "poll_value g = 0 \<or> poll_value g = 1" "poll_value g = 1 \<Longrightarrow> poll_timer g = None"
    using assms by (auto simp: poll_ok_def)
  consider "level = poll_value g" | "level \<noteq> poll_value g" "poll_trigger g \<noteq> 1" | "level \<noteq> poll_value g" "poll_trigger g = 1"
    by blast
  then show thesis
    using gpio_poll_same [OF assms, of level hz now] gpio_poll_count [OF assms, of level hz now]
      gpio_poll_up [OF assms, of level hz now] gpio_poll_down [OF assms, of level hz now] v quiet up down
    by metis
qed

lemma gpio_poll_ok:
  assumes "poll_ok g"
  shows "\<exists>fn g'. gpio_poll hz now level g = Inr (fn, g') \<and> poll_ok g' \<and> same_fns g g' \<and> fn \<in> {None, fn_up g, fn_down g}"
  using assms by (rule gpio_poll_cases [of g hz now level]) (use assms in \<open>auto simp: poll_ok_def same_fns_def\<close>)

section \<open>Sequences of polls\<close>

text \<open>Polls at given times with given levels: the functions called, and the structure after them.\<close>

fun poll_run :: "nat \<Rightarrow> (nat \<times> int) list \<Rightarrow> gpio_poll_struct \<Rightarrow> kernel_bug + poll_fn list \<times> gpio_poll_struct" where
  "poll_run hz [] g = Inr ([], g)"
| "poll_run hz ((now, level) # xs) g =
     rbind (gpio_poll hz now level g) (\<lambda>(fn, g).
     rbind (poll_run hz xs g) (\<lambda>(fs, g).
     Inr (case fn of None \<Rightarrow> fs | Some f \<Rightarrow> f # fs, g)))"

text \<open>A level that agrees with the value calls nothing.\<close>

lemma poll_run_stays:
  assumes "poll_ok g" "\<forall>x\<in>set xs. snd x = poll_value g"
  shows "\<exists>t. poll_run hz xs g = Inr ([], g\<lparr>poll_trigger := t\<rparr>) \<and> poll_ok (g\<lparr>poll_trigger := t\<rparr>)"
  using assms
proof (induction xs arbitrary: g)
  case Nil
  then show ?case by (auto intro: exI [of _ "poll_trigger g"])
next
  case (Cons x xs)
  then obtain t where t: "gpio_poll hz (fst x) (snd x) g = Inr (None, g\<lparr>poll_trigger := t\<rparr>)" "poll_ok (g\<lparr>poll_trigger := t\<rparr>)"
    using gpio_poll_same [of g "snd x" hz "fst x"] by auto
  from Cons.IH [OF t(2)] Cons.prems t(1) show ?case by (cases x) auto
qed

text \<open>How many polls with the other level it takes, at most four.\<close>

definition polls_needed :: "gpio_poll_struct \<Rightarrow> nat" where
  "polls_needed g = (if poll_trigger g = 5 then 4 else unat (poll_trigger g))"

lemma polls_needed_le: "poll_ok g \<Longrightarrow> polls_needed g \<le> 4 \<and> 0 < polls_needed g"
  by (auto simp: poll_ok_def polls_needed_def)

lemma polls_needed_count:
  "poll_ok g \<Longrightarrow> poll_trigger g \<noteq> 1 \<Longrightarrow> t = (if poll_trigger g = 5 then 3 else poll_trigger g - 1) \<Longrightarrow>
   Suc (polls_needed (g\<lparr>poll_trigger := t\<rparr>)) = polls_needed g"
  by (auto simp: poll_ok_def polls_needed_def)

lemma poll_run_settles:
  assumes "poll_ok g" "\<forall>x\<in>set xs. snd x = level" "level \<in> {0, 1}" "level \<noteq> poll_value g" "polls_needed g \<le> length xs"
  shows "\<exists>fs g'. poll_run hz xs g = Inr (fs, g') \<and> poll_ok g' \<and> poll_value g' = level \<and> same_fns g g' \<and>
    fs = (case (if level = 0 then fn_down g else fn_up g) of None \<Rightarrow> [] | Some f \<Rightarrow> [f]) \<and>
    (level = 0 \<longrightarrow> fn_long g \<noteq> None \<longrightarrow> poll_timer g' \<noteq> None) \<and> (level \<noteq> 0 \<longrightarrow> poll_timer g' = None)"
  using assms
proof (induction xs arbitrary: g)
  case Nil
  with polls_needed_le [of g] show ?case by simp
next
  case (Cons x xs)
  have x: "snd x = level" using Cons.prems(2) by simp
  show ?case
  proof (cases "poll_trigger g = 1")
    case False
    then obtain t where t: "gpio_poll hz (fst x) level g = Inr (None, g\<lparr>poll_trigger := t\<rparr>)" "poll_ok (g\<lparr>poll_trigger := t\<rparr>)"
        "t = (if poll_trigger g = 5 then 3 else poll_trigger g - 1)"
      using gpio_poll_count [of g level hz "fst x"] Cons.prems by blast
    have "polls_needed (g\<lparr>poll_trigger := t\<rparr>) \<le> length xs"
      using polls_needed_count [OF Cons.prems(1) False t(3)] Cons.prems(5) by simp
    with Cons.IH [OF t(2)] Cons.prems t(1) x show ?thesis
      by (cases x) (auto simp: same_fns_def)
  next
    case True
    define g1 where "g1 = (if level = 0
      then g\<lparr>poll_trigger := 5, poll_value := 0, poll_timer := (if fn_long g = None then poll_timer g else Some (fst x + hz * 4))\<rparr>
      else g\<lparr>poll_trigger := 5, poll_value := 1, poll_timer := None\<rparr>)"
    have g1: "gpio_poll hz (fst x) level g = Inr (if level = 0 then fn_down g else fn_up g, g1)"
      using gpio_poll_up [OF Cons.prems(1)] gpio_poll_down [OF Cons.prems(1)] Cons.prems True
      by (auto simp: g1_def poll_ok_def)
    have ok: "poll_ok g1" "poll_value g1 = level" using Cons.prems by (auto simp: g1_def poll_ok_def)
    with poll_run_stays [of g1 xs hz] Cons.prems obtain t where "poll_run hz xs g1 = Inr ([], g1\<lparr>poll_trigger := t\<rparr>)"
      "poll_ok (g1\<lparr>poll_trigger := t\<rparr>)" by auto
    then show ?thesis using g1 ok x
      by (cases x) (auto simp: same_fns_def g1_def split: option.splits)
  qed
qed

text \<open>Fewer polls than that call nothing, whatever the levels are.\<close>

lemma polls_needed_step:
  assumes "poll_ok g" "Suc 0 < polls_needed g"
  shows "\<exists>t. gpio_poll hz now level g = Inr (None, g\<lparr>poll_trigger := t\<rparr>) \<and> poll_ok (g\<lparr>poll_trigger := t\<rparr>) \<and>
    polls_needed g \<le> Suc (polls_needed (g\<lparr>poll_trigger := t\<rparr>))"
proof -
  have "poll_trigger g \<noteq> 1" using assms by (auto simp: polls_needed_def)
  moreover have "polls_needed g \<le> Suc (polls_needed (g\<lparr>poll_trigger := t\<rparr>))"
    if "poll_ok (g\<lparr>poll_trigger := t\<rparr>)" "poll_trigger g \<le> t" for t
    using that assms(1) by (auto simp: poll_ok_def polls_needed_def word_le_nat_alt)
  ultimately show ?thesis
    using gpio_poll_same [OF assms(1), of level hz now] gpio_poll_count [OF assms(1), of level hz now] polls_needed_count [OF assms(1)]
    by (cases "level = poll_value g") (metis, metis order_refl)
qed

lemma poll_run_quiet:
  assumes "poll_ok g" "length xs < polls_needed g"
  shows "\<exists>t. poll_run hz xs g = Inr ([], g\<lparr>poll_trigger := t\<rparr>)"
  using assms
proof (induction xs arbitrary: g)
  case Nil
  then show ?case by (auto intro: exI [of _ "poll_trigger g"])
next
  case (Cons x xs)
  then obtain t where t: "gpio_poll hz (fst x) (snd x) g = Inr (None, g\<lparr>poll_trigger := t\<rparr>)" "poll_ok (g\<lparr>poll_trigger := t\<rparr>)"
      "polls_needed g \<le> Suc (polls_needed (g\<lparr>poll_trigger := t\<rparr>))"
    using polls_needed_step [of g hz "fst x" "snd x"] by auto
  from Cons.IH [OF t(2)] Cons.prems t show ?case by (cases x) auto
qed

end
