(* ===== verification/Board_Inv.thy ===== *)
theory Board_Inv
  imports Board_Poll
begin

text \<open>
  The invariant of the board and that every handler keeps it without a misuse of the kernel, and
  the events a handler offers to the queue.
\<close>

definition resources_ok :: "resources \<Rightarrow> bool" where
  "resources_ok res \<longleftrightarrow> unat (res gpio_reset_button) \<noteq> unat (res gpio_ses_button) \<and>
     unat (res irq_reset_button) \<noteq> unat (res irq_ses_button)"

lemma board_kind_resources: "board_kind p = (femto, leds, res) \<Longrightarrow> resources_ok res"
  by (auto simp: board_kind_def resources_ok_def gpio_cpu_def INTERRUPT_ID_EXTERNAL_0_def INTERRUPT_ID_EXTERNAL_3_def
      split: if_splits)

lemma gpio_to_irq_ses: "resources_ok res \<Longrightarrow> gpio_to_irq res (unat (res gpio_ses_button)) = uint (res irq_ses_button)"
  by (auto simp: gpio_to_irq_def resources_ok_def)

lemma resources_irq: "resources_ok res \<Longrightarrow> uint (res irq_reset_button) \<noteq> uint (res irq_ses_button)"
  by (auto simp: resources_ok_def dest: word_uint_eqI)

lemma irq_to_gpio_to_irq:
  assumes "resources_ok res" "gpio \<in> {unat (res gpio_reset_button), unat (res gpio_ses_button)}"
  shows "irq_to_gpio res (nat (gpio_to_irq res gpio)) = int gpio"
  using assms by (auto simp: gpio_to_irq_def irq_to_gpio_def resources_ok_def nat_uint_eq)

definition ses_busy :: "'f neufbox_board \<Rightarrow> bool" where
  "ses_busy b \<longleftrightarrow> ses_timeout b \<noteq> None \<or> running b = Some Ses_timer"

definition service_ok :: "'f neufbox_board \<Rightarrow> bool" where
  "service_ok b \<longleftrightarrow> poll_ok (service_poll b) \<and> fn_up (service_poll b) = Some Service_up \<and>
     fn_down (service_poll b) = Some Service_down \<and> fn_long (service_poll b) = Some Service_long"

definition clip_ok :: "'f neufbox_board \<Rightarrow> bool" where
  "clip_ok b \<longleftrightarrow>
     (if femtocell b then poll_timer (clip_poll b) = None \<and> running b \<noteq> Some Clip_timer
      else poll_ok (clip_poll b) \<and> fn_up (clip_poll b) = Some Clip_up \<and>
           fn_down (clip_poll b) = Some Clip_down \<and> fn_long (clip_poll b) = Some Clip_long)"

definition ses_ok :: "'f neufbox_board \<Rightarrow> bool" where
  "ses_ok b \<longleftrightarrow> irq_depth b (uint (resource b irq_reset_button)) = 0 \<and>
     irq_depth b (uint (resource b irq_ses_button)) = (if ses_busy b then 1 else 0) \<and>
     (running b = Some Ses_timer \<longrightarrow> ses_timeout b = None)"

definition board_inv :: "'f neufbox_board \<Rightarrow> bool" where
  "board_inv b \<longleftrightarrow> fifo (events b) \<noteq> None \<and> service_ok b \<and> clip_ok b \<and> ses_ok b \<and>
     board_kind (pid (read_serialization (boot b))) = (femtocell b, leds_map b, resource b)"

lemmas board_inv_defs = board_inv_def service_ok_def clip_ok_def ses_ok_def ses_busy_def

lemma board_inv_resources: "board_inv b \<Longrightarrow> resources_ok (resource b)"
  by (auto simp: board_inv_def dest: board_kind_resources)

lemma board_inv_update [simp]:
  "board_inv (b\<lparr>jiffies := n\<rparr>) = board_inv b" "board_inv (b\<lparr>ext_irq_cfg := w\<rparr>) = board_inv b"
  "board_inv (b\<lparr>pins_out := p\<rparr>) = board_inv b"
  "fifo d \<noteq> None \<Longrightarrow> board_inv b \<Longrightarrow> board_inv (b\<lparr>events := d\<rparr>)"
  by (simp_all add: board_inv_defs)

text \<open>A board that can enqueue is changed by it in its events only.\<close>

definition offer :: "'f kfifo_ops \<Rightarrow> event_id list \<Rightarrow> 'f events_device \<Rightarrow> 'f events_device" where
  "offer kf es d = fold (\<lambda>e d. snd (events_put kf e d)) es d"

lemma offer_Nil [simp]: "offer kf [] d = d"
  by (simp add: offer_def)

lemma enqueue_offer [simp]:
  "fifo (events b) = Some f \<Longrightarrow> enqueue kf e b = Inr (b\<lparr>events := offer kf [e] (events b)\<rparr>)"
  by (auto simp: enqueue_def offer_def events_put_def event_enqueue_def split: prod.splits)

lemma fifo_offer [simp]: "fifo d = Some f \<Longrightarrow> \<exists>f'. fifo (offer kf [e] d) = Some f'"
  by (auto simp: offer_def events_put_def event_enqueue_def split: prod.splits)

section \<open>The events a handler offers\<close>

fun fn_event :: "poll_fn \<Rightarrow> event_id" where
  "fn_event Service_up = event_id_service_up"
| "fn_event Service_down = event_id_service_down"
| "fn_event Service_long = event_id_service_long"
| "fn_event Clip_up = event_id_clip_up"
| "fn_event Clip_down = event_id_clip_down"
| "fn_event Clip_long = event_id_clip_long"

fun timer_event :: "board_timer \<Rightarrow> event_id" where
  "timer_event Service_timer = event_id_service_long"
| "timer_event Clip_timer = event_id_clip_long"
| "timer_event Ses_timer = event_id_ses_timeout"

definition poll_event :: "nat \<Rightarrow> nat \<Rightarrow> (nat \<Rightarrow> int) \<Rightarrow> gpio_poll_struct \<Rightarrow> event_id list" where
  "poll_event hz now lv g =
     (case gpio_poll hz now (lv (poll_gpio g)) g of Inr (Some f, _) \<Rightarrow> [fn_event f] | _ \<Rightarrow> [])"

fun events_for :: "nat \<Rightarrow> board_input \<Rightarrow> 'f neufbox_board \<Rightarrow> event_id list" where
  "events_for hz (Poll_service lv) b = poll_event hz (jiffies b) lv (service_poll b)"
| "events_for hz (Poll_clip lv) b = poll_event hz (jiffies b) lv (clip_poll b)"
| "events_for hz (Run lv) b = (case running b of None \<Rightarrow> [] | Some t \<Rightarrow> [timer_event t])"
| "events_for hz Ses_irq b = [event_id_ses_start]"
| "events_for hz Reset_irq b = [event_id_reset_down]"
| "events_for hz _ b = []"

lemma run_fn_spec:
  assumes "fifo (events b) = Some f"
  shows "\<exists>p. run_fn kf lv fn b = Inr (b\<lparr>pins_out := p, events := offer kf [fn_event fn] (events b)\<rparr>)"
proof -
  have id: "b = b\<lparr>pins_out := pins_out b\<rparr>" by simp
  show ?thesis
    using assms
    by (cases fn) (simp_all add: trigger_service_up_def trigger_service_down_def trigger_service_long_def
        trigger_clip_up_def trigger_clip_down_def trigger_clip_long_def set_pin_def, (subst id, blast)+)
qed

section \<open>Every handler keeps the invariant\<close>

lemma call_opt_spec:
  assumes "fifo (events b) = Some f"
  shows "\<exists>p. call_opt kf lv fn b = Inr (b\<lparr>pins_out := p, events := offer kf (case fn of None \<Rightarrow> [] | Some f \<Rightarrow> [fn_event f]) (events b)\<rparr>)"
proof (cases fn)
  case None
  then show ?thesis by (auto simp: call_opt_def intro!: exI [of _ "pins_out b"])
next
  case (Some fn')
  with run_fn_spec [OF assms, of kf lv fn'] show ?thesis by (simp add: call_opt_def)
qed

lemma fifo_offer_opt [simp]:
  "fifo d = Some f \<Longrightarrow> \<exists>f'. fifo (offer kf (case fn of None \<Rightarrow> [] | Some f \<Rightarrow> [fn_event f]) d) = Some f'"
  by (cases fn) auto

lemma poll_service_spec:
  assumes "board_inv b"
  shows "\<exists>fn g p. gpio_poll hz (jiffies b) (lv (poll_gpio (service_poll b))) (service_poll b) = Inr (fn, g) \<and>
    board_handle kf hz (Poll_service lv) b =
      Inr (b\<lparr>service_poll := g, pins_out := p, events := offer kf (events_for hz (Poll_service lv) b) (events b)\<rparr>) \<and>
    board_inv (b\<lparr>service_poll := g, pins_out := p, events := offer kf (events_for hz (Poll_service lv) b) (events b)\<rparr>)"
proof -
  from assms obtain f where f: "fifo (events b) = Some f" and ok: "poll_ok (service_poll b)" by (auto simp: board_inv_defs)
  from gpio_poll_ok [OF ok, of hz "jiffies b" "lv (poll_gpio (service_poll b))"] obtain fn g where
    g: "gpio_poll hz (jiffies b) (lv (poll_gpio (service_poll b))) (service_poll b) = Inr (fn, g)" "poll_ok g"
      "same_fns (service_poll b) g" by blast
  moreover from call_opt_spec [of "b\<lparr>service_poll := g\<rparr>" f kf lv fn] f obtain p where
    "call_opt kf lv fn (b\<lparr>service_poll := g\<rparr>) =
      Inr (b\<lparr>service_poll := g, pins_out := p, events := offer kf (case fn of None \<Rightarrow> [] | Some f \<Rightarrow> [fn_event f]) (events b)\<rparr>)" by auto
  moreover have "events_for hz (Poll_service lv) b = (case fn of None \<Rightarrow> [] | Some f \<Rightarrow> [fn_event f])"
    using g(1) by (simp add: poll_event_def split: option.splits)
  ultimately show ?thesis using assms fifo_offer_opt [OF f, of kf fn]
    by (auto simp: board_inv_defs same_fns_def)
qed

lemma poll_clip_spec:
  assumes "board_inv b" "\<not> femtocell b"
  shows "\<exists>fn g p. gpio_poll hz (jiffies b) (lv (poll_gpio (clip_poll b))) (clip_poll b) = Inr (fn, g) \<and>
    board_handle kf hz (Poll_clip lv) b =
      Inr (b\<lparr>clip_poll := g, pins_out := p, events := offer kf (events_for hz (Poll_clip lv) b) (events b)\<rparr>) \<and>
    board_inv (b\<lparr>clip_poll := g, pins_out := p, events := offer kf (events_for hz (Poll_clip lv) b) (events b)\<rparr>)"
proof -
  from assms obtain f where f: "fifo (events b) = Some f" and ok: "poll_ok (clip_poll b)" by (auto simp: board_inv_defs)
  from gpio_poll_ok [OF ok, of hz "jiffies b" "lv (poll_gpio (clip_poll b))"] obtain fn g where
    g: "gpio_poll hz (jiffies b) (lv (poll_gpio (clip_poll b))) (clip_poll b) = Inr (fn, g)" "poll_ok g"
      "same_fns (clip_poll b) g" by blast
  moreover from call_opt_spec [of "b\<lparr>clip_poll := g\<rparr>" f kf lv fn] f obtain p where
    "call_opt kf lv fn (b\<lparr>clip_poll := g\<rparr>) =
      Inr (b\<lparr>clip_poll := g, pins_out := p, events := offer kf (case fn of None \<Rightarrow> [] | Some f \<Rightarrow> [fn_event f]) (events b)\<rparr>)" by auto
  moreover have "events_for hz (Poll_clip lv) b = (case fn of None \<Rightarrow> [] | Some f \<Rightarrow> [fn_event f])"
    using g(1) by (simp add: poll_event_def split: option.splits)
  ultimately show ?thesis using assms fifo_offer_opt [OF f, of kf fn]
    by (auto simp: board_inv_defs same_fns_def)
qed

lemma expire_inv:
  assumes "board_inv b" "possible (Expire t) b"
  shows "board_inv ((clear_timer t b)\<lparr>running := Some t\<rparr>)"
  using assms by (cases t) (auto simp: board_inv_defs del_timer_def poll_ok_def split: option.splits)

lemma ses_irq_spec:
  assumes "board_inv b" "possible Ses_irq b"
  shows "\<exists>b'. board_handle kf hz Ses_irq b = Inr b' \<and> board_inv b' \<and> events b' = offer kf (events_for hz Ses_irq b) (events b) \<and>
    service_poll b' = service_poll b \<and> clip_poll b' = clip_poll b \<and> running b' = running b"
proof -
  from assms obtain f where f: "fifo (events b) = Some f" by (auto simp: board_inv_defs)
  have free: "ses_timeout b = None" "running b \<noteq> Some Ses_timer"
    using assms by (auto simp: board_inv_defs split: if_splits)
  have "uint (resource b irq_reset_button) \<noteq> uint (resource b irq_ses_button)"
    by (rule resources_irq [OF board_inv_resources [OF assms(1)]])
  with f free assms fifo_offer [OF f, of kf event_id_ses_start] show ?thesis
    by (auto simp: switch_ses_handler_def disable_irq_def set_irq_cfg_def board_inv_defs)
qed

lemma reset_irq_spec:
  assumes "board_inv b"
  shows "\<exists>b'. board_handle kf hz Reset_irq b = Inr b' \<and> board_inv b' \<and> events b' = offer kf (events_for hz Reset_irq b) (events b) \<and>
    service_poll b' = service_poll b \<and> clip_poll b' = clip_poll b \<and> running b' = running b"
proof -
  from assms obtain f where f: "fifo (events b) = Some f" by (auto simp: board_inv_defs)
  with assms fifo_offer [OF f, of kf event_id_reset_down] show ?thesis
    by (auto simp: switch_reset_handler_def set_irq_cfg_def board_inv_defs)
qed

lemma run_spec:
  assumes "board_inv b" "running b = Some t"
  shows "\<exists>b'. board_handle kf hz (Run lv) b = Inr b' \<and> board_inv b' \<and> events b' = offer kf (events_for hz (Run lv) b) (events b) \<and>
    service_poll b' = service_poll b \<and> clip_poll b' = clip_poll b \<and> running b' = None"
proof -
  from assms obtain f where f: "fifo (events b) = Some f" by (auto simp: board_inv_defs)
  note o = fifo_offer [OF f, of kf]
  have run_done: "board_inv (b\<lparr>running := None, pins_out := p, events := d\<rparr>)" if "t \<noteq> Ses_timer" "fifo d \<noteq> None" for p d
    using assms that by (simp add: board_inv_defs split: if_splits)
  show ?thesis
  proof (cases t)
    case Ses_timer
    have "uint (resource b irq_reset_button) \<noteq> uint (resource b irq_ses_button)"
      by (rule resources_irq [OF board_inv_resources [OF assms(1)]])
    with f assms o [of event_id_ses_timeout] Ses_timer gpio_to_irq_ses [OF board_inv_resources [OF assms(1)]] show ?thesis
      by (auto simp: switch_ses_timeout_def enable_irq_def set_irq_cfg_def board_inv_defs Let_def)
  next
    case Service_timer
    then obtain p where r: "run_fn kf lv Service_long (b\<lparr>running := None\<rparr>) =
        Inr (b\<lparr>running := None, pins_out := p, events := offer kf [event_id_service_long] (events b)\<rparr>)"
      using run_fn_spec [of "b\<lparr>running := None\<rparr>" f kf lv Service_long] f by auto
    have "fn_long (service_poll b) = Some Service_long" using assms by (simp add: board_inv_defs)
    with r run_done assms Service_timer o show ?thesis by (simp add: call_def)
  next
    case Clip_timer
    then obtain p where r: "run_fn kf lv Clip_long (b\<lparr>running := None\<rparr>) =
        Inr (b\<lparr>running := None, pins_out := p, events := offer kf [event_id_clip_long] (events b)\<rparr>)"
      using run_fn_spec [of "b\<lparr>running := None\<rparr>" f kf lv Clip_long] f by auto
    have "fn_long (clip_poll b) = Some Clip_long" using assms Clip_timer by (simp add: board_inv_defs split: if_splits)
    with r run_done assms Clip_timer o show ?thesis by (simp add: call_def)
  qed
qed

lemma events_read_ready:
  "fifo d = Some f \<Longrightarrow> \<exists>r h d'. events_read kf sig stack n d = Inr (r, h, d') \<and> fifo d' \<noteq> None"
  by (auto simp: events_read_def Let_def split: prod.splits)

lemma write_pid_inv: "board_inv b \<Longrightarrow> serialization_init b = b\<lparr>serial := read_serialization (boot b)\<rparr>"
  by (simp add: serialization_init_def board_inv_def)

lemma board_inv_serial [simp]: "board_inv (b\<lparr>serial := s\<rparr>) = board_inv b"
  by (simp add: board_inv_defs)

theorem board_handle_ok:
  assumes "board_inv b" "possible inp b"
  shows "\<exists>b'. board_handle kf hz inp b = Inr b' \<and> board_inv b'"
proof -
  from assms obtain f where f: "fifo (events b) = Some f" by (auto simp: board_inv_defs)
  show ?thesis
  proof (cases inp)
    case (Poll_service lv)
    with poll_service_spec [OF assms(1)] show ?thesis by blast
  next
    case (Poll_clip lv)
    with poll_clip_spec [OF assms(1)] assms(2) show ?thesis by (metis possible.simps(1))
  next
    case (Run lv)
    with run_spec [OF assms(1)] assms(2) show ?thesis by fastforce
  next
    case Ses_irq
    with ses_irq_spec [OF assms(1)] assms(2) show ?thesis by blast
  next
    case Reset_irq
    with reset_irq_spec [OF assms(1)] show ?thesis by blast
  next
    case (Read_event sig stack n)
    with events_read_ready [OF f, of kf sig stack n] assms(1) show ?thesis by auto
  next
    case (Expire t)
    with expire_inv [OF assms(1)] assms(2) show ?thesis by simp
  qed (use assms(1) f in \<open>auto simp: write_pid_inv events_open_def events_release_def\<close>)
qed

end
