(* ===== verification/Board_Props.thy ===== *)
theory Board_Props
  imports Board_Inv
begin

text \<open>
  Properties of the buttons and the event queue: the queue is first-in first-out and holds whole
  events, no sequence of inputs makes the board misuse the kernel, a button is
  debounced, and its events alternate and reach the queue.
\<close>

section \<open>A queue of the kernel\<close>

text \<open>A queue that keeps the documented behaviour: its bytes and its capacity.\<close>

definition list_kfifo :: "(bytes \<times> nat) kfifo_ops" where
  "list_kfifo =
     \<lparr>kfifo_alloc = (\<lambda>n. Some ([], n)),
      kfifo_put = (\<lambda>f bs. let n = min (length bs) (snd f - length (fst f)) in (n, (fst f @ take n bs, snd f))),
      kfifo_get = (\<lambda>f n. (take n (fst f), (drop n (fst f), snd f))),
      kfifo_len = (\<lambda>f. length (fst f))\<rparr>"

lemma list_kfifo_spec: "kfifo_spec list_kfifo fst snd"
  by (simp add: kfifo_spec_def list_kfifo_def Let_def)

section \<open>The event queue\<close>

text \<open>A sequence of enqueued events (\<open>Some\<close>) and reads (\<open>None\<close>): the events accepted, those read, the device.\<close>

fun events_run :: "'f kfifo_ops \<Rightarrow> event_id option list \<Rightarrow> 'f events_device \<Rightarrow> event_id list \<times> event_id list \<times> 'f events_device" where
  "events_run kf [] dev = ([], [], dev)"
| "events_run kf (Some e # ops) dev =
     (let (b, dev) = events_put kf e dev; (acc, got, dev) = events_run kf ops dev
      in (if b then e # acc else acc, got, dev))"
| "events_run kf (None # ops) dev =
     (let (r, dev) = events_get kf dev; (acc, got, dev) = events_run kf ops dev
      in (acc, (case r of None \<Rightarrow> got | Some e \<Rightarrow> e # got), dev))"

lemma events_run_eq: "events_run kf ops dev = evq.run kf ops dev"
  by (induction kf ops dev rule: events_run.induct) (auto split: prod.splits option.splits)

lemma events_init_ok:
  assumes "kfifo_spec kf content capacity" "events_init kf err True = (0, Some dev)" "fifo dev \<noteq> None"
  shows "events_ok kf content capacity dev" "events_of content dev = []"
  using assms kfifo_allocD [OF assms(1), of 6]
  by (auto simp: events_init_def events_ok_def events_of_def intro: exI [of _ "[]"] split: if_splits)

text \<open>
  C22. The event queue is first in, first out, and never splits an event: whatever events are
  enqueued and read after \<open>events_init\<close>, in any order, the events read are the first of those
  accepted, in their order, the rest are in the queue, and while at most sixteen have been
  enqueued none is refused. The kernel's queue of bytes behaves as documented.
\<close>

theorem events_queue_fifo:
  assumes "kfifo_spec kf content capacity" "events_init kf err True = (0, Some dev)" "fifo dev \<noteq> None"
    and "events_run kf ops dev = (acc, got, dev')"
  shows "acc = got @ events_of content dev' \<and> length (events_of content dev') \<le> 16 \<and>
    (length (filter (\<lambda>x. x \<noteq> None) ops) \<le> 16 \<longrightarrow> acc = map the (filter (\<lambda>x. x \<noteq> None) ops))"
proof -
  note ok = events_init_ok [OF assms(1-3)]
  have run: "evq.run kf ops dev = (acc, got, dev')" using assms(4) by (simp add: events_run_eq)
  from evq.run_fifo [OF ok(1) run] have "events_ok kf content capacity dev'" "acc = got @ events_of content dev'"
    by (simp_all add: ok(2))
  moreover from this(1) have "length (events_of content dev') \<le> 16" by (auto elim!: events_okE)
  moreover have "acc = map the (filter (\<lambda>x. x \<noteq> None) ops)" if "length (filter (\<lambda>x. x \<noteq> None) ops) \<le> 16"
    using evq.run_accepts [OF ok(1), of ops] that run by (simp add: ok(2))
  ultimately show ?thesis by blast
qed

theorem events_queue_fifo_witness:
  "events_run list_kfifo [Some event_id_clip_down, Some event_id_clip_up, None]
     \<lparr>inuse = False, fifo = Some ([], 64)\<rparr> =
   ([event_id_clip_down, event_id_clip_up], [event_id_clip_down],
    \<lparr>inuse = False, fifo = Some (event_bytes event_id_clip_up, 64)\<rparr>) \<and>
   [event_id_clip_down, event_id_clip_up] = [event_id_clip_down] @ decode_events (event_bytes event_id_clip_up)"
proof -
  have run: "events_run list_kfifo [Some event_id_clip_down, Some event_id_clip_up, None]
     \<lparr>inuse = False, fifo = Some ([], 64)\<rparr> =
   ([event_id_clip_down, event_id_clip_up], [event_id_clip_down],
    \<lparr>inuse = False, fifo = Some (event_bytes event_id_clip_up, 64)\<rparr>)" by code_simp
  have init: "events_init list_kfifo 0 True = (0, Some \<lparr>inuse = False, fifo = Some ([], 64)\<rparr>)"
    by (simp add: events_init_def list_kfifo_def)
  from events_queue_fifo [OF list_kfifo_spec init _ run] run show ?thesis by (simp add: events_of_def)
qed

section \<open>The reachable states of the board\<close>

definition zero_poll :: gpio_poll_struct where
  "zero_poll = \<lparr>poll_gpio = 0, poll_timer = None, poll_trigger = 0, poll_value = 0, fn_up = None, fn_down = None, fn_long = None\<rparr>"

definition zero_board :: "bytes \<Rightarrow> 'f events_device \<Rightarrow> 'f neufbox_board" where
  "zero_board m dev =
     \<lparr>boot = m, serial = \<lparr>pid = [], wpa_key = [], mac_address = []\<rparr>, resource = (\<lambda>_. 0), leds_map = leds_maps_nb4_foxconn,
      femtocell = False, clip_poll = zero_poll, service_poll = zero_poll, ses_timeout = None, irq_depth = (\<lambda>_. 0),
      ext_irq_cfg = 0, pins_out = (\<lambda>_. 0), events = dev, jiffies = 0, running = None\<rparr>"

text \<open>The board after \<open>board_prom_init\<close> and \<open>board_init\<close>.\<close>

definition booted_board :: "bytes \<Rightarrow> 'f events_device \<Rightarrow> 'f neufbox_board" where
  "booted_board m dev = snd (board_init True True (serialization_init (zero_board m dev)))"

inductive board_reach :: "'f kfifo_ops \<Rightarrow> nat \<Rightarrow> bytes \<Rightarrow> 'f neufbox_board \<Rightarrow> bool" for kf hz m where
  start: "events_init kf err True = (0, Some dev) \<Longrightarrow> fifo dev \<noteq> None \<Longrightarrow> board_reach kf hz m (booted_board m dev)"
| step: "board_reach kf hz m b \<Longrightarrow> possible inp b \<Longrightarrow> board_handle kf hz inp b = Inr b' \<Longrightarrow> board_reach kf hz m b'"

lemma booted_service [simp]:
  "poll_value (service_poll (booted_board m dev)) = 1" "poll_timer (service_poll (booted_board m dev)) = None"
  "running (booted_board m dev) = None" "events (booted_board m dev) = dev" "irq_depth (booted_board m dev) i = 0"
  by (cases "board_kind (pid (read_serialization m))";
      simp add: booted_board_def board_init_def serialization_init_def zero_board_def set_pin_def Let_def)+

lemma booted_inv: "fifo dev \<noteq> None \<Longrightarrow> board_inv (booted_board m dev)"
  by (cases "board_kind (pid (read_serialization m))")
    (simp add: booted_board_def board_init_def serialization_init_def zero_board_def zero_poll_def set_pin_def
      board_inv_defs Let_def)

lemma board_reach_inv: "board_reach kf hz m b \<Longrightarrow> board_inv b"
proof (induction rule: board_reach.induct)
  case (step b inp b')
  with board_handle_ok [of b inp kf hz] show ?case by simp
qed (rule booted_inv)

text \<open>
  C11. Whatever happens to the board after it has started, its handlers never misuse the kernel: no
  timer is added or initialised while it is pending, no interrupt is unmasked more often than it was
  masked, no null pointer is called. The trigger of the service button, which is unsigned,
  stays between one and five, and the interrupt of the SES button is masked exactly while its timer
  is pending or about to run.
\<close>

theorem board_no_kernel_bug:
  assumes "board_reach kf hz m b" "possible inp b"
  shows "(\<exists>b'. board_handle kf hz inp b = Inr b') \<and>
    poll_trigger (service_poll b) \<in> {1, 2, 3, 4, 5} \<and> poll_value (service_poll b) \<in> {0, 1} \<and>
    irq_depth b (uint (resource b irq_ses_button)) = (if ses_timeout b \<noteq> None \<or> running b = Some Ses_timer then 1 else 0)"
proof -
  note inv = board_reach_inv [OF assms(1)]
  then have "poll_ok (service_poll b)" "ses_ok b" by (simp_all add: board_inv_def service_ok_def)
  then show ?thesis
    using board_handle_ok [OF inv assms(2), of kf hz] unfolding poll_ok_def ses_ok_def ses_busy_def by blast
qed

theorem board_no_kernel_bug_witness:
  "\<exists>b'. board_handle list_kfifo 200 Ses_irq (booted_board [] \<lparr>inuse = False, fifo = Some ([], 64)\<rparr>) = Inr b'"
proof -
  have "board_reach list_kfifo 200 [] (booted_board [] \<lparr>inuse = False, fifo = Some ([], 64)\<rparr>)"
    by (rule board_reach.start [of _ 0]) (simp_all add: events_init_def list_kfifo_def)
  moreover have "possible Ses_irq (booted_board [] \<lparr>inuse = False, fifo = Some ([], 64)\<rparr>)"
    by simp
  ultimately show ?thesis using board_no_kernel_bug by blast
qed

section \<open>Debouncing\<close>

text \<open>
  C31. A polled button is debounced. Four polls with the same level bring the value to it, with one
  call of the function for that direction if it was the other one and none otherwise. After a change of the
  value, when the trigger is at its maximum, no three polls with whatever levels change it or call
  a function.
\<close>

theorem gpio_poll_debounces:
  assumes "poll_ok g" "level \<in> {0, 1}"
  shows "(4 \<le> length ts \<longrightarrow>
      (\<exists>g'. poll_run hz (map (\<lambda>t. (t, level)) ts) g =
        Inr (if level = poll_value g then []
             else case (if level = 0 then fn_down g else fn_up g) of None \<Rightarrow> [] | Some f \<Rightarrow> [f], g') \<and>
        poll_value g' = level \<and> poll_ok g')) \<and>
    (poll_trigger g = POLL_TRIGGER \<longrightarrow> length xs \<le> 3 \<longrightarrow>
      (\<exists>g'. poll_run hz xs g = Inr ([], g') \<and> poll_value g' = poll_value g))"
proof (intro conjI impI)
  assume "4 \<le> length ts"
  with assms poll_run_stays [OF assms(1), of "map (\<lambda>t. (t, level)) ts" hz]
    poll_run_settles [OF assms(1), of "map (\<lambda>t. (t, level)) ts" level hz] polls_needed_le [OF assms(1)]
  show "\<exists>g'. poll_run hz (map (\<lambda>t. (t, level)) ts) g =
        Inr (if level = poll_value g then []
             else case (if level = 0 then fn_down g else fn_up g) of None \<Rightarrow> [] | Some f \<Rightarrow> [f], g') \<and>
        poll_value g' = level \<and> poll_ok g'"
    by (cases "level = poll_value g") auto
next
  assume "poll_trigger g = POLL_TRIGGER" "length xs \<le> 3"
  then have "length xs < polls_needed g" by (simp add: polls_needed_def POLL_TRIGGER_def)
  from poll_run_quiet [OF assms(1) this, of hz]
  show "\<exists>g'. poll_run hz xs g = Inr ([], g') \<and> poll_value g' = poll_value g" by auto
qed

theorem gpio_poll_debounces_witness:
  "(\<exists>g'. poll_run 200 [(0, 0), (4, 0), (8, 0), (12, 0)] (poll_of 27 Service_up Service_down Service_long) =
      Inr ([Service_down], g') \<and> poll_value g' = 0) \<and>
   (\<exists>g'. poll_run 200 [(0, 0), (4, 0), (8, 0)] (poll_of 27 Service_up Service_down Service_long) = Inr ([], g') \<and>
      poll_value g' = 1)"
proof -
  have "poll_trigger (poll_of 27 Service_up Service_down Service_long) = POLL_TRIGGER"
    by (simp add: poll_of_def gpio_poll_init_def)
  with gpio_poll_debounces [OF poll_of_ok(1), of 0 "[0, 4, 8, 12]" 200 27 Service_up Service_down Service_long
      "[(0, 0), (4, 0), (8, 0)]"]
  show ?thesis by (auto simp del: poll_run.simps)
qed

section \<open>The events of a button\<close>

text \<open>Sequences of inputs with the events that the handlers offer to the queue.\<close>

inductive board_trace :: "'f kfifo_ops \<Rightarrow> nat \<Rightarrow> 'f neufbox_board \<Rightarrow> event_id list \<Rightarrow> 'f neufbox_board \<Rightarrow> bool" for kf hz where
  none: "board_trace kf hz b [] b"
| input: "possible inp b \<Longrightarrow> board_handle kf hz inp b = Inr b' \<Longrightarrow> board_trace kf hz b' es b'' \<Longrightarrow>
    board_trace kf hz b (events_for hz inp b @ es) b''"

text \<open>
  The events of the service button seen as moves of the button: whether it is down after them,
  given that it was before; no value when one does not fit.
\<close>

fun press_walk :: "bool \<Rightarrow> event_id list \<Rightarrow> bool option" where
  "press_walk down [] = Some down"
| "press_walk down (e # es) =
     (if e = event_id_service_down then (if down then None else press_walk True es)
      else if e = event_id_service_up then (if down then press_walk False es else None)
      else press_walk down es)"

lemma press_walk_append:
  "press_walk d es = Some d' \<Longrightarrow> press_walk d (es @ es') = press_walk d' es'"
  by (induction d es rule: press_walk.induct) (auto split: if_splits)

abbreviation is_down :: "'f neufbox_board \<Rightarrow> bool" where
  "is_down b \<equiv> poll_value (service_poll b) = 0"

text \<open>The long presses still to be reported.\<close>

definition long_due :: "'f neufbox_board \<Rightarrow> nat" where
  "long_due b = (if poll_timer (service_poll b) \<noteq> None then 1 else 0) + (if running b = Some Service_timer then 1 else 0)"

lemma poll_event_service:
  assumes "board_inv b" "gpio_poll hz (jiffies b) (lv (poll_gpio (service_poll b))) (service_poll b) = Inr (fn, g)"
  shows "press_walk (is_down b) (poll_event hz (jiffies b) lv (service_poll b)) = Some (poll_value g = 0) \<and>
    count_list (poll_event hz (jiffies b) lv (service_poll b)) event_id_service_long = 0 \<and>
    (if poll_timer g \<noteq> None then 1 else 0) \<le>
      (if poll_timer (service_poll b) \<noteq> None then 1 else 0) + count_list (poll_event hz (jiffies b) lv (service_poll b)) event_id_service_down"
proof -
  have ok: "poll_ok (service_poll b)" and fns: "fn_up (service_poll b) = Some Service_up" "fn_down (service_poll b) = Some Service_down"
    using assms(1) by (auto simp: board_inv_defs)
  show ?thesis
    using ok by (rule gpio_poll_cases [of _ hz "jiffies b" "lv (poll_gpio (service_poll b))"])
      (use assms(2) fns in \<open>auto simp: poll_event_def\<close>)
qed

lemma board_step_walk:
  assumes "board_inv b" "possible inp b" "board_handle kf hz inp b = Inr b'"
  shows "press_walk (is_down b) (events_for hz inp b) = Some (is_down b') \<and>
    count_list (events_for hz inp b) event_id_service_long + long_due b' \<le>
      long_due b + count_list (events_for hz inp b) event_id_service_down"
proof -
  show ?thesis
  proof (cases inp)
    case (Poll_service lv)
    from poll_service_spec [OF assms(1), of hz lv kf] obtain fn g p where
      g: "gpio_poll hz (jiffies b) (lv (poll_gpio (service_poll b))) (service_poll b) = Inr (fn, g)"
        "b' = b\<lparr>service_poll := g, pins_out := p, events := offer kf (events_for hz (Poll_service lv) b) (events b)\<rparr>"
      using assms(3) Poll_service by auto
    from poll_event_service [where lv = lv, OF assms(1) g(1)] g(2) Poll_service show ?thesis by (auto simp: long_due_def)
  next
    case (Poll_clip lv)
    with assms have clip: "poll_ok (clip_poll b)" "fn_up (clip_poll b) = Some Clip_up" "fn_down (clip_poll b) = Some Clip_down"
      by (auto simp: board_inv_defs)
    from poll_clip_spec [OF assms(1), of hz lv kf] assms Poll_clip obtain fn g p where
      g: "gpio_poll hz (jiffies b) (lv (poll_gpio (clip_poll b))) (clip_poll b) = Inr (fn, g)"
        "b' = b\<lparr>clip_poll := g, pins_out := p, events := offer kf (events_for hz (Poll_clip lv) b) (events b)\<rparr>" by auto
    from gpio_poll_ok [OF clip(1), of hz "jiffies b" "lv (poll_gpio (clip_poll b))"] g(1) clip(2,3)
    have "fn \<in> {None, Some Clip_up, Some Clip_down}" by auto
    with g Poll_clip show ?thesis by (auto simp: long_due_def poll_event_def)
  next
    case (Expire t)
    with assms show ?thesis by (cases t) (auto simp: long_due_def del_timer_def split: option.splits)
  next
    case (Run lv)
    with assms(2) obtain t where t: "running b = Some t" by auto
    from run_spec [OF assms(1) t, of kf hz lv] assms(3) Run t show ?thesis by (cases t) (auto simp: long_due_def)
  next
    case Ses_irq
    with ses_irq_spec [OF assms(1), of kf hz] assms(2,3) show ?thesis by (auto simp: long_due_def)
  next
    case Reset_irq
    with reset_irq_spec [OF assms(1), of kf hz] assms(3) show ?thesis by (auto simp: long_due_def)
  qed (use assms in \<open>auto simp: long_due_def rbind_Inr write_pid_inv\<close>)
qed

lemma board_trace_append:
  "board_trace kf hz b es b' \<Longrightarrow> board_trace kf hz b' es' b'' \<Longrightarrow> board_trace kf hz b (es @ es') b''"
  by (induction rule: board_trace.induct) (auto intro: board_trace.input)

lemma board_trace_one:
  "possible inp b \<Longrightarrow> board_handle kf hz inp b = Inr b' \<Longrightarrow> board_trace kf hz b (events_for hz inp b) b'"
  using board_trace.input [OF _ _ board_trace.none, of inp b kf hz b'] by simp

lemma board_trace_walk:
  assumes "board_trace kf hz b es b'" "board_inv b"
  shows "board_inv b' \<and> press_walk (is_down b) es = Some (is_down b') \<and>
    count_list es event_id_service_long + long_due b' \<le> long_due b + count_list es event_id_service_down"
  using assms
proof (induction rule: board_trace.induct)
  case (input inp b b' es b'')
  have "board_inv b'" using board_handle_ok [OF input.prems input.hyps(1), of kf hz] input.hyps(2) by auto
  with input.IH board_step_walk [OF input.prems input.hyps(1,2)] show ?case by (auto simp: press_walk_append)
qed simp

section \<open>A press of the button\<close>

text \<open>Polls of the service button, each after some time: the inputs, and what the pin shows when.\<close>

fun polls :: "(nat \<times> (nat \<Rightarrow> int)) list \<Rightarrow> board_input list" where
  "polls [] = []"
| "polls ((n, lv) # xs) = Time n # Poll_service lv # polls xs"

fun samples :: "nat \<Rightarrow> nat \<Rightarrow> (nat \<times> (nat \<Rightarrow> int)) list \<Rightarrow> (nat \<times> int) list" where
  "samples gpio now [] = []"
| "samples gpio now ((n, lv) # xs) = (now + n, lv gpio) # samples gpio (now + n) xs"

fun board_run :: "'f kfifo_ops \<Rightarrow> nat \<Rightarrow> board_input list \<Rightarrow> 'f neufbox_board \<Rightarrow> kernel_bug + 'f neufbox_board" where
  "board_run kf hz [] b = Inr b"
| "board_run kf hz (inp # inps) b = rbind (board_handle kf hz inp b) (board_run kf hz inps)"

lemma samples_simps [simp]:
  "length (samples gpio now xs) = length xs"
  "(\<forall>x\<in>set (samples gpio now xs). snd x = v) \<longleftrightarrow> (\<forall>x\<in>set xs. snd x gpio = v)"
  by (induction gpio now xs rule: samples.induct) auto

lemma offer_append: "offer kf (es @ es') d = offer kf es' (offer kf es d)"
  by (simp add: offer_def)

lemma offer_events:
  assumes "events_ok kf content capacity d"
  shows "events_ok kf content capacity (offer kf [e] d) \<and>
    events_of content (offer kf [e] d) = events_of content d @ (if length (events_of content d) < 16 then [e] else [])"
  using event_enqueue_spec [OF assms, of e] by (auto simp: offer_def events_put_def)

lemma board_polls:
  assumes "board_inv b" "poll_run hz (samples (poll_gpio (service_poll b)) (jiffies b) xs) (service_poll b) = Inr (fs, g)"
  shows "\<exists>b'. board_run kf hz (polls xs) b = Inr b' \<and> board_inv b' \<and> service_poll b' = g \<and>
    events b' = offer kf (map fn_event fs) (events b) \<and> board_trace kf hz b (map fn_event fs) b' \<and>
    running b' = running b \<and> jiffies b' = jiffies b + sum_list (map fst xs)"
  using assms
proof (induction xs arbitrary: b fs)
  case Nil
  then show ?case by (auto intro: board_trace.none)
next
  case (Cons x xs)
  obtain n lv where x: "x = (n, lv)" by fastforce
  let ?b = "b\<lparr>jiffies := jiffies b + n\<rparr>"
  let ?es = "events_for hz (Poll_service lv) ?b"
  have inv: "board_inv ?b" using Cons.prems(1) by simp
  from poll_service_spec [OF inv, of hz lv kf] obtain fn g1 p where
    g1: "gpio_poll hz (jiffies b + n) (lv (poll_gpio (service_poll b))) (service_poll b) = Inr (fn, g1)"
      "board_handle kf hz (Poll_service lv) ?b = Inr (?b\<lparr>service_poll := g1, pins_out := p, events := offer kf ?es (events b)\<rparr>)"
      "board_inv (?b\<lparr>service_poll := g1, pins_out := p, events := offer kf ?es (events b)\<rparr>)" by auto
  let ?b1 = "?b\<lparr>service_poll := g1, pins_out := p, events := offer kf ?es (events b)\<rparr>"
  have gpio: "poll_gpio g1 = poll_gpio (service_poll b)"
    using gpio_poll_ok [of "service_poll b" hz "jiffies b + n" "lv (poll_gpio (service_poll b))"] g1(1) Cons.prems(1)
    by (auto simp: board_inv_defs same_fns_def)
  have es: "?es = (case fn of None \<Rightarrow> [] | Some f \<Rightarrow> [fn_event f])"
    using g1(1) by (simp add: poll_event_def split: option.splits)
  from Cons.prems(2) g1(1) x gpio obtain fs' where
    fs': "poll_run hz (samples (poll_gpio (service_poll ?b1)) (jiffies ?b1) xs) (service_poll ?b1) = Inr (fs', g)"
      "fs = (case fn of None \<Rightarrow> fs' | Some f \<Rightarrow> f # fs')" by (auto simp: rbind_Inr)
  have map_fs: "map fn_event fs = ?es @ map fn_event fs'" using es fs'(2) by (simp split: option.splits)
  from Cons.IH [OF g1(3) fs'(1)] obtain b' where
    b': "board_run kf hz (polls xs) ?b1 = Inr b'" "board_inv b'" "service_poll b' = g"
      "events b' = offer kf (map fn_event fs') (offer kf ?es (events b))" "board_trace kf hz ?b1 (map fn_event fs') b'"
      "running b' = running b" "jiffies b' = jiffies b + n + sum_list (map fst xs)" by auto
  have "board_trace kf hz ?b (?es @ map fn_event fs') b'"
    using board_trace.input [OF _ g1(2) b'(5)] by simp
  then have "board_trace kf hz b (map fn_event fs) b'"
    using board_trace.input [of "Time n" b kf hz ?b] map_fs by simp
  with b' g1(2) map_fs x show ?case by (auto simp: offer_append)
qed

lemma offer_ok: "events_ok kf content capacity d \<Longrightarrow> events_ok kf content capacity (offer kf es d)"
proof (induction es arbitrary: d)
  case (Cons e es)
  then show ?case using offer_events [OF Cons.prems, of e] offer_append [of kf "[e]" es d] by simp
qed simp

lemma events_ok_inuse [simp]: "events_ok kf content capacity (d\<lparr>inuse := u\<rparr>) = events_ok kf content capacity d"
  by (simp add: events_ok_def)

lemma events_read_ok:
  assumes "events_ok kf content capacity d" "length stack = 4" "events_read kf sig stack n d = Inr (r, h, d')"
  shows "events_ok kf content capacity d'"
proof (cases "4 \<le> n")
  case True
  from events_read_spec [OF assms(1) True assms(2), of sig] assms(1,3) show ?thesis by (auto split: list.splits)
next
  case False
  with assms show ?thesis by (simp add: events_read_def)
qed

lemma board_handle_events:
  assumes "board_inv b" "possible inp b" "board_handle kf hz inp b = Inr b'" "events_ok kf content capacity (events b)"
  shows "events_ok kf content capacity (events b')"
proof (cases inp)
  case (Poll_service lv)
  with poll_service_spec [OF assms(1), of hz lv kf] assms(3,4) show ?thesis by (auto intro: offer_ok)
next
  case (Poll_clip lv)
  with poll_clip_spec [OF assms(1), of hz lv kf] assms show ?thesis by (auto intro: offer_ok)
next
  case (Run lv)
  with assms(2) obtain t where "running b = Some t" by auto
  with run_spec [OF assms(1), of t kf hz lv] Run assms(3,4) show ?thesis by (auto intro: offer_ok)
next
  case (Expire t)
  with assms(3,4) show ?thesis by (cases t) auto
next
  case Ses_irq
  with ses_irq_spec [OF assms(1), of kf hz] assms(2-4) show ?thesis by (auto intro: offer_ok)
next
  case Reset_irq
  with reset_irq_spec [OF assms(1), of kf hz] assms(3,4) show ?thesis by (auto intro: offer_ok)
next
  case (Read_event sig stack n)
  with assms(2-4) show ?thesis by (auto simp: rbind_Inr intro: events_read_ok)
qed (use assms in \<open>auto simp: write_pid_inv events_open_def events_release_def\<close>)

lemma board_reach_events:
  "board_reach kf hz m b \<Longrightarrow> kfifo_spec kf content capacity \<Longrightarrow> events_ok kf content capacity (events b)"
proof (induction rule: board_reach.induct)
  case (start err dev)
  then show ?case using events_init_ok(1) [OF start.prems start.hyps] by simp
next
  case (step b inp b')
  then show ?case using board_handle_events [OF board_reach_inv [OF step.hyps(1)] step.hyps(2,3)] by blast
qed

lemma service_settles:
  assumes "board_inv b" "4 \<le> length xs" "v \<in> {0, 1}" "\<forall>x\<in>set xs. snd x (poll_gpio (service_poll b)) = v"
    and "poll_value (service_poll b) \<noteq> v"
  shows "\<exists>b'. board_run kf hz (polls xs) b = Inr b' \<and> board_inv b' \<and> poll_value (service_poll b') = v \<and>
    events b' = offer kf [if v = 0 then event_id_service_down else event_id_service_up] (events b) \<and>
    board_trace kf hz b [if v = 0 then event_id_service_down else event_id_service_up] b' \<and>
    (v = 0 \<longrightarrow> poll_timer (service_poll b') \<noteq> None) \<and> poll_gpio (service_poll b') = poll_gpio (service_poll b) \<and>
    running b' = running b \<and> jiffies b' = jiffies b + sum_list (map fst xs)"
proof -
  let ?s = "samples (poll_gpio (service_poll b)) (jiffies b) xs"
  have ok: "poll_ok (service_poll b)" "fn_up (service_poll b) = Some Service_up" "fn_down (service_poll b) = Some Service_down"
      "fn_long (service_poll b) = Some Service_long"
    using assms(1) by (auto simp: board_inv_defs)
  from poll_run_settles [OF ok(1), of ?s v hz] polls_needed_le [OF ok(1)] assms ok obtain g where
    g: "poll_run hz ?s (service_poll b) = Inr ([if v = 0 then Service_down else Service_up], g)" "poll_value g = v"
      "v = 0 \<longrightarrow> poll_timer g \<noteq> None" "same_fns (service_poll b) g" by auto
  from board_polls [OF assms(1) g(1), of kf] g(2-4) show ?thesis by (auto simp: same_fns_def split: if_splits)
qed

text \<open>
  C15. A press of the service button is reported: from any state the board can reach with the button
  up and room in the queue, when the pin is low for four polls or more, between which time passes but no
  other handler runs (no other button, no interrupt, no timer function, no read), all handlers
  return, the event that the button went down is the last in the queue, and the timer of the long press
  is pending. The kernel's queue of bytes behaves as documented.
\<close>

theorem service_press_reported:
  assumes "board_reach kf hz m b" "kfifo_spec kf content capacity"
    and "poll_value (service_poll b) = 1" "length (events_of content (events b)) < 16"
    and "4 \<le> length xs" "\<forall>x\<in>set xs. snd x (poll_gpio (service_poll b)) = 0"
  shows "\<exists>b'. board_run kf hz (polls xs) b = Inr b' \<and>
    events_of content (events b') = events_of content (events b) @ [event_id_service_down] \<and>
    poll_timer (service_poll b') \<noteq> None"
proof -
  from service_settles [OF board_reach_inv [OF assms(1)] assms(5) _ assms(6), of kf hz] assms(3) obtain b' where
    "board_run kf hz (polls xs) b = Inr b'" "events b' = offer kf [event_id_service_down] (events b)"
    "poll_timer (service_poll b') \<noteq> None" by auto
  with offer_events [OF board_reach_events [OF assms(1,2)], of event_id_service_down] assms(4) show ?thesis by auto
qed

abbreviation test_board :: "(bytes \<times> nat) neufbox_board" where
  "test_board \<equiv> booted_board [] \<lparr>inuse = False, fifo = Some ([], 64)\<rparr>"

lemma test_board_reach: "board_reach list_kfifo 200 [] test_board"
  by (rule board_reach.start [of _ 0]) (simp_all add: events_init_def list_kfifo_def)

theorem service_press_reported_witness:
  "\<exists>b'. board_run list_kfifo 200 (polls (replicate 4 (4, \<lambda>_. 0))) test_board = Inr b' \<and>
    events_of fst (events b') = [event_id_service_down]"
  using service_press_reported [OF test_board_reach list_kfifo_spec, of "replicate 4 (4, \<lambda>_. 0)"]
  by (auto simp: events_of_def simp del: polls.simps board_run.simps)

section \<open>What the process reads\<close>

text \<open>The events that an input gives to the process that reads the device: the bytes that \<open>read\<close> returned.\<close>

fun read_by :: "'f kfifo_ops \<Rightarrow> board_input \<Rightarrow> 'f neufbox_board \<Rightarrow> event_id list" where
  "read_by kf (Read_event sig stack n) b =
     (case events_read kf sig stack n (events b) of Inr (Returned r bs, _, _) \<Rightarrow> decode_events bs | _ \<Rightarrow> [])"
| "read_by kf _ b = []"

fun is_read :: "board_input \<Rightarrow> bool" where
  "is_read (Read_event sig stack n) \<longleftrightarrow> True"
| "is_read _ \<longleftrightarrow> False"

text \<open>
  A sequence of inputs, in which the process keeps up with the events: whenever another handler
  runs, the queue has room for an event. The list holds the events that were read.
\<close>

inductive board_session ::
  "'f kfifo_ops \<Rightarrow> nat \<Rightarrow> ('f \<Rightarrow> bytes) \<Rightarrow> 'f neufbox_board \<Rightarrow> event_id list \<Rightarrow> 'f neufbox_board \<Rightarrow> bool" for kf hz content where
  none: "board_session kf hz content b [] b"
| go_on: "possible inp b \<Longrightarrow> is_read inp \<or> length (events_of content (events b)) < 16 \<Longrightarrow>
    board_handle kf hz inp b = Inr b' \<Longrightarrow> board_session kf hz content b' got b'' \<Longrightarrow>
    board_session kf hz content b (read_by kf inp b @ got) b''"

text \<open>What a handler leaves in the queue: the events before, the one it offers, less the one that was read.\<close>

lemma offer_opt_events:
  assumes "events_ok kf content capacity d" "length (events_of content d) < 16" "es = [] \<or> (\<exists>e. es = [e])"
  shows "events_of content (offer kf es d) = events_of content d @ es"
  using assms(3) offer_events [OF assms(1)] assms(2) by auto

lemma events_for_opt: "events_for hz inp b = [] \<or> (\<exists>e. events_for hz inp b = [e])"
  by (cases inp) (auto simp: poll_event_def split: sum.splits option.splits)

lemma handle_queue:
  assumes "board_inv b" "possible inp b" "board_handle kf hz inp b = Inr b'" "events_ok kf content capacity (events b)"
    and "is_read inp \<or> length (events_of content (events b)) < 16"
  shows "events_of content (events b) @ events_for hz inp b = read_by kf inp b @ events_of content (events b')"
proof -
  have add: "events_of content (offer kf (events_for hz inp b) (events b)) = events_of content (events b) @ events_for hz inp b"
    if "\<not> is_read inp" using offer_opt_events [OF assms(4) _ events_for_opt] assms(5) that by blast
  show ?thesis
  proof (cases inp)
    case (Poll_service lv)
    with poll_service_spec [OF assms(1), of hz lv kf] assms(3) add show ?thesis by auto
  next
    case (Poll_clip lv)
    with poll_clip_spec [OF assms(1), of hz lv kf] assms(2,3) add show ?thesis by auto
  next
    case (Run lv)
    with assms(2) obtain t where "running b = Some t" by auto
    with run_spec [OF assms(1), of t kf hz lv] Run assms(3) add show ?thesis by auto
  next
    case (Expire t)
    with assms(3) show ?thesis by (cases t) auto
  next
    case Ses_irq
    with ses_irq_spec [OF assms(1), of kf hz] assms(2,3) add show ?thesis by auto
  next
    case Reset_irq
    with reset_irq_spec [OF assms(1), of kf hz] assms(3) add show ?thesis by auto
  next
    case (Read_event sig stack n)
    show ?thesis
    proof (cases "4 \<le> n")
      case True
      with events_read_spec [OF assms(4) True, of stack sig] Read_event assms(2,3) show ?thesis
        by (cases "events_of content (events b)") (auto simp: decode_Cons [of _ "[]", simplified])
    qed (use Read_event assms(3) in \<open>auto simp: events_read_def\<close>)
  qed (use assms(3) in \<open>auto simp: events_open_def events_release_def events_of_def write_pid_inv [OF assms(1)]\<close>)
qed

lemma session_trace:
  assumes "board_session kf hz content b got b'" "board_inv b" "events_ok kf content capacity (events b)"
  shows "\<exists>es. board_trace kf hz b es b' \<and> events_of content (events b) @ es = got @ events_of content (events b')"
  using assms
proof (induction rule: board_session.induct)
  case (none b)
  then show ?case using board_trace.none by auto
next
  case (go_on inp b b' got b'')
  have "board_inv b'" using board_handle_ok [OF go_on.prems(1) go_on.hyps(1), of kf hz] go_on.hyps(3) by auto
  moreover have "events_ok kf content capacity (events b')"
    by (rule board_handle_events [OF go_on.prems(1) go_on.hyps(1,3) go_on.prems(2)])
  ultimately obtain es where "board_trace kf hz b' es b''" "events_of content (events b') @ es = got @ events_of content (events b'')"
    using go_on.IH by blast
  with board_trace.input [OF go_on.hyps(1,3)] handle_queue [OF go_on.prems(1) go_on.hyps(1,3) go_on.prems(2) go_on.hyps(2)]
  show ?case by (metis append.assoc)
qed

text \<open>Every beginning of the events of a sequence is that of a shorter sequence, since a handler offers one event at most.\<close>

lemma board_trace_take:
  "board_trace kf hz b es b' \<Longrightarrow> \<exists>b1. board_trace kf hz b (take n es) b1"
proof (induction arbitrary: n rule: board_trace.induct)
  case (input inp b b' es b'')
  show ?case
  proof (cases "length (events_for hz inp b) \<le> n")
    case True
    obtain b1 where "board_trace kf hz b' (take (n - length (events_for hz inp b)) es) b1" using input.IH by blast
    from board_trace.input [OF input.hyps(1,2) this] True show ?thesis by auto
  next
    case False
    then have "n = 0" using events_for_opt [of hz inp b] by auto
    then show ?thesis using board_trace.none by auto
  qed
qed (auto intro: board_trace.none)

text \<open>
  C30. The service button as the process sees it. Let the board have started, and let any inputs
  follow, polls, timers, interrupts and reads, such that there is room in the queue whenever a
  handler other than a read runs. Then the events that the process has read so far, followed by those still in the queue, are
  presses and releases of the service button in turns, starting with a press, among other events; the
  debounced value of the button says which came last; and in every beginning of this sequence
  there are no more long presses than presses.
\<close>

theorem service_button_alternates:
  assumes "kfifo_spec kf content capacity" "events_init kf err True = (0, Some dev)" "fifo dev \<noteq> None"
    and "board_session kf hz content (booted_board m dev) got b" "es = got @ events_of content (events b)"
  shows "press_walk False es = Some (poll_value (service_poll b) = 0) \<and>
    (\<forall>n. count_list (take n es) event_id_service_long \<le> count_list (take n es) event_id_service_down)"
proof -
  note init = events_init_ok [OF assms(1-3)] and inv = booted_inv [OF assms(3), of m]
  obtain es' where tr: "board_trace kf hz (booted_board m dev) es' b" "events_of content dev @ es' = es"
    using session_trace [OF assms(4) inv] init(1) assms(5) by auto
  have es: "es' = es" using tr(2) init(2) by simp
  have "count_list (take n es) event_id_service_long \<le> count_list (take n es) event_id_service_down" for n
    using board_trace_take [OF tr(1), of n] board_trace_walk [OF _ inv] es by (fastforce simp: long_due_def)
  then show ?thesis using board_trace_walk [OF tr(1) inv] es by simp
qed

text \<open>Polls while the queue has room are such a sequence.\<close>

lemma polls_session:
  assumes "board_inv b" "events_ok kf content capacity (events b)" "board_run kf hz (polls xs) b = Inr b'"
    and "length (events_of content (events b)) + 2 * length xs \<le> 16"
  shows "board_session kf hz content b [] b'"
  using assms
proof (induction xs arbitrary: b)
  case Nil
  then show ?case by (auto intro: board_session.none)
next
  case (Cons x xs)
  obtain n lv where x: "x = (n, lv)" by fastforce
  let ?b = "b\<lparr>jiffies := jiffies b + n\<rparr>"
  from Cons.prems(3) x obtain b2 where b2: "board_handle kf hz (Poll_service lv) ?b = Inr b2" "board_run kf hz (polls xs) b2 = Inr b'"
    by (auto simp: rbind_Inr)
  have inv: "board_inv ?b" using Cons.prems(1) by simp
  have ok: "events_ok kf content capacity (events b2)" "board_inv b2"
    using board_handle_events [OF inv _ b2(1)] board_handle_ok [OF inv, of "Poll_service lv" kf hz] b2(1) Cons.prems(2) by auto
  have room: "length (events_of content (events b)) < 16" using Cons.prems(4) by simp
  have q: "events_of content (events b2) = events_of content (events b) @ events_for hz (Poll_service lv) ?b"
    using handle_queue [OF inv _ b2(1), of content capacity] Cons.prems(2) room by simp
  have "length (events_for hz (Poll_service lv) ?b) \<le> 1" using events_for_opt [of hz "Poll_service lv" ?b] by auto
  then have "length (events_of content (events b2)) + 2 * length xs \<le> 16" using q Cons.prems(4) by simp
  from Cons.IH [OF ok(2,1) b2(2) this] have "board_session kf hz content b2 [] b'" .
  then have "board_session kf hz content ?b [] b'"
    using board_session.go_on [of "Poll_service lv" ?b content kf hz b2 "[]" b'] b2(1) room by simp
  then show ?case using board_session.go_on [of "Time n" b content kf hz ?b "[]" b'] room x by simp
qed

theorem service_button_alternates_witness:
  "\<exists>b. board_session list_kfifo 200 fst test_board [] b \<and> events_of fst (events b) = [event_id_service_down] \<and>
    press_walk False [event_id_service_down] = Some (poll_value (service_poll b) = 0)"
proof -
  let ?dev = "\<lparr>inuse = False, fifo = Some ([], 64)\<rparr>" and ?xs = "replicate 4 (4, \<lambda>_. 0) :: (nat \<times> (nat \<Rightarrow> int)) list"
  have init: "events_init list_kfifo 0 True = (0, Some ?dev)" by (simp add: events_init_def list_kfifo_def)
  note ok = events_init_ok [OF list_kfifo_spec init]
  have inv: "board_inv test_board" by (rule booted_inv) simp
  from service_settles [OF inv, of ?xs 0 list_kfifo 200] obtain b where
    b: "board_run list_kfifo 200 (polls ?xs) test_board = Inr b" "events b = offer list_kfifo [event_id_service_down] ?dev" by auto
  have s: "board_session list_kfifo 200 fst test_board [] b"
    by (rule polls_session [OF inv _ b(1), of fst snd]) (use ok in auto)
  have e: "events_of fst (events b) = [event_id_service_down]"
    using offer_events [OF ok(1), of event_id_service_down] ok(2) b(2) by auto
  from service_button_alternates [OF list_kfifo_spec init _ s refl] s e show ?thesis by auto
qed

text \<open>
  The function of a timer runs after the timer has been taken off the kernel's list. When the
  button is released in between, there is no timer left to delete, and the long press is
  reported after the release.
\<close>

lemma service_long_after_release:
  "\<exists>b. board_trace list_kfifo 200 test_board [event_id_service_down, event_id_service_up, event_id_service_long] b"
proof -
  let ?down = "replicate 4 (4, \<lambda>_. 0)" and ?up = "replicate 4 (4, \<lambda>_. 1)"
  have "board_inv test_board" by (rule booted_inv) simp
  from service_settles [OF this, of ?down 0 list_kfifo 200] obtain b1 e where
    b1: "board_trace list_kfifo 200 test_board [event_id_service_down] b1" "board_inv b1" "running b1 = None"
      "poll_value (service_poll b1) = 0" "poll_timer (service_poll b1) = Some e" by auto
  let ?b2 = "b1\<lparr>jiffies := jiffies b1 + e\<rparr>"
  let ?b3 = "(clear_timer Service_timer ?b2)\<lparr>running := Some Service_timer\<rparr>"
  have exp: "possible (Expire Service_timer) ?b2" using b1 by simp
  have inv3: "board_inv ?b3" by (rule expire_inv [OF _ exp]) (use b1 in simp)
  from service_settles [OF this, of ?up 1 list_kfifo 200] b1 obtain b4 where
    b4: "board_trace list_kfifo 200 ?b3 [event_id_service_up] b4" "board_inv b4" "running b4 = Some Service_timer"
    by (auto simp: del_timer_def)
  from run_spec [OF b4(2,3), of list_kfifo 200 "\<lambda>_. 1"] obtain b5 where
    b5: "board_handle list_kfifo 200 (Run (\<lambda>_. 1)) b4 = Inr b5" by blast
  have t: "board_trace list_kfifo 200 b1 [] ?b2" "board_trace list_kfifo 200 ?b2 [] ?b3"
    using board_trace_one [of "Time e" b1 list_kfifo 200 ?b2] board_trace_one [OF exp, of list_kfifo 200 ?b3] by simp_all
  have t5: "board_trace list_kfifo 200 b4 [event_id_service_long] b5"
    using board_trace_one [OF _ b5] b4(3) by simp
  from board_trace_append [OF b1(1) board_trace_append [OF t(1) board_trace_append [OF t(2) board_trace_append [OF b4(1) t5]]]]
  show ?thesis by auto
qed

end
