(* ===== verification/Firmware.thy ===== *)
theory Firmware
  imports Crc
begin

text \<open>
  The firmware image: the tag at its head (\<open>bcmTag.h\<close> under
  \<open>openwrt/target/linux/brcm63xx/files-2.6.21/include/asm-mips/mach-bcm63xx\<close>, with the fields that
  \<open>patches-2.6.21/510-neufbox-tag.patch\<close> puts in the place of the reserved bytes), the tool that
  completes it (\<open>brcm63xx/image/neufbox-mkfirmware/src/mkfirmware.c\<close>), the partitions of the flash
  (\<open>nb4/box/partition.h\<close>) and the driver that finds the root file system by the tag
  (\<open>drivers/mtd/maps/neufbox4-flash.c\<close>).
\<close>

section \<open>The checksum\<close>

definition Crc32_table :: "u32 list" where
  "Crc32_table =
  [0x00000000, 0x77073096, 0xEE0E612C, 0x990951BA, 0x076DC419, 0x706AF48F, 0xE963A535, 0x9E6495A3,
   0x0EDB8832, 0x79DCB8A4, 0xE0D5E91E, 0x97D2D988, 0x09B64C2B, 0x7EB17CBD, 0xE7B82D07, 0x90BF1D91,
   0x1DB71064, 0x6AB020F2, 0xF3B97148, 0x84BE41DE, 0x1ADAD47D, 0x6DDDE4EB, 0xF4D4B551, 0x83D385C7,
   0x136C9856, 0x646BA8C0, 0xFD62F97A, 0x8A65C9EC, 0x14015C4F, 0x63066CD9, 0xFA0F3D63, 0x8D080DF5,
   0x3B6E20C8, 0x4C69105E, 0xD56041E4, 0xA2677172, 0x3C03E4D1, 0x4B04D447, 0xD20D85FD, 0xA50AB56B,
   0x35B5A8FA, 0x42B2986C, 0xDBBBC9D6, 0xACBCF940, 0x32D86CE3, 0x45DF5C75, 0xDCD60DCF, 0xABD13D59,
   0x26D930AC, 0x51DE003A, 0xC8D75180, 0xBFD06116, 0x21B4F4B5, 0x56B3C423, 0xCFBA9599, 0xB8BDA50F,
   0x2802B89E, 0x5F058808, 0xC60CD9B2, 0xB10BE924, 0x2F6F7C87, 0x58684C11, 0xC1611DAB, 0xB6662D3D,
   0x76DC4190, 0x01DB7106, 0x98D220BC, 0xEFD5102A, 0x71B18589, 0x06B6B51F, 0x9FBFE4A5, 0xE8B8D433,
   0x7807C9A2, 0x0F00F934, 0x9609A88E, 0xE10E9818, 0x7F6A0DBB, 0x086D3D2D, 0x91646C97, 0xE6635C01,
   0x6B6B51F4, 0x1C6C6162, 0x856530D8, 0xF262004E, 0x6C0695ED, 0x1B01A57B, 0x8208F4C1, 0xF50FC457,
   0x65B0D9C6, 0x12B7E950, 0x8BBEB8EA, 0xFCB9887C, 0x62DD1DDF, 0x15DA2D49, 0x8CD37CF3, 0xFBD44C65,
   0x4DB26158, 0x3AB551CE, 0xA3BC0074, 0xD4BB30E2, 0x4ADFA541, 0x3DD895D7, 0xA4D1C46D, 0xD3D6F4FB,
   0x4369E96A, 0x346ED9FC, 0xAD678846, 0xDA60B8D0, 0x44042D73, 0x33031DE5, 0xAA0A4C5F, 0xDD0D7CC9,
   0x5005713C, 0x270241AA, 0xBE0B1010, 0xC90C2086, 0x5768B525, 0x206F85B3, 0xB966D409, 0xCE61E49F,
   0x5EDEF90E, 0x29D9C998, 0xB0D09822, 0xC7D7A8B4, 0x59B33D17, 0x2EB40D81, 0xB7BD5C3B, 0xC0BA6CAD,
   0xEDB88320, 0x9ABFB3B6, 0x03B6E20C, 0x74B1D29A, 0xEAD54739, 0x9DD277AF, 0x04DB2615, 0x73DC1683,
   0xE3630B12, 0x94643B84, 0x0D6D6A3E, 0x7A6A5AA8, 0xE40ECF0B, 0x9309FF9D, 0x0A00AE27, 0x7D079EB1,
   0xF00F9344, 0x8708A3D2, 0x1E01F268, 0x6906C2FE, 0xF762575D, 0x806567CB, 0x196C3671, 0x6E6B06E7,
   0xFED41B76, 0x89D32BE0, 0x10DA7A5A, 0x67DD4ACC, 0xF9B9DF6F, 0x8EBEEFF9, 0x17B7BE43, 0x60B08ED5,
   0xD6D6A3E8, 0xA1D1937E, 0x38D8C2C4, 0x4FDFF252, 0xD1BB67F1, 0xA6BC5767, 0x3FB506DD, 0x48B2364B,
   0xD80D2BDA, 0xAF0A1B4C, 0x36034AF6, 0x41047A60, 0xDF60EFC3, 0xA867DF55, 0x316E8EEF, 0x4669BE79,
   0xCB61B38C, 0xBC66831A, 0x256FD2A0, 0x5268E236, 0xCC0C7795, 0xBB0B4703, 0x220216B9, 0x5505262F,
   0xC5BA3BBE, 0xB2BD0B28, 0x2BB45A92, 0x5CB36A04, 0xC2D7FFA7, 0xB5D0CF31, 0x2CD99E8B, 0x5BDEAE1D,
   0x9B64C2B0, 0xEC63F226, 0x756AA39C, 0x026D930A, 0x9C0906A9, 0xEB0E363F, 0x72076785, 0x05005713,
   0x95BF4A82, 0xE2B87A14, 0x7BB12BAE, 0x0CB61B38, 0x92D28E9B, 0xE5D5BE0D, 0x7CDCEFB7, 0x0BDBDF21,
   0x86D3D2D4, 0xF1D4E242, 0x68DDB3F8, 0x1FDA836E, 0x81BE16CD, 0xF6B9265B, 0x6FB077E1, 0x18B74777,
   0x88085AE6, 0xFF0F6A70, 0x66063BCA, 0x11010B5C, 0x8F659EFF, 0xF862AE69, 0x616BFFD3, 0x166CCF45,
   0xA00AE278, 0xD70DD2EE, 0x4E048354, 0x3903B3C2, 0xA7672661, 0xD06016F7, 0x4969474D, 0x3E6E77DB,
   0xAED16A4A, 0xD9D65ADC, 0x40DF0B66, 0x37D83BF0, 0xA9BCAE53, 0xDEBB9EC5, 0x47B2CF7F, 0x30B5FFE9,
   0xBDBDF21C, 0xCABAC28A, 0x53B39330, 0x24B4A3A6, 0xBAD03605, 0xCDD70693, 0x54DE5729, 0x23D967BF,
   0xB3667A2E, 0xC4614AB8, 0x5D681B02, 0x2A6F2B94, 0xB40BBE37, 0xC30C8EA1, 0x5A05DF1B, 0x2D02EF8D]"

definition cc32_step :: "u32 \<Rightarrow> u8 \<Rightarrow> u32" where
  "cc32_step crc b = drop_bit 8 crc XOR Crc32_table ! unat ((crc XOR ucast b) AND 0xff)"

fun cc32 :: "bytes \<Rightarrow> u32 \<Rightarrow> u32" where
  "cc32 [] crc = crc"
| "cc32 (b # p) crc = cc32 p (cc32_step crc b)"

lemma cc32_foldl: "cc32 p crc = foldl cc32_step crc p"
  by (induction p arbitrary: crc) simp_all

text \<open>The polynomial of the checksum, as in IEEE 802.3, and eight bits of the division by it.\<close>

definition crc32_bitwise :: "u32 \<Rightarrow> u32" where
  "crc32_bitwise c = (crc_shift 0xEDB88320 ^^ 8) c"

lemma Crc32_table_length [simp]: "length Crc32_table = 256"
  by (simp add: Crc32_table_def)

definition crc32_shift :: "u32 \<Rightarrow> u32" where
  "crc32_shift = crc_shift 0xEDB88320"

lemmas crc32_shift_numeral = crc_shift_numeral [where 'a = 32 and poly = "0xEDB88320", folded crc32_shift_def, simplified]

lemma crc32_bitwise_unfold:
  "crc32_bitwise c = crc32_shift (crc32_shift (crc32_shift (crc32_shift
     (crc32_shift (crc32_shift (crc32_shift (crc32_shift c)))))))"
  by (simp add: crc32_bitwise_def crc32_shift_def eval_nat_numeral)

lemma Crc32_table_bitwise_aux: "map (\<lambda>i. crc32_bitwise (word_of_int i)) [0..255] = Crc32_table"
  by (simp add: crc32_bitwise_unfold crc32_shift_numeral Crc32_table_def upto_rec1)

lemma Crc32_table_bitwise:
  assumes "unat c < 256"
  shows "Crc32_table ! unat c = crc32_bitwise c"
proof -
  have "int (unat c) \<le> 255" using assms by linarith
  then have "[0..255] ! unat c = int (unat c)" by (subst nth_upto) simp_all
  with assms have "map (\<lambda>i. crc32_bitwise (word_of_int i)) [0..255] ! unat c = crc32_bitwise c"
    by simp
  then show ?thesis unfolding Crc32_table_bitwise_aux .
qed

lemma cc32_step_bitwise: "cc32_step crc b = crc32_bitwise (crc XOR ucast b)"
proof -
  let ?c = "crc XOR ucast b"
  have mask: "?c AND 0xff = take_bit 8 ?c" by (simp add: take_bit_eq_mask mask_eq_exp_minus_1)
  have "unat (take_bit 8 w) < 256" for w :: u32 using take_bit_nat_less_exp [of 8 "unat w"] by (simp add: unsigned_take_bit_eq)
  then have "Crc32_table ! unat (?c AND 0xff) = crc32_bitwise (take_bit 8 ?c)"
    unfolding mask by (rule Crc32_table_bitwise)
  moreover have "drop_bit 8 ?c = drop_bit 8 crc"
    by (rule bit_word_eqI) (auto simp: bit_simps dest: bit_imp_le_length)
  ultimately show ?thesis
    using crc_shifts_table [of 8 "0xEDB88320" ?c] by (simp add: cc32_step_def crc32_bitwise_def)
qed

lemma crc32_shift_inj: "crc32_shift a = crc32_shift b \<Longrightarrow> a = b"
  unfolding crc32_shift_def by (erule crc_shift_inj [rotated]) (simp add: bit_numeral_rec)

lemma crc32_bitwise_inj: "crc32_bitwise a = crc32_bitwise b \<Longrightarrow> a = b"
  unfolding crc32_bitwise_unfold by (blast dest: crc32_shift_inj)

interpretation crc32: byte_crc cc32_step
proof unfold_locales
  fix c c' :: u32 and b b' :: u8
  show "c = c'" if "cc32_step c b = cc32_step c' b"
    using that crc32_bitwise_inj xor_cancel(1) unfolding cc32_step_bitwise by blast
  show "b = b'" if "cc32_step c b = cc32_step c b'"
  proof -
    have "(ucast b :: u32) = ucast b'"
      using that crc32_bitwise_inj xor_cancel(2) unfolding cc32_step_bitwise by blast
    moreover have "ucast (ucast w :: u32) = w" for w :: u8 by (rule bit_word_eqI) (simp add: bit_simps)
    ultimately show ?thesis by metis
  qed
qed

section \<open>The tag\<close>

text \<open>The offsets of the fields of \<open>FILE_TAG\<close> that the programs use, from the lengths of those before them.\<close>

definition TAG_LEN :: nat where "TAG_LEN = 256"
definition TOKEN_LEN :: nat where "TOKEN_LEN = 20"
definition IMAGE_LEN :: nat where "IMAGE_LEN = 10"
definition ADDRESS_LEN :: nat where "ADDRESS_LEN = 12"
definition RESERVED_LEN :: nat where
  "RESERVED_LEN = TAG_LEN - 4 - 20 - 14 - 6 - 16 - 4 * IMAGE_LEN - 3 * ADDRESS_LEN - 3 * 2 - 2 * TOKEN_LEN"

definition tag_rootfsAddress :: nat where "tag_rootfsAddress = 4 + 20 + 14 + 6 + 16 + 2 + 2 * IMAGE_LEN + ADDRESS_LEN"
definition tag_rootfsLen :: nat where "tag_rootfsLen = tag_rootfsAddress + ADDRESS_LEN"
definition tag_version :: nat where "tag_version = tag_rootfsLen + 2 * IMAGE_LEN + ADDRESS_LEN + 4"
definition tag_net_infra :: nat where "tag_net_infra = tag_version + (RESERVED_LEN - 1)"
definition tag_tagValidationToken :: nat where "tag_tagValidationToken = tag_net_infra + 1 + TOKEN_LEN"

lemmas tag_offsets = TAG_LEN_def TOKEN_LEN_def IMAGE_LEN_def ADDRESS_LEN_def RESERVED_LEN_def tag_rootfsAddress_def
  tag_rootfsLen_def tag_version_def tag_net_infra_def tag_tagValidationToken_def

lemma tag_offset_values:
  "RESERVED_LEN = 74" "tag_rootfsAddress = 94" "tag_rootfsLen = 106" "tag_version = 142" "tag_net_infra = 215"
  "tag_tagValidationToken = 236"
  by (simp_all add: tag_offsets)

section \<open>The image tool\<close>

definition CRC32_INIT_VALUE :: u32 where "CRC32_INIT_VALUE = 0xffffffff"
definition NET_INFRA_ADSL :: u8 where "NET_INFRA_ADSL = 0"
definition NET_INFRA_FTTH :: u8 where "NET_INFRA_FTTH = 1"
definition NET_INFRA_MAGIC :: u8 where "NET_INFRA_MAGIC = 0xE0"

definition toupper :: "u8 \<Rightarrow> u8" where
  "toupper c = (if 97 \<le> c \<and> c \<le> 122 then c - 32 else c)"

definition strtoupper :: "bytes \<Rightarrow> bytes" where
  "strtoupper s = map toupper s"

text \<open>
  The directory part of a path and what follows its last slash, for a path that does not end in a
  slash (\<open>fopen\<close> would have failed on it).
\<close>

definition dirname_part :: "bytes \<Rightarrow> bytes" where
  "dirname_part s = rev (dropWhile (\<lambda>c. c \<noteq> 47) (rev s))"

definition basename :: "bytes \<Rightarrow> bytes" where
  "basename s = rev (takeWhile (\<lambda>c. c \<noteq> 47) (rev s))"

text \<open>\<open>strncpy\<close>: as many characters as fit, and zeros for the rest.\<close>

definition strncpy :: "bytes \<Rightarrow> nat \<Rightarrow> bytes" where
  "strncpy s n = take n s @ replicate (n - length s) 0"

fun strstr :: "bytes \<Rightarrow> bytes \<Rightarrow> bool" where
  "strstr [] t = (t = [])"
| "strstr (c # s) t = (take (length t) (c # s) = t \<or> strstr s t)"

text \<open>The image with the version, the network and the checksum in its tag.\<close>

definition set_net_infra :: "bytes \<Rightarrow> bytes \<Rightarrow> bytes" where
  "set_net_infra infra buf =
     (if infra = lit ''adsl'' then mem_write buf tag_net_infra [NET_INFRA_ADSL OR NET_INFRA_MAGIC]
      else if infra = lit ''ftth'' then mem_write buf tag_net_infra [NET_INFRA_FTTH OR NET_INFRA_MAGIC]
      else buf)"

definition tag_crc :: "bytes \<Rightarrow> u32" where
  "tag_crc buf = cc32 (take (TAG_LEN - TOKEN_LEN) buf) CRC32_INIT_VALUE"

definition complete_tag :: "bytes \<Rightarrow> bytes \<Rightarrow> bytes \<Rightarrow> bytes" where
  "complete_tag name infra buf =
     (let buf = mem_write buf tag_version (strncpy name (RESERVED_LEN - 1));
          buf = set_net_infra infra buf
      in mem_write buf tag_tagValidationToken (be32 (tag_crc buf)))"

definition kB :: "nat \<Rightarrow> nat" where "kB x = x * 2 ^ 10"
definition MB :: "nat \<Rightarrow> nat" where "MB x = x * 2 ^ 20"

definition NEUFBOX_MAINFIRMWARE_SIZE :: nat where "NEUFBOX_MAINFIRMWARE_SIZE = MB 5 + kB 320"
definition NEUFBOX_RESCUEFIRMWARE_SIZE :: nat where "NEUFBOX_RESCUEFIRMWARE_SIZE = MB 1 + kB 512"

text \<open>
  The whole program. \<open>files\<close> gives the contents of a file that can be opened, by its path; \<open>ok\<close> says
  whether the output file can be opened and memory allocated. Opening the output empties it before the
  input is read, so that a program that is given one path for both reads nothing. A missing argument is a null
  pointer, and an image that is shorter than the part of the tag that is written is accessed past its end.
  The exit status, and the output file if it was written. The name of the output file is
  turned to capitals in place before it is searched for \<open>MAIN\<close> and \<open>RESCUE\<close>.
\<close>

datatype mk_error = Null_argument | Short_image

definition mkfirmware :: "(bytes \<Rightarrow> bytes option) \<Rightarrow> bool \<Rightarrow> bytes list \<Rightarrow> mk_error + int \<times> bytes option" where
  "mkfirmware files ok args =
     (case args of
        inp # out # infra # _ \<Rightarrow>
          (case files inp of
             None \<Rightarrow> Inr (1, None)
           | Some old \<Rightarrow>
               let buf = (if inp = out then [] else old) in
               if \<not> ok then Inr (1, None)
               else if length buf < tag_tagValidationToken + 4 then Inl Short_image
               else
                 let name = strtoupper (basename out);
                     out = dirname_part out @ name;
                     buf = complete_tag name infra buf
                 in Inr (if strstr out (lit ''MAIN'') then (if NEUFBOX_MAINFIRMWARE_SIZE \<le> length buf then -1 else 0)
                         else if strstr out (lit ''RESCUE'') then (if NEUFBOX_RESCUEFIRMWARE_SIZE \<le> length buf then -1 else 0)
                         else -1, Some buf))
      | _ \<Rightarrow> Inl Null_argument)"

section \<open>The flash\<close>

definition NEUFBOX_FLASH_SIZE :: nat where "NEUFBOX_FLASH_SIZE = MB 8"
definition NEUFBOX_BOOTLOADER_OFFSET :: nat where "NEUFBOX_BOOTLOADER_OFFSET = 0"
definition NEUFBOX_BOOTLOADER_SIZE :: nat where "NEUFBOX_BOOTLOADER_SIZE = kB 64"
definition NEUFBOX_MAINFIRMWARE_OFFSET :: nat where
  "NEUFBOX_MAINFIRMWARE_OFFSET = NEUFBOX_BOOTLOADER_OFFSET + NEUFBOX_BOOTLOADER_SIZE"
definition NEUFBOX_JFFS2_OFFSET :: nat where
  "NEUFBOX_JFFS2_OFFSET = NEUFBOX_MAINFIRMWARE_OFFSET + NEUFBOX_MAINFIRMWARE_SIZE"
definition NEUFBOX_JFFS2_SIZE :: nat where "NEUFBOX_JFFS2_SIZE = kB 640"
definition NEUFBOX_RESCUEFIRMWARE_OFFSET :: nat where
  "NEUFBOX_RESCUEFIRMWARE_OFFSET = NEUFBOX_JFFS2_OFFSET + NEUFBOX_JFFS2_SIZE"
definition NEUFBOX_ADSLFIRMWARE_OFFSET :: nat where
  "NEUFBOX_ADSLFIRMWARE_OFFSET = NEUFBOX_RESCUEFIRMWARE_OFFSET + NEUFBOX_RESCUEFIRMWARE_SIZE"
definition NEUFBOX_ADSLFIRMWARE_SIZE :: nat where "NEUFBOX_ADSLFIRMWARE_SIZE = kB 448"
definition NEUFBOX_NVRAM_OFFSET :: nat where
  "NEUFBOX_NVRAM_OFFSET = NEUFBOX_ADSLFIRMWARE_OFFSET + NEUFBOX_ADSLFIRMWARE_SIZE"
definition NEUFBOX_NVRAM_SIZE :: nat where "NEUFBOX_NVRAM_SIZE = kB 64"

lemmas flash_defs = kB_def MB_def NEUFBOX_FLASH_SIZE_def NEUFBOX_BOOTLOADER_OFFSET_def NEUFBOX_BOOTLOADER_SIZE_def
  NEUFBOX_MAINFIRMWARE_OFFSET_def NEUFBOX_MAINFIRMWARE_SIZE_def NEUFBOX_JFFS2_OFFSET_def NEUFBOX_JFFS2_SIZE_def
  NEUFBOX_RESCUEFIRMWARE_OFFSET_def NEUFBOX_RESCUEFIRMWARE_SIZE_def NEUFBOX_ADSLFIRMWARE_OFFSET_def
  NEUFBOX_ADSLFIRMWARE_SIZE_def NEUFBOX_NVRAM_OFFSET_def NEUFBOX_NVRAM_SIZE_def

record mtd_partition =
  p_name :: string
  p_offset :: u32
  p_size :: u32

definition part :: "string \<Rightarrow> nat \<Rightarrow> nat \<Rightarrow> mtd_partition" where
  "part name off n = \<lparr>p_name = name, p_offset = of_nat off, p_size = of_nat n\<rparr>"

definition neufbox4_mtd_parts :: "mtd_partition list" where
  "neufbox4_mtd_parts =
     [part ''bootloader'' NEUFBOX_BOOTLOADER_OFFSET NEUFBOX_BOOTLOADER_SIZE,
      part ''main firmware'' NEUFBOX_MAINFIRMWARE_OFFSET NEUFBOX_MAINFIRMWARE_SIZE,
      part ''local data (jffs2)'' NEUFBOX_JFFS2_OFFSET NEUFBOX_JFFS2_SIZE,
      part ''rescue firmware'' NEUFBOX_RESCUEFIRMWARE_OFFSET NEUFBOX_RESCUEFIRMWARE_SIZE,
      part ''adsl driver'' NEUFBOX_ADSLFIRMWARE_OFFSET NEUFBOX_ADSLFIRMWARE_SIZE,
      part ''nvram'' NEUFBOX_NVRAM_OFFSET NEUFBOX_NVRAM_SIZE,
      part ''rootfs'' 0 0,
      part ''Flash'' 0 NEUFBOX_FLASH_SIZE]"

text \<open>
  \<open>sscanf(s, "%u", &x)\<close>: white space is skipped (that of the kernel's \<open>isspace\<close>, with the no-break space), the digits are read into 32 bits; without a digit the
  variable keeps its value, which is uninitialised (\<open>None\<close>). The string ends at its
  \<open>NUL\<close> or goes on into the next field.
\<close>

definition is_digit :: "u8 \<Rightarrow> bool" where
  "is_digit c \<longleftrightarrow> 48 \<le> c \<and> c \<le> 57"

definition scan_space :: "u8 \<Rightarrow> bool" where
  "scan_space c \<longleftrightarrow> c = 32 \<or> 9 \<le> c \<and> c \<le> 13 \<or> c = 0xA0"

definition digits_value :: "bytes \<Rightarrow> u32" where
  "digits_value ds = foldl (\<lambda>n c. n * 10 + (ucast c - 48)) 0 ds"

definition sscanf_u :: "bytes \<Rightarrow> u32 option" where
  "sscanf_u s = (let ds = takeWhile is_digit (dropWhile scan_space s)
     in if ds = [] then None else Some (digits_value ds))"

definition EXTENDED_SIZE :: u32 where "EXTENDED_SIZE = 0xBFC00000"

definition EIO :: int where "EIO = 5"

text \<open>
  \<open>flash\<close> is what \<open>master->read\<close> reads; \<open>main\<close> tells the main from the rescue kernel. Without digits
  in a field the offset or the size is arbitrary, here \<open>junk\<close>.
\<close>

definition parse_cfe_partitions :: "bool \<Rightarrow> u32 \<Rightarrow> bytes \<Rightarrow> mtd_partition list \<Rightarrow> int \<times> mtd_partition list" where
  "parse_cfe_partitions main junk flash pparts =
     (let tag = mem_read flash (if main then NEUFBOX_MAINFIRMWARE_OFFSET else NEUFBOX_RESCUEFIRMWARE_OFFSET) TAG_LEN in
      if length tag \<noteq> TAG_LEN then (- EIO, pparts)
      else
        let field = (\<lambda>off. case sscanf_u (drop off tag) of None \<Rightarrow> junk | Some w \<Rightarrow> w)
        in (0, pparts[6 := (pparts ! 6)\<lparr>p_offset := field tag_rootfsAddress - EXTENDED_SIZE, p_size := field tag_rootfsLen\<rparr>]))"

end
