(* ===== verification/Firmware_Props.thy ===== *)
theory Firmware_Props
  imports Firmware
begin

text \<open>
  Properties of the firmware image and of the flash: the tag that the tool writes validates and a change in it
  does not, the partitions tile the flash, and the driver finds the root file system where
  the tag says.
\<close>

section \<open>The completed tag\<close>

lemma strncpy_length [simp]: "length (strncpy s n) = n"
  by (simp add: strncpy_def)

lemma cstr_strncpy: "0 \<notin> set s \<Longrightarrow> cstr (strncpy s n) = take n s"
proof -
  assume s: "0 \<notin> set s"
  then have t: "\<forall>x\<in>set (take n s). x \<noteq> 0" using set_take_subset [of n s] by auto
  then have "takeWhile (\<lambda>b. b \<noteq> 0) (take n s @ replicate (n - length s) 0) = take n s @ takeWhile (\<lambda>b. b \<noteq> 0) (replicate (n - length s) (0 :: u8))"
    by (subst takeWhile_append2) auto
  then show ?thesis by (simp add: cstr_def strncpy_def)
qed

lemma mem_write_self: "i < length m \<Longrightarrow> mem_write m i [m ! i] = m"
  by (simp add: mem_write_def Cons_nth_drop_Suc)

lemma set_net_infra_write: "216 \<le> length buf \<Longrightarrow> \<exists>x. set_net_infra infra buf = mem_write buf 215 [x]"
  using mem_write_self [of 215 buf] by (auto simp: set_net_infra_def tag_offset_values intro: exI [of _ "buf ! 215"])

lemma complete_tag_write:
  assumes "240 \<le> length buf"
  shows "\<exists>x c. complete_tag name infra buf = mem_write (mem_write (mem_write buf 142 (strncpy name 73)) 215 [x]) 236 (be32 c) \<and>
    c = tag_crc (complete_tag name infra buf)"
proof -
  from assms set_net_infra_write [of "mem_write buf 142 (strncpy name 73)" infra] obtain x where
    x: "set_net_infra infra (mem_write buf 142 (strncpy name 73)) = mem_write (mem_write buf 142 (strncpy name 73)) 215 [x]" by auto
  let ?b = "mem_write (mem_write buf 142 (strncpy name 73)) 215 [x]"
  have eq: "complete_tag name infra buf = mem_write ?b 236 (be32 (tag_crc ?b))"
    using x by (simp add: complete_tag_def tag_offset_values Let_def)
  have "take 236 (mem_write ?b 236 bs) = take 236 ?b" for bs using assms by (simp add: mem_write_def)
  then have "tag_crc (complete_tag name infra buf) = tag_crc ?b" by (simp add: eq tag_crc_def TAG_LEN_def TOKEN_LEN_def)
  with eq show ?thesis by auto
qed

lemma complete_tag_props:
  assumes "240 \<le> length buf"
  shows "length (complete_tag name infra buf) = length buf"
    and "mem_read (complete_tag name infra buf) 142 73 = strncpy name 73"
    and "mem_read (complete_tag name infra buf) 236 4 = be32 (tag_crc (complete_tag name infra buf))"
    and "i + n \<le> 142 \<or> 216 \<le> i \<and> i + n \<le> 236 \<or> 240 \<le> i \<Longrightarrow> mem_read (complete_tag name infra buf) i n = mem_read buf i n"
proof -
  from complete_tag_write [OF assms, of name infra] obtain x c where
    eq: "complete_tag name infra buf = mem_write (mem_write (mem_write buf 142 (strncpy name 73)) 215 [x]) 236 (be32 c)"
    and c: "c = tag_crc (complete_tag name infra buf)" by blast
  show "length (complete_tag name infra buf) = length buf" "mem_read (complete_tag name infra buf) 142 73 = strncpy name 73"
    using assms by (simp_all add: eq mem_simps)
  show "mem_read (complete_tag name infra buf) 236 4 = be32 (tag_crc (complete_tag name infra buf))"
    unfolding c [symmetric] using assms by (simp add: eq mem_simps)
  show "mem_read (complete_tag name infra buf) i n = mem_read buf i n" if "i + n \<le> 142 \<or> 216 \<le> i \<and> i + n \<le> 236 \<or> 240 \<le> i"
    using that assms by (auto simp: eq mem_simps)
qed

lemma tag_crc_detects:
  assumes "236 \<le> length img" "i < 236" "v \<noteq> img ! i"
  shows "tag_crc (img[i := v]) \<noteq> tag_crc img"
proof -
  have "foldl cc32_step CRC32_INIT_VALUE (take 236 (img[i := v])) \<noteq> foldl cc32_step CRC32_INIT_VALUE (take 236 img)"
    by (rule crc32.detects_byte [of _ _ i]) (use assms in \<open>auto simp: nth_list_update\<close>)
  then show ?thesis by (simp add: tag_crc_def cc32_foldl TAG_LEN_def TOKEN_LEN_def)
qed

lemma strtoupper_no_nul: "0 \<notin> set out \<Longrightarrow> 0 \<notin> set (strtoupper (basename out))"
proof -
  assume out: "0 \<notin> set out"
  have "c - 32 \<noteq> 0" if "97 \<le> (c :: u8)" for c
  proof
    assume "c - 32 = 0"
    then have "c = 32" by simp
    with that show False by simp
  qed
  moreover have "set (basename out) \<subseteq> set out" by (auto simp: basename_def dest: set_takeWhileD)
  ultimately show ?thesis using out by (auto simp: strtoupper_def toupper_def split: if_splits)
qed

lemma mkfirmware_result:
  assumes "files inp = Some buf" "inp \<noteq> out" "240 \<le> length buf"
  shows "\<exists>st. mkfirmware files True (inp # out # infra # rest) =
      Inr (st, Some (complete_tag (strtoupper (basename out)) infra buf)) \<and>
    (st = 0 \<longrightarrow> length buf < NEUFBOX_MAINFIRMWARE_SIZE)"
  using assms by (auto simp: mkfirmware_def tag_offset_values Let_def complete_tag_props flash_defs)

text \<open>
  C16. The image that \<open>mkfirmware\<close> writes from another file validates: it is as long as the input, the checksum in its tag is that
  of the tag, its version is the name of the output file in capitals, all that follows
  the tag is unchanged, and a change of any byte that the checksum covers is detected. An image reported
  as good is smaller than the partition of the main firmware.
\<close>

theorem firmware_tag_validates:
  assumes "files inp = Some buf" "inp \<noteq> out" "240 \<le> length buf" "0 \<notin> set out"
  shows "\<exists>st img. mkfirmware files True (inp # out # infra # rest) = Inr (st, Some img) \<and>
    length img = length buf \<and> of_be32 (mem_read img tag_tagValidationToken 4) = tag_crc img \<and>
    cstr (mem_read img tag_version (RESERVED_LEN - 1)) = take (RESERVED_LEN - 1) (strtoupper (basename out)) \<and>
    drop 240 img = drop 240 buf \<and> (st = 0 \<longrightarrow> length img < NEUFBOX_MAINFIRMWARE_SIZE) \<and>
    (\<forall>i v. i < TAG_LEN - TOKEN_LEN \<longrightarrow> v \<noteq> img ! i \<longrightarrow>
       of_be32 (mem_read (img[i := v]) tag_tagValidationToken 4) \<noteq> tag_crc (img[i := v]))"
proof -
  let ?img = "complete_tag (strtoupper (basename out)) infra buf"
  note props = complete_tag_props [where name = "strtoupper (basename out)" and infra = infra, OF assms(3)]
  from mkfirmware_result [where files = files, OF assms(1,2,3), of infra rest] obtain st where
    st: "mkfirmware files True (inp # out # infra # rest) = Inr (st, Some ?img)" "st = 0 \<longrightarrow> length buf < NEUFBOX_MAINFIRMWARE_SIZE"
    by blast
  have "mem_read ?img 240 (length buf) = mem_read buf 240 (length buf)" by (rule props(4)) simp
  then have "drop 240 ?img = drop 240 buf" using props(1) by (simp add: mem_read_def)
  moreover have "mem_read (?img[i := v]) 236 4 = be32 (tag_crc ?img)" if "i < 236" for i v
    using props(3) that by (simp add: mem_read_def)
  moreover have "tag_crc (?img[i := v]) \<noteq> tag_crc ?img" if "i < 236" "v \<noteq> ?img ! i" for i v
    using tag_crc_detects [of ?img i v] that props(1) assms(3) by simp
  ultimately have "drop 240 ?img = drop 240 buf"
    and "of_be32 (mem_read (?img[i := v]) 236 4) \<noteq> tag_crc (?img[i := v])" if "i < 236" "v \<noteq> ?img ! i" for i v
    using that by (metis, metis of_be32_be32)
  moreover have "of_be32 (mem_read ?img 236 4) = tag_crc ?img" unfolding props(3) by simp
  moreover have "cstr (mem_read ?img 142 73) = take 73 (strtoupper (basename out))"
    unfolding props(2) by (rule cstr_strncpy [OF strtoupper_no_nul [OF assms(4)]])
  ultimately show ?thesis
    using st props(1) \<open>drop 240 ?img = drop 240 buf\<close>
    unfolding tag_offset_values TAG_LEN_def TOKEN_LEN_def by (intro exI [of _ st] exI [of _ ?img]) simp
qed

definition example_image :: bytes where
  "example_image = replicate 94 0 @ lit ''3217096960'' @ [0, 0] @ lit ''4194304'' @ replicate 143 0"

lemma example_paths: "lit ''in'' \<noteq> lit ''bin/nb4-main''"
  by (simp add: lit_def)

theorem firmware_tag_validates_witness:
  "\<exists>st img. mkfirmware (\<lambda>_. Some example_image) True [lit ''in'', lit ''bin/nb4-main'', lit ''adsl''] = Inr (st, Some img) \<and>
    of_be32 (mem_read img tag_tagValidationToken 4) = tag_crc img \<and>
    cstr (mem_read img tag_version (RESERVED_LEN - 1)) = lit ''NB4-MAIN''"
proof -
  have "(0 :: u8) \<notin> set (lit ''bin/nb4-main'')" by (simp add: lit_def)
  moreover have "take (RESERVED_LEN - 1) (strtoupper (basename (lit ''bin/nb4-main''))) = lit ''NB4-MAIN''"
    by (simp add: tag_offset_values lit_def basename_def strtoupper_def toupper_def)
  moreover have "240 \<le> length example_image" by (simp add: example_image_def lit_def)
  ultimately show ?thesis
    using firmware_tag_validates [of "\<lambda>_. Some example_image" "lit ''in''" example_image "lit ''bin/nb4-main''" "lit ''adsl''" "[]"]
    by (auto simp: example_paths)
qed

text \<open>
  The table of the tag checksum is that of the polynomial of IEEE 802.3: a step of \<open>cc32\<close> is eight
  steps of the bitwise division.
\<close>

theorem crc32_table_is_polynomial: "cc32_step crc b = crc32_bitwise (crc XOR ucast b)"
  by (rule cc32_step_bitwise)

section \<open>The flash\<close>

text \<open>
  The first six partitions tile the flash: they start at its beginning, each ends where the next begins,
  the last one ends with the flash, and all are made of whole erase blocks of 64 kilobytes.
\<close>

theorem flash_partitions_tile:
  "map (\<lambda>p. unat (p_offset p) + unat (p_size p)) (take 6 neufbox4_mtd_parts) =
     tl (map (\<lambda>p. unat (p_offset p)) (take 6 neufbox4_mtd_parts)) @ [NEUFBOX_FLASH_SIZE] \<and>
   unat (p_offset (hd neufbox4_mtd_parts)) = 0 \<and>
   list_all (\<lambda>p. 0 < p_size p \<and> unat (p_offset p) mod kB 64 = 0 \<and> unat (p_size p) mod kB 64 = 0) (take 6 neufbox4_mtd_parts)"
  by (simp add: neufbox4_mtd_parts_def part_def flash_defs)

text \<open>A number in decimal, as the tag has it.\<close>

fun decimal :: "nat \<Rightarrow> bytes" where
  "decimal n = (if n < 10 then [of_nat (48 + n)] else decimal (n div 10) @ [of_nat (48 + n mod 10)])"

declare decimal.simps [simp del]

lemma digit_of_nat:
  assumes "d < 10"
  shows "is_digit (of_nat (48 + d))" "ucast (of_nat (48 + d) :: u8) = (of_nat (48 + d) :: u32)"
proof -
  have "d \<in> {0, 1, 2, 3, 4, 5, 6, 7, 8, 9}" using assms by auto
  then show "is_digit (of_nat (48 + d))" "ucast (of_nat (48 + d) :: u8) = (of_nat (48 + d) :: u32)"
    by (auto simp: is_digit_def)
qed

lemma decimal_digits: "decimal n \<noteq> [] \<and> list_all is_digit (decimal n) \<and> digits_value (decimal n) = of_nat n"
proof (induction n rule: decimal.induct)
  case (1 n)
  show ?case
  proof (cases "n < 10")
    case True
    with digit_of_nat [of n] show ?thesis by (simp add: decimal.simps [of n] digits_value_def)
  next
    case False
    have "(of_nat n :: u32) = of_nat (n div 10) * 10 + of_nat (n mod 10)"
      by (metis div_mult_mod_eq of_nat_add of_nat_mult of_nat_numeral)
    with False 1 digit_of_nat [of "n mod 10"] show ?thesis by (simp add: decimal.simps [of n] digits_value_def)
  qed
qed

lemma sscanf_decimal: "sscanf_u (decimal n @ 0 # rest) = Some (of_nat n)"
proof -
  obtain c cs where d: "decimal n = c # cs" using decimal_digits [of n] by (cases "decimal n") auto
  then have "is_digit c" using decimal_digits [of n] by simp
  then have "\<not> scan_space c" by (auto simp: is_digit_def scan_space_def word_le_nat_alt)
  then have "dropWhile scan_space (decimal n @ 0 # rest) = decimal n @ 0 # rest" using d by simp
  moreover have "takeWhile is_digit (decimal n @ 0 # rest) = decimal n"
    using while_split(1) [of "decimal n" is_digit 0 rest] decimal_digits [of n] by (simp add: list_all_iff is_digit_def)
  ultimately show ?thesis using decimal_digits [of n] by (simp add: sscanf_u_def)
qed

lemma mem_read_field:
  "mem_read m off n = s @ 0 # pad \<Longrightarrow> \<exists>rest. drop off m = s @ 0 # rest"
  unfolding mem_read_def by (metis append_Cons append_assoc append_take_drop_id)

lemma sscanf_field: "mem_read m off n = decimal k @ 0 # pad \<Longrightarrow> sscanf_u (drop off m) = Some (of_nat k)"
  by (metis mem_read_field sscanf_decimal)

text \<open>
  C28. The driver of the flash finds the root file system of an image that \<open>mkfirmware\<close> completed from another file: when the tag of the
  input gives the address and the length in decimal, each ended by a \<open>NUL\<close>, and the
  output is written at the start of the partition of the main firmware, the partition of the root
  file system begins at the address less the address of the flash and has the length of the tag.
\<close>

theorem firmware_rootfs_found:
  assumes "files inp = Some buf" "inp \<noteq> out" "TAG_LEN \<le> length buf"
    and "mem_read buf tag_rootfsAddress ADDRESS_LEN = decimal addr @ 0 # pad"
    and "mem_read buf tag_rootfsLen IMAGE_LEN = decimal n @ 0 # pad'"
    and "mkfirmware files True (inp # out # infra # rest) = Inr (st, Some img)"
    and "length pre = NEUFBOX_MAINFIRMWARE_OFFSET"
  shows "parse_cfe_partitions True junk (pre @ img @ post) neufbox4_mtd_parts =
    (0, neufbox4_mtd_parts[6 := \<lparr>p_name = ''rootfs'', p_offset = of_nat addr - EXTENDED_SIZE, p_size = of_nat n\<rparr>])"
proof -
  have len: "240 \<le> length buf" using assms(3) by (simp add: TAG_LEN_def)
  note props = complete_tag_props [where name = "strtoupper (basename out)" and infra = infra, OF len]
  from mkfirmware_result [where files = files, OF assms(1,2) len, of infra rest] assms(6)
  have img: "img = complete_tag (strtoupper (basename out)) infra buf" by auto
  let ?tag = "mem_read (pre @ img @ post) NEUFBOX_MAINFIRMWARE_OFFSET TAG_LEN"
  have tag: "?tag = take 256 img" "length ?tag = TAG_LEN"
    using assms(3,7) props(1) img by (simp_all add: mem_read_def TAG_LEN_def)
  have "mem_read ?tag 94 12 = decimal addr @ 0 # pad" "mem_read ?tag 106 10 = decimal n @ 0 # pad'"
    using assms(4,5) props(4) [of 94 12] props(4) [of 106 10] tag(1) img
    by (simp_all add: mem_read_def drop_take min_def tag_offset_values ADDRESS_LEN_def IMAGE_LEN_def)
  then have "sscanf_u (drop 94 ?tag) = Some (of_nat addr)" "sscanf_u (drop 106 ?tag) = Some (of_nat n)"
    by (simp_all add: sscanf_field)
  then show ?thesis
    using tag(2) by (simp add: parse_cfe_partitions_def tag_offset_values neufbox4_mtd_parts_def part_def Let_def)
qed

theorem firmware_rootfs_found_witness:
  "\<exists>st img. mkfirmware (\<lambda>_. Some example_image) True [lit ''in'', lit ''bin/nb4-main'', lit ''adsl''] = Inr (st, Some img) \<and>
    parse_cfe_partitions True 0 (replicate NEUFBOX_MAINFIRMWARE_OFFSET 0xff @ img @ []) neufbox4_mtd_parts =
      (0, neufbox4_mtd_parts[6 := \<lparr>p_name = ''rootfs'', p_offset = 0x10100, p_size = 0x400000\<rparr>])"
proof -
  have len: "TAG_LEN \<le> length example_image" by (simp add: example_image_def lit_def TAG_LEN_def)
  have a: "mem_read example_image tag_rootfsAddress ADDRESS_LEN = decimal 3217096960 @ 0 # [0]"
    by (simp add: example_image_def lit_def mem_read_def tag_offset_values ADDRESS_LEN_def decimal.simps)
  have l: "mem_read example_image tag_rootfsLen IMAGE_LEN = decimal 4194304 @ 0 # [0, 0]"
    by (simp add: example_image_def lit_def mem_read_def tag_offset_values IMAGE_LEN_def decimal.simps)
      (simp add: eval_nat_numeral)
  obtain st img where m: "mkfirmware (\<lambda>_. Some example_image) True [lit ''in'', lit ''bin/nb4-main'', lit ''adsl''] = Inr (st, Some img)"
    using mkfirmware_result [of "\<lambda>_. Some example_image" "lit ''in''" example_image "lit ''bin/nb4-main''" "lit ''adsl''" "[]"] len
    by (auto simp: TAG_LEN_def example_paths)
  from firmware_rootfs_found [OF refl example_paths len a l m, of "replicate NEUFBOX_MAINFIRMWARE_OFFSET 0xff" 0 "[]"] m show ?thesis
    by (auto simp: EXTENDED_SIZE_def)
qed

end
