(* ===== verification/Spec2Isabelle.thy ===== *)
theory Spec2Isabelle
  imports Kconfig_Props Kconfig_Sym_Props Kconfig_Choice_Props Kconfig_Set_Props Kconfig_String_Props
    Kconfig_Deps_Props Kconfig_Table Nvram_Cli Siit_Props Ring_Props Leds_Props Board_Props Firmware_Props
begin

text \<open>
  A verification of the programs that make up the own logic of the neufbox firmware 2.1.5: an
  OpenWrt tree with the drivers and tools of the box. Paths are relative to \<open>src/\<close>; \<open>T\<close> stands for
  \<open>openwrt/target/linux\<close>.

  \<^bold>\<open>The parts and how they interact.\<close> The build is configured by Kconfig
  (\<open>openwrt/scripts/config\<close>), whose dependency expressions decide which entries of the menu are
  shown and which values its symbols have. On the box, settings live in a flash partition that the \<open>nvram\<close> command and library
  read and commit (\<open>openwrt/package/nvram\<close>). Packets between IPv4 and IPv6 hosts pass the
  translator \<open>siit\<close> (\<open>openwrt/package/siit\<close>). Programs log to ring buffers, command the front panel
  through the LED driver, which drives pins of the processor and of a shift register, and read the
  events of the buttons from the event queue, into which the handlers of the board put them.

  \<^bold>\<open>Prelude.\<close> \<open>NB_Prelude\<close>: machine integers, byte memory, byte orders, C strings, the result
  type with \<open>rbind\<close> (the left value is the error that ends a computation), numbers of enumerations.

  \<^bold>\<open>Kconfig expressions\<close> (\<open>expr.c\<close>, \<open>expr.h\<close>, a part of \<open>menu.c\<close>). \<open>Kconfig_Expr\<close> has tristate
  values (a linear order), symbols, expressions, their value and the structural comparison;
  \<open>Kconfig_Transform\<close> the normal form and the rewriting for comparisons; \<open>Kconfig_Join\<close>,
  \<open>Kconfig_Slots\<close>, \<open>Kconfig_Dups\<close>, \<open>Kconfig_Elim\<close> and \<open>Kconfig_Dups2\<close> the elimination of duplicates. The C
  code rewrites a tree through two pointers into it; the model passes the tree and two positions
  in it. The recursions are total: every rewriting makes the tree smaller or moves
  down, which is the termination argument of the loop of \<open>expr_eliminate_dups\<close> too.
  \<open>Kconfig_Menu\<close> states what a pass over expressions promises as the locale \<open>expr_pass\<close>, interpreted
  for each pass, and composes them as \<open>menu_finalize\<close> does. \<open>Kconfig_Props\<close> shows that the
  passes keep the value of an expression, on tristate symbols where they do, on two-valued ones
  where a counterexample with the value \<open>m\<close> exists, and that a child of the menu is visible
  only with its parent.

  \<^bold>\<open>Kconfig symbols\<close> (\<open>symbol.c\<close>, \<open>lkc.h\<close>, the end of \<open>conf_parse\<close> in \<open>zconf.y\<close>). \<open>Kconfig_Symbol\<close> has the
  records of a symbol, a property and the state \<open>kconf\<close> (the objects, the hash table, the menu flags, a
  counter for fresh strings), the table operations and the reading and printing of numbers;
  \<open>Kconfig_Calc\<close> the evaluation and the operations that set values. In C the evaluation of a symbol
  calls itself through the expressions; the operations take the recursive call as an argument, and
  \<open>sym_calc_value\<close> ties the knot with a bound on the depth. \<open>sym_calc\<close> uses one more than the number of
  symbols that are not valid, which is enough because every activation marks its symbol first.
  A null or wrong pointer that is followed ends the computation with \<open>Bad_pointer\<close>.

  \<open>Kconfig_Frame\<close> is the specification: the value of a symbol as a function of the values of other symbols
  (\<open>solved\<close>). \<open>Kconfig_Total\<close> has the dependencies and what makes a table well formed. The locale
  \<open>calc_context\<close> of \<open>Kconfig_Ops\<close> is what one activation knows of the calls it makes; in
  it \<open>Kconfig_Visible\<close>, \<open>Kconfig_Choice\<close>, \<open>Kconfig_Value\<close>, \<open>Kconfig_Text\<close> and \<open>Kconfig_Body\<close> show that every
  operation computes its part of the specification and that the part stays true. \<open>Kconfig_Solve\<close> closes
  the induction, once for any table (it ends) and once for tables with a rank of dependencies (it solves
  the equations). \<open>Kconfig_Number\<close>: a number is read back as it was printed. \<open>Kconfig_Eval\<close>,
  \<open>Kconfig_Sym_Props\<close>, \<open>Kconfig_Choice_Props\<close>: sequences of evaluations, choices, ranges. \<open>Kconfig_Unique\<close>:
  the equations have one solution, so the order does not matter. \<open>Kconfig_Set\<close>, \<open>Kconfig_Set_Props\<close>,
  \<open>Kconfig_Set_String\<close> (which interprets \<open>calc_context\<close> at \<open>sym_calc\<close>), \<open>Kconfig_String_Props\<close>: a value
  that is set is found by the next evaluation. \<open>Kconfig_Deps\<close>, \<open>Kconfig_Deps_Inv\<close>, \<open>Kconfig_Deps_Props\<close>: the
  check for recursive dependencies is an exact test for cycles in the dependencies it follows, and
  what it does not follow. \<open>Kconfig_Table\<close>: the hash table as a map (locale \<open>intern_table\<close>).

  \<^bold>\<open>NVRAM\<close> (\<open>crc.c\<close>, \<open>nvram.c\<close>, \<open>cli.c\<close>). \<open>Nvram_Crc\<close>: the checksum, its table against the polynomial
  division, and that it detects a changed byte (locale \<open>byte_crc\<close> of \<open>Crc\<close>). \<open>Nvram_Store\<close>: the
  hash table as an implementation of the locale \<open>kv_store\<close>. \<open>Nvram_Image\<close>: reading and committing the
  image, in a mapping of at least the size of the image. \<open>Nvram_Roundtrip\<close>, \<open>Nvram_Props\<close>: what is committed is read back, with the
  exact condition under which it fits. \<open>Nvram_Cli\<close>: the command from its arguments to the flash, so that a
  value set and committed by one process is printed by another.

  \<^bold>\<open>SIIT\<close> (\<open>siit.c\<close>, \<open>siit.h\<close>). \<open>Siit_Packet\<close> has packet memory with bounds-checked accesses and the headers;
  \<open>Siit_V4\<close> and \<open>Siit_V6\<close> the two translations, ICMP and the packets that ICMP errors include;
  \<open>Siit_Xmit\<close> transmission and fragmentation with the allocation of buffers. A packet included in an
  ICMP error includes no other, so the nesting is two deep. The loop over extension headers ends
  because a signed overflow of its length is an error of the model, the loop over
  fragments because the data left gets shorter. The kernel's checksums, its allocator, the
  contents of uninitialised memory and the byte order of the machine are arguments. \<open>Siit_Trip\<close>,
  \<open>Siit_Deliver\<close>, \<open>Siit_Frag\<close>, \<open>Siit_Safe\<close> and \<open>Siit_Props\<close> show the round trip of a packet, the delivery of
  a fragmented one, that no buffer leaks and that memory accesses stay in their buffers, under conditions on the
  packet that the code does not check; for packets that break them the accesses that leave the
  buffers are shown.

  \<^bold>\<open>Log ring buffers\<close> (\<open>T/generic-2.6/files-2.6.21/drivers/char/neufbox-ring-buffer.c\<close>). \<open>Ring_Buffer\<close>,
  \<open>Ring_Props\<close>: with counters and sizes at their width, the device refines the last bytes of a
  log (locale \<open>tail_log\<close>); a reader that is overtaken reads past the buffer.

  \<^bold>\<open>LEDs\<close> (\<open>T/generic-2.6/files-2.6.21/drivers/leds/leds-neufbox.c\<close>, \<open>T/generic-2.6/files/drivers/gpio/nxp_74hc164.c\<close>).
  \<open>Leds\<close>, \<open>Leds_Driver\<close>, \<open>Leds_Panel\<close>, \<open>Leds_Props\<close>: commands that arrive while the timer
  function runs are arguments at the points between its atomic operations. An inductive predicate gives the
  reachable states, with the invariant of the mode and of the shift register; commands show at the
  pins, none is lost, modes restore what was shown.

  \<^bold>\<open>Buttons and events\<close> (\<open>board_neufbox4.c\<close>, \<open>board_neufbox4-gpio_poll.c\<close> under
  \<open>T/brcm63xx/files-2.6.21/arch/mips/bcm63xx/boards\<close>, and \<open>neufbox-eventqueue.c\<close> beside the ring buffers).
  \<open>Events\<close>: the event device on a byte queue of the kernel, whose operations are arguments with their
  documented behaviour (\<open>kfifo_spec\<close>); it is a bounded queue of events (locale \<open>bounded_fifo\<close>).
  \<open>Board\<close>: resources, identification, debouncing, handlers, and the inputs that drive them. The
  expiry of a timer and the run of its function are two steps, so that interrupts come between them.
  \<open>Board_Poll\<close>, \<open>Board_Inv\<close>, \<open>Board_Props\<close>: debouncing, the invariant of all reachable
  states, the absence of misuses of the kernel, the alternation and delivery of the events.

  \<^bold>\<open>Firmware images and flash\<close> (\<open>mkfirmware.c\<close>, \<open>neufbox4-flash.c\<close>, \<open>bcmTag.h\<close>, \<open>partition.h\<close>, all under
  \<open>T/brcm63xx\<close>). \<open>Crc\<close> has what the checksums share, the locale \<open>byte_crc\<close> and the division by a
  polynomial; \<open>Firmware\<close> the CRC32 and its table, the layout of the tag, the image tool and the
  partitions; \<open>Firmware_Props\<close> shows that a completed tag validates and a changed one does not, that the
  partitions tile the flash, and that the driver finds the root file system by the tag.

  \<^bold>\<open>Hypotheses on code outside the repository.\<close> The kernel's checksum functions keep the laws of
  the one's complement sum where a theorem needs them; its byte queue keeps \<open>kfifo_spec\<close>; an
  interrupt is not delivered while it is masked; a timer's function does not run before its time.
  Each theorem with such a hypothesis has a witness with a concrete function.

  \<^bold>\<open>Not modelled.\<close> Registration of devices and modules, system calls, printed text, the front ends
  and the generated parser of Kconfig: input and output without logic of their own. Drivers and
  kernel code of Broadcom, Marvell, OCF and YAFFS2, the netlink library, \<open>tinysrp\<close>, boot loaders and
  the package feeds: vendored or third-party. \<open>efixo\<close> has headers of closed libraries and shell
  scripts.

  \<^bold>\<open>Plan.\<close> Next are the tree of the menu and the file of a configuration (\<open>menu.c\<close>, \<open>confdata.c\<close>).
\<close>

end
